(* ===== verification/Ormpp_Prelude.thy ===== *)
theory Ormpp_Prelude
  imports Main "HOL-Library.Word" "HOL-Library.Sublist"
    "HOL-Library.List_Lexorder" "HOL-Library.Char_ord"
begin

text \<open>
  Shared vocabulary of the development: the byte and word types of the wire
  code, the operations of \<^verbatim>\<open>std::string\<close> the library calls (search, case
  folding, decimal printing and parsing), exceptions as values, an ordered
  \<^verbatim>\<open>std::set\<close> of strings as a sorted list, and the joining of names by commas
  that every SQL generator performs.  Nothing here is specific to one component.
\<close>

unbundle bit_operations_syntax

type_synonym byte = "8 word"
type_synonym u16 = "16 word"
type_synonym u32 = "32 word"
type_synonym u64 = "64 word"

named_theorems str_simps \<open>evaluation of the string helpers\<close>
named_theorems step_simps \<open>projections of state updates\<close>

section \<open>Exceptions as values\<close>

text \<open>
  \<^verbatim>\<open>std::runtime_error\<close> and \<^verbatim>\<open>std::invalid_argument\<close> carry their message, \<^verbatim>\<open>std::out_of_range\<close> is what the
  checked operations of \<^verbatim>\<open>std::string\<close> throw, and \<open>Io_error\<close> is the
  \<^verbatim>\<open>std::system_error\<close> of a socket operation.
\<close>

datatype exn = Runtime_error string | Invalid_argument string | Out_of_range | Io_error

type_synonym 'a result = "exn + 'a"

fun rbind :: "'a result \<Rightarrow> ('a \<Rightarrow> 'b result) \<Rightarrow> 'b result" where
  "rbind (Inl e) f = Inl e"
| "rbind (Inr x) f = f x"

lemma rbind_Inr_conv: "rbind r f = Inr y \<longleftrightarrow> (\<exists>x. r = Inr x \<and> f x = Inr y)"
  by (cases r) auto

lemma rbind_Inl_conv: "rbind r f = Inl e \<longleftrightarrow> r = Inl e \<or> (\<exists>x. r = Inr x \<and> f x = Inl e)"
  by (cases r) auto

section \<open>Characters\<close>

definition byte_of_char :: "char \<Rightarrow> byte" where
  "byte_of_char c = word_of_nat (of_char c)"

definition char_of_byte :: "byte \<Rightarrow> char" where
  "char_of_byte b = char_of (unat b)"

lemma char_of_byte_of_char [simp]: "char_of_byte (byte_of_char c) = c"
proof -
  have "(of_char c :: nat) < 256" using range_nat_of_char by auto
  then have "unat (word_of_nat (of_char c) :: byte) = of_char c"
    by (simp add: unat_of_nat)
  then show ?thesis by (simp add: char_of_byte_def byte_of_char_def)
qed

lemma byte_of_char_of_byte [simp]: "byte_of_char (char_of_byte b) = b"
proof -
  have "unat b < 256" using unsigned_less [of b, where ?'a = nat] by simp
  then show ?thesis
    by (simp add: char_of_byte_def byte_of_char_def of_char_of)
qed

lemma map_char_of_byte_of_char [simp]: "map char_of_byte (map byte_of_char s) = s"
  by (induction s) auto

lemma map_byte_of_char_of_byte [simp]: "map byte_of_char (map char_of_byte bs) = bs"
  by (induction bs) auto

text \<open>
  The classification functions of \<^verbatim>\<open><cctype>\<close> in the \<open>C\<close> locale.  A byte outside
  ASCII is in no class.
\<close>

definition isdigit_c :: "char \<Rightarrow> bool" where
  "isdigit_c c \<longleftrightarrow> 48 \<le> (of_char c :: nat) \<and> (of_char c :: nat) \<le> 57"

definition isupper_c :: "char \<Rightarrow> bool" where
  "isupper_c c \<longleftrightarrow> 65 \<le> (of_char c :: nat) \<and> (of_char c :: nat) \<le> 90"

definition islower_c :: "char \<Rightarrow> bool" where
  "islower_c c \<longleftrightarrow> 97 \<le> (of_char c :: nat) \<and> (of_char c :: nat) \<le> 122"

definition isalpha_c :: "char \<Rightarrow> bool" where
  "isalpha_c c \<longleftrightarrow> isupper_c c \<or> islower_c c"

definition isspace_c :: "char \<Rightarrow> bool" where
  "isspace_c c \<longleftrightarrow> (of_char c :: nat) = 32 \<or> 9 \<le> (of_char c :: nat) \<and> (of_char c :: nat) \<le> 13"

definition tolower_c :: "char \<Rightarrow> char" where
  "tolower_c c = (if isupper_c c then char_of ((of_char c :: nat) + 32) else c)"

lemmas char_class_defs = isdigit_c_def isupper_c_def islower_c_def isalpha_c_def isspace_c_def
  tolower_c_def

declare char_class_defs [str_simps]

section \<open>Searching in strings\<close>

text \<open>\<^verbatim>\<open>find\<close> of a substring; \<open>None\<close> is \<^verbatim>\<open>npos\<close>.\<close>

fun find_sub :: "string \<Rightarrow> string \<Rightarrow> nat option" where
  "find_sub pat [] = (if pat = [] then Some 0 else None)"
| "find_sub pat (c # cs) =
     (if prefix pat (c # cs) then Some 0 else map_option Suc (find_sub pat cs))"

text \<open>\<^verbatim>\<open>find_first_of\<close> of one character.\<close>

fun find_char :: "char \<Rightarrow> string \<Rightarrow> nat option" where
  "find_char q [] = None"
| "find_char q (c # cs) = (if c = q then Some 0 else map_option Suc (find_char q cs))"

text \<open>The part of a string after the last occurrence of a character, all of it when absent.\<close>

fun after_last :: "char \<Rightarrow> string \<Rightarrow> string" where
  "after_last q [] = []"
| "after_last q (c # cs) =
     (if q \<in> set cs then after_last q cs else if c = q then cs else c # cs)"

text \<open>\<^verbatim>\<open>substr(0, find(pat))\<close>: everything when the pattern does not occur.\<close>

definition before_sub :: "string \<Rightarrow> string \<Rightarrow> string" where
  "before_sub pat s = (case find_sub pat s of None \<Rightarrow> s | Some k \<Rightarrow> take k s)"

lemma find_char_None: "find_char q s = None \<longleftrightarrow> q \<notin> set s"
  by (induction s) auto

lemma find_char_Some:
  "find_char q s = Some k \<Longrightarrow> k < length s \<and> s ! k = q \<and> q \<notin> set (take k s)"
  by (induction s arbitrary: k) (auto split: if_splits)

lemma find_char_app: "q \<notin> set u \<Longrightarrow> find_char q (u @ q # v) = Some (length u)"
  by (induction u) auto

lemma after_last_no: "q \<notin> set s \<Longrightarrow> after_last q s = s"
  by (cases s) auto

lemma after_last_app: "q \<notin> set v \<Longrightarrow> after_last q (u @ q # v) = v"
  by (induction u) (auto simp: after_last_no)

lemma after_last_notin: "q \<notin> set (after_last q s)"
  by (induction s) auto

section \<open>Joining by commas\<close>

fun comma_sep :: "string list \<Rightarrow> string" where
  "comma_sep [] = []"
| "comma_sep [x] = x"
| "comma_sep (x # y # ys) = x @ '','' @ comma_sep (y # ys)"

text \<open>Appending \<open>x,\<close> for every item, as the loops of the generators do.\<close>

definition comma_terminated :: "string list \<Rightarrow> string" where
  "comma_terminated xs = concat (map (\<lambda>x. x @ '','') xs)"

lemma comma_terminated_simps [simp]:
  "comma_terminated [] = []"
  "comma_terminated (x # xs) = x @ '','' @ comma_terminated xs"
  by (simp_all add: comma_terminated_def)

lemma comma_terminated_app [simp]:
  "comma_terminated (xs @ ys) = comma_terminated xs @ comma_terminated ys"
  by (simp add: comma_terminated_def)

lemma comma_terminated_sep: "xs \<noteq> [] \<Longrightarrow> comma_terminated xs = comma_sep xs @ '',''"
  by (induction xs rule: comma_sep.induct) auto

text \<open>Dropping the last comma gives the joined list.\<close>

lemma butlast_comma_terminated: "xs \<noteq> [] \<Longrightarrow> butlast (comma_terminated xs) = comma_sep xs"
  by (simp add: comma_terminated_sep)

lemma butlast_app_comma_terminated:
  "xs \<noteq> [] \<Longrightarrow> butlast (u @ comma_terminated xs) = u @ comma_sep xs"
  by (simp add: comma_terminated_sep butlast_append)

lemma comma_terminated_Nil_iff [simp]: "comma_terminated xs = [] \<longleftrightarrow> xs = []"
  by (cases xs) auto

lemma set_comma_sep: "set (comma_sep xs) \<subseteq> insert (CHR '','') (\<Union> (set ` set xs))"
  by (induction xs rule: comma_sep.induct) auto

section \<open>Ordered sets of strings\<close>

text \<open>\<^verbatim>\<open>std::set<std::string>\<close>: iteration is in lexicographic byte order.\<close>

definition set_insert :: "string \<Rightarrow> string list \<Rightarrow> string list" where
  "set_insert x xs = (if x \<in> set xs then xs else insort x xs)"

lemma set_set_insert [simp]: "set (set_insert x xs) = insert x (set xs)"
  by (auto simp: set_insert_def set_insort_key)

lemma sorted_set_insert: "sorted xs \<Longrightarrow> sorted (set_insert x xs)"
  by (simp add: set_insert_def sorted_insort)

lemma distinct_set_insert: "distinct xs \<Longrightarrow> distinct (set_insert x xs)"
  by (simp add: set_insert_def distinct_insort)

definition set_inserts :: "string list \<Rightarrow> string list \<Rightarrow> string list" where
  "set_inserts ys xs = fold set_insert ys xs"

lemma set_set_inserts [simp]: "set (set_inserts ys xs) = set ys \<union> set xs"
  by (induction ys arbitrary: xs) (auto simp: set_inserts_def)

lemma set_inserts_sorted: "sorted xs \<Longrightarrow> sorted (set_inserts ys xs)"
  by (induction ys arbitrary: xs) (auto simp: set_inserts_def sorted_set_insert)

lemma set_inserts_distinct: "distinct xs \<Longrightarrow> distinct (set_inserts ys xs)"
  by (induction ys arbitrary: xs) (auto simp: set_inserts_def distinct_set_insert)

section \<open>Decimal numbers\<close>

definition digit_char :: "nat \<Rightarrow> char" where
  "digit_char d = char_of (48 + d)"

function nat_str :: "nat \<Rightarrow> string" where
  "nat_str n = (if n < 10 then [digit_char n] else nat_str (n div 10) @ [digit_char (n mod 10)])"
  by pat_completeness auto
termination
  by (relation "measure id") auto

declare nat_str.simps [simp del]

text \<open>\<^verbatim>\<open>std::to_string\<close> of an integral value.\<close>

definition int_str :: "int \<Rightarrow> string" where
  "int_str i = (if i < 0 then ''-'' @ nat_str (nat (- i)) else nat_str (nat i))"

lemma of_char_digit: "d < 10 \<Longrightarrow> (of_char (digit_char d) :: nat) = 48 + d"
  by (simp add: digit_char_def of_char_of)

lemma isdigit_digit: "d < 10 \<Longrightarrow> isdigit_c (digit_char d)"
  by (simp add: isdigit_c_def of_char_digit)

lemma nat_str_digits: "c \<in> set (nat_str n) \<Longrightarrow> isdigit_c c"
proof (induction n rule: nat_str.induct)
  case (1 n)
  show ?case
  proof (cases "n < 10")
    case True
    with 1(2) show ?thesis by (simp add: nat_str.simps [of n] isdigit_digit)
  next
    case False
    with 1 show ?thesis by (auto simp: nat_str.simps [of n] isdigit_digit)
  qed
qed

lemma nat_str_nonempty [simp]: "nat_str n \<noteq> []"
  by (subst nat_str.simps) simp

text \<open>Reading a decimal back, as \<^verbatim>\<open>std::from_chars\<close> does on a string of digits.\<close>

definition digit_val :: "char \<Rightarrow> nat" where
  "digit_val c = of_char c - 48"

definition parse_digits :: "string \<Rightarrow> nat" where
  "parse_digits s = foldl (\<lambda>n c. 10 * n + digit_val c) 0 s"

lemma digit_val_digit: "d < 10 \<Longrightarrow> digit_val (digit_char d) = d"
  by (simp add: digit_val_def of_char_digit)

lemma parse_digits_nat_str [simp]: "parse_digits (nat_str n) = n"
proof (induction n rule: nat_str.induct)
  case (1 n)
  show ?case
  proof (cases "n < 10")
    case True
    then show ?thesis by (simp add: nat_str.simps [of n] parse_digits_def digit_val_digit)
  next
    case False
    with 1 have "parse_digits (nat_str (n div 10)) = n div 10" by simp
    with False show ?thesis
      by (simp add: nat_str.simps [of n] parse_digits_def digit_val_digit)
  qed
qed

lemma nat_str_inject: "nat_str m = nat_str n \<longleftrightarrow> m = n"
  by (metis parse_digits_nat_str)

lemma nondigit_notin_nat_str: "\<not> isdigit_c c \<Longrightarrow> c \<notin> set (nat_str n)"
  using nat_str_digits by blast

lemma int_str_chars: "c \<in> set (int_str i) \<Longrightarrow> isdigit_c c \<or> c = CHR ''-''"
  by (auto simp: int_str_def dest: nat_str_digits split: if_splits)

lemma int_str_nonempty [simp]: "int_str i \<noteq> []"
  by (simp add: int_str_def)

lemma sint_is_unat: "unat (w :: 32 word) < 2147483648 \<Longrightarrow> sint w = int (unat w)"
proof -
  assume a: "unat w < 2147483648"
  have g: "n < 2147483648 \<Longrightarrow> signed_take_bit 31 (int n) = int n" for n
    by (rule signed_take_bit_int_eq_self) simp_all
  have "sint w = signed_take_bit (LENGTH(32) - Suc 0) (uint w)" by (rule sint_uint)
  also have "LENGTH(32) - Suc 0 = 31" by simp
  also have "uint w = int (unat w)" by simp
  finally show ?thesis unfolding g [OF a] .
qed

end
