(* ===== verification/Reflection.thy ===== *)
theory Reflection
  imports Ormpp_Prelude
begin

text \<open>
  What the library knows about a reflected struct, and the registries of
  \<^verbatim>\<open>ormpp/utility.hpp\<close>.  The compile-time reflection itself (\<^verbatim>\<open>ylt::reflection\<close>) is
  the data of a \<open>struct_meta\<close>: the name \<^verbatim>\<open>get_struct_name<T>()\<close> returns (with its
  namespace, \<^verbatim>\<open>ns::person\<close>) and the members in declaration order.  The function-local
  static maps and caches are the fields of a \<open>registry\<close> that every operation takes and,
  where it writes, returns.
\<close>

section \<open>Databases, fields and structs\<close>

datatype db_type = MySQL | SQLite | PostgreSQL | UnknownDB

datatype opt_type = OptInsert | OptUpdate | OptReplace

text \<open>
  The member types for which \<^verbatim>\<open>type_to_name\<close> has an overload, and the two wrappers
  \<^verbatim>\<open>get_type_names\<close> unwraps itself: enums and \<^verbatim>\<open>std::optional\<close> of a mapped type.
\<close>

datatype scalar_type =
    TBool | TChar | TShort | TInt | TFloat | TDouble | TInt8 | TInt64
  | TUint8 | TUint16 | TUint32 | TUint64 | TBlob | TString | TStringView | TCharArray nat

datatype field_type = Plain scalar_type | Optional scalar_type | Enum

record field_meta =
  f_name :: string
  f_type :: field_type

record struct_meta =
  s_name :: string
  s_fields :: "field_meta list"

definition member_names :: "struct_meta \<Rightarrow> string list" where
  "member_names T = map f_name (s_fields T)"

lemma length_member_names [simp]: "length (member_names T) = length (s_fields T)"
  by (simp add: member_names_def)

text \<open>The table name: the struct name after its last colon.\<close>

definition get_short_struct_name :: "struct_meta \<Rightarrow> string" where
  "get_short_struct_name T = after_last (CHR '':'') (s_name T)"

lemma short_name_no_colon [simp]: "CHR '':'' \<notin> set (get_short_struct_name T)"
  by (simp add: get_short_struct_name_def after_last_notin)

lemma short_name_plain: "CHR '':'' \<notin> set (s_name T) \<Longrightarrow> get_short_struct_name T = s_name T"
  by (simp add: get_short_struct_name_def after_last_no)

section \<open>The key registries\<close>

text \<open>
  \<open>key_cache\<close> holds the static vectors of \<^verbatim>\<open>get_conflict_keys<T>\<close>, one per struct and per
  quoting style (the flag says MySQL).
\<close>

record registry =
  auto_key_map :: "string \<Rightarrow> string option"
  conflict_map :: "string \<Rightarrow> string option"
  key_cache :: "string \<times> bool \<Rightarrow> string list"

definition empty_registry :: registry where
  "empty_registry =
     \<lparr>auto_key_map = Map.empty, conflict_map = Map.empty, key_cache = (\<lambda>_. [])\<rparr>"

text \<open>\<^verbatim>\<open>unordered_map::emplace\<close> keeps an entry that is already there.\<close>

definition emplace :: "(string \<Rightarrow> string option) \<Rightarrow> string \<Rightarrow> string \<Rightarrow> (string \<Rightarrow> string option)" where
  "emplace m k v = (case m k of None \<Rightarrow> m(k \<mapsto> v) | Some _ \<Rightarrow> m)"

definition add_auto_key_field :: "registry \<Rightarrow> string \<Rightarrow> string \<Rightarrow> registry" where
  "add_auto_key_field r key v = r\<lparr>auto_key_map := emplace (auto_key_map r) key v\<rparr>"

definition get_auto_key :: "registry \<Rightarrow> struct_meta \<Rightarrow> string" where
  "get_auto_key r T =
     (case auto_key_map r (get_short_struct_name T) of None \<Rightarrow> [] | Some v \<Rightarrow> v)"

definition is_auto_key :: "registry \<Rightarrow> struct_meta \<Rightarrow> string \<Rightarrow> bool" where
  "is_auto_key r T field_name =
     (case auto_key_map r (get_short_struct_name T) of None \<Rightarrow> False | Some v \<Rightarrow> v = field_name)"

text \<open>\<^verbatim>\<open>REGISTER_AUTO_KEY\<close>: the key is the full struct name.\<close>

definition register_auto_key :: "registry \<Rightarrow> struct_meta \<Rightarrow> string \<Rightarrow> registry" where
  "register_auto_key r T field = add_auto_key_field r (s_name T) field"

definition add_conflict_key_field :: "registry \<Rightarrow> string \<Rightarrow> string \<Rightarrow> registry" where
  "add_conflict_key_field r key v = r\<lparr>conflict_map := emplace (conflict_map r) key v\<rparr>"

text \<open>\<^verbatim>\<open>REGISTER_CONFLICT_KEY\<close>: the argument is the text of the macro arguments.\<close>

definition register_conflict_key :: "registry \<Rightarrow> struct_meta \<Rightarrow> string \<Rightarrow> registry" where
  "register_conflict_key r T args = add_conflict_key_field r (s_name T) args"

definition get_conflict_key :: "registry \<Rightarrow> struct_meta \<Rightarrow> string" where
  "get_conflict_key r T =
     (case conflict_map r (s_name T) of
        None \<Rightarrow> (case auto_key_map r (s_name T) of None \<Rightarrow> [] | Some v \<Rightarrow> v)
      | Some v \<Rightarrow> v)"

section \<open>Splitting a key list\<close>

text \<open>
  \<^verbatim>\<open>split\<close> walks the text once.  \<open>start\<close> counts the identifier characters since the last
  separator; a space is skipped without resetting it; any other character cuts a key of
  that length right before it.
\<close>

definition is_key_char :: "char \<Rightarrow> bool" where
  "is_key_char c \<longleftrightarrow> isalpha_c c \<or> isdigit_c c \<or> c = CHR ''_''"

fun split_go :: "string \<Rightarrow> nat \<Rightarrow> nat \<Rightarrow> string \<Rightarrow> string list \<Rightarrow> string list \<times> nat" where
  "split_go str i start [] v = (v, start)"
| "split_go str i start (c # cs) v =
     (if c = CHR '' '' then split_go str (Suc i) start cs v
      else if is_key_char c then split_go str (Suc i) (Suc start) cs v
      else split_go str (Suc i) 0 cs (v @ [take start (drop (i - start) str)]))"

definition split :: "string \<Rightarrow> string list" where
  "split str =
     (if str = [] then []
      else let (v, start) = split_go str 0 0 str []
           in if start \<noteq> 0 then v @ [take start (drop (length str - start) str)] else v)"

text \<open>
  A key list as the macro produces it: identifiers separated by commas, each preceded by
  any number of spaces.
\<close>

fun key_text :: "(nat \<times> string) list \<Rightarrow> string" where
  "key_text [] = []"
| "key_text [(k, x)] = replicate k (CHR '' '') @ x"
| "key_text ((k, x) # y # ys) = replicate k (CHR '' '') @ x @ CHR '','' # key_text (y # ys)"

definition key_ident :: "string \<Rightarrow> bool" where
  "key_ident x \<longleftrightarrow> x \<noteq> [] \<and> list_all is_key_char x"

lemma space_not_key: "\<not> is_key_char (CHR '' '')"
  by (simp add: is_key_char_def char_class_defs)

lemma comma_not_key: "\<not> is_key_char (CHR '','')"
  by (simp add: is_key_char_def char_class_defs)

lemma split_go_spaces:
  "split_go str i start (replicate k (CHR '' '') @ cs) v = split_go str (i + k) start cs v"
  by (induction k arbitrary: i) auto

lemma split_go_ident:
  "list_all is_key_char x \<Longrightarrow>
   split_go str i start (x @ cs) v = split_go str (i + length x) (start + length x) cs v"
proof (induction x arbitrary: i start)
  case Nil
  then show ?case by simp
next
  case (Cons c x)
  then have "c \<noteq> CHR '' ''" using space_not_key by auto
  with Cons show ?case by simp
qed

lemma split_go_key_text:
  assumes "list_all (\<lambda>p. key_ident (snd p)) ps" "ps \<noteq> []"
  shows "split_go (pre @ key_text ps) (length pre) 0 (key_text ps) v
         = (v @ map snd (butlast ps), length (snd (last ps)))"
  using assms
proof (induction ps arbitrary: pre v rule: key_text.induct)
  case 1
  then show ?case by simp
next
  case (2 k x)
  then have "list_all is_key_char x" by (simp add: key_ident_def)
  then show ?case
    using split_go_ident [of x _ "length pre + k" 0 "[]"]
    by (simp add: split_go_spaces)
next
  case (3 k x y ys)
  let ?rest = "key_text (y # ys)"
  let ?pre = "pre @ replicate k (CHR '' '') @ x @ [CHR '','']"
  from 3(2) have x: "list_all is_key_char x" by (simp add: key_ident_def)
  have str: "pre @ key_text ((k, x) # y # ys) = ?pre @ ?rest" by simp
  have "split_go (?pre @ ?rest) (length pre) 0 (key_text ((k, x) # y # ys)) v
        = split_go (?pre @ ?rest) (length ?pre) 0 ?rest (v @ [x])"
    using comma_not_key
    by (simp add: split_go_spaces split_go_ident [OF x] add.assoc)
  also have "\<dots> = (v @ [x] @ map snd (butlast (y # ys)), length (snd (last (y # ys))))"
    using 3(1) [of ?pre "v @ [x]"] 3(2) by simp
  finally show ?case unfolding str by simp
qed

lemma key_text_last:
  "ps \<noteq> [] \<Longrightarrow> \<exists>u. key_text ps = u @ snd (last ps)"
proof (induction ps rule: key_text.induct)
  case (3 k x y ys)
  then obtain u where "key_text (y # ys) = u @ snd (last (y # ys))" by auto
  then show ?case
    by (intro exI [of _ "replicate k (CHR '' '') @ x @ CHR '','' # u"]) simp
qed auto

text \<open>
  The claim of the component: \<^verbatim>\<open>split\<close> recovers exactly the registered key names.
\<close>

lemma split_key_text:
  assumes "list_all (\<lambda>p. key_ident (snd p)) ps"
  shows "split (key_text ps) = map snd ps"
proof (cases "ps = []")
  case True
  then show ?thesis by (simp add: split_def)
next
  case False
  from key_text_last [OF False] obtain u where u: "key_text ps = u @ snd (last ps)" by blast
  have ne: "snd (last ps) \<noteq> []"
    using assms False by (metis key_ident_def last_in_set list_all_iff)
  then have "key_text ps \<noteq> []" using u by simp
  moreover have "split_go (key_text ps) 0 0 (key_text ps) []
      = (map snd (butlast ps), length (snd (last ps)))"
    using split_go_key_text [OF assms False, of "[]" "[]"] by simp
  moreover have "map snd (butlast ps) @ [snd (last ps)] = map snd ps"
    using False by (metis append_butlast_last_id list.simps(8) list.simps(9) map_append)
  ultimately show ?thesis
    using ne u by (simp add: split_def)
qed

section \<open>Conflict keys and field lists\<close>

definition quote_key :: "db_type \<Rightarrow> string \<Rightarrow> string" where
  "quote_key db k = (if db = MySQL then ''`'' @ k @ ''`'' else k)"

definition get_conflict_keys :: "registry \<Rightarrow> struct_meta \<Rightarrow> db_type \<Rightarrow> string list \<times> registry" where
  "get_conflict_keys r T db =
     (let slot = (s_name T, db = MySQL); res = key_cache r slot in
      if res \<noteq> [] then (res, r)
      else let v = split (get_conflict_key r T) in
           if v = [] then ([], r)
           else let res' = map (quote_key db) v
                in (res', r\<lparr>key_cache := (key_cache r)(slot := res')\<rparr>))"

definition is_conflict_key :: "registry \<Rightarrow> struct_meta \<Rightarrow> string \<Rightarrow> db_type \<Rightarrow> bool" where
  "is_conflict_key r T field_name db \<longleftrightarrow> field_name \<in> set (fst (get_conflict_keys r T db))"

text \<open>The quoted name \<^verbatim>\<open>get_struct_name<T>(db_type)\<close> gives (the full name, not the short one).\<close>

definition get_struct_name :: "struct_meta \<Rightarrow> db_type \<Rightarrow> string" where
  "get_struct_name T db =
     (if db = PostgreSQL then CHR 0x22 # s_name T @ [CHR 0x22] else ''`'' @ s_name T @ ''`'')"

text \<open>
  \<^verbatim>\<open>get_fields\<close>: every name followed by a comma, the last comma overwritten by a space.
  The \<^verbatim>\<open>once_flag\<close> caches are of a value that never changes.
\<close>

definition get_fields :: "struct_meta \<Rightarrow> db_type \<Rightarrow> string" where
  "get_fields T db =
     (let fields = comma_terminated (map (quote_key db) (member_names T))
      in if fields = [] then [] else butlast fields @ '' '')"

lemma get_fields_eq:
  "s_fields T \<noteq> [] \<Longrightarrow> get_fields T db = comma_sep (map (quote_key db) (member_names T)) @ '' ''"
  by (simp add: get_fields_def Let_def member_names_def butlast_comma_terminated)

lemma emplace_new: "m k = None \<Longrightarrow> emplace m k v = m(k \<mapsto> v)"
  by (simp add: emplace_def)

lemma emplace_old: "m k = Some w \<Longrightarrow> emplace m k v = m"
  by (simp add: emplace_def)

lemma emplace_other: "k' \<noteq> k \<Longrightarrow> emplace m k v k' = m k'"
  by (simp add: emplace_def split: option.splits)

lemma get_conflict_keys_hit:
  "key_cache r (s_name T, db = MySQL) \<noteq> [] \<Longrightarrow>
   get_conflict_keys r T db = (key_cache r (s_name T, db = MySQL), r)"
  by (simp add: get_conflict_keys_def Let_def)

lemma get_conflict_keys_miss:
  "key_cache r (s_name T, db = MySQL) = [] \<Longrightarrow>
   fst (get_conflict_keys r T db) = map (quote_key db) (split (get_conflict_key r T))"
  by (auto simp: get_conflict_keys_def Let_def)

lemma register_conflict_key_lookup:
  "conflict_map r (s_name T) = None \<Longrightarrow>
   get_conflict_key (register_conflict_key r T args) T = args"
  by (simp add: register_conflict_key_def add_conflict_key_field_def get_conflict_key_def
      emplace_new)

lemma register_conflict_key_cache [simp]:
  "key_cache (register_conflict_key r T args) = key_cache r"
  by (simp add: register_conflict_key_def add_conflict_key_field_def)

section \<open>Properties\<close>

text \<open>a struct registered with \<^verbatim>\<open>REGISTER_CONFLICT_KEY(S, a, b, ...)\<close> before its keys are
  first asked for has exactly the keys \<^verbatim>\<open>a, b, ...\<close>, in order, quoted for the database;
  spaces after the commas do not matter.\<close>

theorem registered_conflict_keys:
  assumes "list_all (\<lambda>p. key_ident (snd p)) ps"
    and "conflict_map r (s_name T) = None" and "key_cache r (s_name T, db = MySQL) = []"
  shows "fst (get_conflict_keys (register_conflict_key r T (key_text ps)) T db)
         = map (quote_key db \<circ> snd) ps"
  using assms by (simp add: get_conflict_keys_miss register_conflict_key_lookup split_key_text)

theorem registered_conflict_keys_witness:
  "fst (get_conflict_keys
     (register_conflict_key empty_registry \<lparr>s_name = ''msg'', s_fields = []\<rparr> ''room_id, user_id'')
     \<lparr>s_name = ''msg'', s_fields = []\<rparr> MySQL) = [''`room_id`'', ''`user_id`'']"
proof -
  let ?ps = "[(0, ''room_id''), (1, ''user_id'')] :: (nat \<times> string) list"
  have "list_all (\<lambda>p. key_ident (snd p)) ?ps"
    by (simp add: key_ident_def is_key_char_def char_class_defs)
  from registered_conflict_keys [OF this, of empty_registry "\<lparr>s_name = ''msg'', s_fields = []\<rparr>" MySQL]
  show ?thesis by (simp add: empty_registry_def quote_key_def)
qed

text \<open>once the keys of a struct have been computed (a non-empty list), every later call
  returns the same keys whatever is registered in between: the static cache is never
  invalidated, and asking twice is the same as asking once.\<close>

theorem conflict_keys_stable:
  assumes "get_conflict_keys r T db = (ks, r')" and "ks \<noteq> []"
  shows "get_conflict_keys (register_conflict_key r' U args) T db = (ks, register_conflict_key r' U args)
       \<and> get_conflict_keys r' T db = (ks, r')"
proof -
  have "key_cache r' (s_name T, db = MySQL) = ks"
    using assms by (auto simp: get_conflict_keys_def Let_def split: if_splits)
  with assms(2) show ?thesis by (simp add: get_conflict_keys_hit)
qed

theorem conflict_keys_stable_witness:
  "let T = \<lparr>s_name = ''person'', s_fields = []\<rparr>;
       r = register_auto_key empty_registry T ''id'';
       r' = snd (get_conflict_keys r T SQLite)
   in fst (get_conflict_keys (register_conflict_key r' T ''name'') T SQLite) = [''id'']"
proof -
  let ?T = "\<lparr>s_name = ''person'', s_fields = []\<rparr> :: struct_meta"
  let ?r = "register_auto_key empty_registry ?T ''id''"
  have sp: "split ''id'' = [''id'']"
    by (simp add: split_def is_key_char_def char_class_defs)
  have "get_conflict_keys ?r ?T SQLite
        = ([''id''], ?r\<lparr>key_cache := (key_cache ?r)((''person'', False) := [''id''])\<rparr>)"
    by (simp add: get_conflict_keys_def register_auto_key_def add_auto_key_field_def sp
        empty_registry_def emplace_def get_conflict_key_def quote_key_def Let_def)
  from conflict_keys_stable [OF this, of ?T "''name''"] this
  show ?thesis by (simp add: Let_def)
qed

text \<open>for a struct in a namespace, \<^verbatim>\<open>REGISTER_AUTO_KEY\<close> stores the key under the qualified
  name, while \<^verbatim>\<open>get_auto_key\<close> and \<^verbatim>\<open>is_auto_key\<close> look under the short name: no field is ever
  seen as the auto key.  \<^verbatim>\<open>get_conflict_key\<close>, which looks under the full name, does find it.\<close>

theorem namespaced_auto_key_not_found:
  assumes "CHR '':'' \<in> set (s_name T)" and "auto_key_map r (get_short_struct_name T) = None"
    and "conflict_map r (s_name T) = None" and "auto_key_map r (s_name T) = None"
  shows "get_auto_key (register_auto_key r T key) T = []
       \<and> \<not> is_auto_key (register_auto_key r T key) T f
       \<and> get_conflict_key (register_auto_key r T key) T = key"
proof -
  have ne: "get_short_struct_name T \<noteq> s_name T"
    using assms(1) short_name_no_colon [of T] by metis
  then have "auto_key_map (register_auto_key r T key) (get_short_struct_name T) = None"
    using assms(2) by (simp add: register_auto_key_def add_auto_key_field_def emplace_other)
  then show ?thesis
    using assms(3,4)
    by (simp add: get_auto_key_def is_auto_key_def get_conflict_key_def register_auto_key_def
        add_auto_key_field_def emplace_new)
qed

theorem namespaced_auto_key_not_found_witness:
  "let T = \<lparr>s_name = ''ns::person'', s_fields = []\<rparr>
   in get_auto_key (register_auto_key empty_registry T ''id'') T = []
    \<and> \<not> is_auto_key (register_auto_key empty_registry T ''id'') T ''id''
    \<and> get_conflict_key (register_auto_key empty_registry T ''id'') T = ''id''"
  unfolding Let_def
  by (rule namespaced_auto_key_not_found) (simp_all add: empty_registry_def)

text \<open>a key list with a space before a comma is cut one character late: the text
  \<^verbatim>\<open>id ,name\<close> gives the keys \<^verbatim>\<open>"d "\<close> and \<^verbatim>\<open>"name"\<close> instead of \<^verbatim>\<open>"id"\<close> and \<^verbatim>\<open>"name"\<close>.\<close>

theorem split_space_before_comma: "split ''id ,name'' = [''d '', ''name'']"
  by (simp add: split_def is_key_char_def char_class_defs)

end
