(* ===== verification/Type_Mapping.thy ===== *)
theory Type_Mapping
  imports Reflection
begin

text \<open>
  \<^verbatim>\<open>ormpp/type_mapping.hpp\<close>: the SQL column type of every member type, one function per
  database, and \<^verbatim>\<open>get_type_names\<close> of \<^verbatim>\<open>utility.hpp\<close> that maps a struct.
\<close>

section \<open>Column types\<close>

fun mysql_type_to_name :: "scalar_type \<Rightarrow> string" where
  "mysql_type_to_name TBool = ''BOOLEAN''"
| "mysql_type_to_name TChar = ''TINYINT''"
| "mysql_type_to_name TShort = ''SMALLINT''"
| "mysql_type_to_name TInt = ''INTEGER''"
| "mysql_type_to_name TFloat = ''FLOAT''"
| "mysql_type_to_name TDouble = ''DOUBLE''"
| "mysql_type_to_name TInt8 = ''TINYINT''"
| "mysql_type_to_name TInt64 = ''BIGINT''"
| "mysql_type_to_name TUint8 = ''SMALLINT''"
| "mysql_type_to_name TUint16 = ''INTEGER''"
| "mysql_type_to_name TUint32 = ''BIGINT''"
| "mysql_type_to_name TUint64 = ''BIGINT UNSIGNED''"
| "mysql_type_to_name TBlob = ''BLOB''"
| "mysql_type_to_name TString = ''TEXT''"
| "mysql_type_to_name TStringView = ''TEXT''"
| "mysql_type_to_name (TCharArray n) = ''varchar('' @ nat_str n @ '')''"

fun sqlite_type_to_name :: "scalar_type \<Rightarrow> string" where
  "sqlite_type_to_name TFloat = ''FLOAT''"
| "sqlite_type_to_name TDouble = ''DOUBLE''"
| "sqlite_type_to_name TBool = ''INTEGER''"
| "sqlite_type_to_name TChar = ''INTEGER''"
| "sqlite_type_to_name TShort = ''INTEGER''"
| "sqlite_type_to_name TInt = ''INTEGER''"
| "sqlite_type_to_name TInt8 = ''INTEGER''"
| "sqlite_type_to_name TInt64 = ''INTEGER''"
| "sqlite_type_to_name TUint8 = ''INTEGER''"
| "sqlite_type_to_name TUint16 = ''INTEGER''"
| "sqlite_type_to_name TUint32 = ''INTEGER''"
| "sqlite_type_to_name TUint64 = ''INTEGER''"
| "sqlite_type_to_name TBlob = ''BLOB''"
| "sqlite_type_to_name TString = ''TEXT''"
| "sqlite_type_to_name TStringView = ''TEXT''"
| "sqlite_type_to_name (TCharArray n) = ''varchar('' @ nat_str n @ '')''"

fun postgresql_type_to_name :: "scalar_type \<Rightarrow> string" where
  "postgresql_type_to_name TBool = ''integer''"
| "postgresql_type_to_name TChar = ''char''"
| "postgresql_type_to_name TShort = ''smallint''"
| "postgresql_type_to_name TInt = ''integer''"
| "postgresql_type_to_name TFloat = ''real''"
| "postgresql_type_to_name TDouble = ''double precision''"
| "postgresql_type_to_name TInt8 = ''char''"
| "postgresql_type_to_name TInt64 = ''bigint''"
| "postgresql_type_to_name TUint8 = ''smallint''"
| "postgresql_type_to_name TUint16 = ''integer''"
| "postgresql_type_to_name TUint32 = ''bigint''"
| "postgresql_type_to_name TUint64 = ''bigint''"
| "postgresql_type_to_name TBlob = ''bytea''"
| "postgresql_type_to_name TString = ''text''"
| "postgresql_type_to_name TStringView = ''text''"
| "postgresql_type_to_name (TCharArray n) = ''varchar('' @ nat_str n @ '')''"

section \<open>The column types of a struct\<close>

text \<open>The branch of \<^verbatim>\<open>get_type_names\<close> for one member.\<close>

fun type_name :: "db_type \<Rightarrow> field_type \<Rightarrow> string" where
  "type_name UnknownDB t = []"
| "type_name MySQL Enum = ''INTEGER''"
| "type_name MySQL (Optional s) = mysql_type_to_name s"
| "type_name MySQL (Plain s) = mysql_type_to_name s"
| "type_name SQLite Enum = ''INTEGER''"
| "type_name SQLite (Optional s) = sqlite_type_to_name s"
| "type_name SQLite (Plain s) = sqlite_type_to_name s"
| "type_name PostgreSQL Enum = ''integer''"
| "type_name PostgreSQL (Optional s) = postgresql_type_to_name s"
| "type_name PostgreSQL (Plain s) = postgresql_type_to_name s"

definition get_type_names :: "struct_meta \<Rightarrow> db_type \<Rightarrow> string list" where
  "get_type_names T db = map (\<lambda>f. type_name db (f_type f)) (s_fields T)"

lemma length_get_type_names [simp]: "length (get_type_names T db) = length (s_fields T)"
  by (simp add: get_type_names_def)

section \<open>Integer ranges\<close>

text \<open>
  The values a C++ integer member can hold, and the values the documentation of each
  database gives for a column type.  SQLite stores every \<^verbatim>\<open>INTEGER\<close> as a signed 64-bit
  number; PostgreSQL and MySQL reject or clip what is outside the range of the column.
\<close>

fun cpp_range :: "scalar_type \<Rightarrow> (int \<times> int) option" where
  "cpp_range TBool = Some (0, 1)"
| "cpp_range TChar = Some (-128, 127)"
| "cpp_range TInt8 = Some (-128, 127)"
| "cpp_range TShort = Some (-32768, 32767)"
| "cpp_range TInt = Some (- (2 ^ 31), 2 ^ 31 - 1)"
| "cpp_range TInt64 = Some (- (2 ^ 63), 2 ^ 63 - 1)"
| "cpp_range TUint8 = Some (0, 255)"
| "cpp_range TUint16 = Some (0, 65535)"
| "cpp_range TUint32 = Some (0, 2 ^ 32 - 1)"
| "cpp_range TUint64 = Some (0, 2 ^ 64 - 1)"
| "cpp_range _ = None"

definition column_ranges :: "(string \<times> int \<times> int) list" where
  "column_ranges =
     [(''BOOLEAN'', -128, 127), (''TINYINT'', -128, 127), (''SMALLINT'', -32768, 32767),
      (''INTEGER'', - (2 ^ 31), 2 ^ 31 - 1), (''BIGINT'', - (2 ^ 63), 2 ^ 63 - 1),
      (''BIGINT UNSIGNED'', 0, 2 ^ 64 - 1),
      (''smallint'', -32768, 32767), (''integer'', - (2 ^ 31), 2 ^ 31 - 1),
      (''bigint'', - (2 ^ 63), 2 ^ 63 - 1)]"

definition column_holds :: "string \<Rightarrow> scalar_type \<Rightarrow> bool" where
  "column_holds col s =
     (case cpp_range s of None \<Rightarrow> True
      | Some (lo, hi) \<Rightarrow>
          (case map_of column_ranges col of None \<Rightarrow> False
           | Some (clo, chi) \<Rightarrow> clo \<le> lo \<and> hi \<le> chi))"

lemmas column_simps = column_holds_def column_ranges_def

section \<open>Properties\<close>

text \<open>every integer member fits the MySQL column its type is mapped to: no value of the
  C++ type is outside the range of the column type.\<close>

theorem mysql_columns_hold_members: "column_holds (mysql_type_to_name s) s"
  by (cases s) (simp_all add: column_simps)

text \<open>for PostgreSQL the mapping loses values for exactly one integer type that has a
  numeric column: \<^verbatim>\<open>uint64_t\<close> is mapped to the signed \<^verbatim>\<open>bigint\<close> (the one-byte types are mapped to
  the text type \<^verbatim>\<open>char\<close>).\<close>

theorem postgresql_columns_hold_members:
  "column_holds (postgresql_type_to_name s) s \<longleftrightarrow> s \<notin> {TUint64, TChar, TInt8}"
  by (cases s) (simp_all add: column_simps)

text \<open>an optional member is mapped to the column type of its value, for every database:
  nullability is not part of the column type.\<close>

theorem optional_column_type: "type_name db (Optional s) = type_name db (Plain s)"
  by (cases db) simp_all

end
