(* ===== verification/Sql_Literals.thy ===== *)
theory Sql_Literals
  imports Ormpp_Prelude
begin

text \<open>
  Writing values into SQL text: \<^verbatim>\<open>escape_sql_string\<close>, \<^verbatim>\<open>to_str\<close>, \<^verbatim>\<open>get_str\<close> and \<^verbatim>\<open>get_sql\<close> of
  \<^verbatim>\<open>ormpp/utility.hpp\<close> and \<^verbatim>\<open>escape_identifier\<close>, \<^verbatim>\<open>escape_mysql_string\<close> and \<^verbatim>\<open>blob_to_hex\<close> of
  \<^verbatim>\<open>ormpp/mysql_async.hpp\<close>.  The specification is the reader's side: how a database reads a
  quoted literal, in the standard syntax (a quote is doubled) and in the MySQL syntax
  (a backslash escapes), so that correctness is "what was written is read back, and reading
  stops exactly at the end of it".
\<close>

abbreviation quote_char :: char where "quote_char \<equiv> CHR 0x27"
abbreviation backslash :: char where "backslash \<equiv> CHR 0x5C"
abbreviation backtick :: char where "backtick \<equiv> CHR 0x60"
abbreviation dquote :: char where "dquote \<equiv> CHR 0x22"

section \<open>The reader's side\<close>

text \<open>
  Reading the rest of a literal delimited by \<open>q\<close>, after its opening delimiter: the content
  and the text behind the closing delimiter, or \<open>None\<close> when the literal never ends.
\<close>

fun read_doubled :: "char \<Rightarrow> string \<Rightarrow> (string \<times> string) option" where
  "read_doubled q [] = None"
| "read_doubled q (c # cs) =
     (if c \<noteq> q then map_option (\<lambda>(s, r). (c # s, r)) (read_doubled q cs)
      else (case cs of
              [] \<Rightarrow> Some ([], [])
            | d # ds \<Rightarrow> if d = q then map_option (\<lambda>(s, r). (q # s, r)) (read_doubled q ds)
                        else Some ([], cs)))"

text \<open>The escape sequences of the MySQL manual; any other escaped character is itself.\<close>

definition mysql_unescape :: "char \<Rightarrow> char" where
  "mysql_unescape c =
     (if c = CHR ''0'' then CHR 0x00 else if c = CHR ''b'' then CHR 0x08
      else if c = CHR ''n'' then CHR 0x0A else if c = CHR ''r'' then CHR 0x0D
      else if c = CHR ''t'' then CHR 0x09 else if c = CHR ''Z'' then CHR 0x1A else c)"

fun read_escaped :: "string \<Rightarrow> (string \<times> string) option" where
  "read_escaped [] = None"
| "read_escaped (c # cs) =
     (if c = backslash then
        (case cs of [] \<Rightarrow> None
         | d # ds \<Rightarrow> map_option (\<lambda>(s, r). (mysql_unescape d # s, r)) (read_escaped ds))
      else if c = quote_char then
        (case cs of [] \<Rightarrow> Some ([], [])
         | d # ds \<Rightarrow> if d = quote_char then map_option (\<lambda>(s, r). (c # s, r)) (read_escaped ds)
                     else Some ([], cs))
      else map_option (\<lambda>(s, r). (c # s, r)) (read_escaped cs))"

text \<open>A delimiter doubled directly behind a literal would continue it.\<close>

definition not_continued :: "char \<Rightarrow> string \<Rightarrow> bool" where
  "not_continued q rest \<longleftrightarrow> (case rest of [] \<Rightarrow> True | c # _ \<Rightarrow> c \<noteq> q)"

lemma not_continued_simps [simp]:
  "not_continued q []" "not_continued q (c # cs) \<longleftrightarrow> c \<noteq> q"
  by (simp_all add: not_continued_def)

definition std_literal :: "string \<Rightarrow> string \<Rightarrow> string \<Rightarrow> bool" where
  "std_literal text v rest \<longleftrightarrow>
     (case text of [] \<Rightarrow> False
      | c # cs \<Rightarrow> c = quote_char \<and> read_doubled quote_char cs = Some (v, rest))"

definition mysql_literal :: "string \<Rightarrow> string \<Rightarrow> string \<Rightarrow> bool" where
  "mysql_literal text v rest \<longleftrightarrow>
     (case text of [] \<Rightarrow> False | c # cs \<Rightarrow> c = quote_char \<and> read_escaped cs = Some (v, rest))"

section \<open>Doubling a delimiter\<close>

fun double_char :: "char \<Rightarrow> string \<Rightarrow> string" where
  "double_char q [] = []"
| "double_char q (c # cs) = (if c = q then q # q # double_char q cs else c # double_char q cs)"

lemma read_doubled_double_char:
  "not_continued q rest \<Longrightarrow> read_doubled q (double_char q s @ q # rest) = Some (s, rest)"
proof (induction s)
  case Nil
  then show ?case by (cases rest) auto
qed auto

text \<open>\<^verbatim>\<open>escape_sql_string\<close> doubles the single quote.\<close>

definition escape_sql_string :: "string \<Rightarrow> string" where
  "escape_sql_string s = double_char quote_char s"

text \<open>The literal every builder writes for a string value.\<close>

definition sql_quoted :: "string \<Rightarrow> string" where
  "sql_quoted s = [quote_char] @ escape_sql_string s @ [quote_char]"

lemma escape_no_quote: "quote_char \<notin> set s \<Longrightarrow> escape_sql_string s = s"
  by (induction s) (auto simp: escape_sql_string_def)

lemma sql_quoted_reads_back:
  "not_continued quote_char rest \<Longrightarrow> std_literal (sql_quoted s @ rest) s rest"
  by (simp add: std_literal_def sql_quoted_def escape_sql_string_def read_doubled_double_char)

text \<open>\<^verbatim>\<open>escape_identifier\<close> puts the name in backticks, doubling those inside.\<close>

definition escape_identifier :: "string \<Rightarrow> string" where
  "escape_identifier s = [backtick] @ double_char backtick s @ [backtick]"

section \<open>Arguments of the deprecated query interface\<close>

text \<open>\<^verbatim>\<open>to_str\<close>: an arithmetic value is printed, anything else is quoted and escaped.\<close>

datatype str_arg = IntArg int | TextArg string

fun to_str :: "str_arg \<Rightarrow> string" where
  "to_str (IntArg i) = int_str i"
| "to_str (TextArg s) = sql_quoted s"

text \<open>
  \<^verbatim>\<open>get_str\<close> overwrites the first question mark by a space and inserts the text before it.
  Without a question mark \<^verbatim>\<open>replace(npos, ...)\<close> throws.
\<close>

definition get_str :: "string \<Rightarrow> string \<Rightarrow> string result" where
  "get_str sql s =
     (case find_char (CHR ''?'') sql of
        None \<Rightarrow> Inl Out_of_range
      | Some pos \<Rightarrow> Inr (take pos sql @ s @ '' '' @ drop (Suc pos) sql))"

fun get_sql :: "string \<Rightarrow> str_arg list \<Rightarrow> string result" where
  "get_sql sql [] = Inr sql"
| "get_sql sql (a # as) = rbind (get_str sql (to_str a)) (\<lambda>sql'. get_sql sql' as)"

section \<open>The literals of the asynchronous MySQL client\<close>

definition mysql_escape_char :: "char \<Rightarrow> string" where
  "mysql_escape_char c =
     (if c = CHR 0x00 then [backslash, CHR ''0''] else if c = CHR 0x0A then [backslash, CHR ''n'']
      else if c = CHR 0x0D then [backslash, CHR ''r''] else if c = backslash then [backslash, backslash]
      else if c = quote_char then [backslash, quote_char] else if c = dquote then [backslash, dquote]
      else if c = CHR 0x1A then [backslash, CHR ''Z''] else [c])"

definition escape_mysql_string :: "string \<Rightarrow> bool \<Rightarrow> string" where
  "escape_mysql_string s no_backslash_escapes =
     [quote_char] @
     (if no_backslash_escapes then double_char quote_char s
      else concat (map mysql_escape_char s)) @
     [quote_char]"

lemma read_escaped_escape_char:
  "read_escaped (mysql_escape_char c @ cs) = map_option (\<lambda>(s, r). (c # s, r)) (read_escaped cs)"
  by (simp add: mysql_escape_char_def mysql_unescape_def)

lemma read_escaped_escape:
  "not_continued quote_char rest \<Longrightarrow>
   read_escaped (concat (map mysql_escape_char s) @ quote_char # rest) = Some (s, rest)"
proof (induction s)
  case Nil
  then show ?case by (cases rest) auto
next
  case (Cons c s)
  then show ?case by (simp add: read_escaped_escape_char)
qed

text \<open>
  Without a backslash the two syntaxes agree; and a literal that is read back as itself
  spends two characters on every quote and on every backslash of its value.
\<close>

lemma read_escaped_doubled:
  "backslash \<notin> set s \<Longrightarrow> not_continued quote_char rest \<Longrightarrow>
   read_escaped (double_char quote_char s @ quote_char # rest) = Some (s, rest)"
proof (induction s)
  case Nil
  then show ?case by (cases rest) auto
qed auto

lemma read_escaped_consumes:
  "read_escaped t = Some (w, r) \<Longrightarrow>
   length w + count_list w quote_char + count_list w backslash + 1 + length r \<le> length t"
proof (induction t arbitrary: w rule: read_escaped.induct)
  case (2 c cs)
  then show ?case by (fastforce split: if_splits list.splits)
qed simp

lemma length_double_char: "length (double_char q s) = length s + count_list s q"
  by (induction s) auto

text \<open>\<^verbatim>\<open>blob_to_hex\<close>: two upper-case hexadecimal digits per byte.\<close>

definition hex_digit :: "nat \<Rightarrow> char" where
  "hex_digit d = (if d < 10 then char_of (48 + d) else char_of (55 + d))"

definition blob_to_hex :: "byte list \<Rightarrow> string" where
  "blob_to_hex bs =
     ''0x'' @ concat (map (\<lambda>b. [hex_digit (unat (drop_bit 4 b AND 15)), hex_digit (unat (b AND 15))]) bs)"

definition hex_val :: "char \<Rightarrow> nat" where
  "hex_val c = (if isdigit_c c then of_char c - 48 else of_char c - 55)"

fun unhex :: "string \<Rightarrow> byte list" where
  "unhex (a # b # s) = word_of_nat (16 * hex_val a + hex_val b) # unhex s"
| "unhex _ = []"

lemma hex_val_digit: "d < 16 \<Longrightarrow> hex_val (hex_digit d) = d"
  by (auto simp: hex_val_def hex_digit_def isdigit_c_def of_char_of)

lemma unat_and_15: "unat ((b :: byte) AND 15) = unat b mod 16"
proof -
  have "b AND 15 = take_bit 4 b" by (simp add: take_bit_eq_mask mask_eq_exp_minus_1)
  then have "b AND 15 = b mod 16" by (simp add: take_bit_eq_mod)
  then show ?thesis by (simp add: unat_mod)
qed

lemma unat_high_nibble: "unat (drop_bit 4 (b :: byte)) mod 16 = unat b div 16"
proof -
  have "unat b < 256" using unsigned_less [of b, where ?'a = nat] by simp
  then have "unat b div 16 < 16" by simp
  moreover have "unat (drop_bit 4 b) = unat b div 16"
    by (simp add: drop_bit_eq_div unat_div)
  ultimately show ?thesis by simp
qed

lemma unhex_blob: "unhex (drop 2 (blob_to_hex bs)) = bs"
proof (induction bs)
  case Nil
  then show ?case by (simp add: blob_to_hex_def)
next
  case (Cons b bs)
  have lt: "unat b < 256" using unsigned_less [of b, where ?'a = nat] by simp
  have "hex_val (hex_digit (unat b div 16)) = unat b div 16"
    and "hex_val (hex_digit (unat b mod 16)) = unat b mod 16"
    using lt by (auto intro: hex_val_digit)
  then have "word_of_nat (16 * hex_val (hex_digit (unat b div 16))
      + hex_val (hex_digit (unat b mod 16))) = b"
    by simp
  with Cons show ?case by (simp add: blob_to_hex_def unat_and_15 unat_high_nibble del: of_nat_add)
qed

section \<open>Properties\<close>

text \<open>a string value written by \<^verbatim>\<open>escape_sql_string\<close> between quotes is read back, byte for
  byte, by any database that follows the standard literal syntax, and the literal ends
  where it was meant to: no value can change the statement around it.\<close>

theorem quoted_value_is_one_literal:
  assumes "not_continued quote_char rest"
  shows "std_literal (to_str (TextArg s) @ rest) s rest"
  using assms by (simp add: sql_quoted_reads_back)

theorem quoted_value_is_one_literal_witness:
  "std_literal (to_str (TextArg [quote_char, CHR ''a'']) @ '' or 1'') [quote_char, CHR ''a''] '' or 1''"
  by (rule quoted_value_is_one_literal) simp

text \<open>in the default mode of MySQL, where a backslash escapes, the text of
  \<^verbatim>\<open>escape_sql_string\<close> is read back as the value it was made from exactly when the value holds
  no backslash: every other value comes back changed or swallows the closing quote.\<close>

theorem quoted_value_in_mysql_iff:
  assumes "not_continued quote_char rest"
  shows "mysql_literal (sql_quoted s @ rest) s rest \<longleftrightarrow> backslash \<notin> set s"
proof
  assume "mysql_literal (sql_quoted s @ rest) s rest"
  then have "read_escaped (double_char quote_char s @ quote_char # rest) = Some (s, rest)"
    by (simp add: mysql_literal_def sql_quoted_def escape_sql_string_def)
  from read_escaped_consumes [OF this] have "count_list s backslash = 0"
    by (simp add: length_double_char)
  then show "backslash \<notin> set s" by (simp add: count_list_0_iff)
next
  assume "backslash \<notin> set s"
  with assms show "mysql_literal (sql_quoted s @ rest) s rest"
    by (simp add: mysql_literal_def sql_quoted_def escape_sql_string_def read_escaped_doubled)
qed

theorem quoted_value_in_mysql_iff_witness:
  "\<not> mysql_literal (sql_quoted [CHR ''a'', backslash] @ '' or 1'') [CHR ''a'', backslash] '' or 1''"
  using quoted_value_in_mysql_iff [of "'' or 1''" "[CHR ''a'', backslash]"] by simp

text \<open>C13: the asynchronous client escapes for the mode the server announced: in either mode a
  string value is read back byte for byte and the literal ends where it was meant to.\<close>

theorem mysql_value_is_one_literal:
  assumes "not_continued quote_char rest"
  shows "mysql_literal (escape_mysql_string s False @ rest) s rest
       \<and> std_literal (escape_mysql_string s True @ rest) s rest"
  using assms
  by (simp add: mysql_literal_def std_literal_def escape_mysql_string_def
      read_escaped_escape read_doubled_double_char)

theorem mysql_value_is_one_literal_witness:
  "mysql_literal (escape_mysql_string [backslash, quote_char] False @ '';'') [backslash, quote_char] '';''
   \<and> std_literal (escape_mysql_string [backslash, quote_char] True @ '';'') [backslash, quote_char] '';''"
  by (rule mysql_value_is_one_literal) simp

text \<open>a blob is written as two hexadecimal digits per byte and can be read back.\<close>

theorem blob_hex_roundtrip:
  "take 2 (blob_to_hex bs) = ''0x'' \<and> length (blob_to_hex bs) = 2 + 2 * length bs
   \<and> unhex (drop 2 (blob_to_hex bs)) = bs"
proof -
  have "length (concat (map (\<lambda>b. [hex_digit (f b), hex_digit (g b)]) bs)) = 2 * length bs"
    for f g :: "byte \<Rightarrow> nat"
    by (induction bs) simp_all
  then show ?thesis by (simp add: unhex_blob) (simp add: blob_to_hex_def)
qed

text \<open>\<^verbatim>\<open>get_sql\<close> scans the values it has already inserted: a question mark inside the
  first value takes the second value, and the second placeholder is left in the
  statement.\<close>

theorem get_sql_rescans_values:
  assumes "CHR ''?'' \<notin> set u" and "CHR ''?'' \<notin> set v" and "CHR ''?'' \<notin> set w"
    and "quote_char \<notin> set v" and "quote_char \<notin> set w"
  shows "get_sql (u @ ''?'' @ rest) [TextArg (v @ ''?'' @ w), IntArg k]
    = Inr (u @ [quote_char] @ v @ int_str k @ '' '' @ w @ [quote_char] @ '' '' @ rest)"
proof -
  have esc: "escape_sql_string (v @ ''?'' @ w) = v @ ''?'' @ w"
    using assms by (intro escape_no_quote) auto
  have "find_char (CHR ''?'') (u @ ''?'' @ rest) = Some (length u)"
    using assms(1) find_char_app [of "CHR ''?''" u rest] by simp
  then have one: "get_str (u @ ''?'' @ rest) (to_str (TextArg (v @ ''?'' @ w)))
      = Inr ((u @ quote_char # v) @ CHR ''?'' # (w @ [quote_char] @ '' '' @ rest))"
    by (simp add: get_str_def sql_quoted_def esc [simplified])
  have "find_char (CHR ''?'') ((u @ quote_char # v) @ CHR ''?'' # (w @ [quote_char] @ '' '' @ rest))
      = Some (length (u @ quote_char # v))"
    using assms(1,2) by (intro find_char_app) auto
  then have "get_str ((u @ quote_char # v) @ CHR ''?'' # (w @ [quote_char] @ '' '' @ rest)) (int_str k)
      = Inr (u @ [quote_char] @ v @ int_str k @ '' '' @ w @ [quote_char] @ '' '' @ rest)"
    unfolding get_str_def by simp
  with one show ?thesis by simp
qed

theorem get_sql_rescans_values_witness:
  "get_sql ''a=? and b=?'' [TextArg ''x?'', IntArg 5]
   = Inr (''a='' @ [quote_char] @ ''x5 '' @ [quote_char] @ ''  and b=?'')"
proof -
  have "int_str 5 = ''5''" by code_simp
  then show ?thesis
    using get_sql_rescans_values [of "''a=''" "''x''" "[]" "'' and b=?''" 5] by simp
qed

end
