(* ===== verification/Sql_Generate.thy ===== *)
theory Sql_Generate
  imports Type_Mapping Sql_Literals
begin

text \<open>
  The statement generators of \<^verbatim>\<open>ormpp/utility.hpp\<close>: \<^verbatim>\<open>append\<close>, \<^verbatim>\<open>generate_insert_sql\<close>,
  \<^verbatim>\<open>generate_update_sql\<close>, \<^verbatim>\<open>generate_delete_sql\<close>, \<^verbatim>\<open>generate_query_sql\<close> and their helpers,
  each with the statement it is meant to build written as a closed form.
\<close>

section \<open>Appending pieces\<close>

text \<open>
  \<^verbatim>\<open>append_impl\<close> drops an empty \<^verbatim>\<open>std::string\<close> (or view) and puts a space behind anything
  else; a string literal is never dropped, since its array is never of size 0.
\<close>

datatype sql_piece = Str string | Lit string

fun append_impl :: "string \<Rightarrow> sql_piece \<Rightarrow> string" where
  "append_impl sql (Str s) = (if s = [] then sql else sql @ s @ '' '')"
| "append_impl sql (Lit s) = sql @ s @ '' ''"

definition append_pieces :: "string \<Rightarrow> sql_piece list \<Rightarrow> string" where
  "append_pieces sql ps = foldl append_impl sql ps"

lemma append_pieces_simps [simp]:
  "append_pieces sql [] = sql"
  "append_pieces sql (p # ps) = append_pieces (append_impl sql p) ps"
  by (simp_all add: append_pieces_def)

definition piece_text :: "sql_piece \<Rightarrow> string" where
  "piece_text p = append_impl [] p"

lemma append_impl_eq: "append_impl sql p = sql @ piece_text p"
  by (cases p) (auto simp: piece_text_def)

lemma append_pieces_eq: "append_pieces sql ps = sql @ concat (map piece_text ps)"
  by (induction ps arbitrary: sql) (auto simp: append_impl_eq)

section \<open>contains_select\<close>

text \<open>
  Leading white space is skipped; the next six characters are compared, stopping early at
  the end of the text; what follows must be white space or the end.
\<close>

fun match_lower :: "string \<Rightarrow> string \<Rightarrow> string option" where
  "match_lower [] s = Some s"
| "match_lower (k # ks) [] = Some []"
| "match_lower (k # ks) (c # cs) = (if tolower_c c \<noteq> k then None else match_lower ks cs)"

definition contains_select :: "string \<Rightarrow> bool" where
  "contains_select sql =
     (let it = dropWhile isspace_c sql in
      if sql = [] \<or> it = [] then False
      else (case match_lower ''select'' it of
              None \<Rightarrow> False
            | Some rest \<Rightarrow> rest = [] \<or> isspace_c (hd rest)))"

section \<open>generate_insert_sql\<close>

definition placeholder :: "db_type \<Rightarrow> nat \<Rightarrow> string" where
  "placeholder db k = (if db = PostgreSQL then CHR ''$'' # nat_str k else ''?'')"

text \<open>The loop of the PostgreSQL upsert: \<^verbatim>\<open>set\<close>, \<^verbatim>\<open>fields\<close> and \<^verbatim>\<open>values\<close> grow together.\<close>

fun upsert_loop :: "nat \<Rightarrow> string list \<Rightarrow> string \<times> string \<times> string \<Rightarrow> string \<times> string \<times> string" where
  "upsert_loop index [] acc = acc"
| "upsert_loop index (f # fs) (sets, flds, vals) =
     (let value = CHR ''$'' # nat_str (Suc index);
          sets = append_pieces sets [Str f, Lit ''='', Str value];
          flds = flds @ f; vals = vals @ value
      in if fs \<noteq> []
         then upsert_loop (Suc index) fs (sets @ '','', flds @ '','', vals @ '','')
         else upsert_loop (Suc index) fs (sets @ '';'', flds @ '')'', vals @ '')''))"

text \<open>
  The loop over the members for the other statements.  \<open>skip\<close> is the test of the
  \<^verbatim>\<open>continue\<close>: an insert leaves the auto key out.
\<close>

fun insert_loop ::
  "db_type \<Rightarrow> (string \<Rightarrow> bool) \<Rightarrow> nat \<Rightarrow> string list \<Rightarrow> string \<times> string \<Rightarrow> string \<times> string" where
  "insert_loop db skip index [] acc = acc"
| "insert_loop db skip index (f # fs) (flds, vals) =
     (if skip f then insert_loop db skip index fs (flds, vals)
      else let vals = vals @ placeholder db (Suc index); flds = flds @ quote_key db f
           in if fs \<noteq> [] then insert_loop db skip (Suc index) fs (flds @ '','', vals @ '','')
              else insert_loop db skip (Suc index) fs (flds @ '')'', vals @ '')''))"

definition close_paren :: "string \<Rightarrow> string" where
  "close_paren s = (if last s \<noteq> CHR '')'' then butlast s @ '')'' else s)"

definition generate_upsert_sql :: "registry \<Rightarrow> struct_meta \<Rightarrow> sql_piece list \<Rightarrow> string" where
  "generate_upsert_sql r T args =
     (let sql = append_pieces ''insert into '' [Str (get_short_struct_name T)];
          (sets, flds, vals) = upsert_loop 0 (member_names T) ([], ''('', ''values('');
          conflict = (if args \<noteq> [] then append_pieces ''on conflict('' args
                      else ''on conflict('' @ get_conflict_key r T) @ '')''
      in append_pieces sql [Str flds, Str vals, Str conflict, Lit ''do update set'', Str sets])"

definition generate_insert_sql ::
  "registry \<Rightarrow> struct_meta \<Rightarrow> db_type \<Rightarrow> bool \<Rightarrow> sql_piece list \<Rightarrow> string" where
  "generate_insert_sql r T db ins args =
     (if db = PostgreSQL \<and> \<not> ins then generate_upsert_sql r T args
      else let sql = append_pieces (if ins then ''insert into '' else ''replace into '')
                       [Str (get_short_struct_name T)];
               (flds, vals) = insert_loop db (\<lambda>f. ins \<and> is_auto_key r T f) 0
                                    (member_names T) (''('', ''values('')
           in append_pieces sql [Str (close_paren flds), Str (close_paren vals)])"

text \<open>The columns an insert names, and the numbered placeholders that go with them.\<close>

definition insert_columns :: "registry \<Rightarrow> struct_meta \<Rightarrow> bool \<Rightarrow> string list" where
  "insert_columns r T ins = filter (\<lambda>f. \<not> (ins \<and> is_auto_key r T f)) (member_names T)"

fun placeholders :: "db_type \<Rightarrow> nat \<Rightarrow> nat \<Rightarrow> string list" where
  "placeholders db index 0 = []"
| "placeholders db index (Suc n) = placeholder db (Suc index) # placeholders db (Suc index) n"

lemma length_placeholders [simp]: "length (placeholders db i n) = n"
  by (induction n arbitrary: i) auto

lemma placeholders_Nil_iff [simp]: "placeholders db i n = [] \<longleftrightarrow> n = 0"
  by (cases n) auto

lemma comma_sep_Cons: "xs \<noteq> [] \<Longrightarrow> comma_sep (x # xs) = x @ '','' @ comma_sep xs"
  by (cases xs) auto

lemma insert_loop_eq:
  "insert_loop db skip i fs (F, V) =
     (let cols = map (quote_key db) (filter (\<lambda>f. \<not> skip f) fs);
          vals = placeholders db i (length cols)
      in if fs = [] then (F, V)
         else if skip (last fs) then (F @ comma_terminated cols, V @ comma_terminated vals)
         else (F @ comma_sep cols @ '')'', V @ comma_sep vals @ '')''))"
proof (induction fs arbitrary: i F V)
  case Nil
  then show ?case by simp
next
  case (Cons f fs)
  have ne: "fs \<noteq> [] \<Longrightarrow> \<not> skip (last fs) \<Longrightarrow> filter (\<lambda>f. \<not> skip f) fs \<noteq> []"
    by (metis (mono_tags, lifting) filter_empty_conv last_in_set)
  from Cons ne show ?case
    by (cases "fs = []") (auto simp: Let_def comma_sep_Cons)
qed

lemma insert_loop_skip_last:
  assumes "fs \<noteq> []" "skip (last fs)" and "cols = map (quote_key db) (filter (\<lambda>f. \<not> skip f) fs)"
  shows "insert_loop db skip i fs (F, V)
    = (F @ comma_terminated cols, V @ comma_terminated (placeholders db i (length cols)))"
  using assms by (simp add: insert_loop_eq Let_def)

lemma insert_loop_keep_last:
  assumes "fs \<noteq> []" "\<not> skip (last fs)" and "cols = map (quote_key db) (filter (\<lambda>f. \<not> skip f) fs)"
  shows "insert_loop db skip i fs (F, V)
    = (F @ comma_sep cols @ '')'', V @ comma_sep (placeholders db i (length cols)) @ '')'')"
  using assms by (simp add: insert_loop_eq Let_def)

lemma close_paren_terminated:
  "xs \<noteq> [] \<Longrightarrow> close_paren (u @ comma_terminated xs) = u @ comma_sep xs @ '')''"
  by (simp add: comma_terminated_sep close_paren_def butlast_append)

lemma close_paren_done: "close_paren (u @ '')'') = u @ '')''"
  by (simp add: close_paren_def)

lemma generate_insert_sql_eq:
  assumes "insert_columns r T ins \<noteq> []" and "\<not> (db = PostgreSQL \<and> \<not> ins)"
    and "get_short_struct_name T \<noteq> []"
  shows "generate_insert_sql r T db ins args =
     (if ins then ''insert into '' else ''replace into '') @ get_short_struct_name T @
     '' ('' @ comma_sep (map (quote_key db) (insert_columns r T ins)) @ '') values('' @
     comma_sep (placeholders db 0 (length (insert_columns r T ins))) @ '') ''"
proof -
  let ?skip = "\<lambda>f. ins \<and> is_auto_key r T f"
  let ?cols = "map (quote_key db) (insert_columns r T ins)"
  let ?vals = "placeholders db 0 (length ?cols)"
  have names: "member_names T \<noteq> []" using assms(1) by (auto simp: insert_columns_def)
  obtain F V where FV: "insert_loop db ?skip 0 (member_names T) (''('', ''values('') = (F, V)"
    by (cases "insert_loop db ?skip 0 (member_names T) (''('', ''values('')")
  have "close_paren F = ''('' @ comma_sep ?cols @ '')'' \<and> close_paren V = ''values('' @ comma_sep ?vals @ '')''"
  proof (cases "?skip (last (member_names T))")
    case True
    then have "F = ''('' @ comma_terminated ?cols" "V = ''values('' @ comma_terminated ?vals"
      using FV insert_loop_skip_last [where skip = ?skip, OF names True refl] by (simp_all add: insert_columns_def)
    then show ?thesis
      using assms(1) close_paren_terminated [of ?cols "''(''"] close_paren_terminated [of ?vals "''values(''"]
      by simp
  next
    case False
    then have "F = (''('' @ comma_sep ?cols) @ '')''" "V = (''values('' @ comma_sep ?vals) @ '')''"
      using FV insert_loop_keep_last [where skip = ?skip, OF names False refl] by (simp_all add: insert_columns_def)
    then show ?thesis
      using close_paren_done [of "''('' @ comma_sep ?cols"] close_paren_done [of "''values('' @ comma_sep ?vals"]
      by simp
  qed
  with FV assms(2,3) show ?thesis
    unfolding generate_insert_sql_def by (auto simp: Let_def)
qed

section \<open>generate_update_sql\<close>

text \<open>\<^verbatim>\<open>name=?,\<close> or \<^verbatim>\<open>name=$n,\<close> for every assigned column; the counter is returned.\<close>

fun set_loop :: "db_type \<Rightarrow> nat \<Rightarrow> string list \<Rightarrow> string \<Rightarrow> string \<times> nat" where
  "set_loop db index [] flds = (flds, index)"
| "set_loop db index (f # fs) flds =
     (if db = PostgreSQL
      then set_loop db (Suc index) fs (flds @ f @ ''=$'' @ nat_str (Suc index) @ '','')
      else set_loop db index fs (flds @ f @ ''=?,''))"

fun where_loop :: "db_type \<Rightarrow> nat \<Rightarrow> string list \<Rightarrow> string \<Rightarrow> string" where
  "where_loop db index [] conflict = conflict"
| "where_loop db index (k # ks) conflict =
     (if db = PostgreSQL
      then where_loop db (Suc index) ks
             (append_pieces conflict [Lit '' and'', Str (k @ ''=$'' @ nat_str (Suc index))])
      else where_loop db index ks (append_pieces conflict [Lit '' and'', Str (k @ ''=?'')]))"

definition strip_trailing_spaces :: "string \<Rightarrow> string" where
  "strip_trailing_spaces s = rev (dropWhile (\<lambda>c. c = CHR '' '') (rev s))"

text \<open>
  \<open>members\<close> are the names of the member pointers of \<^verbatim>\<open>update_some\<close> (none: all members), \<open>args\<close>
  the user's conditions (none: the conflict keys).  The empty string is returned when
  nothing restricts the update.
\<close>

definition generate_update_sql ::
  "registry \<Rightarrow> struct_meta \<Rightarrow> db_type \<Rightarrow> string list \<Rightarrow> sql_piece list \<Rightarrow> string \<times> registry" where
  "generate_update_sql r T db members args =
     (let sql = append_pieces [] [Lit ''update'', Str (get_short_struct_name T), Lit ''set''];
          (flds, index) = set_loop db 0
             (if members \<noteq> [] then members else map (quote_key db) (member_names T)) [];
          flds = butlast flds;
          (conflict, has_condition, r') =
             (if args \<noteq> [] then (append_pieces ''where 1=1'' (Lit '' and'' # args), True, r)
              else let (pks, r') = get_conflict_keys r T db
                   in (where_loop db index pks ''where 1=1'', pks \<noteq> [], r'))
      in if \<not> has_condition then ([], r')
         else (strip_trailing_spaces (append_pieces sql [Str flds, Str conflict]), r'))"

section \<open>generate_delete_sql\<close>

definition generate_delete_sql :: "struct_meta \<Rightarrow> string option \<Rightarrow> string" where
  "generate_delete_sql T where_condition =
     (let sql = append_pieces ''delete from '' [Str (get_short_struct_name T)]
      in case where_condition of
           None \<Rightarrow> sql
         | Some w \<Rightarrow> if w \<noteq> [] then append_pieces sql [Lit ''where'', Str w] else sql)"

section \<open>generate_query_sql\<close>

text \<open>
  \<^verbatim>\<open>get_sql_conditions\<close>: the first argument decides.  A full select replaces everything (the
  other arguments are dropped); one that starts with \<^verbatim>\<open>order by\<close> or \<^verbatim>\<open>limit\<close> cuts the statement
  at its first \<^verbatim>\<open>where\<close>; then all arguments are appended.
\<close>

fun get_sql_conditions :: "string \<Rightarrow> string list \<Rightarrow> string" where
  "get_sql_conditions sql [] = sql"
| "get_sql_conditions sql (arg # args) =
     (let temp = map tolower_c arg in
      if contains_select arg then arg
      else let sql = (if find_sub ''order by'' temp = Some 0 then before_sub ''where'' sql else sql);
               sql = (if find_sub ''limit'' temp = Some 0 then before_sub ''where'' sql else sql)
           in append_pieces sql (map Str (arg # args)))"

definition generate_query_sql :: "struct_meta \<Rightarrow> db_type \<Rightarrow> string list \<Rightarrow> string" where
  "generate_query_sql T db args =
     (let sql = append_pieces ''select '' [Str (get_fields T db), Lit ''from'', Str (get_short_struct_name T)];
          sql = (if list_ex (\<lambda>a. a \<noteq> []) args then append_pieces sql [Lit ''where 1=1 and ''] else sql)
      in get_sql_conditions sql args)"

section \<open>Closed forms\<close>

lemma match_lower_Some:
  "match_lower k s = Some r \<longleftrightarrow>
   (prefix (map tolower_c s) k \<and> r = []) \<or> (prefix k (map tolower_c s) \<and> r = drop (length k) s)"
  by (induction k s rule: match_lower.induct) auto

lemma set_loop_eq:
  "set_loop db i fs S = (S @ comma_terminated
      (map2 (\<lambda>f p. f @ ''='' @ p) fs (placeholders db i (length fs))),
    if db = PostgreSQL then i + length fs else i)"
proof (induction fs arbitrary: i S)
  case (Cons f fs)
  have np: "db \<noteq> PostgreSQL \<Longrightarrow> placeholders db (Suc i) n = placeholders db i n" for n
    by (induction n arbitrary: i) (auto simp: placeholder_def)
  show ?case using Cons by (cases "db = PostgreSQL") (simp_all add: placeholder_def np)
qed simp

definition and_terms :: "db_type \<Rightarrow> nat \<Rightarrow> string list \<Rightarrow> string" where
  "and_terms db i ks =
     concat (map2 (\<lambda>k p. '' and '' @ k @ ''='' @ p @ '' '') ks (placeholders db i (length ks)))"

lemma where_loop_eq: "where_loop db i ks c = c @ and_terms db i ks"
proof (induction ks arbitrary: i c)
  case (Cons k ks)
  have np: "db \<noteq> PostgreSQL \<Longrightarrow> placeholders db (Suc i) n = placeholders db i n" for n
    by (induction n arbitrary: i) (auto simp: placeholder_def)
  show ?case
    using Cons by (cases "db = PostgreSQL") (simp_all add: and_terms_def placeholder_def np)
qed (simp add: and_terms_def)

lemma strip_trailing_space: "strip_trailing_spaces (s @ '' '') = strip_trailing_spaces s"
  by (simp add: strip_trailing_spaces_def)

definition assignments :: "db_type \<Rightarrow> string list \<Rightarrow> string" where
  "assignments db cols =
     comma_sep (map2 (\<lambda>f p. f @ ''='' @ p) cols (placeholders db 0 (length cols)))"

definition assigned_columns :: "struct_meta \<Rightarrow> db_type \<Rightarrow> string list \<Rightarrow> string list" where
  "assigned_columns T db members =
     (if members \<noteq> [] then members else map (quote_key db) (member_names T))"

lemma assignments_nonempty: "cols \<noteq> [] \<Longrightarrow> assignments db cols \<noteq> []"
proof -
  assume "cols \<noteq> []"
  then obtain f fs where "cols = f # fs" by (cases cols) auto
  then show ?thesis
    by (cases fs) (auto simp: assignments_def comma_sep_Cons)
qed

lemma generate_update_sql_unfold:
  assumes "get_conflict_keys r T db = (pks, r')" and "pks \<noteq> []"
    and "set_loop db 0 (assigned_columns T db members) [] = (F, n)"
  shows "generate_update_sql r T db members [] =
    (strip_trailing_spaces (append_pieces
       (append_pieces [] [Lit ''update'', Str (get_short_struct_name T), Lit ''set''])
       [Str (butlast F), Str (where_loop db n pks ''where 1=1'')]), r')"
  using assms unfolding generate_update_sql_def assigned_columns_def
  by (simp del: append_pieces_simps)

lemma update_pieces:
  assumes "t \<noteq> []" and "a \<noteq> []" and "c \<noteq> []"
  shows "strip_trailing_spaces (append_pieces
      (append_pieces [] [Lit ''update'', Str t, Lit ''set'']) [Str a, Str c])
    = strip_trailing_spaces (''update '' @ t @ '' set '' @ a @ '' '' @ c)"
  using assms by (simp add: strip_trailing_spaces_def)

lemma generate_update_sql_keys:
  assumes "get_short_struct_name T \<noteq> []" and "assigned_columns T db members \<noteq> []"
    and "get_conflict_keys r T db = (pks, r')" and "pks \<noteq> []"
  shows "generate_update_sql r T db members [] =
    (strip_trailing_spaces (''update '' @ get_short_struct_name T @ '' set '' @
       assignments db (assigned_columns T db members) @ '' '' @ ''where 1=1'' @
       and_terms db (if db = PostgreSQL then length (assigned_columns T db members) else 0) pks), r')"
proof -
  let ?cols = "assigned_columns T db members"
  let ?terms = "map2 (\<lambda>f p. f @ ''='' @ p) ?cols (placeholders db 0 (length ?cols))"
  let ?n = "if db = PostgreSQL then length ?cols else 0"
  have set: "set_loop db 0 ?cols [] = (comma_terminated ?terms, ?n)"
    using set_loop_eq [of db 0 ?cols "[]"] by simp
  have "?terms \<noteq> []"
    using assms(2) by (cases ?cols) simp_all
  then have bl: "butlast (comma_terminated ?terms) = assignments db ?cols"
    unfolding assignments_def by (rule butlast_comma_terminated)
  have ne: "''where 1=1'' @ and_terms db ?n pks \<noteq> []" by simp
  show ?thesis
    unfolding generate_update_sql_unfold [OF assms(3,4) set] where_loop_eq bl
      update_pieces [OF assms(1) assignments_nonempty [OF assms(2)] ne] by (rule refl)
qed

section \<open>Properties\<close>


definition person :: struct_meta where
  "person = \<lparr>s_name = ''person'', s_fields =
     [\<lparr>f_name = ''id'', f_type = Plain TInt\<rparr>, \<lparr>f_name = ''name'', f_type = Plain TString\<rparr>,
      \<lparr>f_name = ''age'', f_type = Optional TInt\<rparr>]\<rparr>"

definition person_registry :: registry where
  "person_registry = register_auto_key empty_registry person ''id''"

lemma person_simps [simp]:
  "s_name person = ''person''" "member_names person = [''id'', ''name'', ''age'']"
  "get_short_struct_name person = ''person''"
  by (simp_all add: person_def member_names_def get_short_struct_name_def)

lemma person_auto_key [simp]: "is_auto_key person_registry person f \<longleftrightarrow> f = ''id''"
  by (auto simp: person_registry_def is_auto_key_def register_auto_key_def
      add_auto_key_field_def emplace_def empty_registry_def)


text \<open>for a struct whose only member is its auto key the generated insert has no column
  list and no value list: both are reduced to a closing parenthesis.\<close>

theorem insert_only_auto_key:
  assumes "member_names T = [k]" and "is_auto_key r T k" and "get_short_struct_name T \<noteq> []"
  shows "generate_insert_sql r T db True args = ''insert into '' @ get_short_struct_name T @ '' ) values) ''"
  using assms by (auto simp: generate_insert_sql_def close_paren_def Let_def)

lemma person_keys:
  "get_conflict_keys person_registry person db =
    ([quote_key db ''id''],
     person_registry\<lparr>key_cache := (key_cache person_registry)((''person'', db = MySQL) := [quote_key db ''id''])\<rparr>)"
proof -
  have "split ''id'' = [''id'']"
    by (simp add: split_def is_key_char_def char_class_defs)
  then show ?thesis
    by (simp add: get_conflict_keys_def person_registry_def register_auto_key_def
        add_auto_key_field_def emplace_def empty_registry_def get_conflict_key_def Let_def)
qed

text \<open>an update is refused (no statement is generated) exactly when there is neither a user
  condition nor a conflict key: no update without a restriction is ever generated.\<close>

theorem update_needs_restriction:
  "fst (generate_update_sql r T db members args) = [] \<longleftrightarrow>
   args = [] \<and> fst (get_conflict_keys r T db) = []"
proof -
  have ne: "strip_trailing_spaces (append_pieces (append_pieces [] (Lit ''update'' # p)) q) \<noteq> []" for p q
    by (simp add: strip_trailing_spaces_def append_pieces_eq piece_text_def dropWhile_append)
  show ?thesis
    by (cases "get_conflict_keys r T db")
      (auto simp: generate_update_sql_def Let_def ne split: prod.splits if_splits
        simp del: append_pieces_simps)
qed

text \<open>exactly which texts count as a select: after leading white space either the word
  \<^verbatim>\<open>select\<close> in any case, followed by white space or the end, or any non-empty prefix of that
  word that ends the text (the comparison stops at the end of the text without checking that
  all six letters were seen).\<close>

theorem contains_select_iff:
  "contains_select s \<longleftrightarrow>
   (let it = dropWhile isspace_c s in it \<noteq> [] \<and>
     (prefix (map tolower_c it) ''select'' \<or>
      prefix ''select'' (map tolower_c it) \<and> (drop 6 it = [] \<or> isspace_c (hd (drop 6 it)))))"
proof -
  define it where "it = dropWhile isspace_c s"
  define low where "low = map tolower_c it"
  consider (short) "prefix low ''select''" | (long) "\<not> prefix low ''select''" "prefix ''select'' low"
    | (other) "\<not> prefix low ''select''" "\<not> prefix ''select'' low" by blast
  then have "contains_select s \<longleftrightarrow> it \<noteq> [] \<and> (prefix low ''select'' \<or>
      prefix ''select'' low \<and> (drop 6 it = [] \<or> isspace_c (hd (drop 6 it))))"
  proof cases
    case short
    then have "match_lower ''select'' it = Some []" by (simp add: match_lower_Some low_def)
    with short show ?thesis by (auto simp: contains_select_def it_def [symmetric] Let_def)
        (simp add: it_def)
  next
    case long
    then have "match_lower ''select'' it = Some (drop 6 it)"
      by (simp add: match_lower_Some low_def numeral_eq_Suc)
    with long show ?thesis by (auto simp: contains_select_def it_def [symmetric] Let_def)
        (simp_all add: it_def)
  next
    case other
    then have "match_lower ''select'' it = None"
      using match_lower_Some [of "''select''" it] by (cases "match_lower ''select'' it") (auto simp: low_def)
    with other show ?thesis by (auto simp: contains_select_def it_def [symmetric] Let_def)
  qed
  then show ?thesis by (simp add: it_def low_def Let_def)
qed

lemma find_sub_behind:
  assumes "\<not> sublist pat (u @ [x])" and "x \<notin> set pat"
  shows "find_sub pat ((u @ [x]) @ v) = map_option (\<lambda>k. length u + 1 + k) (find_sub pat v)"
  using assms(1)
proof (induction u)
  case Nil
  have "\<not> prefix pat (x # v)" using assms(2) Nil by (cases pat) auto
  then show ?case by (cases "find_sub pat v") auto
next
  case (Cons c u)
  have "\<not> prefix pat ((c # u @ [x]) @ v)"
  proof
    assume p: "prefix pat ((c # u @ [x]) @ v)"
    then consider "prefix pat (c # u @ [x])" | w where "pat = (c # u @ [x]) @ w"
      unfolding prefix_append by blast
    then show False using Cons.prems assms(2) by cases auto
  qed
  moreover have "\<not> sublist pat (u @ [x])" using Cons.prems by (auto simp: sublist_Cons_right)
  ultimately show ?case using Cons.IH by (cases "find_sub pat v") auto
qed

definition select_prefix :: "struct_meta \<Rightarrow> db_type \<Rightarrow> string" where
  "select_prefix T db =
     ''select '' @ comma_sep (map (quote_key db) (member_names T)) @ ''  from '' @ get_short_struct_name T @ '' ''"

lemma generate_query_sql_eq:
  assumes "s_fields T \<noteq> []" and "get_short_struct_name T \<noteq> []" and "args \<noteq> []" and "hd args \<noteq> []"
  shows "generate_query_sql T db args =
    get_sql_conditions (select_prefix T db @ ''where 1=1 and  '') args"
proof -
  have ex: "list_ex (\<lambda>a. a \<noteq> []) args" using assms(3,4) by (cases args) auto
  have pre: "append_pieces ''select '' [Str (get_fields T db), Lit ''from'', Str (get_short_struct_name T)]
      = select_prefix T db"
    using assms(1,2) by (simp add: select_prefix_def get_fields_eq)
  show ?thesis
    unfolding generate_query_sql_def Let_def pre if_P [OF ex] by (simp add: append_pieces_eq piece_text_def)
qed

lemma before_where:
  assumes "\<not> sublist ''where'' (select_prefix T db)"
  shows "before_sub ''where'' (select_prefix T db @ ''where 1=1 and  '') = select_prefix T db"
proof -
  obtain u where u: "select_prefix T db = u @ '' ''"
    by (simp add: select_prefix_def)
  have "find_sub ''where'' ((u @ '' '') @ ''where 1=1 and  '') = Some (length u + 1)"
    using find_sub_behind [of "''where''" u "CHR '' ''" "''where 1=1 and  ''"] assms u by simp
  then show ?thesis by (simp add: before_sub_def u)
qed

text \<open>a query whose first argument is an \<^verbatim>\<open>order by\<close> clause has no restriction: the
  generated \<^verbatim>\<open>where 1=1 and\<close> is removed again and the clause follows the table, provided no column
  or table name contains the word \<^verbatim>\<open>where\<close>.\<close>

theorem order_by_query_shape:
  assumes "s_fields T \<noteq> []" and "get_short_struct_name T \<noteq> []"
    and "prefix ''order by'' (map tolower_c c)" and "\<not> sublist ''where'' (select_prefix T db)"
  shows "generate_query_sql T db [c] = select_prefix T db @ c @ '' ''"
proof -
  have c: "c \<noteq> []" using assms(3) by auto
  have notsel: "\<not> contains_select c"
  proof -
    obtain a d where cd: "c = a # d" using c by (cases c) auto
    with assms(3) have low: "tolower_c a = CHR ''o''" by simp
    have nsp: "\<not> isspace_c a"
    proof
      assume "isspace_c a"
      then have "\<not> isupper_c a" by (auto simp: char_class_defs)
      with low have "a = CHR ''o''" by (simp add: tolower_c_def)
      with \<open>isspace_c a\<close> show False by (simp add: char_class_defs)
    qed
    show ?thesis using low nsp by (simp add: contains_select_def cd)
  qed
  have ob: "find_sub ''order by'' (map tolower_c c) = Some 0"
    using assms(3) c by (cases c) auto
  have lim: "find_sub ''limit'' (map tolower_c c) \<noteq> Some 0"
  proof -
    obtain a d where cd: "c = a # d" using c by (cases c) auto
    with assms(3) have "tolower_c a = CHR ''o''" by simp
    then show ?thesis by (simp add: cd split: option.splits)
  qed
  show ?thesis
    using generate_query_sql_eq [of T "[c]" db] assms(1,2) c notsel ob lim
      before_where [OF assms(4)]
    by (simp add: Let_def append_pieces_eq piece_text_def)
qed

lemma person_select: "select_prefix person SQLite = ''select id,name,age  from person ''"
  by (simp add: select_prefix_def quote_key_def)

theorem order_by_query_shape_witness:
  "generate_query_sql person SQLite [''ORDER BY age''] = ''select id,name,age  from person ORDER BY age ''"
proof -
  have sub: "\<not> sublist ''where'' (select_prefix person SQLite)"
    by (simp add: person_select sublist_Cons_right)
  have pre: "prefix ''order by'' (map tolower_c ''ORDER BY age'')"
    by code_simp
  have fs: "s_fields person \<noteq> []" by (simp add: person_def)
  show ?thesis
    unfolding order_by_query_shape [OF fs _ pre sub, simplified] person_select by simp
qed

text \<open>the hypothesis of the previous property is needed: with a column named
  \<^verbatim>\<open>whereabouts\<close> the statement is cut inside its column list.\<close>

theorem order_by_cut_in_columns:
  "generate_query_sql \<lparr>s_name = ''t'', s_fields = [\<lparr>f_name = ''whereabouts'', f_type = Plain TInt\<rparr>]\<rparr>
     SQLite [''order by id''] = ''select order by id ''"
  by code_simp

end
