(* ===== verification/Placeholders.thy ===== *)
theory Placeholders
  imports Sql_Generate
begin

text \<open>
  Finding and replacing the question marks of a statement:
  \<^verbatim>\<open>find_next_postgresql_placeholder\<close> and \<^verbatim>\<open>replace_postgresql_placeholders\<close> of
  \<^verbatim>\<open>ormpp/query.hpp\<close>, \<^verbatim>\<open>find_next_placeholder\<close>, \<^verbatim>\<open>replace_next_placeholder\<close> and the loops of
  \<^verbatim>\<open>format_query_args\<close> and \<^verbatim>\<open>format_struct_sql\<close> of \<^verbatim>\<open>ormpp/mysql_async.hpp\<close>.
  A loop over an index \<open>i\<close> into \<^verbatim>\<open>sql\<close> becomes a recursion that carries \<open>i\<close> together with
  the text from position \<open>i\<close> on.
  The interface between scanning and replacing is the locale \<open>placeholder_scanner\<close>; both
  scanners interpret it, and the replacement loops are shown to compute a closed form: the
  text segments between the placeholders woven with the replacements.
\<close>

section \<open>The inner loops\<close>

text \<open>To the closing delimiter (or the end), a doubled delimiter being part of the text.\<close>

fun skip_doubled :: "char \<Rightarrow> nat \<Rightarrow> string \<Rightarrow> nat \<times> string" where
  "skip_doubled q i [] = (i, [])"
| "skip_doubled q i (c # cs) =
     (if c = q then
        (case cs of [] \<Rightarrow> (i, c # cs)
         | d # ds \<Rightarrow> if d = q then skip_doubled q (i + 2) ds else (i, c # cs))
      else skip_doubled q (Suc i) cs)"

text \<open>The same with backslash escapes, unless the server turned them off.\<close>

fun skip_quoted :: "bool \<Rightarrow> char \<Rightarrow> nat \<Rightarrow> string \<Rightarrow> nat \<times> string" where
  "skip_quoted nbe q i [] = (i, [])"
| "skip_quoted nbe q i (c # cs) =
     (if \<not> nbe \<and> c = backslash then
        (case cs of [] \<Rightarrow> (Suc i, []) | d # ds \<Rightarrow> skip_quoted nbe q (i + 2) ds)
      else if c = q then
        (case cs of [] \<Rightarrow> (i, c # cs)
         | d # ds \<Rightarrow> if d = q then skip_quoted nbe q (i + 2) ds else (i, c # cs))
      else skip_quoted nbe q (Suc i) cs)"

fun skip_line :: "nat \<Rightarrow> string \<Rightarrow> nat \<times> string" where
  "skip_line i [] = (i, [])"
| "skip_line i (c # cs) =
     (if c = CHR 0x0A \<or> c = CHR 0x0D then (i, c # cs) else skip_line (Suc i) cs)"

text \<open>To the slash that closes a block comment; at the last character the loop stops.\<close>

fun skip_block :: "nat \<Rightarrow> string \<Rightarrow> nat \<times> string" where
  "skip_block i (c # d # cs) =
     (if c = CHR ''*'' \<and> d = CHR ''/'' then (Suc i, d # cs) else skip_block (Suc i) (d # cs))"
| "skip_block i s = (i, s)"

text \<open>Every inner loop moves the index along with the text.\<close>

definition moved :: "nat \<Rightarrow> string \<Rightarrow> nat \<times> string \<Rightarrow> bool" where
  "moved i s p \<longleftrightarrow> (\<exists>u. s = u @ snd p \<and> fst p = i + length u)"

lemma moved_refl: "moved i s (i, s)"
  by (simp add: moved_def)

lemma moved_step: "moved (i + length u) s p \<Longrightarrow> moved i (u @ s) p"
proof -
  assume "moved (i + length u) s p"
  then obtain w where "s = w @ snd p" "fst p = i + length u + length w" by (auto simp: moved_def)
  then have "u @ s = (u @ w) @ snd p" "fst p = i + length (u @ w)" by simp_all
  then show ?thesis unfolding moved_def by blast
qed

lemma moved_Suc: "moved (Suc i) s p \<Longrightarrow> moved i (c # s) p"
  using moved_step [of i "[c]" s p] by simp

lemma moved_Suc2: "moved (Suc (Suc i)) s p \<Longrightarrow> moved i (c # d # s) p"
  by (intro moved_Suc)

lemma skip_doubled_moved: "moved i s (skip_doubled q i s)"
  by (induction q i s rule: skip_doubled.induct)
    (auto simp: moved_refl moved_Suc moved_Suc2 split: list.splits)

lemma skip_quoted_moved: "moved i s (skip_quoted nbe q i s)"
proof (induction nbe q i s rule: skip_quoted.induct)
  case (2 nbe q i c cs)
  note unf = skip_quoted.simps(2) [of nbe q i c cs]
  show ?case
  proof (cases cs)
    case Nil
    then show ?thesis by (auto simp: moved_refl moved_Suc moved_Suc2 moved_Suc [OF moved_refl])
  next
    case (Cons d ds)
    then show ?thesis
      using 2 by (auto simp: unf [unfolded Cons] moved_refl moved_Suc moved_Suc2 simp del: skip_quoted.simps(2))
  qed
qed (simp add: moved_refl)

lemma skip_line_moved: "moved i s (skip_line i s)"
  by (induction i s rule: skip_line.induct) (auto simp: moved_refl moved_Suc)

lemma skip_block_moved: "moved i s (skip_block i s)"
  by (induction i s rule: skip_block.induct) (auto simp: moved_refl moved_Suc)

lemma moved_length: "moved i s p \<Longrightarrow> length (snd p) - Suc 0 \<le> length s"
  by (auto simp: moved_def)

lemma moved_length_tl: "moved i (tl s) p \<Longrightarrow> length (snd p) - Suc 0 \<le> length s"
  by (drule moved_length) simp

lemmas skip_lengths [simp] =
  moved_length [OF skip_doubled_moved] moved_length [OF skip_quoted_moved]
  moved_length [OF skip_line_moved] moved_length_tl [OF skip_line_moved]
  moved_length_tl [OF skip_block_moved]

text \<open>Where the index starts does not matter.\<close>

lemma skip_doubled_shift:
  "skip_doubled q (k + i) s = (k + fst (skip_doubled q i s), snd (skip_doubled q i s))"
proof (induction q i s rule: skip_doubled.induct)
  case (2 q i c cs)
  then show ?case by (cases cs) simp_all
qed simp

lemma skip_quoted_shift:
  "skip_quoted nbe q (k + i) s = (k + fst (skip_quoted nbe q i s), snd (skip_quoted nbe q i s))"
proof (induction nbe q i s rule: skip_quoted.induct)
  case (2 nbe q i c cs)
  note unf = skip_quoted.simps(2) [of nbe q i c cs] skip_quoted.simps(2) [of nbe q "k + i" c cs]
  show ?case
  proof (cases cs)
    case Nil
    then show ?thesis by auto
  next
    case (Cons d ds)
    then show ?thesis using 2 by (auto simp: unf [unfolded Cons] simp del: skip_quoted.simps(2))
  qed
qed simp

lemma skip_line_shift: "skip_line (k + i) s = (k + fst (skip_line i s), snd (skip_line i s))"
  by (induction i s rule: skip_line.induct) auto

lemma skip_block_shift: "skip_block (k + i) s = (k + fst (skip_block i s), snd (skip_block i s))"
  by (induction i s rule: skip_block.induct) auto

section \<open>The scanners\<close>

fun starts_with :: "char \<Rightarrow> string \<Rightarrow> bool" where
  "starts_with q [] = False"
| "starts_with q (c # cs) = (c = q)"

function pg_scan :: "nat \<Rightarrow> string \<Rightarrow> nat option" where
  "pg_scan i [] = None"
| "pg_scan i (c # cs) =
     (if c = CHR ''?'' then Some i
      else if c = quote_char \<or> c = dquote then
        (let p = skip_doubled c (Suc i) cs in pg_scan (Suc (fst p)) (tl (snd p)))
      else if c = CHR ''-'' \<and> starts_with (CHR ''-'') cs then
        (let p = skip_line (i + 2) (tl cs) in pg_scan (Suc (fst p)) (tl (snd p)))
      else if c = CHR ''/'' \<and> starts_with (CHR ''*'') cs then
        (let p = skip_block (i + 2) (tl cs) in pg_scan (Suc (fst p)) (tl (snd p)))
      else pg_scan (Suc i) cs)"
  by pat_completeness auto
termination
  by (relation "measure (\<lambda>(i, s). length s)") (auto simp: less_Suc_eq_le)

function mysql_scan :: "bool \<Rightarrow> nat \<Rightarrow> string \<Rightarrow> nat option" where
  "mysql_scan nbe i [] = None"
| "mysql_scan nbe i (c # cs) =
     (if c = CHR ''?'' then Some i
      else if c = quote_char \<or> c = dquote then
        (let p = skip_quoted nbe c (Suc i) cs in mysql_scan nbe (Suc (fst p)) (tl (snd p)))
      else if c = backtick then
        (let p = skip_doubled c (Suc i) cs in mysql_scan nbe (Suc (fst p)) (tl (snd p)))
      else if c = CHR ''-'' \<and> starts_with (CHR ''-'') cs then
        (let p = skip_line (i + 2) (tl cs) in mysql_scan nbe (Suc (fst p)) (tl (snd p)))
      else if c = CHR ''#'' then
        (let p = skip_line i (c # cs) in mysql_scan nbe (Suc (fst p)) (tl (snd p)))
      else if c = CHR ''/'' \<and> starts_with (CHR ''*'') cs then
        (let p = skip_block (i + 2) (tl cs) in mysql_scan nbe (Suc (fst p)) (tl (snd p)))
      else mysql_scan nbe (Suc i) cs)"
  by pat_completeness auto
termination
  by (relation "measure (\<lambda>(nbe, i, s). length s)") (auto simp: less_Suc_eq_le)

definition find_next_postgresql_placeholder :: "string \<Rightarrow> nat \<Rightarrow> nat option" where
  "find_next_postgresql_placeholder sql start = pg_scan start (drop start sql)"

definition find_next_placeholder :: "string \<Rightarrow> nat \<Rightarrow> bool \<Rightarrow> nat option" where
  "find_next_placeholder sql start nbe = mysql_scan nbe start (drop start sql)"

text \<open>A position a scanner reports is a question mark of the text it was given.\<close>

definition hit :: "nat \<Rightarrow> string \<Rightarrow> nat \<Rightarrow> bool" where
  "hit i s p \<longleftrightarrow> (\<exists>u v. s = u @ CHR ''?'' # v \<and> p = i + length u)"

lemma hit_append: "hit (i + length w) s p \<Longrightarrow> hit i (w @ s) p"
proof -
  assume "hit (i + length w) s p"
  then obtain u v where "s = u @ CHR ''?'' # v" "p = i + length w + length u" by (auto simp: hit_def)
  then have "w @ s = (w @ u) @ CHR ''?'' # v" "p = i + length (w @ u)" by simp_all
  then show ?thesis unfolding hit_def by blast
qed

lemma hit_Suc: "hit (Suc i) s p \<Longrightarrow> hit i (c # s) p"
  using hit_append [of i "[c]" s p] by simp

lemma hit_moved:
  assumes "moved i s m" and "hit (Suc (fst m)) (tl (snd m)) p"
  shows "hit i s p"
proof -
  from assms(1) obtain w where w: "s = w @ snd m" "fst m = i + length w" by (auto simp: moved_def)
  from assms(2) have "tl (snd m) \<noteq> []" by (auto simp: hit_def)
  then obtain c where c: "snd m = c # tl (snd m)" by (cases "snd m") auto
  have "hit (i + length w) (c # tl (snd m)) p" using assms(2) w by (simp add: hit_Suc)
  then show ?thesis using w c hit_append by metis
qed

lemma hit_quoted:
  "moved (Suc i) cs m \<Longrightarrow> hit (Suc (fst m)) (tl (snd m)) p \<Longrightarrow> hit i (c # cs) p"
  by (intro hit_Suc) (rule hit_moved)

lemma hit_comment:
  "starts_with q cs \<Longrightarrow> moved (i + 2) (tl cs) m \<Longrightarrow> hit (Suc (fst m)) (tl (snd m)) p \<Longrightarrow>
   hit i (c # cs) p"
  by (cases cs) (auto intro: hit_Suc hit_moved)

lemma pg_scan_hit: "pg_scan i s = Some p \<Longrightarrow> hit i s p"
proof (induction i s rule: pg_scan.induct)
  case (2 i c cs)
  show ?case
  proof (cases "c = CHR ''?''")
    case True
    with 2 show ?thesis by (auto simp: hit_def intro!: exI [of _ "[]"])
  next
    case False
    then show ?thesis using 2
      by (auto simp: Let_def split: if_splits intro: hit_Suc
          hit_quoted [OF skip_doubled_moved] hit_comment [OF _ skip_line_moved]
          hit_comment [OF _ skip_block_moved])
  qed
qed simp

lemma mysql_scan_hit: "mysql_scan nbe i s = Some p \<Longrightarrow> hit i s p"
proof (induction nbe i s rule: mysql_scan.induct)
  case (2 nbe i c cs)
  show ?case
  proof (cases "c = CHR ''?''")
    case True
    with 2 show ?thesis by (auto simp: hit_def intro!: exI [of _ "[]"])
  next
    case False
    then show ?thesis using 2
      by (auto simp: Let_def split: if_splits intro: hit_Suc hit_quoted [OF skip_quoted_moved]
          hit_quoted [OF skip_doubled_moved] hit_comment [OF _ skip_line_moved]
          hit_comment [OF _ skip_block_moved] hit_moved [OF skip_line_moved])
  qed
qed simp

lemma pg_scan_shift: "pg_scan (k + i) s = map_option (\<lambda>p. k + p) (pg_scan i s)"
proof (induction i s rule: pg_scan.induct)
  case (2 i c cs)
  note shifts = skip_doubled_shift [of _ k "Suc i" cs, simplified]
    skip_line_shift [of k "i + 2" "tl cs", simplified] skip_block_shift [of k "i + 2" "tl cs", simplified]
  from 2 show ?case by (auto simp: Let_def shifts)
qed simp

lemma mysql_scan_shift: "mysql_scan nbe (k + i) s = map_option (\<lambda>p. k + p) (mysql_scan nbe i s)"
proof (induction nbe i s rule: mysql_scan.induct)
  case (2 nbe i c cs)
  note shifts = skip_doubled_shift [of _ k "Suc i" cs, simplified]
    skip_quoted_shift [of _ _ k "Suc i" cs, simplified] skip_line_shift [of k i "CHR ''#'' # cs"]
    skip_line_shift [of k "i + 2" "tl cs", simplified] skip_block_shift [of k "i + 2" "tl cs", simplified]
  from 2 show ?case by (auto simp: Let_def shifts simp del: skip_line.simps)
qed simp

text \<open>The offset of the first placeholder of a text.\<close>

definition pg_offset :: "string \<Rightarrow> nat option" where
  "pg_offset s = pg_scan 0 s"

definition mysql_offset :: "bool \<Rightarrow> string \<Rightarrow> nat option" where
  "mysql_offset nbe s = mysql_scan nbe 0 s"

lemma find_next_postgresql_offset:
  "find_next_postgresql_placeholder sql start = map_option (\<lambda>p. start + p) (pg_offset (drop start sql))"
  using pg_scan_shift [of start 0] by (simp add: find_next_postgresql_placeholder_def pg_offset_def)

lemma find_next_offset:
  "find_next_placeholder sql start nbe = map_option (\<lambda>p. start + p) (mysql_offset nbe (drop start sql))"
  using mysql_scan_shift [of nbe start 0] by (simp add: find_next_placeholder_def mysql_offset_def)

section \<open>The interface: segments between placeholders\<close>

function segments :: "(string \<Rightarrow> nat option) \<Rightarrow> string \<Rightarrow> string list" where
  "segments scan s =
     (case scan s of
        None \<Rightarrow> [s]
      | Some k \<Rightarrow> if s = [] then [s] else take k s # segments scan (drop (Suc k) s))"
  by pat_completeness auto
termination
  by (relation "measure (\<lambda>(scan, s). length s)") auto

declare segments.simps [simp del]

fun weave :: "string list \<Rightarrow> string list \<Rightarrow> string" where
  "weave [] vs = []"
| "weave (s # ss) [] = s"
| "weave (s # ss) (v # vs) = s @ v @ weave ss vs"

locale placeholder_scanner =
  fixes scan :: "string \<Rightarrow> nat option"
  assumes scan_at_mark: "scan s = Some k \<Longrightarrow> k < length s \<and> s ! k = CHR ''?''"
begin

lemma scan_split: "scan s = Some k \<Longrightarrow> s = take k s @ CHR ''?'' # drop (Suc k) s"
  using scan_at_mark [of s k] id_take_nth_drop [of k s] by simp

lemma scan_None: "scan s = None \<Longrightarrow> segments scan s = [s]"
  by (subst segments.simps) simp

lemma scan_Some: "scan s = Some k \<Longrightarrow> segments scan s = take k s # segments scan (drop (Suc k) s)"
  using scan_at_mark [of s k] by (subst segments.simps) auto

lemma segments_nonempty: "segments scan s \<noteq> []"
  by (cases "scan s") (simp_all add: scan_None scan_Some)

lemma scan_None_iff: "scan s = None \<longleftrightarrow> length (segments scan s) = 1"
proof (cases "scan s")
  case None
  then show ?thesis by (simp add: scan_None)
next
  case (Some k)
  then show ?thesis using segments_nonempty by (simp add: scan_Some)
qed

text \<open>Putting question marks back between the segments gives the text.\<close>

lemma weave_marks: "weave (segments scan s) (replicate (length (segments scan s) - 1) ''?'') = s"
proof (induction s rule: length_induct)
  case (1 s)
  show ?case
  proof (cases "scan s")
    case None
    then show ?thesis by (simp add: scan_None)
  next
    case (Some k)
    have "length (drop (Suc k) s) < length s" using scan_at_mark [OF Some] by (simp, linarith)
    with 1 have IH: "weave (segments scan (drop (Suc k) s))
        (replicate (length (segments scan (drop (Suc k) s)) - 1) ''?'') = drop (Suc k) s" by blast
    have "replicate (length (segments scan s) - 1) ''?''
        = ''?'' # replicate (length (segments scan (drop (Suc k) s)) - 1) ''?''"
      using segments_nonempty [of "drop (Suc k) s"]
      by (cases "segments scan (drop (Suc k) s)") (simp_all add: scan_Some [OF Some])
    then show ?thesis using IH scan_split [OF Some] by (simp add: scan_Some [OF Some])
  qed
qed

end

lemma hit_0: "hit 0 s p \<Longrightarrow> p < length s \<and> s ! p = CHR ''?''"
  by (auto simp: hit_def)

interpretation pg: placeholder_scanner pg_offset
  by unfold_locales (auto simp: pg_offset_def dest!: pg_scan_hit hit_0)

interpretation my: placeholder_scanner "mysql_offset nbe" for nbe
  by unfold_locales (auto simp: mysql_offset_def dest!: mysql_scan_hit hit_0)

section \<open>Replacing\<close>

text \<open>
  \<^verbatim>\<open>replace_postgresql_placeholders\<close>: the search restarts behind the replacement, so what is
  left to scan gets shorter in every round.
\<close>

function replace_pg_loop :: "string \<Rightarrow> nat \<Rightarrow> nat \<Rightarrow> string" where
  "replace_pg_loop sql search_pos index =
     (case find_next_postgresql_placeholder sql search_pos of
        None \<Rightarrow> sql
      | Some pos \<Rightarrow>
          let replacement = CHR ''$'' # nat_str index
          in replace_pg_loop (take pos sql @ replacement @ drop (Suc pos) sql)
               (pos + length replacement) (Suc index))"
  by pat_completeness auto
termination
proof (relation "measure (\<lambda>(sql, pos, index). length sql - pos)", goal_cases)
  case (2 sql start index p rep)
  then obtain k where k: "pg_offset (drop start sql) = Some k" "p = start + k"
    by (auto simp: find_next_postgresql_offset)
  from pg.scan_at_mark [OF k(1)] have "p < length sql" "start \<le> p" using k(2) by auto
  then show ?case using 2 by (simp add: min_def)
qed simp

declare replace_pg_loop.simps [simp del]

definition replace_postgresql_placeholders :: "string \<Rightarrow> string" where
  "replace_postgresql_placeholders sql = replace_pg_loop sql 0 1"

definition mismatch :: exn where
  "mismatch = Runtime_error ''mysql_async: placeholder count mismatch''"

definition replace_next_placeholder ::
  "string \<Rightarrow> nat \<Rightarrow> string \<Rightarrow> bool \<Rightarrow> (string \<times> nat) result" where
  "replace_next_placeholder sql search_pos val nbe =
     (case find_next_placeholder sql search_pos nbe of
        None \<Rightarrow> Inl mismatch
      | Some pos \<Rightarrow> Inr (take pos sql @ val @ drop (Suc pos) sql, pos + length val))"

fun replace_values :: "bool \<Rightarrow> string \<times> nat \<Rightarrow> string list \<Rightarrow> (string \<times> nat) result" where
  "replace_values nbe (sql, search_pos) [] = Inr (sql, search_pos)"
| "replace_values nbe (sql, search_pos) (v # vs) =
     rbind (replace_next_placeholder sql search_pos v nbe) (\<lambda>st. replace_values nbe st vs)"

definition format_values :: "bool \<Rightarrow> string \<Rightarrow> string list \<Rightarrow> string result" where
  "format_values nbe sql vs =
     rbind (replace_values nbe (sql, 0) vs) (\<lambda>(sql, search_pos).
       if find_next_placeholder sql search_pos nbe \<noteq> None then Inl mismatch else Inr sql)"

section \<open>What the loops compute\<close>

lemma take_drop_at: "n = length u \<Longrightarrow> take (n + k) (u @ t) = u @ take k t \<and> drop (n + k) (u @ t) = drop k t"
  by simp

lemma replace_pg_loop_eq:
  "replace_pg_loop (u @ t) (length u) i
   = u @ weave (segments pg_offset t) (placeholders PostgreSQL (i - 1) (length (segments pg_offset t) - 1))"
  if "i > 0"
  using that
proof (induction t arbitrary: u i rule: length_induct)
  case (1 t)
  show ?case
  proof (cases "pg_offset t")
    case None
    then show ?thesis
      by (subst replace_pg_loop.simps) (simp add: find_next_postgresql_offset pg.scan_None)
  next
    case (Some k)
    let ?v = "CHR ''$'' # nat_str i" and ?t = "drop (Suc k) t" and ?u = "u @ take k t @ CHR ''$'' # nat_str i"
    have lt: "length ?t < length t" and k: "k < length t" using pg.scan_at_mark [OF Some] by auto
    have "replace_pg_loop (u @ t) (length u) i = replace_pg_loop (?u @ ?t) (length ?u) (Suc i)"
      using k by (subst replace_pg_loop.simps)
        (simp add: find_next_postgresql_offset Some min_def add.assoc)
    also have "\<dots> = ?u @ weave (segments pg_offset ?t)
        (placeholders PostgreSQL (Suc i - 1) (length (segments pg_offset ?t) - 1))"
      using 1(1) lt by blast
    also have "\<dots> = u @ weave (segments pg_offset t)
        (placeholders PostgreSQL (i - 1) (length (segments pg_offset t) - 1))"
    proof -
      obtain n where "length (segments pg_offset ?t) = Suc n"
        using pg.segments_nonempty [of ?t] by (cases "segments pg_offset ?t") auto
      then show ?thesis using 1(2) by (simp add: pg.scan_Some [OF Some] placeholder_def)
    qed
    finally show ?thesis .
  qed
qed

lemma replace_values_eq:
  "rbind (replace_values nbe (u @ t, length u) vs) (\<lambda>(sql, pos).
     if find_next_placeholder sql pos nbe \<noteq> None then Inl mismatch else Inr sql)
   = (if length (segments (mysql_offset nbe) t) = Suc (length vs)
      then Inr (u @ weave (segments (mysql_offset nbe) t) vs) else Inl mismatch)"
proof (induction vs arbitrary: u t)
  case Nil
  show ?case
  proof (cases "mysql_offset nbe t")
    case None
    then show ?thesis by (simp add: find_next_offset my.scan_None)
  next
    case (Some k)
    then show ?thesis
      using my.scan_None_iff [of nbe t] by (simp add: find_next_offset)
  qed
next
  case (Cons v vs)
  show ?case
  proof (cases "mysql_offset nbe t")
    case None
    then show ?thesis by (simp add: find_next_offset my.scan_None replace_next_placeholder_def)
  next
    case (Some k)
    let ?u = "u @ take k t @ v" and ?t = "drop (Suc k) t"
    have k: "k < length t" using my.scan_at_mark [OF Some] by auto
    have "replace_next_placeholder (u @ t) (length u) v nbe = Inr (?u @ ?t, length ?u)"
      using k by (simp add: replace_next_placeholder_def find_next_offset Some min_def add.assoc)
    then show ?thesis
      using Cons [of ?u ?t] by (simp add: my.scan_Some [OF Some])
  qed
qed

section \<open>Text a scanner passes over\<close>

lemma skip_doubled_literal:
  "not_continued q rest \<Longrightarrow>
   skip_doubled q i (double_char q v @ q # rest) = (i + length (double_char q v), q # rest)"
proof (induction v arbitrary: i)
  case Nil
  then show ?case by (cases rest) auto
qed auto

lemma skip_quoted_doubled:
  "not_continued q rest \<Longrightarrow> skip_quoted True q i (double_char q v @ q # rest)
   = (i + length (double_char q v), q # rest)"
proof (induction v arbitrary: i)
  case Nil
  then show ?case by (cases rest) auto
qed auto

lemma skip_quoted_escaped:
  "not_continued quote_char rest \<Longrightarrow>
   skip_quoted False quote_char i (concat (map mysql_escape_char v) @ quote_char # rest)
   = (i + length (concat (map mysql_escape_char v)), quote_char # rest)"
proof (induction v arbitrary: i)
  case Nil
  then show ?case by (cases rest) auto
next
  case (Cons c v)
  then show ?case by (simp add: mysql_escape_char_def)
qed

lemma pg_scan_literal:
  "not_continued quote_char rest \<Longrightarrow>
   pg_scan i (sql_quoted v @ rest) = pg_scan (i + length (sql_quoted v)) rest"
  by (simp add: sql_quoted_def escape_sql_string_def Let_def skip_doubled_literal add.commute)

lemma mysql_scan_literal:
  "not_continued quote_char rest \<Longrightarrow>
   mysql_scan nbe i (escape_mysql_string v nbe @ rest) = mysql_scan nbe (i + length (escape_mysql_string v nbe)) rest"
  by (cases nbe) (simp_all add: escape_mysql_string_def Let_def skip_quoted_doubled
      skip_quoted_escaped add.commute)

text \<open>Text without any of the characters a scanner reacts to.\<close>

definition plain_char :: "char \<Rightarrow> bool" where
  "plain_char c \<longleftrightarrow> c \<notin> {CHR ''?'', quote_char, dquote, backtick, CHR ''-'', CHR ''#'', CHR ''/''}"

lemma pg_scan_plain: "list_all plain_char u \<Longrightarrow> pg_scan i (u @ s) = pg_scan (i + length u) s"
  by (induction u arbitrary: i) (auto simp: plain_char_def)

lemma mysql_scan_plain: "list_all plain_char u \<Longrightarrow> mysql_scan nbe i (u @ s) = mysql_scan nbe (i + length u) s"
  by (induction u arbitrary: i) (auto simp: plain_char_def)

lemma format_values_weave:
  "format_values nbe sql vs =
     (if length (segments (mysql_offset nbe) sql) = Suc (length vs)
      then Inr (weave (segments (mysql_offset nbe) sql) vs) else Inl mismatch)"
  using replace_values_eq [of nbe "[]" sql vs] by (simp add: format_values_def)

section \<open>Properties\<close>


text \<open>C12: \<^verbatim>\<open>format_query_args\<close> and \<^verbatim>\<open>format_struct_sql\<close> succeed exactly when there are as many values
  as placeholders, and then each value stands in place of its placeholder unchanged: no value
  is scanned for placeholders again, whatever it contains.\<close>

theorem format_values_exact:
  "format_values nbe sql vs =
     (if length (segments (mysql_offset nbe) sql) = Suc (length vs)
      then Inr (weave (segments (mysql_offset nbe) sql) vs) else Inl mismatch)"
  by (rule format_values_weave)

text \<open>a question mark inside a string value that a builder wrote into the statement is not
  a placeholder: the PostgreSQL scanner continues right behind the literal.\<close>

theorem pg_value_not_scanned:
  assumes "list_all plain_char u" and "not_continued quote_char rest"
  shows "pg_offset (u @ sql_quoted v @ rest)
    = map_option (\<lambda>p. length u + length (sql_quoted v) + p) (pg_offset rest)"
proof -
  have "pg_offset (u @ sql_quoted v @ rest) = pg_scan (length u + length (sql_quoted v)) rest"
    using assms by (simp only: pg_offset_def pg_scan_plain pg_scan_literal add_0)
  then show ?thesis using pg_scan_shift [of "length u + length (sql_quoted v)" 0 rest]
    by (simp add: pg_offset_def)
qed

theorem pg_value_not_scanned_witness:
  "pg_offset (''name='' @ sql_quoted ''who?'' @ '')'') = None"
proof -
  have "pg_offset '')'' = None" by (simp add: pg_offset_def)
  then show ?thesis
    using pg_value_not_scanned [of "''name=''" "'')''" "''who?''"] by (simp add: plain_char_def)
qed

text \<open>the same for the asynchronous MySQL client and the literals it writes itself, in both
  escaping modes.\<close>

theorem mysql_value_not_scanned:
  assumes "list_all plain_char u" and "not_continued quote_char rest"
  shows "mysql_offset nbe (u @ escape_mysql_string v nbe @ rest)
    = map_option (\<lambda>p. length u + length (escape_mysql_string v nbe) + p) (mysql_offset nbe rest)"
proof -
  have "mysql_offset nbe (u @ escape_mysql_string v nbe @ rest)
      = mysql_scan nbe (length u + length (escape_mysql_string v nbe)) rest"
    using assms by (simp only: mysql_offset_def mysql_scan_plain mysql_scan_literal add_0)
  then show ?thesis using mysql_scan_shift [of nbe "length u + length (escape_mysql_string v nbe)" 0 rest]
    by (simp add: mysql_offset_def)
qed

theorem mysql_value_not_scanned_witness:
  "mysql_offset False (''name='' @ escape_mysql_string [quote_char, CHR ''?''] False @ '')'') = None"
proof -
  have "mysql_offset False '')'' = None" by (simp add: mysql_offset_def)
  then show ?thesis
    using mysql_value_not_scanned [of "''name=''" "'')''" False "[quote_char, CHR ''?'']"]
    by (simp add: plain_char_def)
qed

end
