(* ===== verification/Where_Conditions.thy ===== *)
theory Where_Conditions
  imports Sql_Generate
begin

text \<open>
  The condition language of \<^verbatim>\<open>ormpp/query.hpp\<close>: columns, comparison operators, \<^verbatim>\<open>in\<close>,
  \<^verbatim>\<open>between\<close>, \<^verbatim>\<open>like\<close>, the logical connectives and \<^verbatim>\<open>where_condition::to_sql\<close>; aggregates,
  joins, ordering and grouping clauses; and the range partitions with their validity check.
  The C++ value types are erased to a \<open>sql_val\<close>; a floating-point value is represented by the
  decimal text \<^verbatim>\<open>std::to_string\<close> prints for it.
\<close>

section \<open>Values and columns\<close>

datatype sql_val = VInt int | VEnum int | VFloat string | VStr string | VTuple sql_val

record col_info =
  ci_name :: string
  ci_class :: string
  ci_sort_order :: string

record where_condition =
  wc_left :: string
  wc_op :: string
  wc_right :: string
  wc_need_quote :: bool

text \<open>The aggregate initialisation \<^verbatim>\<open>where_condition{l, op, r}\<close>.\<close>

abbreviation wc3 :: "string \<Rightarrow> string \<Rightarrow> string \<Rightarrow> where_condition" where
  "wc3 l p r \<equiv> \<lparr>wc_left = l, wc_op = p, wc_right = r, wc_need_quote = False\<rparr>"

definition to_sql :: "where_condition \<Rightarrow> string" where
  "to_sql w =
     ''('' @ wc_left w @ wc_op w @
     (if wc_need_quote w then [quote_char] @ escape_sql_string (wc_right w) @ [quote_char]
      else wc_right w) @ '')''"

definition qualified_field_name :: "string \<Rightarrow> string \<Rightarrow> string" where
  "qualified_field_name class_name name =
     (if class_name \<noteq> [] then class_name @ ''.'' else []) @ name"

definition qualified_name :: "col_info \<Rightarrow> string" where
  "qualified_name c = qualified_field_name (ci_class c) (ci_name c)"

definition desc :: "col_info \<Rightarrow> col_info" where
  "desc c = c\<lparr>ci_sort_order := '' DESC ''\<rparr>"

definition asc :: "col_info \<Rightarrow> col_info" where
  "asc c = c\<lparr>ci_sort_order := '' ASC ''\<rparr>"

definition param :: "col_info \<Rightarrow> where_condition" where
  "param c = wc3 (ci_class c @ ''.'' @ ci_name c) '' = '' ''?  ''"

definition null_cond :: "col_info \<Rightarrow> where_condition" where
  "null_cond c = wc3 (qualified_name c) '' IS '' ''NULL''"

definition not_null_cond :: "col_info \<Rightarrow> where_condition" where
  "not_null_cond c = wc3 (qualified_name c) '' IS '' ''NOT NULL''"

text \<open>\<^verbatim>\<open>col_info::to_string\<close>; text is quoted and escaped (\<^verbatim>\<open>format_string\<close>).\<close>

fun val_to_string :: "sql_val \<Rightarrow> string" where
  "val_to_string (VEnum i) = int_str i"
| "val_to_string (VInt i) = int_str i"
| "val_to_string (VFloat t) = t"
| "val_to_string (VStr s) = sql_quoted s"
| "val_to_string (VTuple v) = val_to_string v"

definition between :: "col_info \<Rightarrow> sql_val \<Rightarrow> sql_val \<Rightarrow> where_condition" where
  "between c l r = wc3 (qualified_name c @ '' between '' @ val_to_string l) '' and '' (val_to_string r)"

definition like_cond :: "col_info \<Rightarrow> string \<Rightarrow> where_condition" where
  "like_cond c s = wc3 (qualified_name c) '' like '' (sql_quoted s)"

text \<open>\<^verbatim>\<open>in_value_to_string\<close> unwraps a tuple of one field.\<close>

fun in_value_to_string :: "sql_val \<Rightarrow> string" where
  "in_value_to_string (VTuple v) = in_value_to_string v"
| "in_value_to_string v = val_to_string v"

definition empty_in_condition :: "string \<Rightarrow> where_condition" where
  "empty_in_condition s = (if s = [] then wc3 ''1'' ''='' ''0'' else wc3 ''1'' ''='' ''1'')"

definition make_in_condition :: "col_info \<Rightarrow> string \<Rightarrow> string \<Rightarrow> where_condition" where
  "make_in_condition c s mid =
     (let left = qualified_name c; left = (if s \<noteq> [] then left @ '' '' @ s else left)
      in wc3 (left @ '' in('') mid '')'')"

text \<open>\<^verbatim>\<open>in_impl\<close> over the values of its pack or range: each is appended with a comma, the last
  comma is dropped.\<close>

definition in_impl :: "col_info \<Rightarrow> string \<Rightarrow> sql_val list \<Rightarrow> where_condition" where
  "in_impl c s vals =
     (let mid = comma_terminated (map in_value_to_string vals)
      in if mid = [] then empty_in_condition s else make_in_condition c s (butlast mid))"

definition in_cond :: "col_info \<Rightarrow> sql_val list \<Rightarrow> where_condition" where
  "in_cond c vals = in_impl c [] vals"

definition not_in_cond :: "col_info \<Rightarrow> sql_val list \<Rightarrow> where_condition" where
  "not_in_cond c vals = in_impl c ''not'' vals"

section \<open>Comparisons and connectives\<close>

definition or_cond :: "where_condition \<Rightarrow> where_condition \<Rightarrow> where_condition" where
  "or_cond lhs rhs = wc3 (to_sql lhs) '' OR '' (to_sql rhs)"

definition and_cond :: "where_condition \<Rightarrow> where_condition \<Rightarrow> where_condition" where
  "and_cond lhs rhs = wc3 (to_sql lhs) '' AND '' (to_sql rhs)"

text \<open>
  \<^verbatim>\<open>build_where\<close>: numbers are printed; a text equal to the parameter token \<^verbatim>\<open>"?  "\<close> is passed
  through; other text is marked for quoting.
\<close>

definition build_where :: "string \<Rightarrow> string \<Rightarrow> sql_val \<Rightarrow> string \<Rightarrow> where_condition" where
  "build_where class_name field val op =
     (let name = (if class_name = [] then field else class_name @ ''.'' @ field)
      in case val of
           VEnum i \<Rightarrow> wc3 name op (int_str i)
         | VInt i \<Rightarrow> wc3 name op (int_str i)
         | VFloat t \<Rightarrow> wc3 name op t
         | VStr s \<Rightarrow> if s = ''?  '' then wc3 name op s
                     else \<lparr>wc_left = name, wc_op = op, wc_right = s, wc_need_quote = True\<rparr>
         | VTuple v \<Rightarrow> wc3 name op (val_to_string v))"

datatype cmp_op = Eq | Ge | Le | Ne | Gt | Lt

fun cmp_text :: "cmp_op \<Rightarrow> string" where
  "cmp_text Eq = ''=''"
| "cmp_text Ge = ''>=''"
| "cmp_text Le = ''<=''"
| "cmp_text Ne = ''!=''"
| "cmp_text Gt = ''>''"
| "cmp_text Lt = ''<''"

definition compare_col :: "cmp_op \<Rightarrow> col_info \<Rightarrow> sql_val \<Rightarrow> where_condition" where
  "compare_col p field val = build_where (ci_class field) (ci_name field) val (cmp_text p)"

record aggregate_field =
  ag_name :: string
  ag_class :: string

definition compare_aggregate :: "cmp_op \<Rightarrow> aggregate_field \<Rightarrow> sql_val \<Rightarrow> where_condition" where
  "compare_aggregate p field val = build_where (ag_class field) (ag_name field) val (cmp_text p)"

section \<open>Aggregates, joins, ordering, grouping\<close>

definition count_all :: aggregate_field where
  "count_all = \<lparr>ag_name = ''COUNT(*)'', ag_class = []\<rparr>"

definition build_aggregate_field :: "string \<Rightarrow> col_info \<Rightarrow> aggregate_field" where
  "build_aggregate_field pre field =
     \<lparr>ag_name = pre @ ci_class field @ ''.'' @ ci_name field @ '')'', ag_class = []\<rparr>"

datatype aggregate = Count | CountDistinct | Sum | Avg | Min | Max

fun aggregate_of :: "aggregate \<Rightarrow> col_info \<Rightarrow> aggregate_field" where
  "aggregate_of Count f = build_aggregate_field ''COUNT('' f"
| "aggregate_of CountDistinct f = build_aggregate_field ''COUNT(DISTINCT '' f"
| "aggregate_of Sum f = build_aggregate_field ''SUM('' f"
| "aggregate_of Avg f = build_aggregate_field ''AVG('' f"
| "aggregate_of Min f = build_aggregate_field ''MIN('' f"
| "aggregate_of Max f = build_aggregate_field ''MAX('' f"

definition join_impl :: "struct_meta \<Rightarrow> string \<Rightarrow> col_info \<Rightarrow> col_info \<Rightarrow> string" where
  "join_impl T pre field1 field2 =
     pre @ ''join '' @
     (if get_short_struct_name T = ci_class field1 then ci_class field2 else ci_class field1) @
     '' ON '' @ ci_class field1 @ ''.'' @ ci_name field1 @ ''='' @
     ci_class field2 @ ''.'' @ ci_name field2 @ '' ''"

definition order_by_sql :: "col_info list \<Rightarrow> string" where
  "order_by_sql fs =
     butlast ('' ORDER BY '' @ comma_terminated (map (\<lambda>f. qualified_name f @ ci_sort_order f) fs))"

definition select_all_fields_sql :: "struct_meta \<Rightarrow> string" where
  "select_all_fields_sql T =
     (let sql = comma_terminated (map (\<lambda>n. get_short_struct_name T @ ''.'' @ n) (member_names T))
      in if sql \<noteq> [] then butlast sql else sql)"

definition append_group_by_field :: "string \<Rightarrow> col_info \<Rightarrow> string" where
  "append_group_by_field sql f = sql @ qualified_name f @ '',''"

section \<open>Range partitions\<close>

record range_partition_desc =
  rp_name :: string
  rp_from :: string
  rp_to :: string
  rp_maxvalue :: bool

datatype partition_bound = RawSql string | Bound sql_val

fun partition_sql_literal :: "partition_bound \<Rightarrow> string" where
  "partition_sql_literal (RawSql s) = s"
| "partition_sql_literal (Bound v) = val_to_string v"

definition range_partition :: "string \<Rightarrow> partition_bound \<Rightarrow> partition_bound \<Rightarrow> range_partition_desc" where
  "range_partition name from_b to_b =
     \<lparr>rp_name = name, rp_from = partition_sql_literal from_b, rp_to = partition_sql_literal to_b,
      rp_maxvalue = False\<rparr>"

definition maxvalue_partition :: "string \<Rightarrow> partition_bound \<Rightarrow> range_partition_desc" where
  "maxvalue_partition name from_b =
     \<lparr>rp_name = name, rp_from = partition_sql_literal from_b, rp_to = ''MAXVALUE'', rp_maxvalue = True\<rparr>"

definition is_sql_identifier_char :: "char \<Rightarrow> bool" where
  "is_sql_identifier_char c \<longleftrightarrow> islower_c c \<or> isupper_c c \<or> isdigit_c c \<or> c = CHR ''_''"

definition is_valid_sql_identifier :: "string \<Rightarrow> bool" where
  "is_valid_sql_identifier name =
     (case name of [] \<Rightarrow> False
      | c # _ \<Rightarrow> (islower_c c \<or> isupper_c c \<or> c = CHR ''_'') \<and> list_all is_sql_identifier_char name)"

definition is_valid_partition :: "range_partition_desc \<Rightarrow> bool" where
  "is_valid_partition p \<longleftrightarrow>
     is_valid_sql_identifier (rp_name p) \<and> rp_from p \<noteq> [] \<and> (rp_to p \<noteq> [] \<or> rp_maxvalue p)"

definition partition_child_table_name :: "string \<Rightarrow> string \<Rightarrow> string" where
  "partition_child_table_name table_name partition_name = table_name @ ''_'' @ partition_name"

definition partition_range_predicate :: "string \<Rightarrow> range_partition_desc \<Rightarrow> string" where
  "partition_range_predicate field p =
     field @ ''>='' @ rp_from p @
     (if \<not> rp_maxvalue p then '' AND '' @ field @ ''<'' @ rp_to p else [])"

definition mysql_partition_definition :: "range_partition_desc \<Rightarrow> string" where
  "mysql_partition_definition p =
     ''PARTITION '' @ rp_name p @ '' VALUES LESS THAN ('' @
     (if rp_maxvalue p then ''MAXVALUE'' else rp_to p) @ '')''"

definition postgresql_partition_definition_sql :: "string \<Rightarrow> range_partition_desc \<Rightarrow> string" where
  "postgresql_partition_definition_sql table_name p =
     ''CREATE TABLE IF NOT EXISTS '' @ partition_child_table_name table_name (rp_name p) @
     '' PARTITION OF '' @ table_name @ '' FOR VALUES FROM ('' @ rp_from p @ '') TO ('' @
     (if rp_maxvalue p then ''MAXVALUE'' else rp_to p) @ '')''"

definition sqlite_partition_index_sql :: "string \<Rightarrow> string \<Rightarrow> string" where
  "sqlite_partition_index_sql table_name field =
     ''CREATE INDEX IF NOT EXISTS idx_'' @ table_name @ ''_'' @ field @ ''_partition ON '' @
     table_name @ ''('' @ field @ '')''"

section \<open>Reading a condition\<close>

text \<open>
  A reader that follows quotes and parentheses: inside a quoted literal nothing counts but the
  next quote, outside of it parentheses are counted.  \<open>None\<close> is a closing parenthesis too many.
\<close>

fun scan_parens :: "bool \<Rightarrow> nat \<Rightarrow> string \<Rightarrow> (bool \<times> nat) option" where
  "scan_parens q d [] = Some (q, d)"
| "scan_parens q d (c # cs) =
     (if c = quote_char then scan_parens (\<not> q) d cs
      else if q then scan_parens q d cs
      else if c = CHR ''('' then scan_parens q (Suc d) cs
      else if c = CHR '')'' then (case d of 0 \<Rightarrow> None | Suc n \<Rightarrow> scan_parens q n cs)
      else scan_parens q d cs)"

definition balanced :: "string \<Rightarrow> bool" where
  "balanced s \<longleftrightarrow> (\<forall>d. scan_parens False d s = Some (False, d))"

lemma scan_parens_append:
  "scan_parens q d (u @ v) =
     (case scan_parens q d u of None \<Rightarrow> None | Some (q', d') \<Rightarrow> scan_parens q' d' v)"
  by (induction q d u rule: scan_parens.induct) (auto split: nat.splits)

named_theorems balance \<open>texts with balanced parentheses and closed quotes\<close>

lemma balanced_Nil [balance]: "balanced []"
  by (simp add: balanced_def)

lemma balanced_append [balance]: "balanced u \<Longrightarrow> balanced v \<Longrightarrow> balanced (u @ v)"
  by (simp add: balanced_def scan_parens_append)

lemma balanced_paren [balance]: "balanced u \<Longrightarrow> balanced (''('' @ u @ '')'')"
  by (simp add: balanced_def scan_parens_append)

definition calm :: "string \<Rightarrow> bool" where
  "calm s \<longleftrightarrow> list_all (\<lambda>c. c \<noteq> quote_char \<and> c \<noteq> CHR ''('' \<and> c \<noteq> CHR '')'') s"

lemma balanced_calm [balance]: "calm s \<Longrightarrow> balanced s"
proof -
  have "list_all (\<lambda>c. c \<noteq> quote_char \<and> c \<noteq> CHR ''('' \<and> c \<noteq> CHR '')'') s \<Longrightarrow>
      scan_parens False d s = Some (False, d)" for d
    by (induction s) auto
  then show "calm s \<Longrightarrow> balanced s" by (simp add: calm_def balanced_def)
qed

lemma scan_parens_inside: "scan_parens True d (double_char quote_char s) = Some (True, d)"
  by (induction s) auto

lemma balanced_quoted [balance]: "balanced (sql_quoted s)"
  by (simp add: balanced_def sql_quoted_def escape_sql_string_def scan_parens_append scan_parens_inside)

lemma calm_int_str: "calm (int_str i)"
proof -
  have "c \<in> set (int_str i) \<Longrightarrow> c \<noteq> quote_char \<and> c \<noteq> CHR ''('' \<and> c \<noteq> CHR '')''" for c
    by (auto dest!: int_str_chars simp: isdigit_c_def)
  then show ?thesis by (auto simp: calm_def list_all_iff)
qed

lemma calm_append: "calm (u @ v) \<longleftrightarrow> calm u \<and> calm v"
  by (simp add: calm_def)

text \<open>A value whose number text, if it has one, is calm.\<close>

fun sane_val :: "sql_val \<Rightarrow> bool" where
  "sane_val (VFloat t) = calm t"
| "sane_val (VTuple v) = sane_val v"
| "sane_val _ = True"

lemma balanced_val [balance]: "sane_val v \<Longrightarrow> balanced (val_to_string v)"
  by (induction v) (auto intro: balance simp: calm_int_str)

lemma in_value_to_string_eq: "in_value_to_string = val_to_string"
proof
  show "in_value_to_string v = val_to_string v" for v by (induction v) auto
qed

lemma balanced_comma_sep [balance]: "(\<And>x. x \<in> set xs \<Longrightarrow> balanced x) \<Longrightarrow> balanced (comma_sep xs)"
proof (induction xs rule: comma_sep.induct)
  case (3 x y ys)
  have "balanced '',''" by (intro balanced_calm) (simp add: calm_def)
  moreover have "balanced x" "balanced (comma_sep (y # ys))" using 3 by simp_all
  ultimately have "balanced (x @ '','' @ comma_sep (y # ys))"
    by (intro balanced_append)
  then show ?case by simp
qed (auto intro: balanced_Nil)

text \<open>The conditions a user can write with the operators of the library.\<close>

datatype cond =
    Cmp cmp_op col_info sql_val
  | In col_info "sql_val list"
  | NotIn col_info "sql_val list"
  | IsNull col_info
  | IsNotNull col_info
  | Between col_info sql_val sql_val
  | Like col_info string
  | Param col_info
  | And cond cond
  | Or cond cond

fun wc_of :: "cond \<Rightarrow> where_condition" where
  "wc_of (Cmp p c v) = compare_col p c v"
| "wc_of (In c vs) = in_cond c vs"
| "wc_of (NotIn c vs) = not_in_cond c vs"
| "wc_of (IsNull c) = null_cond c"
| "wc_of (IsNotNull c) = not_null_cond c"
| "wc_of (Between c l r) = between c l r"
| "wc_of (Like c s) = like_cond c s"
| "wc_of (Param c) = param c"
| "wc_of (And a b) = and_cond (wc_of a) (wc_of b)"
| "wc_of (Or a b) = or_cond (wc_of a) (wc_of b)"

definition calm_col :: "col_info \<Rightarrow> bool" where
  "calm_col c \<longleftrightarrow> calm (ci_class c) \<and> calm (ci_name c)"

fun well_named :: "cond \<Rightarrow> bool" where
  "well_named (Cmp p c v) \<longleftrightarrow> calm_col c \<and> sane_val v"
| "well_named (In c vs) \<longleftrightarrow> calm_col c \<and> list_all sane_val vs"
| "well_named (NotIn c vs) \<longleftrightarrow> calm_col c \<and> list_all sane_val vs"
| "well_named (IsNull c) \<longleftrightarrow> calm_col c"
| "well_named (IsNotNull c) \<longleftrightarrow> calm_col c"
| "well_named (Between c l r) \<longleftrightarrow> calm_col c \<and> sane_val l \<and> sane_val r"
| "well_named (Like c s) \<longleftrightarrow> calm_col c"
| "well_named (Param c) \<longleftrightarrow> calm_col c"
| "well_named (And a b) \<longleftrightarrow> well_named a \<and> well_named b"
| "well_named (Or a b) \<longleftrightarrow> well_named a \<and> well_named b"

lemma calm_qualified: "calm_col c \<Longrightarrow> calm (qualified_name c)"
  by (simp add: calm_col_def qualified_name_def qualified_field_name_def calm_append)
    (simp add: calm_def)

lemma to_sql_wc3: "to_sql (wc3 l p r) = ''('' @ (l @ p @ r) @ '')''"
  by (simp add: to_sql_def)

lemma balanced_wc3: "balanced l \<Longrightarrow> calm p \<Longrightarrow> balanced r \<Longrightarrow> balanced (to_sql (wc3 l p r))"
  unfolding to_sql_wc3 by (intro balanced_paren balanced_append) (auto intro: balanced_calm)

lemma calm_cmp_text: "calm (cmp_text p)"
  by (cases p) (simp_all add: calm_def)

lemma in_impl_cases:
  "in_impl c s vals =
     (if comma_terminated (map val_to_string vals) = [] then empty_in_condition s
      else make_in_condition c s (comma_sep (map val_to_string vals)))"
  by (simp add: in_impl_def Let_def in_value_to_string_eq butlast_comma_terminated)

lemma to_sql_make_in:
  "to_sql (make_in_condition c s mid) =
     ''('' @ (qualified_name c @ (if s \<noteq> [] then '' '' @ s else []) @ '' in'' @ (''('' @ mid @ '')'')) @ '')''"
  by (simp add: make_in_condition_def to_sql_wc3 Let_def)

lemma balanced_in_impl:
  assumes "calm_col c" "list_all sane_val vs" "calm s"
  shows "balanced (to_sql (in_impl c s vs))"
proof (cases "comma_terminated (map val_to_string vs) = []")
  case True
  then show ?thesis unfolding in_impl_cases
    by (auto simp: empty_in_condition_def intro!: balanced_wc3 balanced_calm[of "[_]"]) (simp_all add: calm_def)
next
  case False
  have sp: "calm '' ''" "calm '' in''" by (simp_all add: calm_def)
  have "balanced (comma_sep (map val_to_string vs))"
    using assms by (auto intro!: balanced_comma_sep balanced_val simp: list_all_iff)
  with False assms show ?thesis
    unfolding in_impl_cases if_not_P [OF False] to_sql_make_in
    by (intro balanced_paren balanced_append)
      (auto intro!: balanced_calm sp simp: calm_qualified calm_append sp simp del: append.simps)
qed

lemma balanced_build_where:
  assumes "calm_col c" "sane_val v"
  shows "balanced (to_sql (compare_col p c v))"
proof -
  let ?name = "if ci_class c = [] then ci_name c else ci_class c @ ''.'' @ ci_name c"
  have n: "calm ?name" using assms(1) by (auto simp: calm_col_def calm_def)
  have q: "calm ''?  ''" by (simp add: calm_def)
  have lit: "to_sql \<lparr>wc_left = l, wc_op = t, wc_right = s, wc_need_quote = True\<rparr> =
      ''('' @ (l @ t @ sql_quoted s) @ '')''" for l t s
    by (simp add: to_sql_def sql_quoted_def)
  have "balanced (to_sql \<lparr>wc_left = ?name, wc_op = cmp_text p, wc_right = s, wc_need_quote = True\<rparr>)" for s
    unfolding lit by (intro balanced_paren balanced_append balanced_quoted balanced_calm n calm_cmp_text)
  moreover have "balanced r \<Longrightarrow> balanced (to_sql (wc3 ?name (cmp_text p) r))" for r
    by (rule balanced_wc3 [OF balanced_calm [OF n] calm_cmp_text])
  ultimately show ?thesis
    using assms(2) balanced_calm [OF q] balanced_val [OF assms(2)]
    by (cases v) (simp_all add: compare_col_def build_where_def Let_def)
qed

lemma balanced_wc_of: "well_named c \<Longrightarrow> balanced (to_sql (wc_of c))"
proof (induction c)
  case (And a b)
  then show ?case by (auto simp: and_cond_def intro!: balanced_wc3) (simp add: calm_def)
next
  case (Or a b)
  then show ?case by (auto simp: or_cond_def intro!: balanced_wc3) (simp add: calm_def)
next
  case (Between c l r)
  have "calm '' between ''" "calm '' and ''" by (simp_all add: calm_def)
  with Between show ?case
    by (auto simp: between_def calm_qualified simp del: append.simps
        intro!: balanced_wc3 balanced_append balanced_val intro: balanced_calm)
next
  case (Param c)
  then have "calm (ci_class c @ ''.'' @ ci_name c)" by (simp add: calm_col_def calm_def)
  moreover have "calm '' = ''" "calm ''?  ''" by (simp_all add: calm_def)
  ultimately show ?case
    by (auto simp: param_def simp del: append.simps intro!: balanced_wc3 intro: balanced_calm)
next
  case (In c vs)
  then show ?case by (auto simp: in_cond_def intro!: balanced_in_impl) (simp add: calm_def)
next
  case (NotIn c vs)
  then show ?case by (auto simp: not_in_cond_def intro!: balanced_in_impl) (simp add: calm_def)
next
  case (Like c s)
  have "calm '' like ''" by (simp add: calm_def)
  with Like show ?case
    by (auto simp: like_cond_def calm_qualified intro!: balanced_wc3 balanced_quoted
        intro: balanced_calm)
next
  case (IsNull c)
  then show ?case
    unfolding wc_of.simps null_cond_def
    by (intro balanced_wc3 balanced_calm) (simp_all add: calm_qualified, simp_all add: calm_def)
next
  case (IsNotNull c)
  then show ?case
    unfolding wc_of.simps not_null_cond_def
    by (intro balanced_wc3 balanced_calm) (simp_all add: calm_qualified, simp_all add: calm_def)
next
  case (Cmp p c v)
  then show ?case by (simp add: balanced_build_where)
qed

section \<open>The structure of a condition does not depend on its texts\<close>

text \<open>
  \<open>skeleton\<close> reads a statement the way the SQL standard does and drops the content of every
  quoted literal; what is left is the statement's structure.
\<close>

fun skeleton :: "bool \<Rightarrow> string \<Rightarrow> string" where
  "skeleton _ [] = []"
| "skeleton False (c # cs) = c # skeleton (c = quote_char) cs"
| "skeleton True [c] = (if c = quote_char then [c] else [])"
| "skeleton True (c # d # cs) =
     (if c = quote_char then (if d = quote_char then skeleton True cs else c # skeleton False (d # cs))
      else skeleton True (d # cs))"

text \<open>\<open>reads u t\<close>: the text \<open>u\<close>, followed by anything but a quote, has the structure \<open>t\<close>.\<close>

definition reads :: "string \<Rightarrow> string \<Rightarrow> bool" where
  "reads u t \<longleftrightarrow> (\<forall>rest. not_continued quote_char rest \<longrightarrow> skeleton False (u @ rest) = t @ skeleton False rest)"

lemma reads_append:
  "reads u t \<Longrightarrow> reads v t' \<Longrightarrow> v \<noteq> [] \<Longrightarrow> hd v \<noteq> quote_char \<Longrightarrow> reads (u @ v) (t @ t')"
  by (cases v) (simp_all add: reads_def not_continued_def)

lemma skeleton_calm: "calm u \<Longrightarrow> skeleton False (u @ rest) = u @ skeleton False rest"
  by (induction u) (simp_all add: calm_def)

lemma reads_calm_append: "calm u \<Longrightarrow> reads v t \<Longrightarrow> reads (u @ v) (u @ t)"
  by (simp add: reads_def skeleton_calm)

lemma reads_calm: "calm u \<Longrightarrow> reads u u"
  by (simp add: reads_def skeleton_calm)

lemma reads_paren: "reads u t \<Longrightarrow> reads (''('' @ u @ '')'') (''('' @ t @ '')'')"
  by (simp add: reads_def not_continued_def)

lemma skeleton_literal:
  "not_continued quote_char rest \<Longrightarrow>
   skeleton True (double_char quote_char s @ quote_char # rest) = quote_char # skeleton False rest"
proof (induction s)
  case Nil
  then show ?case by (cases rest) (simp_all add: not_continued_def)
next
  case (Cons c cs)
  then show ?case
    by (cases "double_char quote_char cs @ quote_char # rest") simp_all
qed

lemma reads_quoted: "reads (sql_quoted s) [quote_char, quote_char]"
  by (simp add: reads_def sql_quoted_def escape_sql_string_def skeleton_literal)

lemma reads_comma_sep:
  "list_all2 reads xs ts \<Longrightarrow> reads (comma_sep xs) (comma_sep ts)"
proof (induction xs arbitrary: ts rule: comma_sep.induct)
  case (3 x y ys)
  then obtain t u us where ts: "ts = t # u # us" and r: "reads x t"
    and rest: "list_all2 reads (y # ys) (u # us)"
    by (auto simp: list_all2_Cons1)
  have "reads (x @ '','' @ comma_sep (y # ys)) (t @ '','' @ comma_sep (u # us))"
    by (intro reads_append r reads_calm_append "3.IH" rest) (simp_all add: calm_def)
  then show ?case by (simp add: ts)
qed (auto simp: list_all2_Cons1 reads_def)

text \<open>\<open>alike u v\<close>: the two texts have the same structure wherever they stand.\<close>

definition alike :: "string \<Rightarrow> string \<Rightarrow> bool" where
  "alike u v \<longleftrightarrow> (\<exists>t. reads u t \<and> reads v t)"

named_theorems alike \<open>texts that differ only inside literals\<close>

lemma alike_calm [alike]: "calm u \<Longrightarrow> alike u u"
  unfolding alike_def by (blast intro: reads_calm)

lemma alike_quoted [alike]: "alike (sql_quoted s) (sql_quoted s')"
  unfolding alike_def by (blast intro: reads_quoted)

lemma alike_paren [alike]: "alike u v \<Longrightarrow> alike (''('' @ u @ '')'') (''('' @ v @ '')'')"
  unfolding alike_def by (blast intro: reads_paren)

lemma alike_calm_append [alike]: "calm u \<Longrightarrow> alike v w \<Longrightarrow> alike (u @ v) (u @ w)"
  unfolding alike_def by (blast intro: reads_calm_append)

lemma alike_append:
  "alike u v \<Longrightarrow> alike u' v' \<Longrightarrow> u' \<noteq> [] \<Longrightarrow> hd u' \<noteq> quote_char \<Longrightarrow>
   v' \<noteq> [] \<Longrightarrow> hd v' \<noteq> quote_char \<Longrightarrow> alike (u @ u') (v @ v')"
  unfolding alike_def by (blast intro: reads_append)

lemma alike_comma_sep [alike]: "list_all2 alike us vs \<Longrightarrow> alike (comma_sep us) (comma_sep vs)"
proof -
  assume a: "list_all2 alike us vs"
  then have "\<exists>ts. list_all2 reads us ts \<and> list_all2 reads vs ts"
    by (induction) (auto simp: alike_def)
  then show ?thesis unfolding alike_def by (blast intro: reads_comma_sep)
qed

lemma alike_skeleton: "alike u v \<Longrightarrow> skeleton False u = skeleton False v"
proof -
  assume "alike u v"
  then obtain t where "reads u t" "reads v t" by (auto simp: alike_def)
  then have "skeleton False (u @ []) = skeleton False (v @ [])"
    unfolding reads_def by (metis not_continued_simps(1))
  then show ?thesis by simp
qed

text \<open>The same condition with every quoted text emptied.\<close>

fun blank_val :: "sql_val \<Rightarrow> sql_val" where
  "blank_val (VStr s) = VStr []"
| "blank_val (VTuple v) = VTuple (blank_val v)"
| "blank_val v = v"

fun blank :: "cond \<Rightarrow> cond" where
  "blank (Cmp p c v) = Cmp p c (if v = VStr ''?  '' then v else blank_val v)"
| "blank (In c vs) = In c (map blank_val vs)"
| "blank (NotIn c vs) = NotIn c (map blank_val vs)"
| "blank (IsNull c) = IsNull c"
| "blank (IsNotNull c) = IsNotNull c"
| "blank (Between c l r) = Between c (blank_val l) (blank_val r)"
| "blank (Like c s) = Like c []"
| "blank (Param c) = Param c"
| "blank (And a b) = And (blank a) (blank b)"
| "blank (Or a b) = Or (blank a) (blank b)"

lemma alike_val [alike]: "sane_val v \<Longrightarrow> alike (val_to_string v) (val_to_string (blank_val v))"
  by (induction v) (auto intro: alike simp: calm_int_str)

lemma alike_values:
  "list_all sane_val vs \<Longrightarrow>
   alike (comma_sep (map val_to_string vs)) (comma_sep (map val_to_string (map blank_val vs)))"
  by (intro alike_comma_sep) (auto simp: list_all2_conv_all_nth list_all_length intro: alike_val)

lemma alike_wc3:
  "calm l \<Longrightarrow> calm p \<Longrightarrow> alike r r' \<Longrightarrow> alike (to_sql (wc3 l p r)) (to_sql (wc3 l p r'))"
  unfolding to_sql_wc3 by (intro alike_paren alike_calm_append)

lemma alike_in_impl:
  assumes "calm_col c" "list_all sane_val vs" "calm s"
  shows "alike (to_sql (in_impl c s vs)) (to_sql (in_impl c s (map blank_val vs)))"
proof (cases "vs = []")
  case True
  have "calm [CHR ''1'']" "calm [CHR ''='']" "calm [CHR ''0'']" by (simp_all add: calm_def)
  with True show ?thesis unfolding in_impl_cases empty_in_condition_def
    by (auto intro!: alike_wc3 intro: alike_calm)
next
  case False
  have sp: "calm '' ''" "calm '' in''" by (simp_all add: calm_def)
  have e: "comma_terminated (map val_to_string vs) = [] \<longleftrightarrow> False"
    "comma_terminated (map val_to_string (map blank_val vs)) = [] \<longleftrightarrow> False"
    using False by (cases vs; simp)+
  have ss: "calm (if s \<noteq> [] then '' '' @ s else [])"
    using assms(3) sp(1) by (simp add: calm_append del: append.simps) (simp add: calm_def)
  show ?thesis
    unfolding in_impl_cases e if_False to_sql_make_in
    by (intro alike_paren alike_calm_append alike_values assms calm_qualified sp(2) ss)
qed

lemma alike_compare:
  assumes "calm_col c" "sane_val v"
  shows "alike (to_sql (compare_col p c v))
    (to_sql (compare_col p c (if v = VStr ''?  '' then v else blank_val v)))"
proof -
  let ?name = "if ci_class c = [] then ci_name c else ci_class c @ ''.'' @ ci_name c"
  have n: "calm ?name" using assms(1) by (auto simp: calm_col_def calm_def)
  have q: "calm ''?  ''" by (simp add: calm_def)
  have lit: "to_sql \<lparr>wc_left = l, wc_op = t, wc_right = s, wc_need_quote = True\<rparr> =
      ''('' @ (l @ t @ sql_quoted s) @ '')''" for l t s
    by (simp add: to_sql_def sql_quoted_def)
  have "alike (to_sql \<lparr>wc_left = ?name, wc_op = cmp_text p, wc_right = s, wc_need_quote = True\<rparr>)
     (to_sql \<lparr>wc_left = ?name, wc_op = cmp_text p, wc_right = s', wc_need_quote = True\<rparr>)" for s s'
    unfolding lit by (intro alike_paren alike_calm_append alike_quoted n calm_cmp_text)
  moreover have "alike r r' \<Longrightarrow> alike (to_sql (wc3 ?name (cmp_text p) r)) (to_sql (wc3 ?name (cmp_text p) r'))"
    for r r' by (rule alike_wc3 [OF n calm_cmp_text])
  ultimately show ?thesis
    using alike_calm [OF q] alike_val [OF assms(2)]
    by (cases v) (simp_all add: compare_col_def build_where_def Let_def)
qed

lemma alike_connective:
  assumes "alike (to_sql u) (to_sql u')" "alike (to_sql v) (to_sql v')" "calm p"
    "p \<noteq> []" "hd p \<noteq> quote_char"
  shows "alike (to_sql (wc3 (to_sql u) p (to_sql v))) (to_sql (wc3 (to_sql u') p (to_sql v')))"
  unfolding to_sql_wc3
  by (intro alike_paren alike_append assms alike_calm_append) (use assms in auto)

lemma alike_wc_of: "well_named c \<Longrightarrow> alike (to_sql (wc_of c)) (to_sql (wc_of (blank c)))"
proof (induction c)
  case (And a b)
  then show ?case unfolding wc_of.simps blank.simps and_cond_def
    by (intro alike_connective) (simp_all add: calm_def)
next
  case (Or a b)
  then show ?case unfolding wc_of.simps blank.simps or_cond_def
    by (intro alike_connective) (simp_all add: calm_def)
next
  case (Between c l r)
  have sp: "calm '' between ''" "calm '' and ''" by (simp_all add: calm_def)
  have "alike (''('' @ (qualified_name c @ ('' between '' @ (val_to_string l @ ('' and '' @ val_to_string r)))) @ '')'')
      (''('' @ (qualified_name c @ ('' between '' @ (val_to_string (blank_val l) @ ('' and '' @ val_to_string (blank_val r))))) @ '')'')"
    using Between by (intro alike_paren alike_calm_append alike_append alike_val sp calm_qualified) auto
  then show ?case unfolding wc_of.simps blank.simps between_def to_sql_wc3 append_assoc .
next
  case (Like c s)
  have "calm '' like ''" by (simp add: calm_def)
  with Like show ?case unfolding wc_of.simps blank.simps like_cond_def
    by (intro alike_wc3 alike_quoted) (simp_all add: calm_qualified)
next
  case (In c vs)
  then show ?case unfolding wc_of.simps blank.simps in_cond_def
    by (intro alike_in_impl) (simp_all add: calm_def)
next
  case (NotIn c vs)
  then show ?case unfolding wc_of.simps blank.simps not_in_cond_def
    by (intro alike_in_impl) (simp_all add: calm_def)
next
  case (IsNull c)
  then show ?case unfolding wc_of.simps blank.simps null_cond_def
    by (intro alike_wc3 alike_calm) (simp_all add: calm_qualified, simp_all add: calm_def)
next
  case (IsNotNull c)
  then show ?case unfolding wc_of.simps blank.simps not_null_cond_def
    by (intro alike_wc3 alike_calm) (simp_all add: calm_qualified, simp_all add: calm_def)
next
  case (Param c)
  have "calm (ci_class c @ ''.'' @ ci_name c)" using Param by (simp add: calm_col_def calm_def)
  then show ?case unfolding wc_of.simps blank.simps param_def
    by (intro alike_wc3 alike_calm) (simp_all add: calm_def)
next
  case (Cmp p c v)
  then show ?case using alike_compare by simp
qed

section \<open>Properties\<close>

text \<open>C2: a condition built with the library's operators, over column names without quotes and
  parentheses, is one balanced SQL expression with every literal closed, whatever texts it
  compares with.\<close>

theorem condition_is_balanced:
  assumes "well_named c"
  shows "balanced (to_sql (wc_of c))"
  using assms by (rule balanced_wc_of)

definition age_col :: col_info where
  "age_col = \<lparr>ci_name = ''age'', ci_class = ''person'', ci_sort_order = []\<rparr>"

definition name_col :: col_info where
  "name_col = \<lparr>ci_name = ''name'', ci_class = ''person'', ci_sort_order = []\<rparr>"

definition sample_cond :: cond where
  "sample_cond = And (Cmp Ge age_col (VInt 18))
     (Or (Cmp Eq name_col (VStr ([quote_char] @ ''); drop table person; --''))) (In age_col [VInt 3, VInt 4]))"

theorem condition_is_balanced_witness: "balanced (to_sql (wc_of sample_cond))"
  by (rule condition_is_balanced) (simp add: sample_cond_def calm_col_def calm_def age_col_def name_col_def)



text \<open>an \<^verbatim>\<open>in\<close> over no value is the false condition, a \<^verbatim>\<open>not in\<close> over no value the true one,
  and otherwise the parenthesised, comma-separated list of the values.\<close>

theorem in_condition_text:
  "to_sql (in_cond c vs) =
     (if vs = [] then ''(1=0)''
      else ''('' @ qualified_name c @ '' in('' @ comma_sep (map val_to_string vs) @ ''))'') \<and>
   to_sql (not_in_cond c vs) =
     (if vs = [] then ''(1=1)''
      else ''('' @ qualified_name c @ '' not in('' @ comma_sep (map val_to_string vs) @ ''))'')"
proof -
  have "comma_terminated (map val_to_string vs) = [] \<longleftrightarrow> vs = []" by (cases vs) simp_all
  then show ?thesis
    by (simp add: in_cond_def not_in_cond_def in_impl_cases to_sql_make_in empty_in_condition_def
        to_sql_wc3)
qed

end
