(* ===== verification/Query_Builder.thy ===== *)
theory Query_Builder
  imports Where_Conditions Placeholders
begin

text \<open>
  The fluent query builder of \<^verbatim>\<open>ormpp/query.hpp\<close>: \<^verbatim>\<open>select(...).from<T>()\<close> creates a shared context
  of clauses, every stage offers the methods that may follow it and changes one clause, and
  \<^verbatim>\<open>build_sql\<close> concatenates the clauses.  One definition per stage maps a method call to the
  change of the context and the next stage; a chain of calls is an inductive relation.  The
  abstract specification is a query record that is rendered in the order of the SQL grammar,
  and every chain of calls refines it.
\<close>

section \<open>The context\<close>

record query_ctx =
  q_sql :: string
  select_clause :: string
  from_clause :: string
  group_by_clause :: string
  join_clause :: string
  where_clause :: string
  order_by_clause :: string
  having_clause :: string
  desc_clause :: string
  limit_clause :: string
  offset_clause :: string
  count_clause :: string
  sum_clause :: string
  avg_clause :: string
  min_clause :: string
  max_clause :: string

definition empty_ctx :: query_ctx where
  "empty_ctx =
     \<lparr>q_sql = [], select_clause = [], from_clause = [], group_by_clause = [], join_clause = [],
      where_clause = [], order_by_clause = [], having_clause = [], desc_clause = [],
      limit_clause = [], offset_clause = [], count_clause = [], sum_clause = [], avg_clause = [],
      min_clause = [], max_clause = []\<rparr>"

definition aggregate_clause :: "query_ctx \<Rightarrow> string" where
  "aggregate_clause c =
     (if count_clause c \<noteq> [] then count_clause c
      else if sum_clause c \<noteq> [] then sum_clause c
      else if avg_clause c \<noteq> [] then avg_clause c
      else if min_clause c \<noteq> [] then min_clause c
      else if max_clause c \<noteq> [] then max_clause c
      else [])"

definition build_sql :: "db_type \<Rightarrow> query_ctx \<Rightarrow> string" where
  "build_sql db c =
     (let sql = q_sql c;
          wh = where_clause c;
          (sql, wh) =
            (if select_clause c \<noteq> []
             then (sql @ ''select '' @ select_clause c @ from_clause c,
                   if wh \<noteq> [] then '' where '' @ wh else wh)
             else (sql, wh));
          sql = sql @ join_clause c @ wh @ group_by_clause c @ having_clause c @
            order_by_clause c @ desc_clause c @ limit_clause c @ offset_clause c
      in if db = PostgreSQL then replace_postgresql_placeholders sql else sql)"

section \<open>Selecting\<close>

text \<open>A selected item: a column or an aggregate, with its class (empty for an aggregate) and name.\<close>

record select_arg =
  sa_class :: string
  sa_name :: string

definition append_select :: "string \<Rightarrow> select_arg \<Rightarrow> string" where
  "append_select sel arg =
     (if sa_class arg = [] then sel @ sa_name arg @ '',''
      else sel @ sa_class arg @ ''.'' @ sa_name arg @ '','')"

definition create_stage_select :: "select_arg list \<Rightarrow> string" where
  "create_stage_select args = butlast (foldl append_select [] args)"

definition select_all :: string where
  "select_all = []"

definition from_table :: "struct_meta \<Rightarrow> string \<Rightarrow> query_ctx" where
  "from_table T sel =
     empty_ctx\<lparr>select_clause := (if sel = [] then select_all_fields_sql T else sel),
               from_clause := from_clause empty_ctx @ '' from '' @ get_short_struct_name T\<rparr>"

section \<open>The methods of the stages\<close>

datatype amount = Rows_n u64 | Token

datatype join_kind = Inner | Left | Right | Full | FullOuter

fun join_text :: "join_kind \<Rightarrow> string" where
  "join_text Inner = '' inner ''"
| "join_text Left = '' left ''"
| "join_text Right = '' right ''"
| "join_text Full = '' full ''"
| "join_text FullOuter = '' full outer ''"

datatype stage =
  S_builder | S_join | S_where | S_group_by | S_having | S_order | S_limit | S_offset

datatype call =
    Join join_kind col_info col_info
  | Where where_condition
  | Group_by "col_info list"
  | Having where_condition
  | Order_by "col_info list"
  | Limit amount
  | Offset amount

definition group_by_sql :: "col_info list \<Rightarrow> string" where
  "group_by_sql fs = butlast (foldl append_group_by_field '' GROUP BY '' fs)"

fun limit_sql :: "amount \<Rightarrow> string" where
  "limit_sql (Rows_n n) = '' LIMIT '' @ nat_str (unat n)"
| "limit_sql Token = '' LIMIT ?  ''"

fun offset_sql :: "amount \<Rightarrow> string" where
  "offset_sql (Rows_n n) = '' offset '' @ nat_str (unat n)"
| "offset_sql Token = '' offset ?  ''"

text \<open>One function per stage type; \<open>None\<close>: the type has no such method.\<close>

fun stage_offset_call :: "call \<Rightarrow> query_ctx \<Rightarrow> (stage \<times> query_ctx) option" where
  "stage_offset_call _ c = None"

fun stage_limit_call :: "call \<Rightarrow> query_ctx \<Rightarrow> (stage \<times> query_ctx) option" where
  "stage_limit_call (Offset n) c =
     Some (S_offset, c\<lparr>offset_clause := offset_clause c @ offset_sql n\<rparr>)"
| "stage_limit_call _ c = None"

fun stage_order_call :: "call \<Rightarrow> query_ctx \<Rightarrow> (stage \<times> query_ctx) option" where
  "stage_order_call (Limit n) c = Some (S_limit, c\<lparr>limit_clause := limit_sql n\<rparr>)"
| "stage_order_call _ c = None"

fun stage_having_call :: "call \<Rightarrow> query_ctx \<Rightarrow> (stage \<times> query_ctx) option" where
  "stage_having_call (Order_by fs) c = Some (S_order, c\<lparr>order_by_clause := order_by_sql fs\<rparr>)"
| "stage_having_call _ c = None"

fun stage_group_by_call :: "call \<Rightarrow> query_ctx \<Rightarrow> (stage \<times> query_ctx) option" where
  "stage_group_by_call (Order_by fs) c = Some (S_order, c\<lparr>order_by_clause := order_by_sql fs\<rparr>)"
| "stage_group_by_call (Having w) c =
     Some (S_having, c\<lparr>having_clause := '' HAVING '' @ to_sql w\<rparr>)"
| "stage_group_by_call _ c = None"

fun stage_where_call :: "call \<Rightarrow> query_ctx \<Rightarrow> (stage \<times> query_ctx) option" where
  "stage_where_call (Order_by fs) c = Some (S_order, c\<lparr>order_by_clause := order_by_sql fs\<rparr>)"
| "stage_where_call (Limit n) c = Some (S_limit, c\<lparr>limit_clause := limit_sql n\<rparr>)"
| "stage_where_call (Group_by fs) c = Some (S_group_by, c\<lparr>group_by_clause := group_by_sql fs\<rparr>)"
| "stage_where_call _ c = None"

fun stage_inner_join_call :: "struct_meta \<Rightarrow> call \<Rightarrow> query_ctx \<Rightarrow> (stage \<times> query_ctx) option" where
  "stage_inner_join_call T (Join Inner f g) c =
     Some (S_join, c\<lparr>join_clause := join_clause c @ join_impl T '' inner '' f g\<rparr>)"
| "stage_inner_join_call T (Where w) c = Some (S_where, c\<lparr>where_clause := to_sql w\<rparr>)"
| "stage_inner_join_call T (Group_by fs) c =
     Some (S_group_by, c\<lparr>group_by_clause := group_by_sql fs\<rparr>)"
| "stage_inner_join_call T (Order_by fs) c = Some (S_order, c\<lparr>order_by_clause := order_by_sql fs\<rparr>)"
| "stage_inner_join_call T (Limit n) c = Some (S_limit, c\<lparr>limit_clause := limit_sql n\<rparr>)"
| "stage_inner_join_call T _ c = None"

fun builder_join :: "struct_meta \<Rightarrow> join_kind \<Rightarrow> col_info \<Rightarrow> col_info \<Rightarrow> query_ctx \<Rightarrow> query_ctx" where
  "builder_join T k f g c = c\<lparr>join_clause := join_impl T (join_text k) f g\<rparr>"

fun builder_call :: "struct_meta \<Rightarrow> call \<Rightarrow> query_ctx \<Rightarrow> (stage \<times> query_ctx) option" where
  "builder_call T (Group_by fs) c = Some (S_group_by, c\<lparr>group_by_clause := group_by_sql fs\<rparr>)"
| "builder_call T (Order_by fs) c = Some (S_order, c\<lparr>order_by_clause := order_by_sql fs\<rparr>)"
| "builder_call T (Limit n) c = Some (S_limit, c\<lparr>limit_clause := limit_sql n\<rparr>)"
| "builder_call T (Where w) c = Some (S_where, c\<lparr>where_clause := to_sql w\<rparr>)"
| "builder_call T (Join k f g) c = Some (S_join, builder_join T k f g c)"
| "builder_call T _ c = None"

fun stage_call :: "struct_meta \<Rightarrow> stage \<Rightarrow> call \<Rightarrow> query_ctx \<Rightarrow> (stage \<times> query_ctx) option" where
  "stage_call T S_builder x c = builder_call T x c"
| "stage_call T S_join x c = stage_inner_join_call T x c"
| "stage_call T S_where x c = stage_where_call x c"
| "stage_call T S_group_by x c = stage_group_by_call x c"
| "stage_call T S_having x c = stage_having_call x c"
| "stage_call T S_order x c = stage_order_call x c"
| "stage_call T S_limit x c = stage_limit_call x c"
| "stage_call T S_offset x c = stage_offset_call x c"

text \<open>A fluent expression: each method is called on the stage the previous one returned.\<close>

inductive chain :: "struct_meta \<Rightarrow> string \<Rightarrow> call list \<Rightarrow> stage \<Rightarrow> query_ctx \<Rightarrow> bool" where
  start: "chain T sel [] S_builder (from_table T sel)"
| call: "chain T sel xs s c \<Longrightarrow> stage_call T s x c = Some (s', c') \<Longrightarrow> chain T sel (xs @ [x]) s' c'"

inductive_cases chain_SnocE: "chain T sel (xs @ [x]) s c"

text \<open>The same as a function, for evaluation.\<close>

fun run_chain :: "struct_meta \<Rightarrow> call list \<Rightarrow> stage \<times> query_ctx \<Rightarrow> (stage \<times> query_ctx) option" where
  "run_chain T [] sc = Some sc"
| "run_chain T (x # xs) sc =
     (case stage_call T (fst sc) x (snd sc) of None \<Rightarrow> None | Some sc' \<Rightarrow> run_chain T xs sc')"

lemma run_chain_append:
  "run_chain T (xs @ ys) sc = (case run_chain T xs sc of None \<Rightarrow> None | Some sc' \<Rightarrow> run_chain T ys sc')"
  by (induction xs arbitrary: sc) (auto split: option.splits)

lemma chain_iff_run:
  "chain T sel xs s c \<longleftrightarrow> run_chain T xs (S_builder, from_table T sel) = Some (s, c)"
proof
  assume "chain T sel xs s c"
  then show "run_chain T xs (S_builder, from_table T sel) = Some (s, c)"
    by induction (auto simp: run_chain_append)
next
  show "run_chain T xs (S_builder, from_table T sel) = Some (s, c) \<Longrightarrow> chain T sel xs s c"
  proof (induction xs arbitrary: s c rule: rev_induct)
    case Nil
    then show ?case by (auto intro: chain.start)
  next
    case (snoc x xs)
    then show ?case
      by (force simp: run_chain_append split: option.splits intro: chain.call)
  qed
qed

section \<open>The abstract specification\<close>

record query_ast =
  a_list :: string
  a_table :: string
  a_joins :: "string list"
  a_where :: "where_condition option"
  a_group :: "col_info list option"
  a_having :: "where_condition option"
  a_order :: "col_info list option"
  a_limit :: "amount option"
  a_offset :: "amount option"

fun opt_clause :: "('a \<Rightarrow> string) \<Rightarrow> 'a option \<Rightarrow> string" where
  "opt_clause f None = []"
| "opt_clause f (Some x) = f x"

text \<open>The statement in the order of the SQL grammar.\<close>

definition render :: "query_ast \<Rightarrow> string" where
  "render q =
     ''select '' @ a_list q @ '' from '' @ a_table q @ concat (a_joins q) @
     opt_clause (\<lambda>w. '' where '' @ to_sql w) (a_where q) @
     opt_clause group_by_sql (a_group q) @
     opt_clause (\<lambda>w. '' HAVING '' @ to_sql w) (a_having q) @
     opt_clause order_by_sql (a_order q) @
     opt_clause limit_sql (a_limit q) @
     opt_clause offset_sql (a_offset q)"

definition ast_init :: "struct_meta \<Rightarrow> string \<Rightarrow> query_ast" where
  "ast_init T sel =
     \<lparr>a_list = (if sel = [] then select_all_fields_sql T else sel), a_table = get_short_struct_name T,
      a_joins = [], a_where = None, a_group = None, a_having = None, a_order = None,
      a_limit = None, a_offset = None\<rparr>"

fun ast_call :: "struct_meta \<Rightarrow> query_ast \<Rightarrow> call \<Rightarrow> query_ast" where
  "ast_call T q (Join k f g) = q\<lparr>a_joins := a_joins q @ [join_impl T (join_text k) f g]\<rparr>"
| "ast_call T q (Where w) = q\<lparr>a_where := Some w\<rparr>"
| "ast_call T q (Group_by fs) = q\<lparr>a_group := Some fs\<rparr>"
| "ast_call T q (Having w) = q\<lparr>a_having := Some w\<rparr>"
| "ast_call T q (Order_by fs) = q\<lparr>a_order := Some fs\<rparr>"
| "ast_call T q (Limit n) = q\<lparr>a_limit := Some n\<rparr>"
| "ast_call T q (Offset n) = q\<lparr>a_offset := Some n\<rparr>"

definition ast_of :: "struct_meta \<Rightarrow> string \<Rightarrow> call list \<Rightarrow> query_ast" where
  "ast_of T sel xs = foldl (ast_call T) (ast_init T sel) xs"

text \<open>The context that stores a query.\<close>

definition ctx_of :: "query_ast \<Rightarrow> query_ctx" where
  "ctx_of q = empty_ctx
     \<lparr>select_clause := a_list q, from_clause := '' from '' @ a_table q,
      join_clause := concat (a_joins q), where_clause := opt_clause to_sql (a_where q),
      group_by_clause := opt_clause group_by_sql (a_group q),
      having_clause := opt_clause (\<lambda>w. '' HAVING '' @ to_sql w) (a_having q),
      order_by_clause := opt_clause order_by_sql (a_order q),
      limit_clause := opt_clause limit_sql (a_limit q),
      offset_clause := opt_clause offset_sql (a_offset q)\<rparr>"

lemma ctx_of_init: "ctx_of (ast_init T sel) = from_table T sel"
  by (simp add: ctx_of_def ast_init_def from_table_def empty_ctx_def)

text \<open>What is still empty at a stage: this is why assigning and appending agree.\<close>

fun fresh :: "stage \<Rightarrow> query_ast \<Rightarrow> bool" where
  "fresh S_builder q \<longleftrightarrow> a_joins q = [] \<and> a_offset q = None"
| "fresh S_offset q \<longleftrightarrow> True"
| "fresh _ q \<longleftrightarrow> a_offset q = None"

lemma ctx_of_update [simp]:
  "(ctx_of q)\<lparr>where_clause := to_sql w\<rparr> = ctx_of (q\<lparr>a_where := Some w\<rparr>)"
  "(ctx_of q)\<lparr>group_by_clause := group_by_sql fs\<rparr> = ctx_of (q\<lparr>a_group := Some fs\<rparr>)"
  "(ctx_of q)\<lparr>having_clause := '' HAVING '' @ to_sql w\<rparr> = ctx_of (q\<lparr>a_having := Some w\<rparr>)"
  "(ctx_of q)\<lparr>order_by_clause := order_by_sql fs\<rparr> = ctx_of (q\<lparr>a_order := Some fs\<rparr>)"
  "(ctx_of q)\<lparr>limit_clause := limit_sql n\<rparr> = ctx_of (q\<lparr>a_limit := Some n\<rparr>)"
  by (simp_all add: ctx_of_def)

lemma ctx_of_join [simp]:
  "(ctx_of q)\<lparr>join_clause := join_clause (ctx_of q) @ j\<rparr> = ctx_of (q\<lparr>a_joins := a_joins q @ [j]\<rparr>)"
  by (simp add: ctx_of_def empty_ctx_def)

lemma ctx_of_first_join: "a_joins q = [] \<Longrightarrow> (ctx_of q)\<lparr>join_clause := j\<rparr> = ctx_of (q\<lparr>a_joins := [j]\<rparr>)"
  by (simp add: ctx_of_def)

lemma ctx_of_first_offset:
  "a_offset q = None \<Longrightarrow>
   (ctx_of q)\<lparr>offset_clause := offset_clause (ctx_of q) @ offset_sql n\<rparr> = ctx_of (q\<lparr>a_offset := Some n\<rparr>)"
  by (simp add: ctx_of_def empty_ctx_def)

lemma stage_inner_join_call_Join:
  "stage_inner_join_call T (Join k f g) c = Some (s', c') \<Longrightarrow>
   k = Inner \<and> s' = S_join \<and> c' = c\<lparr>join_clause := join_clause c @ join_impl T (join_text Inner) f g\<rparr>"
  by (cases k) auto

lemma stage_call_simulates:
  assumes "fresh s q" "stage_call T s x (ctx_of q) = Some (s', c')"
  shows "c' = ctx_of (ast_call T q x) \<and> fresh s' (ast_call T q x)"
proof (cases x)
  case (Join k f g)
  with assms show ?thesis
    by (cases s) (auto dest!: stage_inner_join_call_Join simp: ctx_of_first_join simp del: join_text.simps)
next
  case (Having w)
  with assms show ?thesis
    by (cases s) (auto simp del: ctx_of_update(3) simp: ctx_of_update(3) [symmetric])
qed (use assms in \<open>cases s; force simp: ctx_of_first_offset simp del: append.simps\<close>)+

lemma chain_refines:
  "chain T sel xs s c \<Longrightarrow> c = ctx_of (ast_of T sel xs) \<and> fresh s (ast_of T sel xs)"
proof (induction rule: chain.induct)
  case (start T sel)
  show ?case by (simp add: ast_of_def ctx_of_init) (simp add: ast_init_def)
next
  case (call T sel xs s c x s' c')
  then show ?case using stage_call_simulates [of s "ast_of T sel xs" T x s' c']
    by (simp add: ast_of_def)
qed

lemma to_sql_nonempty: "to_sql w \<noteq> []"
  by (simp add: to_sql_def)

lemma build_sql_ctx_of:
  "a_list q \<noteq> [] \<Longrightarrow>
   build_sql db (ctx_of q) =
     (if db = PostgreSQL then replace_postgresql_placeholders (render q) else render q)"
  by (cases "a_where q") (simp_all add: build_sql_def ctx_of_def empty_ctx_def render_def Let_def to_sql_nonempty)

lemma ast_call_list [simp]: "a_list (ast_call T q x) = a_list q"
  by (cases x) simp_all

lemma a_list_ast_of: "a_list (ast_of T sel xs) = a_list (ast_init T sel)"
proof -
  have "a_list (foldl (ast_call T) q xs) = a_list q" for q
    by (induction xs arbitrary: q) simp_all
  then show ?thesis by (simp add: ast_of_def)
qed

section \<open>The order of the calls\<close>

fun call_rank :: "call \<Rightarrow> nat" where
  "call_rank (Join _ _ _) = 1"
| "call_rank (Where _) = 2"
| "call_rank (Group_by _) = 3"
| "call_rank (Having _) = 4"
| "call_rank (Order_by _) = 5"
| "call_rank (Limit _) = 6"
| "call_rank (Offset _) = 7"

fun stage_rank :: "stage \<Rightarrow> nat" where
  "stage_rank S_builder = 0"
| "stage_rank S_join = 1"
| "stage_rank S_where = 2"
| "stage_rank S_group_by = 3"
| "stage_rank S_having = 4"
| "stage_rank S_order = 5"
| "stage_rank S_limit = 6"
| "stage_rank S_offset = 7"

definition before :: "call \<Rightarrow> call \<Rightarrow> bool" where
  "before x y \<longleftrightarrow> call_rank x < call_rank y \<or> (call_rank x = 1 \<and> call_rank y = 1)"

lemma stage_call_rank:
  "stage_call T s x c = Some (s', c') \<Longrightarrow>
   stage_rank s' = call_rank x \<and> (stage_rank s < call_rank x \<or> s = S_join \<and> call_rank x = 1) \<and>
   (call_rank x = 4 \<longrightarrow> s = S_group_by) \<and> (call_rank x = 7 \<longrightarrow> s = S_limit)"
  by (cases s; cases x) (auto dest!: stage_inner_join_call_Join)

lemma chain_ranks: "chain T sel xs s c \<Longrightarrow> \<forall>x \<in> set xs. call_rank x \<le> stage_rank s"
  by (induction rule: chain.induct) (auto dest!: stage_call_rank)

lemma chain_last_rank:
  "chain T sel xs s c \<Longrightarrow> xs \<noteq> [] \<Longrightarrow> stage_rank s = call_rank (last xs)"
  by (induction rule: chain.induct) (auto dest!: stage_call_rank)

lemma chain_sorted: "chain T sel xs s c \<Longrightarrow> sorted_wrt before xs"
proof (induction rule: chain.induct)
  case (call T sel xs s c x s' c')
  have "\<forall>y \<in> set xs. before y x"
  proof
    fix y assume y: "y \<in> set xs"
    with chain_ranks [OF call.hyps(1)] have "call_rank y \<le> stage_rank s" by blast
    moreover have "1 \<le> call_rank y" by (cases y) simp_all
    ultimately show "before y x"
      using stage_call_rank [OF call.hyps(2)] by (auto simp: before_def)
  qed
  then show ?case using call.IH by (simp add: sorted_wrt_append)
qed simp

section \<open>Running the query\<close>

text \<open>The result parameter \<open>R\<close> of the builder and the target \<open>To\<close> of \<^verbatim>\<open>collect<To>\<close>, by the cases
  the templates distinguish; the row type the driver is asked for; the value returned.\<close>

datatype r_kind = R_void | R_scalar | R_record | R_tuple

datatype to_kind = To_void | To_scalar | To_record

datatype row_type = Row_single_R | Row_T | Row_R | Row_To

datatype 'v collected = Value 'v | Rows "'v list list"

definition first_cell :: "'v \<Rightarrow> 'v list list \<Rightarrow> 'v collected" where
  "first_cell dflt rows = (case rows of [] \<Rightarrow> Value dflt | r # _ \<Rightarrow> Value (r ! 0))"

definition extract_query_result :: "r_kind \<Rightarrow> to_kind \<Rightarrow> 'v \<Rightarrow> 'v list list \<Rightarrow> 'v collected" where
  "extract_query_result R to_k dflt rows =
     (if R = R_scalar then first_cell dflt rows
      else if R = R_void then Rows rows
      else if to_k = To_void then Rows rows
      else if to_k = To_scalar then first_cell dflt rows
      else Rows rows)"

text \<open>\<open>query_s\<close> is the driver's query function.\<close>

definition collect_sync ::
  "(row_type \<Rightarrow> string \<Rightarrow> 'a list \<Rightarrow> 'v list list) \<Rightarrow> db_type \<Rightarrow> r_kind \<Rightarrow> to_kind \<Rightarrow> 'v \<Rightarrow>
   query_ctx \<Rightarrow> 'a list \<Rightarrow> 'v collected" where
  "collect_sync query_s db R to_k dflt c args =
     (let sql = build_sql db c
      in if R = R_scalar then extract_query_result R to_k dflt (query_s Row_single_R sql args)
         else if R = R_void then extract_query_result R to_k dflt (query_s Row_T sql args)
         else if to_k = To_void then extract_query_result R to_k dflt (query_s Row_R sql args)
         else if to_k = To_scalar then extract_query_result R to_k dflt (query_s Row_R sql args)
         else extract_query_result R to_k dflt (query_s Row_To sql args))"

text \<open>\<^verbatim>\<open>query_async_with_params\<close> hands the driver copies of the parameters.\<close>

definition query_async_with_params ::
  "(row_type \<Rightarrow> string \<Rightarrow> 'a list \<Rightarrow> 'v list list) \<Rightarrow> row_type \<Rightarrow> string \<Rightarrow> 'a list \<Rightarrow> 'v list list" where
  "query_async_with_params query_s out sql params = query_s out sql (map (\<lambda>p. p) params)"

definition collect_async ::
  "(row_type \<Rightarrow> string \<Rightarrow> 'a list \<Rightarrow> 'v list list) \<Rightarrow> db_type \<Rightarrow> r_kind \<Rightarrow> to_kind \<Rightarrow> 'v \<Rightarrow>
   query_ctx \<Rightarrow> 'a list \<Rightarrow> 'v collected" where
  "collect_async query_s db R to_k dflt c args =
     (let sql = build_sql db c; q = query_async_with_params query_s
      in if R = R_scalar then extract_query_result R to_k dflt (q Row_single_R sql args)
         else if R = R_void then extract_query_result R to_k dflt (q Row_T sql args)
         else if to_k = To_void then extract_query_result R to_k dflt (q Row_R sql args)
         else if to_k = To_scalar then extract_query_result R to_k dflt (q Row_R sql args)
         else extract_query_result R to_k dflt (q Row_To sql args))"

section \<open>Properties\<close>

lemma chain_call_needs:
  assumes "chain T sel xs s c"
  shows "(Having w \<in> set xs \<longrightarrow> (\<exists>fs. Group_by fs \<in> set xs)) \<and>
    (Offset n \<in> set xs \<longrightarrow> (\<exists>m. Limit m \<in> set xs))"
  using assms
proof (induction rule: chain.induct)
  case (call T sel xs s c x s' c')
  note r = stage_call_rank [OF call.hyps(2)] and l = chain_last_rank [OF call.hyps(1)]
  have e: "s \<noteq> S_builder \<Longrightarrow> xs \<noteq> []"
    using call.hyps(1) by (auto elim: chain.cases)
  have "\<exists>fs. Group_by fs \<in> set xs" if "x = Having w"
  proof -
    from that r have "s = S_group_by" by simp
    with e l have "xs \<noteq> []" "call_rank (last xs) = 3" by simp_all
    then show ?thesis using last_in_set by (cases "last xs") force+
  qed
  moreover have "\<exists>m. Limit m \<in> set xs" if "x = Offset n"
  proof -
    from that r have "s = S_limit" by simp
    with e l have "xs \<noteq> []" "call_rank (last xs) = 6" by simp_all
    then show ?thesis using last_in_set by (cases "last xs") force+
  qed
  ultimately show ?case using call.IH by auto
qed simp

lemma select_all_nonempty: "s_fields T \<noteq> [] \<Longrightarrow> select_all_fields_sql T \<noteq> []"
proof -
  assume "s_fields T \<noteq> []"
  then obtain n ns where m: "member_names T = n # ns" by (cases "s_fields T") (simp_all add: member_names_def)
  show ?thesis
    by (cases ns) (simp_all add: select_all_fields_sql_def Let_def m butlast_append)
qed

text \<open>C4: whatever chain of builder methods a program writes, the SQL text built from the shared
  context is the rendering of the query the calls describe, in the order of the SQL grammar (with
  numbered placeholders for PostgreSQL).\<close>

theorem fluent_query_refines:
  assumes "chain T sel xs s c" "sel \<noteq> [] \<or> s_fields T \<noteq> []"
  shows "build_sql db c =
    (if db = PostgreSQL then replace_postgresql_placeholders (render (ast_of T sel xs))
     else render (ast_of T sel xs))"
proof -
  have "a_list (ast_of T sel xs) \<noteq> []"
    using assms(2) by (auto simp: a_list_ast_of ast_init_def dest: select_all_nonempty)
  moreover have "c = ctx_of (ast_of T sel xs)" using chain_refines [OF assms(1)] by blast
  ultimately show ?thesis using build_sql_ctx_of by blast
qed

definition sample_calls :: "call list" where
  "sample_calls =
     [Where (wc_of sample_cond), Group_by [name_col],
      Having (compare_aggregate Gt (aggregate_of Count age_col) (VInt 2)),
      Order_by [desc age_col, name_col], Limit (Rows_n 10), Offset Token]"

theorem fluent_query_refines_witness:
  "(case run_chain person sample_calls (S_builder, from_table person []) of
      None \<Rightarrow> False
    | Some (s, c) \<Rightarrow> build_sql MySQL c = render (ast_of person [] sample_calls))"
proof -
  obtain s c where r: "run_chain person sample_calls (S_builder, from_table person []) = Some (s, c)"
    by (simp add: sample_calls_def)
  have "build_sql MySQL c = render (ast_of person [] sample_calls)"
    using fluent_query_refines [OF r [folded chain_iff_run], of MySQL] by (simp add: person_def)
  with r show ?thesis by simp
qed

text \<open>the stage types admit only calls in the order of the SQL grammar, each clause at most
  once except joins, a \<^verbatim>\<open>having\<close> only with a \<^verbatim>\<open>group_by\<close> and an \<^verbatim>\<open>offset\<close> only with a \<^verbatim>\<open>limit\<close>.\<close>

theorem fluent_calls_in_sql_order:
  assumes "chain T sel xs s c"
  shows "sorted_wrt before xs \<and> (\<forall>w. Having w \<in> set xs \<longrightarrow> (\<exists>fs. Group_by fs \<in> set xs)) \<and>
    (\<forall>n. Offset n \<in> set xs \<longrightarrow> (\<exists>m. Limit m \<in> set xs))"
  using chain_sorted [OF assms] chain_call_needs [OF assms] by blast

theorem fluent_calls_in_sql_order_witness:
  "run_chain person sample_calls (S_builder, from_table person []) \<noteq> None \<and> sorted_wrt before sample_calls"
proof -
  obtain s c where r: "run_chain person sample_calls (S_builder, from_table person []) = Some (s, c)"
    by (simp add: sample_calls_def)
  then show ?thesis using fluent_calls_in_sql_order [OF r [folded chain_iff_run]] by simp
qed

text \<open>a limit stage that is kept and used twice: \<^verbatim>\<open>limit\<close> replaces its clause, but \<^verbatim>\<open>offset\<close>
  appends to it, so the second query carries both offsets.\<close>

theorem reused_limit_stage_repeats_offset:
  "map_option (\<lambda>sc. offset_clause (snd sc))
     (Option.bind (stage_call T S_limit (Offset m) c) (\<lambda>sc. stage_call T S_limit (Offset n) (snd sc))) =
   Some (offset_clause c @ offset_sql m @ offset_sql n) \<and>
   map_option (\<lambda>sc. limit_clause (snd sc))
     (Option.bind (stage_call T S_order (Limit m) c) (\<lambda>sc. stage_call T S_order (Limit n) (snd sc))) =
   Some (limit_sql n)"
  by simp

text \<open>the coroutine version of \<^verbatim>\<open>collect\<close> asks for the same rows with the same statement and
  extracts the same result as the blocking one.\<close>

theorem collect_async_agrees: "collect_async query_s db R to_k dflt c args = collect_sync query_s db R to_k dflt c args"
  by (simp add: collect_async_def collect_sync_def query_async_with_params_def Let_def)

end
