(* ===== verification/Dml_Builders.thy ===== *)
theory Dml_Builders
  imports Where_Conditions
begin

text \<open>
  The update and delete builders of \<^verbatim>\<open>ormpp/query.hpp\<close>.  The driver is a parameter: its state
  \<open>'db\<close>, \<^verbatim>\<open>execute\<close> with the success flag, and \<^verbatim>\<open>get_last_affect_rows\<close>.  The blocking and the
  coroutine overload of \<^verbatim>\<open>execute_impl\<close> have the same body; they are modelled once, and the
  \<^verbatim>\<open>co_await\<close> is the call of the driver.
\<close>

section \<open>The interface of a driver\<close>

text \<open>
  The builders rely on one promise of a driver's \<^verbatim>\<open>get_last_affect_rows\<close>: as an \<^verbatim>\<open>int\<close> it is the
  number of rows as long as that number fits, so that -1 is free for failure.
\<close>

locale sql_driver =
  fixes execute :: "'db \<Rightarrow> string \<Rightarrow> bool \<times> 'db"
    and affected :: "'db \<Rightarrow> int"
    and row_count :: "'db \<Rightarrow> nat"
  assumes affected_is_count: "row_count d < 2 ^ 31 \<Longrightarrow> affected d = int (row_count d)"

text \<open>\<^verbatim>\<open>execute_impl\<close> after the statement has been built.\<close>

definition run_dml :: "('db \<Rightarrow> string \<Rightarrow> bool \<times> 'db) \<Rightarrow> ('db \<Rightarrow> int) \<Rightarrow> 'db \<Rightarrow> string \<Rightarrow> int \<times> 'db" where
  "run_dml execute affected d sql =
     (let (ok, d') = execute d sql in if ok then (affected d', d') else (- 1, d'))"

context sql_driver
begin

lemma run_dml_result:
  "execute d sql = (ok, d') \<Longrightarrow> row_count d' < 2 ^ 31 \<Longrightarrow>
   run_dml execute affected d sql = (if ok then int (row_count d') else - 1, d')"
  by (simp add: run_dml_def affected_is_count)

lemma run_dml_failed_iff:
  "execute d sql = (ok, d') \<Longrightarrow> row_count d' < 2 ^ 31 \<Longrightarrow>
   fst (run_dml execute affected d sql) = - 1 \<longleftrightarrow> \<not> ok"
  by (simp add: run_dml_result)

end

section \<open>Update\<close>

datatype set_value = Raw_value string | Plain_value sql_val

record update_ctx =
  set_clause :: string
  u_where_clause :: string

definition update_build_sql :: "struct_meta \<Rightarrow> update_ctx \<Rightarrow> string" where
  "update_build_sql T c =
     ''UPDATE '' @ get_short_struct_name T @ '' SET '' @ set_clause c @
     (if u_where_clause c \<noteq> [] then '' WHERE '' @ u_where_clause c else [])"

fun append_set :: "string \<Rightarrow> col_info \<Rightarrow> set_value \<Rightarrow> string" where
  "append_set sql field (Raw_value s) = sql @ ci_name field @ ''='' @ s"
| "append_set sql field (Plain_value v) = sql @ ci_name field @ ''='' @ val_to_string v"

definition update_execute_impl ::
  "('db \<Rightarrow> string \<Rightarrow> bool \<times> 'db) \<Rightarrow> ('db \<Rightarrow> int) \<Rightarrow> struct_meta \<Rightarrow> update_ctx \<Rightarrow> 'db \<Rightarrow> int \<times> 'db" where
  "update_execute_impl execute affected T c d = run_dml execute affected d (update_build_sql T c)"

datatype set_call = Set_to col_info set_value | Set_null col_info

text \<open>\<^verbatim>\<open>update_builder::set\<close> and \<^verbatim>\<open>set_null\<close> start a context.\<close>

fun update_builder_set :: "set_call \<Rightarrow> update_ctx" where
  "update_builder_set (Set_to f v) = \<lparr>set_clause = append_set [] f v, u_where_clause = []\<rparr>"
| "update_builder_set (Set_null f) = \<lparr>set_clause = ci_name f @ ''=NULL'', u_where_clause = []\<rparr>"

fun stage_update_set :: "update_ctx \<Rightarrow> set_call \<Rightarrow> update_ctx" where
  "stage_update_set c (Set_to f v) = c\<lparr>set_clause := append_set (set_clause c @ '','') f v\<rparr>"
| "stage_update_set c (Set_null f) = c\<lparr>set_clause := set_clause c @ '','' @ ci_name f @ ''=NULL''\<rparr>"

definition stage_update_where :: "update_ctx \<Rightarrow> where_condition \<Rightarrow> update_ctx" where
  "stage_update_where c w = c\<lparr>u_where_clause := to_sql w\<rparr>"

text \<open>A chain \<^verbatim>\<open>update<T>().set(..)...set(..)\<close>, ended by \<^verbatim>\<open>where\<close> or by \<^verbatim>\<open>execute_all\<close>.\<close>

definition update_chain :: "set_call \<Rightarrow> set_call list \<Rightarrow> where_condition option \<Rightarrow> update_ctx" where
  "update_chain x xs w =
     (let c = foldl stage_update_set (update_builder_set x) xs
      in case w of None \<Rightarrow> c | Some w \<Rightarrow> stage_update_where c w)"

section \<open>Delete\<close>

record delete_ctx =
  d_where_clause :: string
  partition_field :: string
  the_partition :: range_partition_desc
  use_partition :: bool

definition delete_build_sql :: "db_type \<Rightarrow> struct_meta \<Rightarrow> delete_ctx \<Rightarrow> string" where
  "delete_build_sql db T c =
     (let table_name = get_short_struct_name T;
          sql =
            (if use_partition c then
               (if db = MySQL then ''DELETE FROM '' @ table_name @ '' PARTITION ('' @ rp_name (the_partition c) @ '')''
                else if db = PostgreSQL then
                  ''DELETE FROM '' @ partition_child_table_name table_name (rp_name (the_partition c))
                else ''DELETE FROM '' @ table_name)
             else ''DELETE FROM '' @ table_name);
          wh = d_where_clause c;
          wh =
            (if use_partition c \<and> db = SQLite then
               (let partition_where = partition_range_predicate (partition_field c) (the_partition c)
                in if wh = [] then partition_where else ''('' @ partition_where @ '') AND '' @ wh)
             else wh)
      in sql @ (if wh \<noteq> [] then '' WHERE '' @ wh else []))"

definition delete_validate_partition :: "delete_ctx \<Rightarrow> bool" where
  "delete_validate_partition c =
     (if \<not> use_partition c then True
      else is_valid_sql_identifier (partition_field c) \<and> is_valid_partition (the_partition c))"

definition delete_execute_impl ::
  "('db \<Rightarrow> string \<Rightarrow> bool \<times> 'db) \<Rightarrow> ('db \<Rightarrow> int) \<Rightarrow> db_type \<Rightarrow> struct_meta \<Rightarrow> delete_ctx \<Rightarrow> 'db \<Rightarrow>
   int \<times> 'db" where
  "delete_execute_impl execute affected db T c d =
     (if \<not> delete_validate_partition c then (- 1, d)
      else run_dml execute affected d (delete_build_sql db T c))"

definition no_partition :: range_partition_desc where
  "no_partition = \<lparr>rp_name = [], rp_from = [], rp_to = [], rp_maxvalue = False\<rparr>"

definition empty_delete_ctx :: delete_ctx where
  "empty_delete_ctx =
     \<lparr>d_where_clause = [], partition_field = [], the_partition = no_partition, use_partition = False\<rparr>"

definition delete_where :: "where_condition \<Rightarrow> delete_ctx" where
  "delete_where w = empty_delete_ctx\<lparr>d_where_clause := to_sql w\<rparr>"

definition delete_partition :: "col_info \<Rightarrow> range_partition_desc \<Rightarrow> delete_ctx" where
  "delete_partition field p =
     empty_delete_ctx\<lparr>partition_field := ci_name field, the_partition := p, use_partition := True\<rparr>"

definition stage_delete_partition_where :: "delete_ctx \<Rightarrow> where_condition \<Rightarrow> delete_ctx" where
  "stage_delete_partition_where c w = c\<lparr>d_where_clause := to_sql w\<rparr>"

definition delete_execute_all ::
  "('db \<Rightarrow> string \<Rightarrow> bool \<times> 'db) \<Rightarrow> ('db \<Rightarrow> int) \<Rightarrow> db_type \<Rightarrow> struct_meta \<Rightarrow> 'db \<Rightarrow> int \<times> 'db" where
  "delete_execute_all execute affected db T d =
     delete_execute_impl execute affected db T empty_delete_ctx d"

section \<open>The assignments of an update\<close>

fun set_text :: "set_call \<Rightarrow> string" where
  "set_text (Set_to f (Raw_value s)) = ci_name f @ ''='' @ s"
| "set_text (Set_to f (Plain_value v)) = ci_name f @ ''='' @ val_to_string v"
| "set_text (Set_null f) = ci_name f @ ''=NULL''"

lemma append_set_text: "append_set sql f v = sql @ set_text (Set_to f v)"
  by (cases v) simp_all

lemma update_first: "update_builder_set x = \<lparr>set_clause = set_text x, u_where_clause = []\<rparr>"
  by (cases x) (simp_all add: append_set_text)

lemma update_next: "stage_update_set c x = c\<lparr>set_clause := set_clause c @ '','' @ set_text x\<rparr>"
  by (cases x) (simp_all add: append_set_text)

lemma comma_sep_snoc: "xs \<noteq> [] \<Longrightarrow> comma_sep (xs @ [x]) = comma_sep xs @ '','' @ x"
  by (induction xs rule: comma_sep.induct) simp_all

lemma update_sets:
  "foldl stage_update_set (update_builder_set x) xs =
   \<lparr>set_clause = comma_sep (map set_text (x # xs)), u_where_clause = []\<rparr>"
proof (induction xs rule: rev_induct)
  case Nil
  then show ?case by (simp add: update_first)
next
  case (snoc y ys)
  have "comma_sep (map set_text (x # ys @ [y])) = comma_sep (map set_text (x # ys)) @ '','' @ set_text y"
    using comma_sep_snoc [of "map set_text (x # ys)" "set_text y"] by simp
  with snoc show ?case by (simp add: update_next)
qed

fun sane_set :: "set_call \<Rightarrow> bool" where
  "sane_set (Set_to f (Raw_value s)) \<longleftrightarrow> False"
| "sane_set (Set_to f (Plain_value v)) \<longleftrightarrow> calm (ci_name f) \<and> sane_val v"
| "sane_set (Set_null f) \<longleftrightarrow> calm (ci_name f)"

fun blank_set :: "set_call \<Rightarrow> set_call" where
  "blank_set (Set_to f (Plain_value v)) = Set_to f (Plain_value (blank_val v))"
| "blank_set x = x"

lemma alike_set: "sane_set x \<Longrightarrow> alike (set_text x) (set_text (blank_set x))"
proof (cases x rule: sane_set.cases)
  case (2 f v)
  have eq: "calm ''=''" by (simp add: calm_def)
  assume "sane_set x"
  with 2 show ?thesis
    by (simp del: append.simps) (intro alike_calm_append alike_val eq, simp_all)
next
  case (3 f)
  assume "sane_set x"
  moreover have "calm ''=NULL''" by (simp add: calm_def)
  ultimately show ?thesis using 3
    by (simp del: append.simps) (intro alike_calm, simp add: calm_append)
qed simp

lemma alike_sets:
  assumes "list_all sane_set xs"
  shows "alike (comma_sep (map set_text xs)) (comma_sep (map set_text (map blank_set xs)))"
  using assms by (intro alike_comma_sep) (auto simp: list_all2_conv_all_nth list_all_length intro: alike_set)

section \<open>Properties\<close>

lemma to_sql_not_Nil [simp]: "to_sql w \<noteq> []"
  by (simp add: to_sql_def)

text \<open>an update chain builds the statement that assigns exactly the given columns, in the
  order of the calls, and is restricted by exactly the given condition; a statement without
  \<^verbatim>\<open>WHERE\<close> only comes from \<^verbatim>\<open>execute_all\<close>.\<close>

theorem update_chain_statement:
  "update_build_sql T (update_chain x xs w) =
     ''UPDATE '' @ get_short_struct_name T @ '' SET '' @ comma_sep (map set_text (x # xs)) @
     (case w of None \<Rightarrow> [] | Some w \<Rightarrow> '' WHERE '' @ to_sql w)"
  by (cases w) (simp_all add: update_build_sql_def update_chain_def update_sets stage_update_where_def
      Let_def del: comma_sep.simps list.map append.simps)

text \<open>the texts assigned and compared in an update cannot change its structure: with every text
  emptied the statement has the same structure.\<close>

theorem update_structure_fixed:
  assumes "list_all sane_set (x # xs)" "well_named c" "calm (get_short_struct_name T)"
  shows "skeleton False (update_build_sql T (update_chain x xs (Some (wc_of c)))) =
    skeleton False (update_build_sql T (update_chain (blank_set x) (map blank_set xs) (Some (wc_of (blank c)))))"
proof (rule alike_skeleton)
  have k: "calm ''UPDATE ''" "calm '' SET ''" "calm '' WHERE ''" by (simp_all add: calm_def)
  have "update_build_sql T (update_chain y ys (Some w)) =
      ''UPDATE '' @ get_short_struct_name T @ '' SET '' @
      comma_sep (map set_text (y # ys)) @ '' WHERE '' @ to_sql w" for y ys w
    by (simp add: update_build_sql_def update_chain_def update_sets stage_update_where_def
        del: comma_sep.simps list.map append.simps)
  moreover have "alike (comma_sep (map set_text (x # xs)))
      (comma_sep (map set_text (blank_set x # map blank_set xs)))"
    using alike_sets [OF assms(1)] by simp
  ultimately show "alike (update_build_sql T (update_chain x xs (Some (wc_of c))))
     (update_build_sql T (update_chain (blank_set x) (map blank_set xs) (Some (wc_of (blank c)))))"
    by (simp only:) (intro alike_calm_append alike_append alike_wc_of assms k; simp)
qed

theorem update_structure_fixed_witness:
  "skeleton False (update_build_sql person (update_chain (Set_to name_col (Plain_value (VStr [quote_char])))
      [Set_null age_col] (Some (wc_of sample_cond)))) =
   skeleton False (update_build_sql person (update_chain (Set_to name_col (Plain_value (VStr [])))
      [Set_null age_col] (Some (wc_of (blank sample_cond)))))"
proof -
  have "skeleton False (update_build_sql person (update_chain (Set_to name_col (Plain_value (VStr [quote_char])))
      [Set_null age_col] (Some (wc_of sample_cond)))) =
   skeleton False (update_build_sql person (update_chain (blank_set (Set_to name_col (Plain_value (VStr [quote_char]))))
      (map blank_set [Set_null age_col]) (Some (wc_of (blank sample_cond)))))"
    by (rule update_structure_fixed) (code_simp, code_simp, code_simp)
  then show ?thesis by simp
qed



end
