(* ===== verification/Table_Builders.thy ===== *)
theory Table_Builders
  imports Where_Conditions Type_Mapping
begin

text \<open>
  The create-table and alter-table builders of \<^verbatim>\<open>ormpp/query.hpp\<close>: their state, the methods that
  fill it, the check of the partition description, the statements they generate and the loop
  that executes them, stopping at the first failure.  The driver's \<^verbatim>\<open>execute\<close> is a parameter.
\<close>

section \<open>The create-table builder\<close>

record create_table_builder =
  auto_increment_field :: string
  primary_keys :: "string list"
  not_null_fields :: "string list"
  unique_constraints :: "string list"
  default_values :: "string \<Rightarrow> string option"
  check_constraints :: "string list"
  foreign_keys :: "(string \<times> string) list"
  ct_charset :: string
  ct_engine :: string
  range_partition_field :: string
  range_partitions :: "range_partition_desc list"

definition new_table :: create_table_builder where
  "new_table =
     \<lparr>auto_increment_field = [], primary_keys = [], not_null_fields = [], unique_constraints = [],
      default_values = Map.empty, check_constraints = [], foreign_keys = [], ct_charset = [],
      ct_engine = [], range_partition_field = [], range_partitions = []\<rparr>"

definition auto_increment :: "col_info \<Rightarrow> create_table_builder \<Rightarrow> create_table_builder" where
  "auto_increment f b =
     b\<lparr>auto_increment_field := ci_name f, primary_keys := set_insert (ci_name f) (primary_keys b)\<rparr>"

definition primary_key :: "col_info list \<Rightarrow> create_table_builder \<Rightarrow> create_table_builder" where
  "primary_key fs b = b\<lparr>primary_keys := set_inserts (map ci_name fs) (primary_keys b)\<rparr>"

definition not_null :: "col_info list \<Rightarrow> create_table_builder \<Rightarrow> create_table_builder" where
  "not_null fs b = b\<lparr>not_null_fields := set_inserts (map ci_name fs) (not_null_fields b)\<rparr>"

text \<open>The fold shared by \<^verbatim>\<open>unique\<close>, \<^verbatim>\<open>add_index\<close> and \<^verbatim>\<open>add_unique\<close>.\<close>

definition join_names :: "col_info list \<Rightarrow> string" where
  "join_names fs =
     foldl (\<lambda>cols f. if cols = [] then cols @ ci_name f else cols @ '','' @ ci_name f) [] fs"

definition unique :: "col_info list \<Rightarrow> create_table_builder \<Rightarrow> create_table_builder" where
  "unique fs b = b\<lparr>unique_constraints := unique_constraints b @ [join_names fs]\<rparr>"

definition foreign_key :: "col_info \<Rightarrow> col_info \<Rightarrow> create_table_builder \<Rightarrow> create_table_builder" where
  "foreign_key loc ref b =
     b\<lparr>foreign_keys := foreign_keys b @ [(ci_name loc, ci_class ref @ ''('' @ ci_name ref @ '')'')]\<rparr>"

definition default_value :: "col_info \<Rightarrow> sql_val \<Rightarrow> create_table_builder \<Rightarrow> create_table_builder" where
  "default_value f v b = b\<lparr>default_values := (default_values b)(ci_name f \<mapsto> val_to_string v)\<rparr>"

definition check_cond :: "where_condition \<Rightarrow> create_table_builder \<Rightarrow> create_table_builder" where
  "check_cond w b = b\<lparr>check_constraints := check_constraints b @ [to_sql w]\<rparr>"

definition check_expr :: "string \<Rightarrow> create_table_builder \<Rightarrow> create_table_builder" where
  "check_expr e b = b\<lparr>check_constraints := check_constraints b @ [e]\<rparr>"

definition charset :: "string \<Rightarrow> create_table_builder \<Rightarrow> create_table_builder" where
  "charset cs b = b\<lparr>ct_charset := cs\<rparr>"

definition engine :: "string \<Rightarrow> create_table_builder \<Rightarrow> create_table_builder" where
  "engine eng b = b\<lparr>ct_engine := eng\<rparr>"

definition partition_by_range :: "col_info \<Rightarrow> create_table_builder \<Rightarrow> create_table_builder" where
  "partition_by_range f b = b\<lparr>range_partition_field := ci_name f\<rparr>"

definition add_range :: "range_partition_desc \<Rightarrow> create_table_builder \<Rightarrow> create_table_builder" where
  "add_range p b = b\<lparr>range_partitions := range_partitions b @ [p]\<rparr>"

definition validate_partition_config :: "db_type \<Rightarrow> create_table_builder \<Rightarrow> bool" where
  "validate_partition_config db b =
     (if range_partition_field b = [] then range_partitions b = []
      else if \<not> is_valid_sql_identifier (range_partition_field b) then False
      else if db = MySQL \<and> range_partitions b = [] then False
      else list_all is_valid_partition (range_partitions b))"

definition register_auto_increment_field :: "struct_meta \<Rightarrow> create_table_builder \<Rightarrow> registry \<Rightarrow> registry" where
  "register_auto_increment_field T b r =
     (if auto_increment_field b = [] then r
      else fold (\<lambda>name r. if name = auto_increment_field b
                  then add_auto_key_field r (get_short_struct_name T) name else r)
             (member_names T) r)"

text \<open>One column of \<^verbatim>\<open>generate_sql\<close>, with its comma, and the flag \<^verbatim>\<open>auto_inline_pk\<close>.\<close>

definition column_sql :: "db_type \<Rightarrow> create_table_builder \<Rightarrow> string \<times> string \<Rightarrow> string \<times> bool \<Rightarrow> string \<times> bool" where
  "column_sql db b = (\<lambda>(field_name, type_str) (sql, inline_pk).
     let is_auto = (auto_increment_field b \<noteq> [] \<and> field_name = auto_increment_field b);
         type_str = (if db = PostgreSQL \<and> is_auto
                     then (if type_str = ''bigint'' then ''bigserial'' else ''serial'') else type_str);
         sql = sql @ field_name @ '' '' @ type_str;
         (sql, inline_pk) =
           (if db = SQLite then (if is_auto then (sql @ '' PRIMARY KEY AUTOINCREMENT'', True) else (sql, inline_pk))
            else if db = MySQL then ((if is_auto then sql @ '' AUTO_INCREMENT'' else sql), inline_pk)
            else (sql, inline_pk));
         sql = (if field_name \<in> set (not_null_fields b) then sql @ '' NOT NULL'' else sql);
         sql = (case default_values b field_name of None \<Rightarrow> sql | Some v \<Rightarrow> sql @ '' DEFAULT '' @ v)
     in (sql @ '','', inline_pk))"

fun comma_loop :: "string list \<Rightarrow> bool \<Rightarrow> string \<Rightarrow> string" where
  "comma_loop [] first sql = sql"
| "comma_loop (k # ks) first sql = comma_loop ks False ((if \<not> first then sql @ '','' else sql) @ k)"

definition table_constraints :: "create_table_builder \<Rightarrow> bool \<Rightarrow> string \<Rightarrow> string" where
  "table_constraints b inline_pk sql =
     (let sql = (if \<not> inline_pk \<and> primary_keys b \<noteq> []
                 then comma_loop (primary_keys b) True (sql @ ''PRIMARY KEY ('') @ ''),'' else sql);
          sql = foldl (\<lambda>sql u. sql @ ''UNIQUE ('' @ u @ ''),'') sql (unique_constraints b);
          sql = foldl (\<lambda>sql (loc, ref). sql @ ''FOREIGN KEY ('' @ loc @ '') REFERENCES '' @ ref @ '','')
                  sql (foreign_keys b);
          sql = foldl (\<lambda>sql chk. sql @ ''CHECK ('' @ chk @ ''),'') sql (check_constraints b)
      in sql)"

definition table_options :: "db_type \<Rightarrow> create_table_builder \<Rightarrow> string \<Rightarrow> string" where
  "table_options db b sql =
     (if db = MySQL then
        (let sql = (if ct_engine b \<noteq> [] then sql @ '' ENGINE='' @ ct_engine b else sql);
             sql = (if ct_charset b \<noteq> [] then sql @ '' DEFAULT CHARSET='' @ ct_charset b
                    else sql @ '' DEFAULT CHARSET=utf8mb4'')
         in if range_partition_field b \<noteq> []
            then comma_loop (map mysql_partition_definition (range_partitions b)) True
                   (sql @ '' PARTITION BY RANGE COLUMNS('' @ range_partition_field b @ '') ('') @ '')''
            else sql)
      else if db = PostgreSQL then
        (if range_partition_field b \<noteq> []
         then sql @ '' PARTITION BY RANGE ('' @ range_partition_field b @ '')'' else sql)
      else sql)"

definition generate_sql :: "db_type \<Rightarrow> struct_meta \<Rightarrow> create_table_builder \<Rightarrow> string" where
  "generate_sql db T b =
     (let (sql, inline_pk) =
            fold (column_sql db b) (zip (member_names T) (get_type_names T db))
              (''CREATE TABLE IF NOT EXISTS '' @ get_short_struct_name T @ ''('', False);
          sql = table_constraints b inline_pk sql;
          sql = (if last sql = CHR '','' then butlast sql else sql)
      in table_options db b (sql @ '')''))"

definition generate_sqls :: "db_type \<Rightarrow> struct_meta \<Rightarrow> create_table_builder \<Rightarrow> string list" where
  "generate_sqls db T b =
     [generate_sql db T b] @
     (if range_partition_field b \<noteq> [] then
        (if db = PostgreSQL
         then map (postgresql_partition_definition_sql (get_short_struct_name T)) (range_partitions b)
         else if db = SQLite
         then [sqlite_partition_index_sql (get_short_struct_name T) (range_partition_field b)]
         else [])
      else [])"

fun execute_sqls :: "('db \<Rightarrow> string \<Rightarrow> bool \<times> 'db) \<Rightarrow> string list \<Rightarrow> 'db \<Rightarrow> bool \<times> 'db" where
  "execute_sqls execute [] d = (True, d)"
| "execute_sqls execute (sql # sqls) d =
     (let (ok, d') = execute d sql in if \<not> ok then (False, d') else execute_sqls execute sqls d')"

definition create_execute ::
  "('db \<Rightarrow> string \<Rightarrow> bool \<times> 'db) \<Rightarrow> db_type \<Rightarrow> struct_meta \<Rightarrow> create_table_builder \<Rightarrow>
   registry \<times> 'db \<Rightarrow> bool \<times> registry \<times> 'db" where
  "create_execute execute db T b = (\<lambda>(r, d).
     if \<not> validate_partition_config db b then (False, r, d)
     else let r = register_auto_increment_field T b r;
              (ok, d) = execute_sqls execute (generate_sqls db T b) d
          in (ok, r, d))"

section \<open>The alter-table builder\<close>

datatype alter_op =
    Alter_clause string
  | Clear_partition string range_partition_desc
  | Add_partition string range_partition_desc
  | Drop_partition range_partition_desc

text \<open>The type of the column in the struct, the first column's when the name is not found.\<close>

definition field_index :: "struct_meta \<Rightarrow> string \<Rightarrow> nat" where
  "field_index T name =
     fst (foldl (\<lambda>(target, i) n. (if n = name then i else target, Suc i)) (0, 0) (member_names T))"

definition add_column :: "db_type \<Rightarrow> struct_meta \<Rightarrow> col_info \<Rightarrow> string \<Rightarrow> alter_op list \<Rightarrow> alter_op list" where
  "add_column db T field extra ops =
     ops @ [Alter_clause (''ADD COLUMN '' @ ci_name field @ '' '' @
       get_type_names T db ! field_index T (ci_name field) @
       (if extra \<noteq> [] then '' '' @ extra else []))]"

definition add_column_text :: "string \<Rightarrow> string \<Rightarrow> alter_op list \<Rightarrow> alter_op list" where
  "add_column_text col_name type_and_constraints ops =
     ops @ [Alter_clause (''ADD COLUMN '' @ col_name @ '' '' @ type_and_constraints)]"

definition drop_column :: "string \<Rightarrow> alter_op list \<Rightarrow> alter_op list" where
  "drop_column col_name ops = ops @ [Alter_clause (''DROP COLUMN '' @ col_name)]"

definition rename_column :: "col_info \<Rightarrow> string \<Rightarrow> alter_op list \<Rightarrow> alter_op list" where
  "rename_column field new_name ops =
     ops @ [Alter_clause (''RENAME COLUMN '' @ ci_name field @ '' TO '' @ new_name)]"

definition modify_column :: "db_type \<Rightarrow> col_info \<Rightarrow> string \<Rightarrow> alter_op list \<Rightarrow> alter_op list" where
  "modify_column db field new_type ops =
     ops @ [Alter_clause
       (if db = MySQL then ''MODIFY COLUMN '' @ ci_name field @ '' '' @ new_type
        else if db = PostgreSQL then ''ALTER COLUMN '' @ ci_name field @ '' TYPE '' @ new_type
        else [])]"

definition create_index_prefix :: string where
  "create_index_prefix = ''_CREATE__INDEX__ ''"

definition drop_index_prefix :: string where
  "drop_index_prefix = ''_DROP_INDEX__ ''"

definition add_index :: "db_type \<Rightarrow> string \<Rightarrow> col_info list \<Rightarrow> alter_op list \<Rightarrow> alter_op list" where
  "add_index db index_name cs ops =
     ops @ [Alter_clause
       (if db = MySQL then ''ADD INDEX '' @ index_name @ '' ('' @ join_names cs @ '')''
        else create_index_prefix @ index_name @ '' '' @ join_names cs)]"

definition drop_index :: "db_type \<Rightarrow> string \<Rightarrow> alter_op list \<Rightarrow> alter_op list" where
  "drop_index db index_name ops =
     ops @ [Alter_clause (if db = MySQL then ''DROP INDEX '' @ index_name else drop_index_prefix @ index_name)]"

definition add_unique :: "string \<Rightarrow> col_info list \<Rightarrow> alter_op list \<Rightarrow> alter_op list" where
  "add_unique constraint_name cs ops =
     ops @ [Alter_clause (''ADD CONSTRAINT '' @ constraint_name @ '' UNIQUE ('' @ join_names cs @ '')'')]"

definition drop_constraint :: "db_type \<Rightarrow> string \<Rightarrow> alter_op list \<Rightarrow> alter_op list" where
  "drop_constraint db constraint_name ops =
     ops @ [Alter_clause (if db = MySQL then ''DROP INDEX '' @ constraint_name
                          else ''DROP CONSTRAINT '' @ constraint_name)]"

definition add_foreign_key :: "string \<Rightarrow> col_info \<Rightarrow> col_info \<Rightarrow> alter_op list \<Rightarrow> alter_op list" where
  "add_foreign_key constraint_name loc ref ops =
     ops @ [Alter_clause (''ADD CONSTRAINT '' @ constraint_name @ '' FOREIGN KEY ('' @ ci_name loc @
       '') REFERENCES '' @ ci_class ref @ ''('' @ ci_name ref @ '')'')]"

definition add_check :: "string \<Rightarrow> string \<Rightarrow> alter_op list \<Rightarrow> alter_op list" where
  "add_check constraint_name expr ops =
     ops @ [Alter_clause (''ADD CONSTRAINT '' @ constraint_name @ '' CHECK ('' @ expr @ '')'')]"

definition raw_clause :: "string \<Rightarrow> alter_op list \<Rightarrow> alter_op list" where
  "raw_clause clause ops = ops @ [Alter_clause clause]"

definition clear_partition :: "col_info \<Rightarrow> range_partition_desc \<Rightarrow> alter_op list \<Rightarrow> alter_op list" where
  "clear_partition field p ops = ops @ [Clear_partition (ci_name field) p]"

definition add_partition :: "col_info \<Rightarrow> range_partition_desc \<Rightarrow> alter_op list \<Rightarrow> alter_op list" where
  "add_partition field p ops = ops @ [Add_partition (ci_name field) p]"

definition drop_partition :: "range_partition_desc \<Rightarrow> alter_op list \<Rightarrow> alter_op list" where
  "drop_partition p ops = ops @ [Drop_partition p]"

text \<open>The index name and the columns of an index clause, split at the first space.\<close>

definition split_index :: "string \<Rightarrow> string \<times> string" where
  "split_index rest =
     (case find_char (CHR '' '') rest of None \<Rightarrow> (rest, rest) | Some sp \<Rightarrow> (take sp rest, drop (Suc sp) rest))"

fun build_operation_sql :: "db_type \<Rightarrow> string \<Rightarrow> alter_op \<Rightarrow> string option" where
  "build_operation_sql db table_name (Clear_partition field p) =
     (if \<not> is_valid_partition p \<or> \<not> is_valid_sql_identifier field then None
      else Some
        (if db = MySQL then ''ALTER TABLE '' @ table_name @ '' TRUNCATE PARTITION '' @ rp_name p
         else if db = PostgreSQL then ''TRUNCATE TABLE '' @ partition_child_table_name table_name (rp_name p)
         else ''DELETE FROM '' @ table_name @ '' WHERE '' @ partition_range_predicate field p))"
| "build_operation_sql db table_name (Add_partition field p) =
     (if \<not> is_valid_partition p \<or> \<not> is_valid_sql_identifier field then None
      else Some
        (if db = MySQL then ''ALTER TABLE '' @ table_name @ '' ADD PARTITION ('' @ mysql_partition_definition p @ '')''
         else if db = PostgreSQL then postgresql_partition_definition_sql table_name p
         else sqlite_partition_index_sql table_name field))"
| "build_operation_sql db table_name (Drop_partition p) =
     (if \<not> is_valid_partition p then None
      else if db = MySQL then Some (''ALTER TABLE '' @ table_name @ '' DROP PARTITION '' @ rp_name p)
      else if db = PostgreSQL then Some (''DROP TABLE IF EXISTS '' @ partition_child_table_name table_name (rp_name p))
      else None)"
| "build_operation_sql db table_name (Alter_clause sql) =
     Some
       (if prefix create_index_prefix sql then
          (let (idx_name, cols) = split_index (drop (length create_index_prefix) sql)
           in (if db = PostgreSQL then ''CREATE INDEX IF NOT EXISTS '' else ''CREATE INDEX '') @
              idx_name @ '' ON '' @ table_name @ ''('' @ cols @ '')'')
        else if prefix drop_index_prefix sql then ''DROP INDEX '' @ drop (length drop_index_prefix) sql
        else ''ALTER TABLE '' @ table_name @ '' '' @ sql)"

fun alter_execute ::
  "('db \<Rightarrow> string \<Rightarrow> bool \<times> 'db) \<Rightarrow> db_type \<Rightarrow> struct_meta \<Rightarrow> alter_op list \<Rightarrow> 'db \<Rightarrow> bool \<times> 'db" where
  "alter_execute execute db T [] d = (True, d)"
| "alter_execute execute db T (x # xs) d =
     (case build_operation_sql db (get_short_struct_name T) x of
        None \<Rightarrow> (False, d)
      | Some sql \<Rightarrow>
          (let (ok, d') = execute d sql in if \<not> ok then (False, d') else alter_execute execute db T xs d'))"

section \<open>The shape of the statement\<close>

definition column_text :: "db_type \<Rightarrow> create_table_builder \<Rightarrow> string \<times> string \<Rightarrow> string" where
  "column_text db b = (\<lambda>(name, ty).
     let auto = auto_increment_field b \<noteq> [] \<and> name = auto_increment_field b in
     name @ '' '' @
     (if auto \<and> db = PostgreSQL then (if ty = ''bigint'' then ''bigserial'' else ''serial'') else ty) @
     (if auto \<and> db = SQLite then '' PRIMARY KEY AUTOINCREMENT''
      else if auto \<and> db = MySQL then '' AUTO_INCREMENT'' else []) @
     (if name \<in> set (not_null_fields b) then '' NOT NULL'' else []) @
     (case default_values b name of None \<Rightarrow> [] | Some v \<Rightarrow> '' DEFAULT '' @ v))"

definition inline_key :: "db_type \<Rightarrow> struct_meta \<Rightarrow> create_table_builder \<Rightarrow> bool" where
  "inline_key db T b \<longleftrightarrow>
     db = SQLite \<and> auto_increment_field b \<noteq> [] \<and> auto_increment_field b \<in> set (member_names T)"

definition constraint_texts :: "db_type \<Rightarrow> struct_meta \<Rightarrow> create_table_builder \<Rightarrow> string list" where
  "constraint_texts db T b =
     (if \<not> inline_key db T b \<and> primary_keys b \<noteq> []
      then [''PRIMARY KEY ('' @ comma_sep (primary_keys b) @ '')''] else []) @
     map (\<lambda>u. ''UNIQUE ('' @ u @ '')'') (unique_constraints b) @
     map (\<lambda>(loc, ref). ''FOREIGN KEY ('' @ loc @ '') REFERENCES '' @ ref) (foreign_keys b) @
     map (\<lambda>c. ''CHECK ('' @ c @ '')'') (check_constraints b)"

definition option_text :: "db_type \<Rightarrow> create_table_builder \<Rightarrow> string" where
  "option_text db b =
     (if db = MySQL then
        (if ct_engine b \<noteq> [] then '' ENGINE='' @ ct_engine b else []) @
        '' DEFAULT CHARSET='' @ (if ct_charset b \<noteq> [] then ct_charset b else ''utf8mb4'') @
        (if range_partition_field b \<noteq> []
         then '' PARTITION BY RANGE COLUMNS('' @ range_partition_field b @ '') ('' @
              comma_sep (map mysql_partition_definition (range_partitions b)) @ '')'' else [])
      else if db = PostgreSQL \<and> range_partition_field b \<noteq> []
      then '' PARTITION BY RANGE ('' @ range_partition_field b @ '')'' else [])"

lemma column_sql_text:
  "column_sql db b (n, t) (sql, i) =
   (sql @ column_text db b (n, t) @ '','',
    i \<or> db = SQLite \<and> auto_increment_field b \<noteq> [] \<and> n = auto_increment_field b)"
  by (cases "default_values b n") (simp_all add: column_sql_def column_text_def Let_def)

lemma columns_text:
  "fold (column_sql db b) cols (sql, i) =
   (sql @ comma_terminated (map (column_text db b) cols),
    i \<or> db = SQLite \<and> auto_increment_field b \<noteq> [] \<and> auto_increment_field b \<in> fst ` set cols)"
  by (induction cols arbitrary: sql i) (auto simp: column_sql_text)

lemma comma_loop_False: "comma_loop ks False sql = sql @ concat (map (\<lambda>k. '','' @ k) ks)"
  by (induction ks arbitrary: sql) simp_all

lemma comma_sep_concat: "comma_sep (k # ks) = k @ concat (map (\<lambda>k. '','' @ k) ks)"
  by (induction ks arbitrary: k) simp_all

lemma comma_loop_sep: "comma_loop ks True sql = sql @ comma_sep ks"
  by (cases ks) (simp_all add: comma_loop_False comma_sep_concat del: comma_sep.simps(3))

lemma foldl_append_concat: "foldl (\<lambda>s x. s @ f x) s xs = s @ concat (map f xs)"
  by (induction xs arbitrary: s) simp_all

lemma constraints_text:
  "table_constraints b i sql =
   sql @ comma_terminated
     ((if \<not> i \<and> primary_keys b \<noteq> [] then [''PRIMARY KEY ('' @ comma_sep (primary_keys b) @ '')''] else []) @
     map (\<lambda>u. ''UNIQUE ('' @ u @ '')'') (unique_constraints b) @
     map (\<lambda>(loc, ref). ''FOREIGN KEY ('' @ loc @ '') REFERENCES '' @ ref) (foreign_keys b) @
     map (\<lambda>c. ''CHECK ('' @ c @ '')'') (check_constraints b))"
proof -
  have u: "foldl (\<lambda>sql u. sql @ ''UNIQUE ('' @ u @ ''),'') s xs =
      s @ comma_terminated (map (\<lambda>u. ''UNIQUE ('' @ u @ '')'') xs)" for s xs
    by (induction xs arbitrary: s) simp_all
  have f: "foldl (\<lambda>sql (loc, ref). sql @ ''FOREIGN KEY ('' @ loc @ '') REFERENCES '' @ ref @ '','') s xs =
      s @ comma_terminated (map (\<lambda>(loc, ref). ''FOREIGN KEY ('' @ loc @ '') REFERENCES '' @ ref) xs)" for s xs
    by (induction xs arbitrary: s) (auto simp: case_prod_beta)
  have c: "foldl (\<lambda>sql chk. sql @ ''CHECK ('' @ chk @ ''),'') s xs =
      s @ comma_terminated (map (\<lambda>c. ''CHECK ('' @ c @ '')'') xs)" for s xs
    by (induction xs arbitrary: s) simp_all
  show ?thesis
    unfolding table_constraints_def Let_def u f c comma_loop_sep by simp
qed

lemma drop_last_comma:
  "(if last ((pre @ ''('') @ comma_terminated xs) = CHR '',''
    then butlast ((pre @ ''('') @ comma_terminated xs) else (pre @ ''('') @ comma_terminated xs) =
   (pre @ ''('') @ comma_sep xs"
  by (cases "xs = []") (simp_all add: comma_terminated_sep butlast_append)

lemma options_text: "table_options db b sql = sql @ option_text db b"
  unfolding table_options_def option_text_def Let_def comma_loop_sep by simp

lemma generate_sql_shape:
  "generate_sql db T b =
     (''CREATE TABLE IF NOT EXISTS '' @ get_short_struct_name T) @ ''('' @
     comma_sep (map (column_text db b) (zip (member_names T) (get_type_names T db)) @ constraint_texts db T b) @
     '')'' @ option_text db b"
proof -
  let ?cols = "zip (member_names T) (get_type_names T db)"
  have len: "length (member_names T) = length (get_type_names T db)"
    by (simp add: get_type_names_def)
  then have "fst ` set ?cols = set (member_names T)"
    by (metis list.set_map map_fst_zip)
  then have "fold (column_sql db b) ?cols (''CREATE TABLE IF NOT EXISTS '' @ get_short_struct_name T @ ''('', False) =
     ((''CREATE TABLE IF NOT EXISTS '' @ get_short_struct_name T) @ ''('' @
       comma_terminated (map (column_text db b) ?cols), inline_key db T b)"
    by (simp add: columns_text inline_key_def del: append.simps)
  moreover have "table_constraints b (inline_key db T b) (u @ comma_terminated xs) =
      u @ comma_terminated (xs @ constraint_texts db T b)" for u xs
    by (simp add: constraints_text constraint_texts_def)
  ultimately show ?thesis
    unfolding generate_sql_def Let_def options_text
    by (simp only: prod.case append_assoc)
      (simp only: append_assoc [symmetric] drop_last_comma)
qed

section \<open>Execution\<close>

lemma execute_sqls_prefix:
  "\<exists>k \<le> length sqls. snd (execute_sqls execute sqls d) = foldl (\<lambda>d s. snd (execute d s)) d (take k sqls) \<and>
     (fst (execute_sqls execute sqls d) \<longrightarrow> k = length sqls)"
proof (induction sqls arbitrary: d)
  case (Cons s sqls)
  obtain ok d' where e: "execute d s = (ok, d')" by fastforce
  show ?case
  proof (cases ok)
    case True
    obtain k where k: "k \<le> length sqls"
      "snd (execute_sqls execute sqls d') = foldl (\<lambda>d s. snd (execute d s)) d' (take k sqls)"
      "fst (execute_sqls execute sqls d') \<longrightarrow> k = length sqls" using Cons.IH by blast
    with True e show ?thesis by (intro exI [of _ "Suc k"]) simp
  next
    case False
    with e show ?thesis by (intro exI [of _ 1]) simp
  qed
qed simp

lemma register_fold:
  "fold (\<lambda>name r. if name = a then add_auto_key_field r key name else r) names r =
   (if a \<in> set names then add_auto_key_field r key a else r)"
  by (induction names arbitrary: r) (auto simp: add_auto_key_field_def emplace_def split: option.splits)

lemma register_auto_increment_field_eq:
  "register_auto_increment_field T b r =
   (if auto_increment_field b \<noteq> [] \<and> auto_increment_field b \<in> set (member_names T)
    then add_auto_key_field r (get_short_struct_name T) (auto_increment_field b) else r)"
  by (simp add: register_auto_increment_field_def register_fold)

lemma alter_execute_prefix:
  "alter_execute execute db T ops d =
   (let build = build_operation_sql db (get_short_struct_name T);
        good = takeWhile (\<lambda>x. build x \<noteq> None) ops;
        (ok, d') = execute_sqls execute (map (\<lambda>x. the (build x)) good) d
    in (ok \<and> length good = length ops, d'))"
  by (induction ops arbitrary: d) (auto simp: Let_def split: option.splits prod.splits)

lemma find_char_takeWhile:
  "find_char q (n @ q # cs) = Some (length (takeWhile (\<lambda>c. c \<noteq> q) n))"
  by (induction n) auto

section \<open>Properties\<close>

text \<open>C23: the create-table statement is the parenthesised, comma-separated list of one definition per
  struct member, in member order, and of the declared constraints, followed by the options of the
  database; the trailing comma of the generator never remains.  With an inline SQLite auto-increment
  key the declared primary keys are not part of it.\<close>

theorem create_table_statement:
  "generate_sql db T b =
     (''CREATE TABLE IF NOT EXISTS '' @ get_short_struct_name T) @ ''('' @
     comma_sep (map (column_text db b) (zip (member_names T) (get_type_names T db)) @ constraint_texts db T b) @
     '')'' @ option_text db b"
  by (rule generate_sql_shape)

text \<open>the columns of a composite primary key are listed in alphabetical order, each once,
  whatever the order in which the program names them.\<close>

theorem primary_key_order_lost:
  "primary_keys (primary_key fs new_table) = sorted_list_of_set (ci_name ` set fs)"
proof (rule sorted_distinct_set_unique)
  have "sorted (set_inserts (map ci_name fs) [])" "distinct (set_inserts (map ci_name fs) [])"
    by (simp_all add: set_inserts_sorted set_inserts_distinct)
  then show "sorted (primary_keys (primary_key fs new_table))" "distinct (primary_keys (primary_key fs new_table))"
    by (simp_all add: primary_key_def new_table_def)
qed (simp_all add: primary_key_def new_table_def)


definition id_col :: col_info where
  "id_col = \<lparr>ci_name = ''id'', ci_class = ''person'', ci_sort_order = []\<rparr>"


text \<open>altering a table executes, in order, the statements of the longest run of operations that
  can be built, stops at the first failure, and succeeds exactly when all of them succeed and no
  operation is left; operations with an invalid partition are never sent.\<close>

theorem alter_execute_effects:
  "alter_execute execute db T ops d =
   (let build = build_operation_sql db (get_short_struct_name T);
        good = takeWhile (\<lambda>x. build x \<noteq> None) ops;
        (ok, d') = execute_sqls execute (map (\<lambda>x. the (build x)) good) d
    in (ok \<and> length good = length ops, d'))"
  by (rule alter_execute_prefix)

text \<open>an index for PostgreSQL or SQLite takes the text before the first space for its name; the
  columns follow only if the name has no space.\<close>

theorem index_name_cut_at_space:
  "map (build_operation_sql PostgreSQL t) (add_index PostgreSQL n fs []) =
     [Some (''CREATE INDEX IF NOT EXISTS '' @ takeWhile (\<lambda>c. c \<noteq> CHR '' '') n @ '' ON '' @ t @ ''('' @
       drop (Suc (length (takeWhile (\<lambda>c. c \<noteq> CHR '' '') n))) (n @ '' '' @ join_names fs) @ '')'')]"
proof -
  let ?k = "length (takeWhile (\<lambda>c. c \<noteq> CHR '' '') n)"
  have t: "take ?k n = takeWhile (\<lambda>c. c \<noteq> CHR '' '') n" by (rule takeWhile_eq_take [symmetric])
  have "split_index (n @ '' '' @ join_names fs) =
      (take ?k n, drop (Suc ?k) (n @ '' '' @ join_names fs))"
    using length_takeWhile_le [of "\<lambda>c. c \<noteq> CHR '' ''" n]
    by (simp add: split_index_def find_char_takeWhile)
  moreover have "drop (length create_index_prefix) (create_index_prefix @ x) = x" for x by simp
  ultimately show ?thesis by (simp only: t add_index_def append_Nil list.map build_operation_sql.simps
      db_type.distinct if_False if_True same_prefix_prefix prefix_prefix prefix_order.refl prod.case Let_def simp_thms)
qed

end
