(* ===== verification/Facade.thy ===== *)
theory Facade
  imports Sql_Generate
begin

text \<open>
  What the facade \<^verbatim>\<open>ormpp/dbng.hpp\<close> adds to the driver it forwards to: the condition made of a member, an
  operator and a value, and the aspects around \<^verbatim>\<open>connect\<close> and \<^verbatim>\<open>execute\<close>.  Every other member function is a
  call of the driver's function of the same name.
\<close>

section \<open>Conditions on a member\<close>

text \<open>The value's type decides how it is written: a number as \<^verbatim>\<open>std::to_string\<close> prints it, or a text, as a
  \<^verbatim>\<open>std::string\<close> or as a character array.\<close>

datatype cond_value = Number string | String_value string | Array_value string

fun value_piece :: "cond_value \<Rightarrow> sql_piece" where
  "value_piece (Number t) = Str t"
| "value_piece (String_value s) = Str s"
| "value_piece (Array_value s) = Lit s"

fun value_text :: "cond_value \<Rightarrow> string" where
  "value_text (Number t) = t"
| "value_text (String_value s) = s"
| "value_text (Array_value s) = s"

text \<open>\<open>arithmetic\<close>: the member's type is.  A number compared with another member is quoted as well.\<close>

definition build_condition :: "bool \<Rightarrow> string \<Rightarrow> string \<Rightarrow> cond_value \<Rightarrow> string" where
  "build_condition arithmetic field oper val =
     (if arithmetic then append_pieces [] [Str field, Str oper, value_piece val]
      else append_pieces [] [Str field, Str oper, Str (sql_quoted (value_text val))])"

text \<open>The deprecated \<^verbatim>\<open>query\<close> and \<^verbatim>\<open>delete_records\<close> on a member hand the condition to the driver.\<close>

definition query_member :: "(string \<Rightarrow> 's \<Rightarrow> 'r \<times> 's) \<Rightarrow> bool \<Rightarrow> string \<Rightarrow> string \<Rightarrow> cond_value \<Rightarrow> 's \<Rightarrow> 'r \<times> 's" where
  "query_member db_query arithmetic field oper val = db_query (build_condition arithmetic field oper val)"

definition delete_member :: "(string \<Rightarrow> 's \<Rightarrow> bool \<times> 's) \<Rightarrow> bool \<Rightarrow> string \<Rightarrow> string \<Rightarrow> cond_value \<Rightarrow> 's \<Rightarrow> bool \<times> 's" where
  "delete_member db_delete arithmetic field oper val = db_delete (build_condition arithmetic field oper val)"

text \<open>The value of a condition on a text member is one literal, whatever it is: nothing of it is read as SQL.\<close>

lemma text_condition_literal:
  assumes "field \<noteq> []" "oper \<noteq> []"
  shows "build_condition False field oper val = field @ '' '' @ oper @ '' '' @ sql_quoted (value_text val) @ '' ''"
    and "std_literal (sql_quoted (value_text val) @ '' '' @ rest) (value_text val) ('' '' @ rest)"
proof -
  show "build_condition False field oper val = field @ '' '' @ oper @ '' '' @ sql_quoted (value_text val) @ '' ''"
    using assms by (simp add: build_condition_def sql_quoted_def)
  show "std_literal (sql_quoted (value_text val) @ '' '' @ rest) (value_text val) ('' '' @ rest)"
    by (rule sql_quoted_reads_back) simp
qed

text \<open>A text compared with a member of an arithmetic type goes into the statement as it is.\<close>

lemma arithmetic_condition_raw:
  assumes "field \<noteq> []" "oper \<noteq> []" "s \<noteq> []"
  shows "build_condition True field oper (String_value s) = field @ '' '' @ oper @ '' '' @ s @ '' ''"
  using assms by (simp add: build_condition_def)

section \<open>Aspects\<close>

text \<open>An aspect may have a \<^verbatim>\<open>before\<close> and an \<^verbatim>\<open>after\<close>, as \<^verbatim>\<open>has_before\<close> and \<^verbatim>\<open>has_after\<close> decide; they act on the state \<open>'s\<close>
  of the program.\<close>

record ('s, 'r) aspect =
  before :: "('s \<Rightarrow> bool \<times> 's) option"
  after :: "('r \<Rightarrow> 's \<Rightarrow> bool \<times> 's) option"

text \<open>The loops go over all aspects; once one has returned false the others are passed over.\<close>

fun for_each_l :: "('s, 'r) aspect list \<Rightarrow> bool \<Rightarrow> 's \<Rightarrow> bool \<times> 's" where
  "for_each_l [] r s = (r, s)"
| "for_each_l (item # items) r s =
     (let (r, s) = (if \<not> r then (r, s) else case before item of None \<Rightarrow> (r, s) | Some f \<Rightarrow> f s)
      in for_each_l items r s)"

fun for_each_r :: "('s, 'r) aspect list \<Rightarrow> 'r \<Rightarrow> bool \<Rightarrow> 's \<Rightarrow> bool \<times> 's" where
  "for_each_r [] res r s = (r, s)"
| "for_each_r (item # items) res r s =
     (let (r, s) = for_each_r items res r s
      in if \<not> r then (r, s) else case after item of None \<Rightarrow> (r, s) | Some f \<Rightarrow> f res s)"

definition wraper :: "('s, 'r) aspect list \<Rightarrow> 'r \<Rightarrow> ('s \<Rightarrow> 'r \<times> 's) \<Rightarrow> 's \<Rightarrow> 'r \<times> 's" where
  "wraper items no_result func s =
     (let (r, s) = for_each_l items True s
      in if \<not> r then (no_result, s)
         else let (result, s) = func s; (_, s) = for_each_r items result r s in (result, s))"

lemma for_each_l_False [simp]: "for_each_l items False s = (False, s)"
  by (induction items) simp_all

text \<open>The aspects nest: the first one is the outermost.  A \<^verbatim>\<open>before\<close> that returns false ends the call with the
  empty result: no later aspect, not the function, and no \<^verbatim>\<open>after\<close> runs.  An \<^verbatim>\<open>after\<close> sees the function's result and
  cannot change it.\<close>

definition calls :: "('s, 'r) aspect \<Rightarrow> 's \<Rightarrow> bool \<times> 's" where
  "calls item s = (case before item of None \<Rightarrow> (True, s) | Some f \<Rightarrow> f s)"

lemma wraper_vetoed:
  assumes "for_each_l pre True s = (True, s1)" "calls item s1 = (False, s2)"
  shows "wraper (pre @ item # post) no_result func s = (no_result, s2)"
proof -
  have split: "for_each_l (pre @ items) r t = (let (r, t) = for_each_l pre r t in for_each_l items r t)" for items r t
    by (induction pre arbitrary: r t) (simp_all add: Let_def split: prod.split)
  show ?thesis using assms by (simp add: wraper_def split calls_def split: option.splits)
qed

lemma wraper_runs:
  assumes "for_each_l items True s = (True, s1)" "func s1 = (result, s2)"
  shows "fst (wraper items no_result func s) = result"
    and "snd (wraper items no_result func s) = snd (for_each_r items result True s2)"
  using assms by (simp_all add: wraper_def Let_def split: prod.split)

text \<open>The order of the calls: each \<^verbatim>\<open>before\<close> in the order of the aspects, the function, each \<^verbatim>\<open>after\<close> in the opposite
  order.  The state is the log.\<close>

definition logging :: "nat \<Rightarrow> (string list, 'r) aspect" where
  "logging i = \<lparr>before = Some (\<lambda>l. (True, l @ [''before '' @ nat_str i])),
                after = Some (\<lambda>_ l. (True, l @ [''after '' @ nat_str i]))\<rparr>"

lemma aspects_nest:
  "wraper (map logging is) no_result (\<lambda>l. (x, l @ [''call''])) l =
    (x, l @ map (\<lambda>i. ''before '' @ nat_str i) is @ ''call'' # map (\<lambda>i. ''after '' @ nat_str i) (rev is))"
proof -
  have b: "for_each_l (map logging is) True l = (True, l @ map (\<lambda>i. ''before '' @ nat_str i) is)" for l
    by (induction "is" arbitrary: l) (simp_all add: logging_def)
  have a: "for_each_r (map logging is) res True l = (True, l @ map (\<lambda>i. ''after '' @ nat_str i) (rev is))" for res :: 'r and l
    by (induction "is" arbitrary: l) (simp_all add: logging_def)
  show ?thesis by (simp add: wraper_def a b)
qed

end
