(* ===== verification/Mysql_Wire.thy ===== *)
theory Mysql_Wire
  imports Ormpp_Prelude
begin

text \<open>
  The wire format of the asynchronous MySQL driver (\<^verbatim>\<open>ormpp/mysql_async.hpp\<close>, namespace
  \<^verbatim>\<open>detail::mysql_async\<close>): little-endian integers, the bounds-checked \<^verbatim>\<open>packet_reader\<close>,
  length-encoded integers and strings, the parsers of the server's packets, and the scrambled
  passwords.  A reader is a function from the unread bytes to a value and the rest, or to the
  exception.  SHA-1, SHA-256 and RSA are OpenSSL's and are parameters.
\<close>

section \<open>Little-endian integers\<close>

definition read_le16 :: "byte list \<Rightarrow> u16" where
  "read_le16 d = ucast (d ! 0) OR push_bit 8 (ucast (d ! 1))"

definition read_le24 :: "byte list \<Rightarrow> u32" where
  "read_le24 d = ucast (d ! 0) OR push_bit 8 (ucast (d ! 1)) OR push_bit 16 (ucast (d ! 2))"

definition read_le32 :: "byte list \<Rightarrow> u32" where
  "read_le32 d = ucast (d ! 0) OR push_bit 8 (ucast (d ! 1)) OR push_bit 16 (ucast (d ! 2)) OR
     push_bit 24 (ucast (d ! 3))"

definition read_le64 :: "byte list \<Rightarrow> u64" where
  "read_le64 d = fold (\<lambda>i value. value OR push_bit (i * 8) (ucast (d ! i))) [0..<8] 0"

definition append_le16 :: "byte list \<Rightarrow> u16 \<Rightarrow> byte list" where
  "append_le16 out v = out @ [ucast (v AND 0xff), ucast (drop_bit 8 v AND 0xff)]"

definition append_le24 :: "byte list \<Rightarrow> u32 \<Rightarrow> byte list" where
  "append_le24 out v =
     out @ [ucast (v AND 0xff), ucast (drop_bit 8 v AND 0xff), ucast (drop_bit 16 v AND 0xff)]"

definition append_le32 :: "byte list \<Rightarrow> u32 \<Rightarrow> byte list" where
  "append_le32 out v =
     out @ [ucast (v AND 0xff), ucast (drop_bit 8 v AND 0xff), ucast (drop_bit 16 v AND 0xff),
            ucast (drop_bit 24 v AND 0xff)]"

definition append_le64 :: "byte list \<Rightarrow> u64 \<Rightarrow> byte list" where
  "append_le64 out v = fold (\<lambda>i out. out @ [ucast (drop_bit (i * 8) v AND 0xff)]) [0..<8] out"

section \<open>The packet reader\<close>

definition make_protocol_error :: "string \<Rightarrow> exn" where
  "make_protocol_error msg = Runtime_error (''mysql_async protocol error: '' @ msg)"

definition require :: "nat \<Rightarrow> byte list \<Rightarrow> unit result" where
  "require n s = (if length s < n then Inl (make_protocol_error ''truncated packet'') else Inr ())"

definition read_byte :: "byte list \<Rightarrow> (byte \<times> byte list) result" where
  "read_byte s = rbind (require 1 s) (\<lambda>_. Inr (s ! 0, drop 1 s))"

definition read_u16 :: "byte list \<Rightarrow> (u16 \<times> byte list) result" where
  "read_u16 s = rbind (require 2 s) (\<lambda>_. Inr (read_le16 s, drop 2 s))"

definition read_u24 :: "byte list \<Rightarrow> (u32 \<times> byte list) result" where
  "read_u24 s = rbind (require 3 s) (\<lambda>_. Inr (read_le24 s, drop 3 s))"

definition read_u32 :: "byte list \<Rightarrow> (u32 \<times> byte list) result" where
  "read_u32 s = rbind (require 4 s) (\<lambda>_. Inr (read_le32 s, drop 4 s))"

definition read_u64 :: "byte list \<Rightarrow> (u64 \<times> byte list) result" where
  "read_u64 s = rbind (require 8 s) (\<lambda>_. Inr (read_le64 s, drop 8 s))"

definition skip :: "nat \<Rightarrow> byte list \<Rightarrow> byte list result" where
  "skip n s = rbind (require n s) (\<lambda>_. Inr (drop n s))"

definition str_of :: "byte list \<Rightarrow> string" where
  "str_of bs = map char_of_byte bs"

definition bytes_of :: "string \<Rightarrow> byte list" where
  "bytes_of s = map byte_of_char s"

definition read_string :: "nat \<Rightarrow> byte list \<Rightarrow> (string \<times> byte list) result" where
  "read_string n s = rbind (require n s) (\<lambda>_. Inr (str_of (take n s), drop n s))"

definition read_null_terminated_string :: "byte list \<Rightarrow> (string \<times> byte list) result" where
  "read_null_terminated_string s =
     (let pos = length (takeWhile (\<lambda>b. b \<noteq> 0) s)
      in if pos = length s then Inl (make_protocol_error ''missing null terminator'')
         else Inr (str_of (take pos s), drop (pos + 1) s))"

text \<open>The length is compared as 64-bit unsigned with the number of unread bytes.\<close>

definition read_lenenc_string_optional :: "byte list \<Rightarrow> (string option \<times> byte list) result" where
  "read_lenenc_string_optional s =
     rbind (read_byte s) (\<lambda>(first_byte, s).
       if first_byte = 0xfb then Inr (None, s)
       else rbind
         (if first_byte < 0xfb then Inr (ucast first_byte :: u64, s)
          else if first_byte = 0xfc then rbind (read_u16 s) (\<lambda>(v, s). Inr (ucast v, s))
          else if first_byte = 0xfd then rbind (read_u24 s) (\<lambda>(v, s). Inr (ucast v, s))
          else if first_byte = 0xfe then read_u64 s
          else Inl (make_protocol_error ''invalid lenenc string''))
         (\<lambda>(len, s).
            if length s < unat len then Inl (make_protocol_error ''lenenc string overflow'')
            else rbind (read_string (unat len) s) (\<lambda>(t, s). Inr (Some t, s))))"

definition read_lenenc_string :: "byte list \<Rightarrow> (string \<times> byte list) result" where
  "read_lenenc_string s =
     rbind (read_lenenc_string_optional s)
       (\<lambda>(value, s). Inr (case value of Some t \<Rightarrow> t | None \<Rightarrow> [], s))"

definition read_lenenc_int :: "byte list \<Rightarrow> (u64 \<times> byte list) result" where
  "read_lenenc_int s =
     rbind (read_byte s) (\<lambda>(first_byte, s).
       if first_byte < 0xfb then Inr (ucast first_byte, s)
       else if first_byte = 0xfc then rbind (read_u16 s) (\<lambda>(v, s). Inr (ucast v, s))
       else if first_byte = 0xfd then rbind (read_u24 s) (\<lambda>(v, s). Inr (ucast v, s))
       else if first_byte = 0xfe then read_u64 s
       else Inl (make_protocol_error ''invalid lenenc integer''))"

definition append_lenenc_int :: "byte list \<Rightarrow> u64 \<Rightarrow> byte list" where
  "append_lenenc_int out value =
     (if value < 0xfb then out @ [ucast value]
      else if value \<le> 0xffff then append_le16 (out @ [0xfc]) (ucast value)
      else if value \<le> 0xffffff then append_le24 (out @ [0xfd]) (ucast value)
      else append_le64 (out @ [0xfe]) value)"

definition append_lenenc_string :: "byte list \<Rightarrow> string \<Rightarrow> byte list" where
  "append_lenenc_string out value =
     append_lenenc_int out (word_of_nat (length value)) @ bytes_of value"

section \<open>Kinds of packets\<close>

definition is_err_packet :: "byte list \<Rightarrow> bool" where
  "is_err_packet p \<longleftrightarrow> p \<noteq> [] \<and> p ! 0 = 0xff"

definition is_ok_packet :: "byte list \<Rightarrow> bool" where
  "is_ok_packet p \<longleftrightarrow> p \<noteq> [] \<and> p ! 0 = 0x00"

definition is_auth_switch_request :: "byte list \<Rightarrow> bool" where
  "is_auth_switch_request p \<longleftrightarrow> p \<noteq> [] \<and> p ! 0 = 0xfe \<and> 1 < length p"

definition is_auth_more_data :: "byte list \<Rightarrow> bool" where
  "is_auth_more_data p \<longleftrightarrow> p \<noteq> [] \<and> p ! 0 = 0x01"

definition looks_like_eof_packet :: "byte list \<Rightarrow> bool" where
  "looks_like_eof_packet p \<longleftrightarrow> length p < 9 \<and> p \<noteq> [] \<and> p ! 0 = 0xfe"

section \<open>OK and error packets\<close>

record ok_packet =
  affected_rows :: u64
  last_insert_id :: u64
  status_flags :: u16
  warnings :: u16
  info :: string

record error_packet =
  err_code :: u16
  sql_state :: string
  err_message :: string

definition parse_error_packet :: "byte list \<Rightarrow> error_packet result" where
  "parse_error_packet payload =
     rbind (read_byte payload) (\<lambda>(b, s).
     if b \<noteq> 0xff then Inl (make_protocol_error ''not an error packet'')
     else rbind (read_u16 s) (\<lambda>(code, s).
     rbind (if 1 \<le> length s \<and> s ! 0 = byte_of_char (CHR ''#'')
            then rbind (skip 1 s) (\<lambda>s. read_string 5 s) else Inr ([], s)) (\<lambda>(state, s).
     rbind (read_string (length s) s) (\<lambda>(msg, s).
     Inr \<lparr>err_code = code, sql_state = state, err_message = msg\<rparr>))))"

definition parse_ok_packet :: "byte list \<Rightarrow> ok_packet result" where
  "parse_ok_packet payload =
     rbind (read_byte payload) (\<lambda>(header, s).
     if header \<noteq> 0x00 \<and> header \<noteq> 0xfe then Inl (make_protocol_error ''not an ok packet'')
     else rbind (read_lenenc_int s) (\<lambda>(aff, s).
     rbind (read_lenenc_int s) (\<lambda>(lid, s).
     rbind (if 4 \<le> length s
            then rbind (read_u16 s) (\<lambda>(st, s). rbind (read_u16 s) (\<lambda>(w, s). Inr (st, w, s)))
            else Inr (0, 0, s)) (\<lambda>(st, w, s).
     rbind (if s \<noteq> [] then read_string (length s) s else Inr ([], s)) (\<lambda>(i, s).
     Inr \<lparr>affected_rows = aff, last_insert_id = lid, status_flags = st, warnings = w, info = i\<rparr>)))))"

section \<open>The handshake\<close>

definition client_secure_connection :: u32 where "client_secure_connection = 0x00008000"
definition client_plugin_auth :: u32 where "client_plugin_auth = 0x00080000"
definition client_connect_with_db :: u32 where "client_connect_with_db = 0x00000008"
definition client_deprecate_eof :: u32 where "client_deprecate_eof = 0x01000000"

definition mysql_native_password :: string where
  "mysql_native_password = ''mysql_native_password''"

definition caching_sha2_password :: string where
  "caching_sha2_password = ''caching_sha2_password''"

record server_handshake =
  protocol_version :: byte
  server_version :: string
  connection_id :: u32
  hs_scramble :: "byte list"
  capabilities :: u32
  character_set :: byte
  hs_status_flags :: u16
  hs_auth_plugin_name :: string

text \<open>Popping a final NUL, and filling up or cutting to the 20 bytes of the scramble.\<close>

definition pop_nul :: "string \<Rightarrow> string" where
  "pop_nul s = (if s \<noteq> [] \<and> last s = CHR 0x00 then butlast s else s)"

definition scramble_20 :: "string \<Rightarrow> byte list" where
  "scramble_20 s = take 20 (bytes_of (s @ replicate (20 - length s) (CHR 0x00)))"

definition parse_server_handshake :: "byte list \<Rightarrow> server_handshake result" where
  "parse_server_handshake payload =
     rbind (read_byte payload) (\<lambda>(pv, s).
     rbind (read_null_terminated_string s) (\<lambda>(ver, s).
     rbind (read_u32 s) (\<lambda>(cid, s).
     rbind (read_string 8 s) (\<lambda>(scramble1, s).
     rbind (skip 1 s) (\<lambda>s.
     rbind (read_u16 s) (\<lambda>(cap_lo, s).
     if s = [] then Inl (make_protocol_error ''old mysql protocol is not supported'')
     else rbind (read_byte s) (\<lambda>(cset, s).
     rbind (read_u16 s) (\<lambda>(st, s).
     rbind (read_u16 s) (\<lambda>(cap_hi, s).
     let caps = (ucast cap_lo :: u32) OR push_bit 16 (ucast cap_hi) in
     rbind (if caps AND client_plugin_auth \<noteq> 0 then read_byte s
            else rbind (skip 1 s) (\<lambda>s. Inr (0, s))) (\<lambda>(auth_plugin_len, s).
     rbind (skip 10 s) (\<lambda>s.
     rbind (if caps AND client_secure_connection \<noteq> 0
            then rbind (read_string (max 13 (unat auth_plugin_len - 8)) s)
                   (\<lambda>(part2, s). Inr (scramble1 @ pop_nul part2, s))
            else Inr (scramble1, s)) (\<lambda>(scramble, s).
     rbind (if caps AND client_plugin_auth \<noteq> 0 \<and> s \<noteq> [] then read_null_terminated_string s
            else Inr (mysql_native_password, s)) (\<lambda>(plugin, s).
     Inr \<lparr>protocol_version = pv, server_version = ver, connection_id = cid,
          hs_scramble = scramble_20 scramble, capabilities = caps, character_set = cset,
          hs_status_flags = st, hs_auth_plugin_name = plugin\<rparr>)))))))))))))"

section \<open>Passwords\<close>

definition xor_bytes :: "byte list \<Rightarrow> byte list \<Rightarrow> byte list" where
  "xor_bytes xs ys = map (\<lambda>(x, y). x XOR y) (zip xs ys)"

definition scramble_mysql_native_password ::
  "(byte list \<Rightarrow> byte list) \<Rightarrow> string \<Rightarrow> byte list \<Rightarrow> byte list" where
  "scramble_mysql_native_password SHA1 password scramble =
     (if password = [] then []
      else let stage1 = SHA1 (bytes_of password);
               stage2 = SHA1 stage1;
               stage3 = SHA1 (scramble @ stage2)
           in xor_bytes stage1 stage3)"

definition scramble_caching_sha2_password ::
  "(byte list \<Rightarrow> byte list) \<Rightarrow> string \<Rightarrow> byte list \<Rightarrow> byte list" where
  "scramble_caching_sha2_password SHA256 password scramble =
     (if password = [] then []
      else let stage1 = SHA256 (bytes_of password);
               stage2 = SHA256 stage1;
               stage3 = SHA256 (stage2 @ scramble)
           in xor_bytes stage1 stage3)"

definition salt_caching_sha2_password :: "string \<Rightarrow> byte list \<Rightarrow> byte list" where
  "salt_caching_sha2_password password scramble =
     map (\<lambda>i. byte_of_char (password ! i) XOR scramble ! (i mod length scramble)) [0..<length password] @
     [scramble ! (length password mod length scramble)]"

text \<open>The OpenSSL calls are one parameter: the encryption with the key of a PEM text, or its error.\<close>

definition rsa_encrypt_password ::
  "(byte list \<Rightarrow> byte list \<Rightarrow> byte list result) \<Rightarrow> string \<Rightarrow> byte list \<Rightarrow> byte list \<Rightarrow> byte list result" where
  "rsa_encrypt_password rsa password scramble public_key =
     rsa public_key (salt_caching_sha2_password password scramble)"

section \<open>Round trips\<close>

text \<open>
  What a decoder promises: after the encoding of a valid value it returns that value and leaves
  what follows.  From it, runs of values, which is how rows and column definitions are read.
\<close>

locale wire_codec =
  fixes valid :: "'a \<Rightarrow> bool"
    and enc :: "'a \<Rightarrow> byte list"
    and dec :: "byte list \<Rightarrow> ('a \<times> byte list) result"
  assumes dec_enc: "valid x \<Longrightarrow> dec (enc x @ rest) = Inr (x, rest)"
begin

lemma enc_injective: "valid x \<Longrightarrow> valid y \<Longrightarrow> enc x = enc y \<Longrightarrow> x = y"
  using dec_enc [of x "[]"] dec_enc [of y "[]"] by (metis Inr_inject prod.inject)

lemma enc_prefix_free:
  "valid x \<Longrightarrow> valid y \<Longrightarrow> enc x @ r = enc y @ r' \<Longrightarrow> x = y \<and> r = r'"
  using dec_enc [of x r] dec_enc [of y r'] by (metis Inr_inject prod.inject)

end

text \<open>Reading a fixed number of values one after the other.\<close>

fun read_n :: "(byte list \<Rightarrow> ('a \<times> byte list) result) \<Rightarrow> nat \<Rightarrow> byte list \<Rightarrow> ('a list \<times> byte list) result" where
  "read_n dec 0 s = Inr ([], s)"
| "read_n dec (Suc n) s =
     rbind (dec s) (\<lambda>(x, s). rbind (read_n dec n s) (\<lambda>(xs, s). Inr (x # xs, s)))"

context wire_codec
begin

lemma read_n_enc:
  "list_all valid xs \<Longrightarrow> read_n dec (length xs) (concat (map enc xs) @ rest) = Inr (xs, rest)"
  by (induction xs) (simp_all add: dec_enc)

end

text \<open>All four widths are instances of one fold over the bytes.\<close>

definition byte_at :: "'a::len word \<Rightarrow> nat \<Rightarrow> byte" where
  "byte_at v k = ucast (drop_bit k v AND 0xff)"

definition le_read :: "nat \<Rightarrow> byte list \<Rightarrow> 'a::len word" where
  "le_read k d = fold (\<lambda>i value. value OR push_bit (i * 8) (ucast (d ! i))) [0..<k] 0"

definition le_bytes :: "nat \<Rightarrow> 'a::len word \<Rightarrow> byte list" where
  "le_bytes k v = map (\<lambda>i. byte_at v (i * 8)) [0..<k]"

lemma bit_byte_at: "bit (byte_at v k) i \<longleftrightarrow> i < 8 \<and> bit v (k + i)"
proof -
  have m: "(0xff :: 'a word) = mask 8" by (simp add: mask_eq_decr_exp)
  show ?thesis unfolding byte_at_def m
    by (auto simp: bit_simps simp del: mask_numeral dest: bit_imp_le_length)
qed

lemma bit_le_read:
  "bit (le_read k d :: 'a::len word) n \<longleftrightarrow> n < LENGTH('a) \<and> n < 8 * k \<and> bit (d ! (n div 8)) (n mod 8)"
proof (induction k)
  case 0
  then show ?case by (simp add: le_read_def)
next
  case (Suc k)
  have b: "bit (d ! k) m \<Longrightarrow> m < 8" for m
    using bit_imp_le_length [of "d ! k" m] by simp
  have "bit (le_read (Suc k) d :: 'a word) n \<longleftrightarrow>
      bit (le_read k d :: 'a word) n \<or> n < LENGTH('a) \<and> k * 8 \<le> n \<and> bit (d ! k) (n - k * 8)"
  proof -
    have "le_read (Suc k) d = (le_read k d OR push_bit (k * 8) (ucast (d ! k)) :: 'a word)"
      by (simp add: le_read_def)
    then show ?thesis by (simp add: bit_or_iff bit_push_bit_iff bit_ucast_iff) (meson diff_le_self le_less_trans)
  qed
  also have "(n < LENGTH('a) \<and> k * 8 \<le> n \<and> bit (d ! k) (n - k * 8)) \<longleftrightarrow>
      n < LENGTH('a) \<and> k * 8 \<le> n \<and> n < 8 * Suc k \<and> bit (d ! (n div 8)) (n mod 8)" (is "?l = ?r")
  proof (cases "k * 8 \<le> n \<and> n < 8 * Suc k")
    case True
    then have d: "n div 8 = k" by (intro div_nat_eqI) simp_all
    then have "n mod 8 = n - k * 8" using minus_div_mult_eq_mod [of n 8] by simp
    note this d
    with True show ?thesis by simp
  next
    case False
    with b [of "n - k * 8"] show ?thesis by auto
  qed
  finally show ?case using Suc by auto
qed

lemma length_le_bytes [simp]: "length (le_bytes k v) = k"
  by (simp add: le_bytes_def)

lemma le_roundtrip: "le_read k (le_bytes k v @ rest) = take_bit (8 * k) v"
proof (rule bit_word_eqI)
  fix n assume n: "n < LENGTH('a)"
  show "bit (le_read k (le_bytes k v @ rest) :: 'a word) n \<longleftrightarrow> bit (take_bit (8 * k) v) n"
  proof (cases "n < 8 * k")
    case True
    then have "n div 8 < k" by auto
    with n True show ?thesis
      by (simp add: bit_le_read nth_append le_bytes_def bit_byte_at bit_simps)
  next
    case False
    then show ?thesis by (simp add: bit_le_read bit_simps)
  qed
qed

lemma read_le_eq:
  "read_le16 d = le_read 2 d" "read_le24 d = le_read 3 d" "read_le32 d = le_read 4 d"
  "read_le64 d = le_read 8 d"
  by (simp_all add: read_le16_def read_le24_def read_le32_def read_le64_def le_read_def
      numeral_eq_Suc or.assoc)

lemma append_le_eq:
  "append_le16 out v16 = out @ le_bytes 2 v16" "append_le24 out v = out @ le_bytes 3 v"
  "append_le32 out v = out @ le_bytes 4 v" "append_le64 out v64 = out @ le_bytes 8 v64"
  by (simp_all add: append_le16_def append_le24_def append_le32_def append_le64_def le_bytes_def
      byte_at_def numeral_eq_Suc)

lemma read_le_roundtrip:
  "read_le16 (le_bytes 2 v16 @ rest) = v16"
  "v \<le> 0xffffff \<Longrightarrow> read_le24 (le_bytes 3 v @ rest) = v"
  "read_le32 (le_bytes 4 v @ rest) = v"
  "read_le64 (le_bytes 8 v64 @ rest) = v64"
proof -
  show "v \<le> 0xffffff \<Longrightarrow> read_le24 (le_bytes 3 v @ rest) = v"
  proof -
    assume "v \<le> 0xffffff"
    then have "unat (take_bit 24 v) = unat v"
      by (simp add: unsigned_take_bit_eq take_bit_nat_eq_self_iff word_le_nat_alt)
    then show ?thesis by (simp add: read_le_eq le_roundtrip word_unat_eq_iff)
  qed
qed (simp_all add: read_le_eq le_roundtrip take_bit_word_eq_self)

section \<open>The readers undo the writers\<close>

lemma read_byte_Cons [simp]: "read_byte (b # rest) = Inr (b, rest)"
  by (simp add: read_byte_def require_def)

lemma read_byte_Nil: "read_byte [] = Inl (make_protocol_error ''truncated packet'')"
  by (simp add: read_byte_def require_def)

lemma read_u16_le [simp]: "read_u16 (le_bytes 2 v @ rest) = Inr (v, rest)"
  by (simp add: read_u16_def require_def read_le_roundtrip)

lemma read_u24_le [simp]: "v \<le> 0xffffff \<Longrightarrow> read_u24 (le_bytes 3 v @ rest) = Inr (v, rest)"
  by (simp add: read_u24_def require_def read_le_roundtrip)

lemma read_u32_le [simp]: "read_u32 (le_bytes 4 v @ rest) = Inr (v, rest)"
  by (simp add: read_u32_def require_def read_le_roundtrip)

lemma read_u64_le [simp]: "read_u64 (le_bytes 8 v @ rest) = Inr (v, rest)"
  by (simp add: read_u64_def require_def read_le_roundtrip)

lemma skip_app [simp]: "length u = n \<Longrightarrow> skip n (u @ rest) = Inr rest"
  by (simp add: skip_def require_def)

lemma read_string_app: "length u = n \<Longrightarrow> read_string n (u @ rest) = Inr (str_of u, rest)"
  by (simp add: read_string_def require_def)

lemma str_of_bytes_of [simp]: "str_of (bytes_of s) = s"
  unfolding str_of_def bytes_of_def by (rule map_char_of_byte_of_char)

lemma bytes_of_str_of [simp]: "bytes_of (str_of b) = b"
  unfolding str_of_def bytes_of_def by (rule map_byte_of_char_of_byte)

lemma length_bytes_of [simp]: "length (bytes_of s) = length s" "length (str_of b) = length b"
  by (simp_all add: str_of_def bytes_of_def)

lemma bytes_of_append [simp]: "bytes_of (u @ v) = bytes_of u @ bytes_of v" "bytes_of [] = []"
  by (simp_all add: bytes_of_def)

lemma str_of_append [simp]: "str_of (u @ v) = str_of u @ str_of v" "str_of [] = []"
  by (simp_all add: str_of_def)

lemma read_string_bytes_of: "read_string (length t) (bytes_of t @ rest) = Inr (t, rest)"
  using read_string_app [of "bytes_of t" "length t" rest] by simp

lemma read_string_all: "read_string (length s) s = Inr (str_of s, [])"
  using read_string_app [of s "length s" "[]"] by simp

definition no_nul :: "string \<Rightarrow> bool" where
  "no_nul s \<longleftrightarrow> CHR 0x00 \<notin> set s"

lemma byte_of_char_0: "byte_of_char c = 0 \<longleftrightarrow> c = CHR 0x00"
proof
  assume "byte_of_char c = 0"
  then have "char_of_byte (byte_of_char c) = char_of_byte (byte_of_char (CHR 0x00))"
    by (simp add: byte_of_char_def)
  then show "c = CHR 0x00" by (simp only: char_of_byte_of_char)
qed (simp add: byte_of_char_def)

lemma read_null_terminated:
  assumes "no_nul s"
  shows "read_null_terminated_string (bytes_of s @ 0 # rest) = Inr (s, rest)"
proof -
  have "takeWhile (\<lambda>b. b \<noteq> 0) (bytes_of s @ 0 # rest) = bytes_of s"
  proof -
    have "\<forall>b \<in> set (bytes_of s). b \<noteq> 0"
      using assms by (auto simp: bytes_of_def byte_of_char_0 no_nul_def)
    then show ?thesis by (simp add: takeWhile_append2)
  qed
  then show ?thesis by (simp add: read_null_terminated_string_def Let_def)
qed

lemma append_lenenc_int_app: "append_lenenc_int out v = out @ append_lenenc_int [] v"
  by (simp add: append_lenenc_int_def append_le_eq)

lemma read_lenenc_int_enc [simp]: "read_lenenc_int (append_lenenc_int [] v @ rest) = Inr (v, rest)"
proof -
  consider "v < 0xfb" | "\<not> v < 0xfb" "v \<le> 0xffff" | "\<not> v \<le> 0xffff" "v \<le> 0xffffff" | "\<not> v \<le> 0xffffff"
    by blast
  then show ?thesis
  proof cases
    case 1
    then have "unat v < 251" by (simp add: word_less_nat_alt)
    then have u: "unat (ucast v :: byte) = unat v" by (simp add: unsigned_ucast_eq unsigned_take_bit_eq take_bit_nat_eq_self_iff)
    then have "(ucast v :: byte) < 0xfb" using 1 by (simp add: word_less_nat_alt)
    moreover have "(ucast (ucast v :: byte) :: u64) = v"
      using u by (simp add: word_unat_eq_iff unsigned_ucast_eq unsigned_take_bit_eq take_bit_nat_eq_self_iff)
    ultimately show ?thesis using 1 by (simp add: read_lenenc_int_def append_lenenc_int_def)
  next
    case 2
    then have "unat v \<le> 65535" by (simp add: word_le_nat_alt)
    then have "(ucast (ucast v :: u16) :: u64) = v"
      by (simp add: word_unat_eq_iff unsigned_ucast_eq unsigned_take_bit_eq take_bit_nat_eq_self_iff)
    with 2 show ?thesis by (simp add: read_lenenc_int_def append_lenenc_int_def append_le_eq)
  next
    case 3
    then have n: "unat v \<le> 16777215" by (simp add: word_le_nat_alt)
    then have u: "unat (ucast v :: u32) = unat v" by (simp add: unsigned_ucast_eq unsigned_take_bit_eq take_bit_nat_eq_self_iff)
    then have "(ucast (ucast v :: u32) :: u64) = v" by (simp add: word_unat_eq_iff unsigned_ucast_eq unsigned_take_bit_eq take_bit_nat_eq_self_iff)
    moreover have "(ucast v :: u32) \<le> 0xffffff" using u n by (simp add: word_le_nat_alt)
    moreover have "\<not> v < 0xfb" using 3 by (simp add: word_le_nat_alt word_less_nat_alt)
    ultimately show ?thesis using 3 by (simp add: read_lenenc_int_def append_lenenc_int_def append_le_eq)
  next
    case 4
    then have "\<not> v < 0xfb" "\<not> v \<le> 0xffff" by (simp_all add: word_le_nat_alt word_less_nat_alt)
    with 4 show ?thesis by (simp add: read_lenenc_int_def append_lenenc_int_def append_le_eq)
  qed
qed

lemma append_lenenc_string_eq:
  "append_lenenc_string [] t = append_lenenc_int [] (word_of_nat (length t)) @ bytes_of t"
  by (simp add: append_lenenc_string_def)

lemma lenenc_dispatch:
  "read_lenenc_string_optional s =
     rbind (read_byte s) (\<lambda>(b, s'). if b = 0xfb then Inr (None, s')
       else rbind (if b = 0xff then Inl (make_protocol_error ''invalid lenenc string'') else read_lenenc_int s)
         (\<lambda>(len, s). if length s < unat len then Inl (make_protocol_error ''lenenc string overflow'')
            else rbind (read_string (unat len) s) (\<lambda>(t, s). Inr (Some t, s))))"
proof (cases s)
  case (Cons b bs)
  have "(b :: byte) < 0xfb \<or> b = 0xfb \<or> b = 0xfc \<or> b = 0xfd \<or> b = 0xfe \<or> b = 0xff"
    by (simp add: word_less_nat_alt word_unat_eq_iff)
      (use unsigned_less [of b, where ?'a = nat] in simp, linarith)
  with Cons show ?thesis
    by (elim disjE) (auto simp: read_lenenc_string_optional_def read_lenenc_int_def)
qed (simp add: read_lenenc_string_optional_def read_byte_Nil)

definition lenenc_opt_bytes :: "string option \<Rightarrow> byte list" where
  "lenenc_opt_bytes t = (case t of None \<Rightarrow> [0xfb] | Some t \<Rightarrow> append_lenenc_string [] t)"

definition fits :: "string \<Rightarrow> bool" where
  "fits t \<longleftrightarrow> length t < 2 ^ 64"

definition fits_opt :: "string option \<Rightarrow> bool" where
  "fits_opt t = (case t of None \<Rightarrow> True | Some t \<Rightarrow> fits t)"

lemma lenenc_int_first:
  "\<exists>b bs. append_lenenc_int [] v = b # bs \<and> b \<noteq> 0xfb \<and> b \<noteq> 0xff"
proof (cases "v < 0xfb")
  case True
  then have "unat v < 251" by (simp add: word_less_nat_alt)
  then have "unat (ucast v :: byte) = unat v" "unat v < 251"
    by (simp_all add: unsigned_ucast_eq unsigned_take_bit_eq take_bit_nat_eq_self_iff)
  then have "unat (ucast v :: byte) < 251" by simp
  with True show ?thesis by (auto simp: append_lenenc_int_def)
qed (auto simp: append_lenenc_int_def append_le_eq)

lemma read_lenenc_string_optional_enc:
  "fits_opt t \<Longrightarrow> read_lenenc_string_optional (lenenc_opt_bytes t @ rest) = Inr (t, rest)"
proof (cases t)
  case (Some u)
  assume "fits_opt t"
  with Some have u: "unat (word_of_nat (length u) :: u64) = length u"
    by (simp add: fits_opt_def fits_def unat_of_nat)
  obtain b bs where b: "append_lenenc_int [] (word_of_nat (length u)) = b # bs" "b \<noteq> 0xfb" "b \<noteq> 0xff"
    using lenenc_int_first by blast
  have "read_lenenc_int ((b # bs) @ bytes_of u @ rest) = Inr (word_of_nat (length u), bytes_of u @ rest)"
    unfolding b(1) [symmetric] by (rule read_lenenc_int_enc)
  with b u Some show ?thesis
    by (simp add: lenenc_dispatch lenenc_opt_bytes_def append_lenenc_string_eq read_string_bytes_of)
qed (simp add: lenenc_opt_bytes_def lenenc_dispatch)

lemma read_lenenc_string_enc:
  "fits t \<Longrightarrow> read_lenenc_string (append_lenenc_string [] t @ rest) = Inr (t, rest)"
  using read_lenenc_string_optional_enc [of "Some t" rest]
  by (simp add: read_lenenc_string_def lenenc_opt_bytes_def fits_opt_def)

section \<open>The codecs of the protocol\<close>

interpretation u16_codec: wire_codec "\<lambda>_. True" "append_le16 []" read_u16
  by unfold_locales (simp add: append_le_eq)

interpretation u32_codec: wire_codec "\<lambda>_. True" "append_le32 []" read_u32
  by unfold_locales (simp add: append_le_eq)

interpretation u64_codec: wire_codec "\<lambda>_. True" "append_le64 []" read_u64
  by unfold_locales (simp add: append_le_eq)

interpretation lenenc_int: wire_codec "\<lambda>_. True" "append_lenenc_int []" read_lenenc_int
  by unfold_locales simp

interpretation lenenc_string: wire_codec fits "append_lenenc_string []" read_lenenc_string
  by unfold_locales (rule read_lenenc_string_enc)

interpretation lenenc_cell: wire_codec fits_opt lenenc_opt_bytes read_lenenc_string_optional
  by unfold_locales (rule read_lenenc_string_optional_enc)

section \<open>Packets as the protocol lays them out\<close>

definition ok_bytes :: "byte \<Rightarrow> ok_packet \<Rightarrow> byte list" where
  "ok_bytes header ok =
     header # append_lenenc_int [] (affected_rows ok) @ append_lenenc_int [] (last_insert_id ok) @
     append_le16 [] (status_flags ok) @ append_le16 [] (warnings ok) @ bytes_of (info ok)"

definition error_bytes :: "error_packet \<Rightarrow> byte list" where
  "error_bytes e =
     0xff # append_le16 [] (err_code e) @ byte_of_char (CHR ''#'') # bytes_of (sql_state e) @
     bytes_of (err_message e)"

definition handshake_bytes :: "server_handshake \<Rightarrow> byte list" where
  "handshake_bytes h =
     protocol_version h # bytes_of (server_version h) @ 0 # append_le32 [] (connection_id h) @
     take 8 (hs_scramble h) @ 0 # append_le16 [] (ucast (capabilities h)) @ character_set h #
     append_le16 [] (hs_status_flags h) @ append_le16 [] (ucast (drop_bit 16 (capabilities h))) @
     21 # replicate 10 0 @ drop 8 (hs_scramble h) @ 0 # bytes_of (hs_auth_plugin_name h) @ [0]"

definition wf_handshake :: "server_handshake \<Rightarrow> bool" where
  "wf_handshake h \<longleftrightarrow> no_nul (server_version h) \<and> no_nul (hs_auth_plugin_name h) \<and>
     length (hs_scramble h) = 20 \<and> capabilities h AND client_plugin_auth \<noteq> 0 \<and>
     capabilities h AND client_secure_connection \<noteq> 0"

lemma read_string_whole [simp]: "read_string (length t) (bytes_of t) = Inr (t, [])"
  using read_string_bytes_of [of t "[]"] by simp

lemma bytes_of_Nil_iff [simp]: "bytes_of t = [] \<longleftrightarrow> t = []"
  by (simp add: bytes_of_def)

lemma parse_ok_bytes:
  assumes "header = 0 \<or> header = 0xfe"
  shows "parse_ok_packet (ok_bytes header ok) = Inr ok"
  using assms
  by (auto simp: parse_ok_packet_def ok_bytes_def append_le_eq read_string_all)

lemma parse_error_bytes:
  assumes "length (sql_state e) = 5"
  shows "parse_error_packet (error_bytes e) = Inr e"
proof -
  have "skip 1 (b # s) = Inr s" for b s using skip_app [of "[b]" 1 s] by simp
  moreover have "read_string 5 (bytes_of (sql_state e) @ r) = Inr (sql_state e, r)" for r
    using read_string_bytes_of [of "sql_state e" r] assms by simp
  ultimately show ?thesis
    by (simp add: parse_error_packet_def error_bytes_def append_le_eq read_string_all)
qed

lemma caps_halves: "(ucast (ucast c :: u16) :: u32) OR push_bit 16 (ucast (ucast (drop_bit 16 c) :: u16)) = (c :: u32)"
  by (rule bit_word_eqI) (auto simp: bit_simps)

lemma scramble_20_exact: "length b = 20 \<Longrightarrow> scramble_20 (str_of b) = b"
  by (simp add: scramble_20_def)

lemma parse_handshake_bytes:
  assumes "wf_handshake h"
  shows "parse_server_handshake (handshake_bytes h) = Inr h"
proof -
  note wf = assms [unfolded wf_handshake_def]
  let ?p1 = "take 8 (hs_scramble h)" and ?p2 = "drop 8 (hs_scramble h)"
  have s1: "read_string 8 (?p1 @ r) = Inr (str_of ?p1, r)" for r
    using wf by (intro read_string_app) simp
  have s2: "read_string 13 (?p2 @ 0 # r) = Inr (str_of ?p2 @ [CHR 0x00], r)" for r
  proof -
    have "char_of_byte 0 = CHR 0x00" using char_of_byte_of_char [of "CHR 0x00"] by (simp add: byte_of_char_def)
    then show ?thesis using read_string_app [of "?p2 @ [0]" 13 r] wf by (simp add: str_of_def)
  qed
  have k1: "skip (Suc 0) (b # s) = Inr s" for b s using skip_app [of "[b]" 1 s] by simp
  have k10: "skip 10 (replicate 10 0 @ s) = Inr s" for s by (rule skip_app) simp
  have pn: "pop_nul (t @ [CHR 0x00]) = t" for t by (simp add: pop_nul_def)
  have sc: "scramble_20 (str_of ?p1 @ str_of ?p2) = hs_scramble h"
    using wf scramble_20_exact [of "hs_scramble h"] by (simp flip: str_of_append)
  show ?thesis
    using wf
    by (simp add: parse_server_handshake_def handshake_bytes_def append_le_eq read_null_terminated
        s1 s2 k1 k10 pn sc caps_halves Let_def del: replicate.simps)
qed

section \<open>Passwords\<close>

lemma nth_xor_bytes:
  "i < length xs \<Longrightarrow> i < length ys \<Longrightarrow> xor_bytes xs ys ! i = xs ! i XOR ys ! i"
  by (simp add: xor_bytes_def)

lemma length_xor_bytes [simp]: "length (xor_bytes xs ys) = min (length xs) (length ys)"
  by (simp add: xor_bytes_def)

lemma xor_bytes_cancel: "length xs = length ys \<Longrightarrow> xor_bytes (xor_bytes xs ys) ys = xs"
  by (rule nth_equalityI) (simp_all add: nth_xor_bytes xor.assoc)

text \<open>What a server computes from a native response: the stage-one hash it hides.\<close>

definition server_check_native :: "(byte list \<Rightarrow> byte list) \<Rightarrow> byte list \<Rightarrow> byte list \<Rightarrow> byte list \<Rightarrow> bool" where
  "server_check_native SHA1 stored scramble response \<longleftrightarrow>
     SHA1 (xor_bytes response (SHA1 (scramble @ stored))) = stored"

definition server_check_sha2 :: "(byte list \<Rightarrow> byte list) \<Rightarrow> byte list \<Rightarrow> byte list \<Rightarrow> byte list \<Rightarrow> bool" where
  "server_check_sha2 SHA256 stored scramble response \<longleftrightarrow>
     SHA256 (xor_bytes response (SHA256 (stored @ scramble))) = stored"

text \<open>What a server does with the salted password after decryption.\<close>

definition unsalt :: "byte list \<Rightarrow> byte list \<Rightarrow> byte list" where
  "unsalt salted scramble = map (\<lambda>i. salted ! i XOR scramble ! (i mod length scramble)) [0..<length salted]"

section \<open>Properties\<close>

text \<open>whatever cells a row of the text protocol has, NULL or text of any length below
  \<open>2^64\<close>, reading as many length-encoded cells as were written gives them back, and leaves what
  follows.\<close>

theorem row_cells_roundtrip:
  assumes "list_all fits_opt cells"
  shows "read_n read_lenenc_string_optional (length cells) (concat (map lenenc_opt_bytes cells) @ rest) =
    Inr (cells, rest)"
  using assms by (rule lenenc_cell.read_n_enc)

theorem row_cells_roundtrip_witness:
  "read_n read_lenenc_string_optional 3
     (concat (map lenenc_opt_bytes [Some ''tom'', None, Some []]) @ [7]) =
   Inr ([Some ''tom'', None, Some []], [7])"
  using row_cells_roundtrip [of "[Some ''tom'', None, Some []]" "[7]"]
  by (simp add: fits_opt_def fits_def numeral_3_eq_3 del: read_n.simps)

text \<open>the parsers of the OK and error packets and of the server's greeting recover every field
  of a packet laid out as the protocol prescribes.\<close>

theorem server_packets_roundtrip:
  assumes "header = 0 \<or> header = 0xfe" "length (sql_state e) = 5" "wf_handshake h"
  shows "parse_ok_packet (ok_bytes header ok) = Inr ok \<and>
    parse_error_packet (error_bytes e) = Inr e \<and>
    parse_server_handshake (handshake_bytes h) = Inr h"
  using assms parse_ok_bytes parse_error_bytes parse_handshake_bytes by blast

definition sample_handshake :: server_handshake where
  "sample_handshake =
     \<lparr>protocol_version = 10, server_version = ''8.0.36'', connection_id = 77,
      hs_scramble = map word_of_nat [1..<21], capabilities = 0x00ffffff, character_set = 45,
      hs_status_flags = 2, hs_auth_plugin_name = caching_sha2_password\<rparr>"

theorem server_packets_roundtrip_witness:
  "parse_ok_packet (ok_bytes 0xfe \<lparr>affected_rows = 300, last_insert_id = 5, status_flags = 2, warnings = 0, info = ''ok''\<rparr>) =
     Inr \<lparr>affected_rows = 300, last_insert_id = 5, status_flags = 2, warnings = 0, info = ''ok''\<rparr> \<and>
   parse_error_packet (error_bytes \<lparr>err_code = 1045, sql_state = ''28000'', err_message = ''denied''\<rparr>) =
     Inr \<lparr>err_code = 1045, sql_state = ''28000'', err_message = ''denied''\<rparr> \<and>
   parse_server_handshake (handshake_bytes sample_handshake) = Inr sample_handshake"
proof -
  have "wf_handshake sample_handshake" by code_simp
  then show ?thesis by (intro server_packets_roundtrip) simp_all
qed

text \<open>the scrambled passwords are what the server's check accepts: for both plugins, the hash
  recovered from the response hashes to the stored double hash; and the salted password of the RSA
  exchange decodes to the password and a final NUL.\<close>

theorem scrambles_are_accepted:
  assumes "\<And>x. length (SHA1 x) = 20" "\<And>x. length (SHA256 x) = 32" "password \<noteq> []" "scramble \<noteq> []"
  shows "server_check_native SHA1 (SHA1 (SHA1 (bytes_of password))) scramble
      (scramble_mysql_native_password SHA1 password scramble) \<and>
    server_check_sha2 SHA256 (SHA256 (SHA256 (bytes_of password))) scramble
      (scramble_caching_sha2_password SHA256 password scramble) \<and>
    unsalt (salt_caching_sha2_password password scramble) scramble = bytes_of password @ [0]"
proof (intro conjI)
  show "server_check_native SHA1 (SHA1 (SHA1 (bytes_of password))) scramble
      (scramble_mysql_native_password SHA1 password scramble)"
    using assms by (simp add: server_check_native_def scramble_mysql_native_password_def Let_def xor_bytes_cancel)
  show "server_check_sha2 SHA256 (SHA256 (SHA256 (bytes_of password))) scramble
      (scramble_caching_sha2_password SHA256 password scramble)"
    using assms by (simp add: server_check_sha2_def scramble_caching_sha2_password_def Let_def xor_bytes_cancel)
  show "unsalt (salt_caching_sha2_password password scramble) scramble = bytes_of password @ [0]"
    by (rule nth_equalityI)
      (auto simp: unsalt_def salt_caching_sha2_password_def nth_append bytes_of_def xor.assoc less_Suc_eq)
qed

definition toy_hash :: "nat \<Rightarrow> byte list \<Rightarrow> byte list" where
  "toy_hash n bs = take n (map (\<lambda>b. 3 * b + 1) bs @ replicate n 0)"

theorem scrambles_are_accepted_witness:
  "server_check_native (toy_hash 20) (toy_hash 20 (toy_hash 20 (bytes_of ''secret''))) [1, 2, 3]
     (scramble_mysql_native_password (toy_hash 20) ''secret'' [1, 2, 3]) \<and>
   unsalt (salt_caching_sha2_password ''secret'' [1, 2, 3]) [1, 2, 3] = bytes_of ''secret'' @ [0]"
  using scrambles_are_accepted [of "toy_hash 20" "toy_hash 32" "''secret''" "[1, 2, 3]"]
  by (simp add: toy_hash_def)

end
