(* ===== verification/Mysql_Text.thy ===== *)
theory Mysql_Text
  imports Type_Mapping Placeholders
begin

text \<open>
  Values and rows of the asynchronous MySQL driver (\<^verbatim>\<open>ormpp/mysql_async.hpp\<close>): the text a C++ value
  becomes in a statement, the value a text of the server becomes in a member, rows mapped to
  structs and tuples, and the \<^verbatim>\<open>create table\<close> statement.  A floating-point value is of an
  abstract type \<open>'f\<close>, with \<^verbatim>\<open>std::to_string\<close> and \<^verbatim>\<open>std::stod\<close> as the parameters \<open>ftoa\<close> and
  \<open>stod\<close>; an enum has the underlying type \<^verbatim>\<open>int\<close>.
\<close>

section \<open>Values of members\<close>

datatype 'f cpp_val =
    CBool bool
  | CInt int
  | CFloat 'f
  | CStr string
  | CChars string
  | CBlob "byte list"
  | CEnum int
  | COpt "'f cpp_val option"

definition arithmetic_to_string :: "('f \<Rightarrow> string) \<Rightarrow> 'f cpp_val \<Rightarrow> string" where
  "arithmetic_to_string ftoa v =
     (case v of CBool b \<Rightarrow> if b then ''1'' else ''0''
      | CInt i \<Rightarrow> int_str i | CEnum i \<Rightarrow> int_str i | CFloat x \<Rightarrow> ftoa x | _ \<Rightarrow> [])"

text \<open>A character array is cut at its first NUL (\<^verbatim>\<open>std::find\<close>).\<close>

definition cut_nul :: "string \<Rightarrow> string" where
  "cut_nul s = takeWhile (\<lambda>c. c \<noteq> CHR 0x00) s"

fun to_query_arg_impl :: "('f \<Rightarrow> string) \<Rightarrow> bool \<Rightarrow> 'f cpp_val \<Rightarrow> string" where
  "to_query_arg_impl ftoa nbe (COpt None) = ''NULL''"
| "to_query_arg_impl ftoa nbe (COpt (Some v)) = to_query_arg_impl ftoa nbe v"
| "to_query_arg_impl ftoa nbe (CEnum i) = arithmetic_to_string ftoa (CEnum i)"
| "to_query_arg_impl ftoa nbe (CBool b) = arithmetic_to_string ftoa (CBool b)"
| "to_query_arg_impl ftoa nbe (CInt i) = arithmetic_to_string ftoa (CInt i)"
| "to_query_arg_impl ftoa nbe (CFloat x) = arithmetic_to_string ftoa (CFloat x)"
| "to_query_arg_impl ftoa nbe (CStr s) = escape_mysql_string s nbe"
| "to_query_arg_impl ftoa nbe (CChars s) = escape_mysql_string (cut_nul s) nbe"
| "to_query_arg_impl ftoa nbe (CBlob b) = blob_to_hex b"

definition format_query_args :: "('f \<Rightarrow> string) \<Rightarrow> string \<Rightarrow> bool \<Rightarrow> 'f cpp_val list \<Rightarrow> string result" where
  "format_query_args ftoa sql nbe args = format_values nbe sql (map (to_query_arg_impl ftoa nbe) args)"

section \<open>Reading texts of the server\<close>

text \<open>\<^verbatim>\<open>std::from_chars\<close> of an integer that has to consume the whole text.\<close>

definition from_chars :: "int \<times> int \<Rightarrow> string \<Rightarrow> int option" where
  "from_chars = (\<lambda>(lo, hi) s.
     let (neg, ds) = (case s of c # cs \<Rightarrow> if c = CHR ''-'' \<and> lo < 0 then (True, cs) else (False, s)
                      | [] \<Rightarrow> (False, s))
     in if ds = [] \<or> \<not> list_all isdigit_c ds then None
        else let v = (if neg then - int (parse_digits ds) else int (parse_digits ds))
             in if lo \<le> v \<and> v \<le> hi then Some v else None)"

definition invalid_integral :: exn where
  "invalid_integral = Runtime_error ''mysql_async: invalid integral''"

definition int_range :: "int \<times> int" where
  "int_range = (- (2 ^ 31), 2 ^ 31 - 1)"

definition assign_integral :: "scalar_type \<Rightarrow> string \<Rightarrow> 'f cpp_val result" where
  "assign_integral ty s =
     (if ty = TBool then Inr (CBool (\<not> (s = ''0'' \<or> s = ''false'' \<or> s = ''FALSE'')))
      else if ty = TChar then
        (case from_chars int_range s of
           None \<Rightarrow> Inl (Runtime_error ''mysql_async: invalid char integral'')
         | Some v \<Rightarrow> Inr (CInt (signed_take_bit 7 v)))
      else (case from_chars (case cpp_range ty of Some r \<Rightarrow> r | None \<Rightarrow> int_range) s of
              None \<Rightarrow> Inl invalid_integral
            | Some v \<Rightarrow> Inr (CInt v)))"

text \<open>\<^verbatim>\<open>memset\<close> and \<^verbatim>\<open>memcpy\<close> of a text into an array of \<open>n\<close> characters.\<close>

definition fill_chars :: "nat \<Rightarrow> string \<Rightarrow> string" where
  "fill_chars n t = take n t @ replicate (n - length t) (CHR 0x00)"

fun assign_scalar :: "(string \<Rightarrow> 'f result) \<Rightarrow> scalar_type \<Rightarrow> string \<Rightarrow> 'f cpp_val result" where
  "assign_scalar stod TFloat text = rbind (stod text) (\<lambda>x. Inr (CFloat x))"
| "assign_scalar stod TDouble text = rbind (stod text) (\<lambda>x. Inr (CFloat x))"
| "assign_scalar stod TString text = Inr (CStr text)"
| "assign_scalar stod TStringView text = Inr (CStr text)"
| "assign_scalar stod (TCharArray n) text = Inr (CChars (fill_chars n text))"
| "assign_scalar stod TBlob text = Inr (CBlob (map byte_of_char text))"
| "assign_scalar stod ty text = assign_integral ty text"

text \<open>The value \<^verbatim>\<open>U{}\<close>.\<close>

fun default_scalar :: "'f \<Rightarrow> scalar_type \<Rightarrow> 'f cpp_val" where
  "default_scalar z TBool = CBool False"
| "default_scalar z TFloat = CFloat z"
| "default_scalar z TDouble = CFloat z"
| "default_scalar z TString = CStr []"
| "default_scalar z TStringView = CStr []"
| "default_scalar z (TCharArray n) = CChars (replicate n (CHR 0x00))"
| "default_scalar z TBlob = CBlob []"
| "default_scalar z _ = CInt 0"

fun default_value_of :: "'f \<Rightarrow> field_type \<Rightarrow> 'f cpp_val" where
  "default_value_of z (Plain s) = default_scalar z s"
| "default_value_of z (Optional s) = COpt None"
| "default_value_of z Enum = CEnum 0"

definition assign_text_value ::
  "(string \<Rightarrow> 'f result) \<Rightarrow> 'f \<Rightarrow> field_type \<Rightarrow> string option \<Rightarrow> 'f cpp_val result" where
  "assign_text_value stod z ty field =
     (case field of
        None \<Rightarrow> Inr (default_value_of z ty)
      | Some text \<Rightarrow>
          (case ty of
             Plain s \<Rightarrow> assign_scalar stod s text
           | Optional s \<Rightarrow> rbind (assign_scalar stod s text) (\<lambda>v. Inr (COpt (Some v)))
           | Enum \<Rightarrow> (case from_chars int_range text of
                        None \<Rightarrow> Inl invalid_integral | Some v \<Rightarrow> Inr (CEnum v))))"

section \<open>Rows\<close>

definition row_mismatch :: exn where
  "row_mismatch = Runtime_error ''mysql_async: row column count mismatch''"

definition tuple_mismatch :: exn where
  "tuple_mismatch = Runtime_error ''mysql_async: tuple column count mismatch''"

text \<open>The members are assigned in order; columns that are left over are ignored.\<close>

fun map_fields ::
  "(string \<Rightarrow> 'f result) \<Rightarrow> 'f \<Rightarrow> field_type list \<Rightarrow> string option list \<Rightarrow> 'f cpp_val list result" where
  "map_fields stod z [] row = Inr []"
| "map_fields stod z (t # ts) [] = Inl row_mismatch"
| "map_fields stod z (t # ts) (c # cs) =
     rbind (assign_text_value stod z t c) (\<lambda>v. rbind (map_fields stod z ts cs) (\<lambda>vs. Inr (v # vs)))"

definition map_reflectable_row ::
  "(string \<Rightarrow> 'f result) \<Rightarrow> 'f \<Rightarrow> struct_meta \<Rightarrow> string option list \<Rightarrow> 'f cpp_val list result" where
  "map_reflectable_row stod z T row = map_fields stod z (map f_type (s_fields T)) row"

datatype tuple_item = Item_field field_type | Item_struct struct_meta

fun map_tuple_row_impl ::
  "(string \<Rightarrow> 'f result) \<Rightarrow> 'f \<Rightarrow> tuple_item list \<Rightarrow> string option list \<Rightarrow> 'f cpp_val list list result" where
  "map_tuple_row_impl stod z [] row = (if row \<noteq> [] then Inl tuple_mismatch else Inr [])"
| "map_tuple_row_impl stod z (Item_struct T # items) row =
     (if length row < length (s_fields T) then Inl tuple_mismatch
      else rbind (map_reflectable_row stod z T (take (length (s_fields T)) row)) (\<lambda>x.
           rbind (map_tuple_row_impl stod z items (drop (length (s_fields T)) row)) (\<lambda>xs. Inr (x # xs))))"
| "map_tuple_row_impl stod z (Item_field t # items) row =
     (case row of [] \<Rightarrow> Inl tuple_mismatch
      | c # cs \<Rightarrow> rbind (assign_text_value stod z t c) (\<lambda>v.
                 rbind (map_tuple_row_impl stod z items cs) (\<lambda>xs. Inr ([v] # xs))))"

section \<open>The create-table statement\<close>

datatype table_arg =
    Ormpp_auto_key string
  | Ormpp_key string
  | Ormpp_not_null "string list"
  | Ormpp_unique "string list"

record table_args =
  ta_not_null :: "string list"
  ta_unique :: "string list"
  ta_auto :: "string list"
  ta_primary :: "string list"

text \<open>The argument lists of \<^verbatim>\<open>ormpp_not_null\<close> and \<^verbatim>\<open>ormpp_unique\<close> are \<^verbatim>\<open>std::set\<close>s.\<close>

fun add_table_arg :: "bool \<Rightarrow> table_arg \<Rightarrow> table_args \<Rightarrow> table_args" where
  "add_table_arg no_pks (Ormpp_auto_key f) t = t\<lparr>ta_auto := set_insert f (ta_auto t)\<rparr>"
| "add_table_arg no_pks (Ormpp_key f) t =
     (if no_pks then t\<lparr>ta_primary := set_insert f (ta_primary t)\<rparr> else t)"
| "add_table_arg no_pks (Ormpp_not_null fs) t = t\<lparr>ta_not_null := set_inserts fs (ta_not_null t)\<rparr>"
| "add_table_arg no_pks (Ormpp_unique fs) t =
     (let names = set_inserts fs [] in
      if 1 < length names then t\<lparr>ta_unique := set_insert (butlast (comma_terminated names)) (ta_unique t)\<rparr>
      else if names \<noteq> [] then t\<lparr>ta_unique := set_insert (hd names) (ta_unique t)\<rparr>
      else t)"

text \<open>The loop over the members, which the drivers share up to what \<open>mark\<close> makes of the statement behind the
  type of an auto-increment column: the statement so far, the pending auto keys and not-null members,
  and the auto key found.\<close>

fun create_columns ::
  "(string \<Rightarrow> string \<Rightarrow> string) \<Rightarrow> (string \<times> string) list \<Rightarrow> string \<Rightarrow> string list \<Rightarrow> string list \<Rightarrow> string \<Rightarrow>
   string \<times> string" where
  "create_columns mark [] sql auto_set not_null auto_key = (sql, auto_key)"
| "create_columns mark ((name, ty) # cols) sql auto_set not_null auto_key =
     (let sql = sql @ name @ '' '' @ ty in
      if name \<in> set auto_set then create_columns mark cols (mark sql ty @ '','') [] not_null name
      else if name \<in> set not_null
      then create_columns mark cols (sql @ '' NOT NULL,'') auto_set (removeAll name not_null) auto_key
      else create_columns mark cols (sql @ '','') auto_set not_null auto_key)"

definition auto_increment_mark :: "string \<Rightarrow> string \<Rightarrow> string" where
  "auto_increment_mark sql ty = sql @ '' AUTO_INCREMENT ''"

definition generate_create_table_sql ::
  "registry \<Rightarrow> struct_meta \<Rightarrow> db_type \<Rightarrow> bool \<Rightarrow> table_arg list \<Rightarrow> string \<times> registry" where
  "generate_create_table_sql r T db append_mysql_charset args =
     (let auto_key = get_auto_key r T;
          (pks, r') = get_conflict_keys r T db;
          ta = fold (add_table_arg (pks = [])) args
                 \<lparr>ta_not_null = [], ta_unique = [],
                  ta_auto = (if auto_key \<noteq> [] then [auto_key] else []),
                  ta_primary = set_inserts pks []\<rparr>;
          (sql, auto_key) =
             create_columns auto_increment_mark (zip (member_names T) (get_type_names T db))
               (''CREATE TABLE IF NOT EXISTS '' @ get_short_struct_name T @ ''('')
               (ta_auto ta) (ta_not_null ta) auto_key;
          sql = (if auto_key \<noteq> [] then sql @ ''PRIMARY KEY ('' @ auto_key @ ''),''
                 else if ta_primary ta \<noteq> []
                 then butlast (sql @ ''PRIMARY KEY ('' @ comma_terminated (ta_primary ta)) @ ''),''
                 else sql);
          sql = foldl (\<lambda>sql name. sql @ ''UNIQUE ('' @ name @ ''),'') sql (ta_unique ta);
          sql = butlast sql @ '')''
      in (if append_mysql_charset then sql @ '' DEFAULT CHARSET=utf8mb4'' else sql, r'))"

section \<open>Integers survive the text protocol\<close>

lemma isdigit_not_minus: "\<not> isdigit_c (CHR ''-'')"
  by (simp add: isdigit_c_def)

lemma nat_str_all_digits: "list_all isdigit_c (nat_str n)"
  by (auto simp: list_all_iff dest: nat_str_digits)

lemma from_chars_int_str:
  assumes "lo \<le> i" "i \<le> hi"
  shows "from_chars (lo, hi) (int_str i) = Some i"
proof (cases "i < 0")
  case True
  then have "int_str i = CHR ''-'' # nat_str (nat (- i))" by (simp add: int_str_def)
  with True assms show ?thesis by (simp add: from_chars_def nat_str_all_digits)
next
  case False
  then have s: "int_str i = nat_str (nat i)" by (simp add: int_str_def)
  obtain c cs where c: "nat_str (nat i) = c # cs" by (cases "nat_str (nat i)") simp_all
  then have "c \<noteq> CHR ''-''" using nat_str_all_digits [of "nat i"] isdigit_not_minus by auto
  then have "from_chars (lo, hi) (nat_str (nat i)) =
      (let v = int (parse_digits (nat_str (nat i))) in if lo \<le> v \<and> v \<le> hi then Some v else None)"
    using c nat_str_all_digits [of "nat i"] by (simp add: from_chars_def)
  with False assms s show ?thesis by simp
qed

lemma from_chars_range: "from_chars (lo, hi) s = Some v \<Longrightarrow> lo \<le> v \<and> v \<le> hi"
  by (auto simp: from_chars_def Let_def split: if_splits prod.splits list.splits)

section \<open>Values and the server's text for them\<close>

text \<open>\<open>server_float\<close> prints a floating-point value the way the server does.\<close>

fun server_text :: "('f \<Rightarrow> string) \<Rightarrow> 'f cpp_val \<Rightarrow> string option" where
  "server_text sf (COpt None) = None"
| "server_text sf (COpt (Some v)) = server_text sf v"
| "server_text sf (CBool b) = Some (if b then ''1'' else ''0'')"
| "server_text sf (CInt i) = Some (int_str i)"
| "server_text sf (CEnum i) = Some (int_str i)"
| "server_text sf (CFloat x) = Some (sf x)"
| "server_text sf (CStr s) = Some s"
| "server_text sf (CChars s) = Some (cut_nul s)"
| "server_text sf (CBlob b) = Some (map char_of_byte b)"

fun has_scalar :: "scalar_type \<Rightarrow> 'f cpp_val \<Rightarrow> bool" where
  "has_scalar TBool v \<longleftrightarrow> (\<exists>b. v = CBool b)"
| "has_scalar TFloat v \<longleftrightarrow> (\<exists>x. v = CFloat x)"
| "has_scalar TDouble v \<longleftrightarrow> (\<exists>x. v = CFloat x)"
| "has_scalar TString v \<longleftrightarrow> (\<exists>s. v = CStr s)"
| "has_scalar TStringView v \<longleftrightarrow> (\<exists>s. v = CStr s)"
| "has_scalar TBlob v \<longleftrightarrow> (\<exists>b. v = CBlob b)"
| "has_scalar (TCharArray n) v \<longleftrightarrow> (\<exists>s. v = CChars (fill_chars n s) \<and> length s \<le> n \<and> CHR 0x00 \<notin> set s)"
| "has_scalar ty v \<longleftrightarrow> (\<exists>i. v = CInt i \<and> (case cpp_range ty of None \<Rightarrow> False | Some (lo, hi) \<Rightarrow> lo \<le> i \<and> i \<le> hi))"

fun has_type :: "field_type \<Rightarrow> 'f cpp_val \<Rightarrow> bool" where
  "has_type (Plain s) v \<longleftrightarrow> has_scalar s v"
| "has_type (Optional s) v \<longleftrightarrow> v = COpt None \<or> (\<exists>w. v = COpt (Some w) \<and> has_scalar s w)"
| "has_type Enum v \<longleftrightarrow> (\<exists>i. v = CEnum i \<and> fst int_range \<le> i \<and> i \<le> snd int_range)"

lemma cut_nul_fill: "CHR 0x00 \<notin> set s \<Longrightarrow> length s \<le> n \<Longrightarrow> cut_nul (fill_chars n s) = s"
proof -
  assume a: "CHR 0x00 \<notin> set s" "length s \<le> n"
  then have "takeWhile (\<lambda>c. c \<noteq> CHR 0x00) (s @ replicate (n - length s) (CHR 0x00)) = s"
    by (subst takeWhile_append2) (cases "n - length s", auto)
  with a show ?thesis by (simp add: cut_nul_def fill_chars_def)
qed

lemma char_wrap: "-128 \<le> i \<Longrightarrow> i \<le> 127 \<Longrightarrow> signed_take_bit 7 i = (i :: int)"
  by (simp add: signed_take_bit_int_eq_self)

lemma scalar_not_opt: "has_scalar s v \<Longrightarrow> v \<noteq> COpt w"
  by (cases s) auto

lemma assign_scalar_server_text:
  assumes "has_scalar s v" "\<And>x. stod (sf x) = Inr x"
  shows "\<exists>t. server_text sf v = Some t \<and> assign_scalar stod s t = Inr v"
proof (cases s)
  case TChar
  then obtain i where i: "v = CInt i" "-128 \<le> i" "i \<le> 127" using assms(1) by auto
  then have "from_chars int_range (int_str i) = Some i"
    unfolding int_range_def by (intro from_chars_int_str) simp_all
  with TChar i show ?thesis by (simp add: assign_integral_def char_wrap)
qed (use assms in \<open>auto simp: assign_integral_def from_chars_int_str cut_nul_fill
       comp_def split: if_splits\<close>)

lemma assign_server_text:
  assumes "has_type ty v" "\<And>x. stod (sf x) = Inr x"
  shows "assign_text_value stod z ty (server_text sf v) = Inr v"
proof (cases ty)
  case (Plain s)
  with assms show ?thesis using assign_scalar_server_text [of s v stod sf]
    by (auto simp: assign_text_value_def)
next
  case (Optional s)
  with assms show ?thesis
    by (auto simp: assign_text_value_def dest!: assign_scalar_server_text [of s _ stod sf])
next
  case Enum
  with assms show ?thesis
    by (auto simp: assign_text_value_def int_range_def from_chars_int_str)
qed

lemma map_fields_roundtrip:
  assumes "list_all2 has_type ts vs" "\<And>x. stod (sf x) = Inr x"
  shows "map_fields stod z ts (map (server_text sf) vs @ extra) = Inr vs"
  using assms(1) by (induction) (simp_all add: assign_server_text [OF _ assms(2)])

lemma map_fields_length: "map_fields stod z ts row = Inr vs \<Longrightarrow> length vs = length ts \<and> length ts \<le> length row"
  by (induction stod z ts row arbitrary: vs rule: map_fields.induct) (auto simp: rbind_Inr_conv)

fun item_width :: "tuple_item \<Rightarrow> nat" where
  "item_width (Item_field t) = 1"
| "item_width (Item_struct T) = length (s_fields T)"

lemma map_tuple_width:
  "map_tuple_row_impl stod z items row = Inr xs \<Longrightarrow>
   map length xs = map item_width items \<and> length row = sum_list (map item_width items)"
proof (induction stod z items row arbitrary: xs rule: map_tuple_row_impl.induct)
  case (2 stod z T items row)
  then show ?case
    by (auto simp: rbind_Inr_conv map_reflectable_row_def dest: map_fields_length split: if_splits)
next
  case (3 stod z t items row)
  then show ?case by (auto simp: rbind_Inr_conv split: list.splits)
qed (auto split: if_splits)

section \<open>The shape of the create-table statement\<close>

definition column_definition_text :: "(string \<Rightarrow> string) \<Rightarrow> string option \<Rightarrow> string set \<Rightarrow> string \<times> string \<Rightarrow> string" where
  "column_definition_text auto_type auto nn = (\<lambda>(name, ty).
     name @ '' '' @
     (if auto = Some name then auto_type ty else ty @ (if name \<in> nn then '' NOT NULL'' else [])))"

definition auto_column :: "string list \<Rightarrow> string list \<Rightarrow> string option" where
  "auto_column auto_set names = find (\<lambda>n. n \<in> set auto_set) names"

lemma column_definition_text_app:
  "column_definition_text auto_type auto nn (name, ty) =
     name @ '' '' @
     (if auto = Some name then auto_type ty else ty @ (if name \<in> nn then '' NOT NULL'' else []))"
  by (simp add: column_definition_text_def)

lemma auto_column_Cons:
  "auto_column A (n # ns) = (if n \<in> set A then Some n else auto_column A ns)"
  by (simp add: auto_column_def)

lemma auto_column_Nil [simp]: "auto_column [] ns = None"
  by (induction ns) (simp_all add: auto_column_def)

lemma auto_column_in: "auto_column A ns = Some n \<Longrightarrow> n \<in> set ns"
  by (auto simp: auto_column_def find_Some_iff)

lemma column_definition_text_cong:
  assumes "\<And>n. n \<in> fst ` set cols \<Longrightarrow> (a = Some n \<longleftrightarrow> b = Some n) \<and> (n \<in> M \<longleftrightarrow> n \<in> N)"
  shows "map (column_definition_text m a M) cols = map (column_definition_text m b N) cols"
proof (rule map_cong [OF refl])
  fix x assume "x \<in> set cols"
  then have "fst x \<in> fst ` set cols" by simp
  from assms [OF this] show "column_definition_text m a M x = column_definition_text m b N x"
    by (cases x) (simp add: column_definition_text_app)
qed

lemma create_columns_shape:
  assumes "distinct (map fst cols)" "\<And>sql ty. mark (sql @ ty) ty = sql @ m ty"
  shows "create_columns mark cols sql A N k =
    (sql @ comma_terminated (map (column_definition_text m (auto_column A (map fst cols)) (set N)) cols),
     case auto_column A (map fst cols) of None \<Rightarrow> k | Some n \<Rightarrow> n)"
  using assms
proof (induction mark cols sql A N k rule: create_columns.induct)
  case (1 mark sql A N k)
  then show ?case by (simp add: auto_column_def)
next
  case (2 mark name ty cols sql A N k)
  let ?a = "auto_column A (map fst cols)"
  have d: "name \<notin> fst ` set cols" "distinct (map fst cols)" using "2.prems" by auto
  consider "name \<in> set A" | "name \<notin> set A" "name \<in> set N" | "name \<notin> set A" "name \<notin> set N" by blast
  then show ?case
  proof cases
    case 1
    have e: "map (column_definition_text m None (set N)) cols = map (column_definition_text m (Some name) (set N)) cols"
      using d by (intro column_definition_text_cong) auto
    have t: "mark (sql @ name @ CHR '' '' # ty) ty = sql @ name @ CHR '' '' # m ty"
      using "2.prems"(2) [of "sql @ name @ '' ''" ty] by simp
    show ?thesis using 1 "2.IH"(1) [OF refl _ d(2) "2.prems"(2)] t d
      by (simp add: auto_column_Cons column_definition_text_app e)
  next
    case 2
    have e: "map (column_definition_text m ?a (set N - {name})) cols = map (column_definition_text m ?a (set N)) cols"
      using d by (intro column_definition_text_cong) auto
    have "?a \<noteq> Some name" using d auto_column_in [of A "map fst cols" name] by auto
    then show ?thesis using 2 "2.IH"(2) [OF refl _ _ d(2) "2.prems"(2)] d
      by (simp add: auto_column_Cons column_definition_text_app e)
  next
    case 3
    moreover have "?a \<noteq> Some name" using d auto_column_in [of A "map fst cols" name] by auto
    ultimately show ?thesis using "2.IH"(3) [OF refl _ _ d(2) "2.prems"(2)] d
      by (simp add: auto_column_Cons) (simp add: column_definition_text_app)
  qed
qed

definition auto_increment_type :: "string \<Rightarrow> string" where
  "auto_increment_type ty = ty @ '' AUTO_INCREMENT ''"

lemma auto_increment_mark_type: "auto_increment_mark (sql @ ty) ty = sql @ auto_increment_type ty"
  by (simp add: auto_increment_mark_def auto_increment_type_def)

text \<open>What the arguments and the registry declare.\<close>

definition declared :: "registry \<Rightarrow> struct_meta \<Rightarrow> db_type \<Rightarrow> table_arg list \<Rightarrow> table_args" where
  "declared r T db args =
     fold (add_table_arg (fst (get_conflict_keys r T db) = [])) args
       \<lparr>ta_not_null = [], ta_unique = [],
        ta_auto = (if get_auto_key r T \<noteq> [] then [get_auto_key r T] else []),
        ta_primary = set_inserts (fst (get_conflict_keys r T db)) []\<rparr>"

definition key_constraint :: "string \<Rightarrow> string list \<Rightarrow> string list" where
  "key_constraint auto_key keys =
     (if auto_key \<noteq> [] then [''PRIMARY KEY ('' @ auto_key @ '')'']
      else if keys \<noteq> [] then [''PRIMARY KEY ('' @ comma_sep keys @ '')''] else [])"

lemma unique_text:
  "foldl (\<lambda>sql name. sql @ ''UNIQUE ('' @ name @ ''),'') s xs =
   s @ comma_terminated (map (\<lambda>n. ''UNIQUE ('' @ n @ '')'') xs)"
  by (induction xs arbitrary: s) simp_all

lemma key_constraint_text:
  "(if k \<noteq> [] then sql @ ''PRIMARY KEY ('' @ k @ ''),''
    else if keys \<noteq> [] then butlast (sql @ ''PRIMARY KEY ('' @ comma_terminated keys) @ ''),''
    else sql) = sql @ comma_terminated (key_constraint k keys)"
  by (simp add: key_constraint_def comma_terminated_sep butlast_append)

section \<open>Properties\<close>

lemma person_fields_nonempty: "s_fields person \<noteq> []"
  by (simp add: person_def)

text \<open>C14: a row of well-typed member values comes back unchanged through the server's text protocol:
  integers of every width, booleans, enums, strings, character arrays, blobs and optionals (NULL
  included); further columns do not disturb it.\<close>

theorem row_values_roundtrip:
  assumes "list_all2 has_type (map f_type (s_fields T)) vs" "\<And>x. stod (sf x) = Inr x"
  shows "map_reflectable_row stod z T (map (server_text sf) vs @ extra) = Inr vs"
  unfolding map_reflectable_row_def by (rule map_fields_roundtrip [OF assms])

definition toy_stod :: "string \<Rightarrow> unit result" where
  "toy_stod s = (if s = ''f'' then Inr () else Inl Out_of_range)"

theorem row_values_roundtrip_witness:
  "map_reflectable_row toy_stod () person
     (map (server_text (\<lambda>_. ''f'')) [CInt 7, CStr ''tom'', COpt None] @ []) = Inr [CInt 7, CStr ''tom'', COpt None]"
  using row_values_roundtrip [of person "[CInt 7, CStr ''tom'', COpt None]" toy_stod "\<lambda>_. ''f''" "()" "[]"]
  by (simp add: person_def toy_stod_def)

text \<open>a tuple row is accepted only if its items take up exactly the columns of the row.\<close>

theorem tuple_row_exact:
  assumes "map_tuple_row_impl stod z items row = Inr xs"
  shows "map length xs = map item_width items \<and> length row = sum_list (map item_width items)"
  using assms by (rule map_tuple_width)

theorem tuple_row_exact_witness:
  "map_tuple_row_impl (\<lambda>s. Inr ()) () [Item_struct person, Item_field (Plain TString)]
     [Some ''7'', Some ''tom'', None, Some ''x''] \<noteq> Inl tuple_mismatch \<and>
   (4 :: nat) = sum_list (map item_width [Item_struct person, Item_field (Plain TString)])"
proof -
  have r: "map_tuple_row_impl (\<lambda>s. Inr ()) () [Item_struct person, Item_field (Plain TString)]
     [Some ''7'', Some ''tom'', None, Some ''x''] = Inr [[CInt 7, CStr ''tom'', COpt None], [CStr ''x'']]"
    by code_simp
  from tuple_row_exact [OF r] r show ?thesis by simp
qed

text \<open>the statement of \<^verbatim>\<open>create_datatable\<close> defines every member in order, at most one of them
  auto-increment, then one primary key - the auto key if there is one, else the declared keys - and
  the unique constraints.\<close>

theorem mysql_create_statement:
  assumes "distinct (member_names T)" "s_fields T \<noteq> []"
  shows "fst (generate_create_table_sql r T db False args) =
     (let d = declared r T db args;
          auto = auto_column (ta_auto d) (member_names T)
      in ''CREATE TABLE IF NOT EXISTS '' @ get_short_struct_name T @ ''('' @
         comma_sep
           (map (column_definition_text auto_increment_type auto (set (ta_not_null d))) (zip (member_names T) (get_type_names T db)) @
            key_constraint (case auto of None \<Rightarrow> get_auto_key r T | Some n \<Rightarrow> n) (ta_primary d) @
            map (\<lambda>n. ''UNIQUE ('' @ n @ '')'') (ta_unique d)) @ '')'')"
proof -
  let ?cols = "zip (member_names T) (get_type_names T db)" and ?d = "declared r T db args"
  let ?auto = "auto_column (ta_auto ?d) (member_names T)"
  have len: "length (get_type_names T db) = length (s_fields T)" by (simp add: get_type_names_def)
  then have m: "map fst ?cols = member_names T" by simp
  obtain pks r' where g: "get_conflict_keys r T db = (pks, r')" by fastforce
  note shape = create_columns_shape [of ?cols auto_increment_mark auto_increment_type, unfolded m, OF assms(1) auto_increment_mark_type]
  have ne: "?cols \<noteq> []" using assms(2) by (simp add: member_names_def get_type_names_def)
  have bl: "butlast (''CREATE TABLE IF NOT EXISTS '' @ t @ ''('' @ comma_terminated (map f ?cols) @
        comma_terminated ks @ comma_terminated us) =
      ''CREATE TABLE IF NOT EXISTS '' @ t @ ''('' @ comma_sep (map f ?cols @ ks @ us)"
    for t ks us and f :: "string \<times> string \<Rightarrow> string"
    using ne butlast_app_comma_terminated [of "map f ?cols @ ks @ us" "''CREATE TABLE IF NOT EXISTS '' @ t @ ''(''"]
    by (simp only: append_assoc comma_terminated_app append_is_Nil_conv map_is_Nil_conv simp_thms)
  show ?thesis
    unfolding generate_create_table_sql_def Let_def g prod.case fst_conv if_False
      declared_def [of r T db args, unfolded g fst_conv, symmetric] shape key_constraint_text unique_text
    by (simp only: append_assoc bl)
qed

theorem mysql_create_statement_witness:
  "fst (generate_create_table_sql person_registry person MySQL False [Ormpp_not_null [''name''], Ormpp_unique [''name'']]) =
   ''CREATE TABLE IF NOT EXISTS person(id INTEGER AUTO_INCREMENT ,name TEXT NOT NULL,age INTEGER,PRIMARY KEY (id),UNIQUE (name))''"
  unfolding mysql_create_statement [of person person_registry MySQL
      "[Ormpp_not_null [''name''], Ormpp_unique [''name'']]", simplified, OF person_fields_nonempty]
  by code_simp

end
