(* ===== verification/Mysql_Session.thy ===== *)
theory Mysql_Session
  imports Mysql_Wire Mysql_Text
begin

text \<open>
  The class \<^verbatim>\<open>mysql_async\<close> (\<^verbatim>\<open>ormpp/mysql_async.hpp\<close>): the session state, packets cut into and put
  together from frames, the handshake and the authentication loop, commands and their responses,
  and the insert, update, delete and query operations.  A member function is an action: it takes
  the session and returns its result or the exception, with the session at that point.  The server
  is the stream of bytes the client receives (\<open>inp\<close>); reading past its end is the exception of a
  closed connection.  A \<^verbatim>\<open>co_await\<close> of the client's own functions is a call.  The crypto functions
  of OpenSSL are the fields of a parameter.
\<close>

section \<open>The session\<close>

type_synonym i32 = "32 word"

record session =
  inp :: "byte list"
  outp :: "byte list"
  is_open :: bool
  connected :: bool
  seq_id :: byte
  server_capabilities :: u32
  negotiated_capabilities :: u32
  sess_status_flags :: u16
  backslash_escapes :: bool
  auth_plugin_name :: string
  scramble :: "byte list"
  sess_last_insert_id :: u64
  last_affect_rows :: i32
  has_error :: bool
  last_error :: string
  transaction :: bool
  sess_user :: string
  sess_password :: string
  sess_database :: string

definition new_session :: session where
  "new_session =
     \<lparr>inp = [], outp = [], is_open = False, connected = False, seq_id = 0, server_capabilities = 0,
      negotiated_capabilities = 0, sess_status_flags = 0, backslash_escapes = True,
      auth_plugin_name = mysql_native_password, scramble = replicate 20 0, sess_last_insert_id = 0,
      last_affect_rows = 0, has_error = False, last_error = [], transaction = True,
      sess_user = [], sess_password = [], sess_database = []\<rparr>"

record crypto =
  sha1 :: "byte list \<Rightarrow> byte list"
  sha256 :: "byte list \<Rightarrow> byte list"
  rsa :: "byte list \<Rightarrow> byte list \<Rightarrow> byte list result"

type_synonym 'a action = "session \<Rightarrow> 'a result \<times> session"

fun bind_a :: "'a result \<times> session \<Rightarrow> ('a \<Rightarrow> 'b action) \<Rightarrow> 'b result \<times> session" where
  "bind_a (Inl e, s) f = (Inl e, s)"
| "bind_a (Inr x, s) f = f x s"

definition lift_a :: "'a result \<Rightarrow> 'a action" where
  "lift_a r s = (r, s)"

fun what :: "exn \<Rightarrow> string" where
  "what (Runtime_error m) = m"
| "what (Invalid_argument m) = m"
| "what Out_of_range = ''out_of_range''"
| "what Io_error = ''system_error''"

definition reset_error :: "session \<Rightarrow> session" where
  "reset_error s = s\<lparr>has_error := False, last_error := []\<rparr>"

definition set_last_error :: "string \<Rightarrow> session \<Rightarrow> session" where
  "set_last_error e s = s\<lparr>has_error := True, last_error := e\<rparr>"

definition close_socket :: "session \<Rightarrow> session" where
  "close_socket s = s\<lparr>is_open := False, connected := False\<rparr>"

text \<open>\<^verbatim>\<open>try { ... } catch (const std::exception& e) { set_last_error(e.what()); return dflt; }\<close>\<close>

fun try_a :: "'a \<Rightarrow> 'a result \<times> session \<Rightarrow> 'a \<times> session" where
  "try_a dflt (Inl e, s) = (dflt, set_last_error (what e) s)"
| "try_a dflt (Inr x, s) = (x, s)"

definition not_connected :: exn where
  "not_connected = Runtime_error ''mysql_async: socket is not connected''"

section \<open>Frames\<close>

definition max_chunk :: nat where
  "max_chunk = 0x00ffffff"

function read_packet_loop :: "byte list \<Rightarrow> session \<Rightarrow> (byte list) result \<times> session" where
  "read_packet_loop payload s =
     (if length (inp s) < 4 then (Inl Io_error, s\<lparr>inp := []\<rparr>)
      else let header = take 4 (inp s);
               n = unat (read_le24 header);
               s = s\<lparr>seq_id := header ! 3 + 1, inp := drop 4 (inp s)\<rparr>
           in if length (inp s) < n then (Inl Io_error, s\<lparr>inp := []\<rparr>)
              else let payload = payload @ take n (inp s);
                       s = s\<lparr>inp := drop n (inp s)\<rparr>
                   in if n \<noteq> max_chunk then (Inr payload, s) else read_packet_loop payload s)"
  by pat_completeness auto
termination
  by (relation "measure (\<lambda>(p, s). length (inp s))") auto

declare read_packet_loop.simps [simp del]

definition read_packet :: "(byte list) action" where
  "read_packet s = (if \<not> is_open s then (Inl not_connected, s) else read_packet_loop [] s)"

definition frame :: "byte \<Rightarrow> byte list \<Rightarrow> byte list" where
  "frame seqn chunk = append_le24 [] (word_of_nat (length chunk)) @ seqn # chunk"

definition send :: "byte list \<Rightarrow> session \<Rightarrow> session" where
  "send chunk s = s\<lparr>outp := outp s @ frame (seq_id s) chunk, seq_id := seq_id s + 1\<rparr>"

function write_packet_loop :: "byte list \<Rightarrow> session \<Rightarrow> session" where
  "write_packet_loop payload s =
     (let chunk = take max_chunk payload;
          rest = drop max_chunk payload;
          s = send chunk s;
          s = (if length chunk = max_chunk \<and> rest = [] then send [] s else s)
      in if rest \<noteq> [] then write_packet_loop rest s else s)"
  by pat_completeness auto
termination
  by (relation "measure (\<lambda>(p, s). length p)") (auto simp: max_chunk_def)

declare write_packet_loop.simps [simp del]

definition write_packet :: "byte list \<Rightarrow> unit action" where
  "write_packet payload s =
     (if \<not> is_open s then (Inl not_connected, s) else (Inr (), write_packet_loop payload s))"

section \<open>The handshake\<close>

definition build_auth_response :: "crypto \<Rightarrow> string \<Rightarrow> session \<Rightarrow> (byte list) result" where
  "build_auth_response c plugin s =
     (if plugin = mysql_native_password
      then Inr (scramble_mysql_native_password (sha1 c) (sess_password s) (scramble s))
      else if plugin = caching_sha2_password
      then Inr (scramble_caching_sha2_password (sha256 c) (sess_password s) (scramble s))
      else Inl (Runtime_error (''mysql_async: unsupported auth plugin '' @ plugin)))"

definition append_connect_attr :: "byte list \<Rightarrow> string \<Rightarrow> string \<Rightarrow> byte list" where
  "append_connect_attr out key value = append_lenenc_string (append_lenenc_string out key) value"

definition connect_attrs :: "byte list" where
  "connect_attrs =
     append_connect_attr
       (append_connect_attr
         (append_connect_attr [] ''_client_name'' ''ormpp'') ''_client_version'' ''async'')
       ''_os'' ''linux''"

definition handshake_response :: "session \<Rightarrow> byte list \<Rightarrow> byte list" where
  "handshake_response s auth_data =
     (let response = append_le32 (append_le32 [] (negotiated_capabilities s)) (1024 * 1024 * 16);
          response = response @ [45] @ replicate 23 0 @ bytes_of (sess_user s) @ [0];
          response = append_lenenc_int response (word_of_nat (length auth_data)) @ auth_data;
          response = (if negotiated_capabilities s AND client_connect_with_db \<noteq> 0
                      then response @ bytes_of (sess_database s) @ [0] else response);
          response = response @ bytes_of (auth_plugin_name s) @ [0]
      in append_lenenc_int response (word_of_nat (length connect_attrs)) @ connect_attrs)"

definition write_handshake_response :: "crypto \<Rightarrow> unit action" where
  "write_handshake_response c s =
     bind_a (build_auth_response c (auth_plugin_name s) s, s) (\<lambda>auth_data s.
       write_packet (handshake_response s auth_data) (s\<lparr>seq_id := 1\<rparr>))"

definition status_no_backslash_escapes :: u16 where
  "status_no_backslash_escapes = 0x0200"

definition apply_ok :: "ok_packet \<Rightarrow> session \<Rightarrow> session" where
  "apply_ok ok s =
     s\<lparr>last_affect_rows := ucast (affected_rows ok), sess_last_insert_id := last_insert_id ok,
       sess_status_flags := status_flags ok,
       backslash_escapes := (status_flags ok AND status_no_backslash_escapes = 0)\<rparr>"

definition server_error :: "string \<Rightarrow> byte list \<Rightarrow> exn" where
  "server_error msg payload =
     (case parse_error_packet payload of
        Inl e \<Rightarrow> e
      | Inr err \<Rightarrow> Runtime_error (msg @ '' ['' @ nat_str (unat (err_code err)) @ ''] '' @ err_message err))"

text \<open>\<^verbatim>\<open>plugin_data\<close> of an auth switch: a final NUL dropped, filled up to the scramble.\<close>

definition switch_scramble :: "string \<Rightarrow> byte list" where
  "switch_scramble plugin_data = scramble_20 (pop_nul plugin_data)"

definition exchange :: "byte list \<Rightarrow> (byte list) action" where
  "exchange payload s = bind_a (write_packet payload s) (\<lambda>_ s. read_packet s)"

definition auth_switch :: "crypto \<Rightarrow> byte list \<Rightarrow> (byte list) action" where
  "auth_switch c payload s =
     bind_a (lift_a (rbind (read_byte payload) (\<lambda>(_, d).
               rbind (read_null_terminated_string d) (\<lambda>(plugin, d).
               rbind (read_string (length d) d) (\<lambda>(data, d). Inr (plugin, data))))) s)
       (\<lambda>(plugin, data) s.
          let s = s\<lparr>scramble := switch_scramble data, auth_plugin_name := plugin\<rparr>
          in bind_a (build_auth_response c plugin s, s) exchange)"

definition unsupported_more_data :: exn where
  "unsupported_more_data = Runtime_error ''mysql_async: unsupported auth more data''"

definition auth_more_data :: "crypto \<Rightarrow> byte list \<Rightarrow> (byte list) action" where
  "auth_more_data c payload s =
     (let data = drop 1 payload in
      if auth_plugin_name s = caching_sha2_password \<and> data = [3] then read_packet s
      else if auth_plugin_name s = caching_sha2_password \<and> data = [4] then
        bind_a (exchange [2] s) (\<lambda>public_key_packet s.
          if is_err_packet public_key_packet
          then (Inl (server_error ''mysql_async auth public key failed'' public_key_packet), s)
          else bind_a (rsa_encrypt_password (rsa c) (sess_password s) (scramble s) public_key_packet, s)
                 exchange)
      else (Inl unsupported_more_data, s))"

text \<open>One round of the authentication loop: \<open>None\<close> is success, \<open>Some\<close> the next packet.\<close>

definition auth_round :: "crypto \<Rightarrow> byte list \<Rightarrow> (byte list option) action" where
  "auth_round c payload s =
     (if is_err_packet payload then (Inl (server_error ''mysql_async auth failed'' payload), s)
      else if is_ok_packet payload \<and> \<not> is_auth_switch_request payload then
        bind_a (lift_a (parse_ok_packet payload) s) (\<lambda>ok s. (Inr None, apply_ok ok s))
      else if is_auth_switch_request payload then
        bind_a (auth_switch c payload s) (\<lambda>p s. (Inr (Some p), s))
      else if is_auth_more_data payload then
        bind_a (auth_more_data c payload s) (\<lambda>p s. (Inr (Some p), s))
      else (Inl (Runtime_error ''mysql_async: unsupported auth response packet''), s))"

text \<open>A packet that was read has used up input, and writing uses none.\<close>

lemma read_packet_loop_shorter:
  "read_packet_loop p s = (Inr q, s') \<Longrightarrow> length (inp s') < length (inp s)"
proof (induction p s rule: read_packet_loop.induct)
  case (1 p s)
  show ?case
    using "1.prems" "1.IH" [OF _ refl refl refl _ refl refl]
    by (subst (asm) read_packet_loop.simps) (force simp: Let_def split: if_splits)
qed

lemma read_packet_shorter: "read_packet s = (Inr q, s') \<Longrightarrow> length (inp s') < length (inp s)"
  by (auto simp: read_packet_def read_packet_loop_shorter split: if_splits)

lemma send_inp [simp]: "inp (send chunk s) = inp s"
  by (simp add: send_def)

lemma write_packet_loop_inp [simp]: "inp (write_packet_loop p s) = inp s"
  by (induction p s rule: write_packet_loop.induct) (subst write_packet_loop.simps, auto simp: Let_def)

lemma bind_a_Inr: "bind_a r f = (Inr y, s') \<longleftrightarrow> (\<exists>x s. r = (Inr x, s) \<and> f x s = (Inr y, s'))"
  by (cases "(r, f)" rule: bind_a.cases) auto

lemma write_packet_inp: "write_packet p s = (r, s') \<Longrightarrow> inp s' = inp s"
  by (auto simp: write_packet_def split: if_splits)

lemma exchange_shorter: "exchange p s = (Inr q, s') \<Longrightarrow> length (inp s') < length (inp s)"
  by (auto simp: exchange_def bind_a_Inr dest!: read_packet_shorter write_packet_inp)

lemma auth_round_shorter: "auth_round c p s = (Inr (Some q), s') \<Longrightarrow> length (inp s') < length (inp s)"
  by (auto simp: auth_round_def auth_switch_def auth_more_data_def bind_a_Inr lift_a_def Let_def
      dest!: exchange_shorter read_packet_shorter split: if_splits prod.splits)

function handle_auth_response :: "crypto \<Rightarrow> byte list \<Rightarrow> session \<Rightarrow> bool result \<times> session" where
  "handle_auth_response c payload s =
     (case auth_round c payload s of
        (Inl e, s') \<Rightarrow> (Inl e, s')
      | (Inr None, s') \<Rightarrow> (Inr True, s')
      | (Inr (Some payload'), s') \<Rightarrow> handle_auth_response c payload' s')"
  by pat_completeness auto
termination
  by (relation "measure (\<lambda>(c, p, s). length (inp s))") (auto dest: auth_round_shorter [OF sym])

declare handle_auth_response.simps [simp del]

definition client_caps :: "string \<Rightarrow> u32" where
  "client_caps database =
     0x00000001 OR 0x00000002 OR 0x00000004 OR 0x00000200 OR 0x00002000 OR client_secure_connection OR
     0x00010000 OR 0x00020000 OR client_plugin_auth OR 0x00200000 OR 0x00100000 OR client_deprecate_eof OR
     (if database \<noteq> [] then client_connect_with_db else 0)"

text \<open>\<open>dial\<close>: what resolving and connecting give - nothing, or the server's stream.\<close>

definition connect_handshake :: "crypto \<Rightarrow> byte list option \<Rightarrow> bool action" where
  "connect_handshake c dial s =
     (case dial of
        None \<Rightarrow> (Inl Io_error, s)
      | Some stream \<Rightarrow>
          bind_a (read_packet (s\<lparr>is_open := True, inp := stream\<rparr>)) (\<lambda>payload s.
          bind_a (lift_a (parse_server_handshake payload) s) (\<lambda>hs s.
          let s = s\<lparr>server_capabilities := capabilities hs,
                    auth_plugin_name := (if hs_auth_plugin_name hs = [] then mysql_native_password
                                         else hs_auth_plugin_name hs),
                    scramble := hs_scramble hs,
                    negotiated_capabilities := client_caps (sess_database s) AND capabilities hs\<rparr>
          in bind_a (write_handshake_response c s) (\<lambda>_ s.
             bind_a (read_packet s) (\<lambda>p s.
             bind_a (handle_auth_response c p s) (\<lambda>ok s.
             if \<not> ok then (Inr False, s) else (Inr True, s\<lparr>connected := True\<rparr>)))))))"

definition connect ::
  "crypto \<Rightarrow> byte list option \<Rightarrow> string \<Rightarrow> string \<Rightarrow> string \<Rightarrow> session \<Rightarrow> bool \<times> session" where
  "connect c dial user passwd db s =
     (let s = (reset_error s)\<lparr>last_affect_rows := 0, sess_last_insert_id := 0, sess_status_flags := 0,
                backslash_escapes := True, is_open := False, sess_user := user,
                sess_password := passwd, sess_database := db, seq_id := 0\<rparr>
      in case connect_handshake c dial s of
           (Inl e, s) \<Rightarrow> (False, close_socket (set_last_error (what e) s))
         | (Inr ok, s) \<Rightarrow> (ok, s))"

definition disconnect :: "session \<Rightarrow> bool \<times> session" where
  "disconnect s = (True, close_socket s)"

section \<open>Frames undo frames\<close>

function frames :: "byte \<Rightarrow> byte list \<Rightarrow> byte list" where
  "frames q p =
     (let chunk = take max_chunk p; rest = drop max_chunk p
      in frame q chunk @
         (if length chunk = max_chunk \<and> rest = [] then frame (q + 1) [] else []) @
         (if rest \<noteq> [] then frames (q + 1) rest else []))"
  by pat_completeness auto
termination
  by (relation "measure (\<lambda>(q, p). length p)") (auto simp: max_chunk_def)

declare frames.simps [simp del]

text \<open>The sequence number after the frames of a packet.\<close>

function seq_after :: "byte \<Rightarrow> byte list \<Rightarrow> byte" where
  "seq_after q p =
     (if length p < max_chunk then q + 1
      else if length p = max_chunk then q + 2
      else seq_after (q + 1) (drop max_chunk p))"
  by pat_completeness auto
termination
  by (relation "measure (\<lambda>(q, p). length p)") (auto simp: max_chunk_def)

declare seq_after.simps [simp del]

lemma max_chunk_pos: "0 < max_chunk"
  by (simp add: max_chunk_def)

lemma write_packet_loop_frames:
  "write_packet_loop p s = s\<lparr>outp := outp s @ frames (seq_id s) p, seq_id := seq_after (seq_id s) p\<rparr>"
proof (induction p s rule: write_packet_loop.induct)
  case (1 p s)
  consider "length p < max_chunk" | "length p = max_chunk" | "max_chunk < length p" by linarith
  then show ?case
  proof cases
    case 3
    then show ?thesis
      using "1.IH" [OF refl refl refl refl]
      by (subst write_packet_loop.simps, subst frames.simps, subst seq_after.simps)
        (simp add: Let_def send_def)
  qed (subst write_packet_loop.simps, subst frames.simps, subst seq_after.simps,
       simp add: Let_def send_def)+
qed

lemma frame_header:
  assumes "length chunk \<le> max_chunk"
  shows "length (frame q chunk) = 4 + length chunk" "frame q chunk ! 3 = q"
    "unat (read_le24 (take 4 (frame q chunk @ rest))) = length chunk" "drop 4 (frame q chunk @ rest) = chunk @ rest"
proof -
  let ?n = "word_of_nat (length chunk) :: u32"
  have f: "frame q chunk = le_bytes 3 ?n @ q # chunk" by (simp add: frame_def append_le_eq)
  have u: "unat ?n = length chunk" using assms by (simp add: unat_of_nat max_chunk_def)
  then have "?n \<le> 0xffffff" using assms by (simp add: word_le_nat_alt max_chunk_def)
  from read_le_roundtrip(2) [OF this, of "[q]"] u
  show "unat (read_le24 (take 4 (frame q chunk @ rest))) = length chunk" by (simp add: f)
  show "length (frame q chunk) = 4 + length chunk" "frame q chunk ! 3 = q"
    "drop 4 (frame q chunk @ rest) = chunk @ rest"
    by (simp_all add: f nth_append)
qed

lemma read_frame:
  assumes "length chunk \<le> max_chunk" "inp s = frame q chunk @ rest"
  shows "read_packet_loop acc s =
    (let s' = s\<lparr>seq_id := q + 1, inp := rest\<rparr>
     in if length chunk \<noteq> max_chunk then (Inr (acc @ chunk), s') else read_packet_loop (acc @ chunk) s')"
proof -
  note h = frame_header [OF assms(1)]
  have "take 4 (frame q chunk @ rest) ! 3 = q" using h(1) [of q] h(2) [of q] by (simp add: nth_append)
  with assms(2) h show ?thesis
    by (subst read_packet_loop.simps) (simp add: Let_def)
qed

lemma read_frames:
  "inp s = frames q p @ rest \<Longrightarrow>
   read_packet_loop acc s = (Inr (acc @ p), s\<lparr>seq_id := seq_after q p, inp := rest\<rparr>)"
proof (induction q p arbitrary: s acc rule: frames.induct)
  case (1 q p)
  consider "length p < max_chunk" | "length p = max_chunk" | "max_chunk < length p" by linarith
  then show ?case
  proof cases
    case 1
    with "1.prems" have "inp s = frame q p @ rest" by (subst (asm) frames.simps) simp
    with 1 show ?thesis
      by (subst read_frame [of p]) (auto simp: Let_def, subst seq_after.simps, simp)
  next
    case 2
    with "1.prems" have i: "inp s = frame q p @ frame (q + 1) [] @ rest"
      by (subst (asm) frames.simps) simp
    let ?s = "s\<lparr>seq_id := q + 1, inp := frame (q + 1) [] @ rest\<rparr>"
    have "read_packet_loop acc s = read_packet_loop (acc @ p) ?s"
      using 2 i by (subst read_frame [of p]) (auto simp: Let_def)
    also have "\<dots> = (Inr (acc @ p), ?s\<lparr>seq_id := q + 2, inp := rest\<rparr>)"
      using max_chunk_pos by (subst read_frame [of "[]" _ "q + 1" rest]) (auto simp: Let_def add.assoc)
    finally show ?thesis using 2 by (subst seq_after.simps) simp
  next
    case 3
    let ?c = "take max_chunk p" and ?r = "drop max_chunk p"
    from 3 "1.prems" have i: "inp s = frame q ?c @ frames (q + 1) ?r @ rest"
      by (subst (asm) frames.simps) simp
    let ?s = "s\<lparr>seq_id := q + 1, inp := frames (q + 1) ?r @ rest\<rparr>"
    have "read_packet_loop acc s = read_packet_loop (acc @ ?c) ?s"
      using 3 i by (subst read_frame [of ?c]) (auto simp: Let_def)
    also have "\<dots> = (Inr (acc @ p), ?s\<lparr>seq_id := seq_after (q + 1) ?r, inp := rest\<rparr>)"
      using "1.IH" [OF refl refl _, of ?s "acc @ ?c"] 3 by simp
    finally show ?thesis using 3 by (subst seq_after.simps) simp
  qed
qed

lemma read_packet_frames:
  "is_open s \<Longrightarrow> inp s = frames q p @ rest \<Longrightarrow>
   read_packet s = (Inr p, s\<lparr>seq_id := seq_after q p, inp := rest\<rparr>)"
  by (simp add: read_packet_def read_frames)

section \<open>What the client sends while it authenticates\<close>

lemma read_packet_loop_only: "\<exists>q i. snd (read_packet_loop p s) = s\<lparr>seq_id := q, inp := i\<rparr>"
proof (induction p s rule: read_packet_loop.induct)
  case (1 p s)
  let ?n = "unat (read_le24 (take 4 (inp s)))"
  let ?s = "s\<lparr>seq_id := take 4 (inp s) ! 3 + 1, inp := drop 4 (inp s)\<rparr>"
  consider "length (inp s) < 4" | "\<not> length (inp s) < 4" "length (inp ?s) < ?n"
    | "\<not> length (inp s) < 4" "\<not> length (inp ?s) < ?n" "?n \<noteq> max_chunk"
    | "\<not> length (inp s) < 4" "\<not> length (inp ?s) < ?n" "?n = max_chunk" by blast
  then show ?case
  proof cases
    case 1
    then show ?thesis
      by (subst read_packet_loop.simps) (auto intro!: exI [of _ "seq_id s"])
  next
    case 2
    then show ?thesis by (subst read_packet_loop.simps) (auto simp: Let_def)
  next
    case 3
    then show ?thesis by (subst read_packet_loop.simps) (auto simp: Let_def)
  next
    case 4
    have "read_packet_loop p s =
        read_packet_loop (p @ take ?n (inp ?s)) (?s\<lparr>inp := drop ?n (inp ?s)\<rparr>)"
      using 4 by (subst read_packet_loop.simps) (simp add: Let_def)
    moreover have "\<exists>q i. snd (read_packet_loop (p @ take ?n (inp ?s)) (?s\<lparr>inp := drop ?n (inp ?s)\<rparr>)) =
        ?s\<lparr>inp := drop ?n (inp ?s)\<rparr>\<lparr>seq_id := q, inp := i\<rparr>"
      by (rule "1.IH" [OF _ refl refl refl _ refl refl]) (use 4 in simp_all)
    ultimately show ?thesis by auto
  qed
qed

lemma read_packet_only: "read_packet s = (r, s') \<Longrightarrow> \<exists>q i. s' = s\<lparr>seq_id := q, inp := i\<rparr>"
proof -
  assume r: "read_packet s = (r, s')"
  show ?thesis
  proof (cases "is_open s")
    case True
    with r show ?thesis using read_packet_loop_only [of "[]" s] by (auto simp: read_packet_def)
  next
    case False
    with r have "s' = s\<lparr>seq_id := seq_id s, inp := inp s\<rparr>" by (simp add: read_packet_def)
    then show ?thesis by blast
  qed
qed

definition credential :: "crypto \<Rightarrow> string \<Rightarrow> byte list \<Rightarrow> bool" where
  "credential c pw p \<longleftrightarrow>
     p = [2] \<or>
     (\<exists>scr. p = scramble_mysql_native_password (sha1 c) pw scr \<or>
            p = scramble_caching_sha2_password (sha256 c) pw scr \<or>
            (\<exists>key. rsa c key (salt_caching_sha2_password pw scr) = Inr p))"

text \<open>Between two states only packets with protected credentials were sent.\<close>

definition sent_protected :: "crypto \<Rightarrow> session \<Rightarrow> session \<Rightarrow> bool" where
  "sent_protected c s s' \<longleftrightarrow>
     sess_password s' = sess_password s \<and> is_open s' = is_open s \<and>
     (\<exists>ws. list_all (\<lambda>(q, p). credential c (sess_password s) p) ws \<and>
           outp s' = outp s @ concat (map (\<lambda>(q, p). frames q p) ws))"

lemma sent_protected_refl:
  "outp s' = outp s \<Longrightarrow> sess_password s' = sess_password s \<Longrightarrow> is_open s' = is_open s \<Longrightarrow> sent_protected c s s'"
  unfolding sent_protected_def by (auto intro!: exI [of _ "[]"])

lemma sent_protected_trans:
  assumes "sent_protected c s s'" "sent_protected c s' s''"
  shows "sent_protected c s s''"
proof -
  obtain ws where ws: "list_all (\<lambda>(q, p). credential c (sess_password s) p) ws"
      "outp s' = outp s @ concat (map (\<lambda>(q, p). frames q p) ws)" "sess_password s' = sess_password s"
    using assms(1) by (auto simp: sent_protected_def)
  obtain vs where vs: "list_all (\<lambda>(q, p). credential c (sess_password s') p) vs"
      "outp s'' = outp s' @ concat (map (\<lambda>(q, p). frames q p) vs)"
    using assms(2) by (auto simp: sent_protected_def)
  have "list_all (\<lambda>(q, p). credential c (sess_password s) p) (ws @ vs)" using ws vs by simp
  moreover have "outp s'' = outp s @ concat (map (\<lambda>(q, p). frames q p) (ws @ vs))" using ws vs by simp
  ultimately have "\<exists>ws. list_all (\<lambda>(q, p). credential c (sess_password s) p) ws \<and>
      outp s'' = outp s @ concat (map (\<lambda>(q, p). frames q p) ws)" by blast
  moreover have "sess_password s'' = sess_password s" "is_open s'' = is_open s"
    using assms by (simp_all add: sent_protected_def)
  ultimately show ?thesis by (simp add: sent_protected_def)
qed

lemma read_packet_sent: "read_packet s = (r, s') \<Longrightarrow> sent_protected c s s'"
  by (drule read_packet_only) (auto intro!: sent_protected_refl)

lemma write_packet_sent:
  "credential c (sess_password s) p \<Longrightarrow> write_packet p s = (r, s') \<Longrightarrow> sent_protected c s s'"
proof (cases "is_open s")
  case True
  assume "credential c (sess_password s) p" "write_packet p s = (r, s')"
  with True show ?thesis
    by (auto simp: write_packet_def write_packet_loop_frames sent_protected_def
        intro!: exI [of _ "[(seq_id s, p)]"])
qed (auto simp: write_packet_def intro: sent_protected_refl)

lemma exchange_sent:
  assumes "credential c (sess_password s) p" "exchange p s = (r, s')"
  shows "sent_protected c s s'"
proof -
  obtain w s1 where w: "write_packet p s = (w, s1)" by fastforce
  note 1 = write_packet_sent [OF assms(1) w]
  show ?thesis
  proof (cases w)
    case (Inl e)
    with w assms(2) 1 show ?thesis by (simp add: exchange_def)
  next
    case (Inr u)
    with w assms(2) have "read_packet s1 = (r, s')" by (simp add: exchange_def)
    from sent_protected_trans [OF 1 read_packet_sent [OF this]] show ?thesis .
  qed
qed

lemma build_auth_credential:
  "build_auth_response c plugin s = Inr p \<Longrightarrow> credential c (sess_password s) p"
  by (auto simp: build_auth_response_def credential_def split: if_splits)

lemma auth_switch_sent:
  assumes "auth_switch c payload s = (r, s')"
  shows "sent_protected c s s'"
proof (cases "rbind (read_byte payload) (\<lambda>(_, d).
               rbind (read_null_terminated_string d) (\<lambda>(plugin, d).
               rbind (read_string (length d) d) (\<lambda>(data, d). Inr (plugin, data))))")
  case (Inl e)
  with assms show ?thesis by (auto simp: auth_switch_def lift_a_def intro: sent_protected_refl)
next
  case (Inr pd)
  obtain plugin data where pd: "pd = (plugin, data)" by fastforce
  let ?s = "s\<lparr>scramble := switch_scramble data, auth_plugin_name := plugin\<rparr>"
  have 0: "sent_protected c s ?s" by (rule sent_protected_refl) simp_all
  show ?thesis
  proof (cases "build_auth_response c plugin ?s")
    case (Inl e)
    with assms Inr pd 0 show ?thesis by (simp add: auth_switch_def lift_a_def Let_def)
  next
    case (Inr p)
    with assms \<open>_ = Inr pd\<close> pd have "exchange p ?s = (r, s')"
      by (simp add: auth_switch_def lift_a_def Let_def)
    from exchange_sent [OF build_auth_credential [OF Inr] this] 0 show ?thesis
      by (blast intro: sent_protected_trans)
  qed
qed

lemma auth_more_data_sent:
  assumes "auth_more_data c payload s = (r, s')"
  shows "sent_protected c s s'"
proof -
  consider (fast) "read_packet s = (r, s')" | (fail) "s' = s"
    | (full) "auth_more_data c payload s = bind_a (exchange [2] s) (\<lambda>key s.
          if is_err_packet key
          then (Inl (server_error ''mysql_async auth public key failed'' key), s)
          else bind_a (rsa_encrypt_password (rsa c) (sess_password s) (scramble s) key, s) exchange)"
    using assms by (auto simp: auth_more_data_def Let_def split: if_splits)
  then show ?thesis
  proof cases
    case fast
    then show ?thesis by (rule read_packet_sent)
  next
    case fail
    then show ?thesis by (simp add: sent_protected_refl)
  next
    case full
    obtain k s1 where k: "exchange [2] s = (k, s1)" by fastforce
    have 1: "sent_protected c s s1" by (rule exchange_sent [OF _ k]) (simp add: credential_def)
    show ?thesis
    proof (cases k)
      case (Inl e)
      with full k assms 1 show ?thesis by simp
    next
      case (Inr key)
      show ?thesis
      proof (cases "is_err_packet key")
        case True
        with full k assms 1 Inr show ?thesis by simp
      next
        case False
        show ?thesis
        proof (cases "rsa_encrypt_password (rsa c) (sess_password s1) (scramble s1) key")
          case (Inl e)
          with full k assms 1 Inr False show ?thesis using \<open>k = Inr key\<close> by simp
        next
          case (Inr p)
          with full k assms False \<open>k = Inr key\<close> have x: "exchange p s1 = (r, s')" by simp
          have "credential c (sess_password s1) p"
            using Inr by (auto simp: credential_def rsa_encrypt_password_def)
          from sent_protected_trans [OF 1 exchange_sent [OF this x]] show ?thesis .
        qed
      qed
    qed
  qed
qed

lemma auth_round_sent:
  assumes "auth_round c payload s = (r, s')"
  shows "sent_protected c s s'"
proof -
  have cont: "sent_protected c s s'"
    if "bind_a x (\<lambda>p s. (Inr (Some p), s)) = (r, s')" "\<And>q t. x = (q, t) \<Longrightarrow> sent_protected c s t"
    for x :: "(byte list) result \<times> session"
    using that by (cases x; cases "fst x") auto
  consider "s' = s" | "is_ok_packet payload" "auth_round c payload s =
        bind_a (lift_a (parse_ok_packet payload) s) (\<lambda>ok s. (Inr None, apply_ok ok s))"
    | "auth_round c payload s = bind_a (auth_switch c payload s) (\<lambda>p s. (Inr (Some p), s))"
    | "auth_round c payload s = bind_a (auth_more_data c payload s) (\<lambda>p s. (Inr (Some p), s))"
    using assms by (auto simp: auth_round_def split: if_splits)
  then show ?thesis
  proof cases
    case 1
    then show ?thesis by (simp add: sent_protected_refl)
  next
    case 2
    with assms show ?thesis
      by (cases "parse_ok_packet payload") (auto simp: lift_a_def apply_ok_def intro: sent_protected_refl)
  next
    case 3
    with assms show ?thesis by (intro cont [OF _ auth_switch_sent]) auto
  next
    case 4
    with assms show ?thesis by (intro cont [OF _ auth_more_data_sent]) auto
  qed
qed

lemma handle_auth_response_sent:
  "handle_auth_response c payload s = (r, s') \<Longrightarrow> sent_protected c s s' \<and> r \<noteq> Inr False"
proof (induction c payload s arbitrary: r s' rule: handle_auth_response.induct)
  case (1 c payload s)
  obtain x s1 where x: "auth_round c payload s = (x, s1)" by fastforce
  note first = auth_round_sent [OF x]
  show ?case
  proof (cases x)
    case (Inl e)
    with x 1 first show ?thesis by (subst (asm) (2) handle_auth_response.simps) auto
  next
    case (Inr y)
    show ?thesis
    proof (cases y)
      case None
      with Inr x 1 first show ?thesis by (subst (asm) (2) handle_auth_response.simps) auto
    next
      case (Some p)
      have h: "handle_auth_response c p s1 = (r, s')"
        using "1.prems" x Inr Some by (subst (asm) handle_auth_response.simps) simp
      have "sent_protected c s1 s' \<and> r \<noteq> Inr False"
        using "1.IH" x Inr Some h by (metis (no_types))
      with first show ?thesis by (blast intro: sent_protected_trans)
    qed
  qed
qed

section \<open>Properties\<close>

text \<open>C5: a packet of any length - empty, longer than a frame, an exact multiple of the frame size -
  that one side writes is read back by the other side whole, with what follows it left unread and
  the sequence numbers of both sides in step.\<close>

theorem packet_roundtrip:
  assumes "is_open s" "is_open t" "outp (snd (write_packet p s)) = outp s @ w" "inp t = w @ rest"
  shows "read_packet t = (Inr p, t\<lparr>seq_id := seq_id (snd (write_packet p s)), inp := rest\<rparr>)"
proof -
  from assms(1, 3) have "w = frames (seq_id s) p"
    by (simp add: write_packet_def write_packet_loop_frames)
  with assms show ?thesis
    by (simp add: read_packet_frames write_packet_def write_packet_loop_frames)
qed

theorem packet_roundtrip_witness:
  "read_packet (new_session\<lparr>is_open := True, inp := [2, 0, 0, 0, 7, 8] @ [9]\<rparr>) =
   (Inr [7, 8], new_session\<lparr>is_open := True, seq_id := 1, inp := [9]\<rparr>)"
proof -
  let ?s = "new_session\<lparr>is_open := True\<rparr>" and ?t = "new_session\<lparr>is_open := True, inp := [2, 0, 0, 0, 7, 8] @ [9]\<rparr>"
  have f: "frames 0 [7, 8] = [2, 0, 0, 0, 7, 8]"
    by (subst frames.simps) (simp add: frame_def append_le24_def max_chunk_def)
  have s: "seq_after 0 [7, 8] = 1" by (subst seq_after.simps) (simp add: max_chunk_def)
  have "read_packet ?t = (Inr [7, 8], ?t\<lparr>seq_id := seq_id (snd (write_packet [7, 8] ?s)), inp := [9]\<rparr>)"
    by (rule packet_roundtrip)
      (simp_all add: write_packet_def write_packet_loop_frames f, simp_all add: new_session_def f)
  then show ?thesis by (simp add: write_packet_def write_packet_loop_frames s) (simp add: new_session_def s)
qed



lemma write_packet_open: "write_packet p s = (r, s') \<Longrightarrow> is_open s' = is_open s"
  by (auto simp: write_packet_def write_packet_loop_frames split: if_splits)

lemma read_packet_open: "read_packet s = (r, s') \<Longrightarrow> is_open s' = is_open s"
  by (drule read_packet_only) auto

lemma connect_handshake_success:
  "connect_handshake c dial s = (Inr ok, s') \<Longrightarrow> ok \<and> connected s' \<and> is_open s'"
  by (auto simp: connect_handshake_def bind_a_Inr lift_a_def Let_def write_handshake_response_def
      dest!: read_packet_open write_packet_open handle_auth_response_sent
      simp: sent_protected_def split: option.splits if_splits)

text \<open>C7: \<^verbatim>\<open>connect\<close> never throws: it returns true with an open, connected session, or false with the
  socket closed and an error message set, whatever the server sends and wherever the stream ends.\<close>

theorem connect_outcome:
  assumes "connect c dial user passwd db s = (ok, s')"
  shows "if ok then connected s' \<and> is_open s' else \<not> connected s' \<and> \<not> is_open s' \<and> has_error s'"
proof -
  let ?s = "(reset_error s)\<lparr>last_affect_rows := 0, sess_last_insert_id := 0, sess_status_flags := 0,
      backslash_escapes := True, is_open := False, sess_user := user, sess_password := passwd,
      sess_database := db, seq_id := 0\<rparr>"
  obtain res t where h: "connect_handshake c dial ?s = (res, t)" by fastforce
  show ?thesis
  proof (cases res)
    case (Inl e)
    with h assms show ?thesis by (auto simp: connect_def close_socket_def set_last_error_def)
  next
    case (Inr b)
    with h assms connect_handshake_success [of c dial ?s b t] show ?thesis by (auto simp: connect_def)
  qed
qed

theorem connect_outcome_witness:
  "let s = snd (connect \<lparr>sha1 = id, sha256 = id, rsa = (\<lambda>_ _. Inl Io_error)\<rparr> None ''root'' ''pw'' ''db'' new_session)
   in \<not> connected s \<and> \<not> is_open s \<and> has_error s"
proof -
  let ?c = "\<lparr>sha1 = id, sha256 = id, rsa = (\<lambda>_ _. Inl Io_error)\<rparr>"
  obtain ok s' where h: "connect ?c None ''root'' ''pw'' ''db'' new_session = (ok, s')" by fastforce
  moreover from h have "\<not> ok" by (simp add: connect_def connect_handshake_def split: prod.splits)
  ultimately show ?thesis using connect_outcome [OF h] by simp
qed

end
