(* ===== verification/Mysql_Commands.thy ===== *)
theory Mysql_Commands
  imports Mysql_Session Dml_Builders
begin

text \<open>
  Commands of the asynchronous MySQL client and the operations built on them
  (\<^verbatim>\<open>ormpp/mysql_async.hpp\<close>): the response to a command with its columns and rows, \<^verbatim>\<open>execute\<close>
  and transactions, \<^verbatim>\<open>format_struct_sql\<close>, and insert, replace, update, delete and query with
  their error returns.  \<open>r\<close> is the registry of keys; a struct value is the list of its member
  values.
\<close>

section \<open>Responses\<close>

record column_definition =
  col_schema :: string
  col_table :: string
  col_org_table :: string
  col_name :: string
  col_org_name :: string
  col_character_set :: u16
  col_column_length :: u32
  col_type :: byte
  col_flags :: u16
  col_decimals :: byte

record query_result =
  has_resultset :: bool
  result_ok :: ok_packet
  columns :: "column_definition list"
  rows :: "string option list list"

definition no_ok :: ok_packet where
  "no_ok = \<lparr>affected_rows = 0, last_insert_id = 0, status_flags = 0, warnings = 0, info = []\<rparr>"

definition parse_column_definition :: "byte list \<Rightarrow> column_definition result" where
  "parse_column_definition payload =
     rbind (read_lenenc_string payload) (\<lambda>(sch, d).
     rbind (read_lenenc_string d) (\<lambda>(tab, d).
     rbind (read_lenenc_string d) (\<lambda>(otab, d).
     rbind (read_lenenc_string d) (\<lambda>(nam, d).
     rbind (read_lenenc_string d) (\<lambda>(onam, d).
     rbind (read_lenenc_int d) (\<lambda>(_, d).
     rbind (read_u16 d) (\<lambda>(cs, d).
     rbind (read_u32 d) (\<lambda>(len, d).
     rbind (read_byte d) (\<lambda>(ty, d).
     rbind (read_u16 d) (\<lambda>(fl, d).
     rbind (read_byte d) (\<lambda>(dec, d).
     rbind (if 2 \<le> length d then skip 2 d else Inr d) (\<lambda>_.
     Inr \<lparr>col_schema = sch, col_table = tab, col_org_table = otab, col_name = nam, col_org_name = onam,
          col_character_set = cs, col_column_length = len, col_type = ty, col_flags = fl,
          col_decimals = dec\<rparr>))))))))))))"

definition parse_text_row :: "byte list \<Rightarrow> nat \<Rightarrow> string option list result" where
  "parse_text_row payload n = rbind (read_n read_lenenc_string_optional n payload) (\<lambda>(row, _). Inr row)"

fun read_columns :: "nat \<Rightarrow> column_definition list action" where
  "read_columns 0 s = (Inr [], s)"
| "read_columns (Suc n) s =
     bind_a (read_packet s) (\<lambda>p s.
     bind_a (lift_a (parse_column_definition p) s) (\<lambda>c s.
     bind_a (read_columns n s) (\<lambda>cs s. (Inr (c # cs), s))))"

function read_rows :: "nat \<Rightarrow> string option list list \<Rightarrow> session \<Rightarrow> string option list list result \<times> session" where
  "read_rows n acc s =
     (case read_packet s of
        (Inl e, s') \<Rightarrow> (Inl e, s')
      | (Inr p, s') \<Rightarrow>
          if is_err_packet p then (Inl (server_error ''mysql_async row fetch failed'' p), s')
          else if looks_like_eof_packet p then
            (case parse_ok_packet p of Inl e \<Rightarrow> (Inl e, s') | Inr ok \<Rightarrow> (Inr acc, apply_ok ok s'))
          else (case parse_text_row p n of
                  Inl e \<Rightarrow> (Inl e, s') | Inr row \<Rightarrow> read_rows n (acc @ [row]) s'))"
  by pat_completeness auto
termination
  by (relation "measure (\<lambda>(n, acc, s). length (inp s))") (auto dest: read_packet_shorter [OF sym])

declare read_rows.simps [simp del]

definition read_query_response :: "query_result action" where
  "read_query_response s =
     bind_a (read_packet s) (\<lambda>payload s.
     if is_err_packet payload then (Inl (server_error ''mysql_async query failed'' payload), s)
     else if is_ok_packet payload then
       bind_a (lift_a (parse_ok_packet payload) s) (\<lambda>ok s.
         (Inr \<lparr>has_resultset = False, result_ok = ok, columns = [], rows = []\<rparr>, apply_ok ok s))
     else
       bind_a (lift_a (read_lenenc_int payload) s) (\<lambda>(column_count, _) s.
       bind_a (read_columns (unat column_count) s) (\<lambda>cols s.
       bind_a (read_rows (length cols) [] s) (\<lambda>rs s.
         (Inr \<lparr>has_resultset = True, result_ok = no_ok, columns = cols, rows = rs\<rparr>,
          s\<lparr>last_affect_rows := word_of_nat (length rs)\<rparr>)))))"

definition command_simple :: "byte \<Rightarrow> string \<Rightarrow> query_result action" where
  "command_simple command sql s =
     bind_a (write_packet (command # bytes_of sql) (s\<lparr>seq_id := 0\<rparr>)) (\<lambda>_ s. read_query_response s)"

definition query_text :: "string \<Rightarrow> query_result action" where
  "query_text sql s = command_simple 0x03 sql s"

definition ping :: "session \<Rightarrow> bool \<times> session" where
  "ping s = try_a False (bind_a (command_simple 0x0e [] s) (\<lambda>res s. (Inr (\<not> has_resultset res), s)))"

definition execute :: "string \<Rightarrow> session \<Rightarrow> bool \<times> session" where
  "execute sql s =
     try_a False (bind_a (query_text sql s) (\<lambda>res s.
       (Inr True, if has_resultset res then s\<lparr>last_affect_rows := 0\<rparr> else s)))"

definition begin_transaction :: "session \<Rightarrow> bool \<times> session" where
  "begin_transaction s = execute ''BEGIN'' s"

definition commit :: "session \<Rightarrow> bool \<times> session" where
  "commit s = execute ''COMMIT'' s"

definition rollback :: "session \<Rightarrow> bool \<times> session" where
  "rollback s = execute ''ROLLBACK'' s"

definition set_enable_transaction :: "bool \<Rightarrow> session \<Rightarrow> session" where
  "set_enable_transaction enable s = s\<lparr>transaction := enable\<rparr>"

definition get_last_affect_rows :: "session \<Rightarrow> int" where
  "get_last_affect_rows s = sint (last_affect_rows s)"

section \<open>Statements of a struct\<close>

definition format_struct_sql ::
  "('f \<Rightarrow> string) \<Rightarrow> registry \<Rightarrow> struct_meta \<Rightarrow> bool \<Rightarrow> string \<Rightarrow> 'f cpp_val list \<Rightarrow> opt_type \<Rightarrow>
   'f cpp_val list \<Rightarrow> string result" where
  "format_struct_sql ftoa r T nbe sql val ty args =
     (let members = zip (member_names T) val;
          values = map (\<lambda>(n, v). to_query_arg_impl ftoa nbe v)
                     (filter (\<lambda>(n, v). \<not> (ty = OptInsert \<and> is_auto_key r T n)) members);
          values = values @
            (if args = [] then
               (if ty = OptUpdate then
                  map (\<lambda>(n, v). to_query_arg_impl ftoa nbe v)
                    (filter (\<lambda>(n, v). is_conflict_key r T (escape_identifier n) MySQL) members)
                else [])
             else map (to_query_arg_impl ftoa nbe) args)
      in format_values nbe sql values)"

text \<open>\<^verbatim>\<open>std::numeric_limits<int>::min()\<close>\<close>

definition INT_MIN :: i32 where
  "INT_MIN = 0x80000000"

section \<open>Insert and replace\<close>

definition insert_impl ::
  "('f \<Rightarrow> string) \<Rightarrow> registry \<Rightarrow> struct_meta \<Rightarrow> opt_type \<Rightarrow> 'f cpp_val list \<Rightarrow> session \<Rightarrow> i32 \<times> session" where
  "insert_impl ftoa r T ty item s =
     try_a INT_MIN
       (bind_a (lift_a (format_struct_sql ftoa r T (\<not> backslash_escapes s)
                  (generate_insert_sql r T MySQL (ty = OptInsert) []) item ty []) s)
          (\<lambda>formatted s. let (ok, s) = execute formatted s
                         in (Inr (if ok then last_affect_rows s else INT_MIN), s)))"

text \<open>
  The loop over the items, shared by insert, replace and update; \<open>fmt\<close> gives the statement of an item in
  the current state.
  \<open>None\<close>: an \<^verbatim>\<open>execute\<close> failed and the transaction was rolled back.
\<close>

fun each_item ::
  "('i \<Rightarrow> session \<Rightarrow> string result) \<Rightarrow> bool \<Rightarrow> 'i list \<Rightarrow> i32 \<Rightarrow> (i32 option) action" where
  "each_item fmt in_transaction [] affected s = (Inr (Some affected), s)"
| "each_item fmt in_transaction (item # items) affected s =
     bind_a (lift_a (fmt item s) s) (\<lambda>formatted s.
       let (ok, s) = execute formatted s
       in if \<not> ok then (Inr None, if in_transaction then snd (rollback s) else s)
          else each_item fmt in_transaction items (affected + last_affect_rows s) s)"

definition many_items ::
  "('i \<Rightarrow> session \<Rightarrow> string result) \<Rightarrow> 'i list \<Rightarrow> session \<Rightarrow> i32 \<times> session" where
  "many_items fmt items s =
     try_a INT_MIN
       (let in_transaction = (transaction s \<and> items \<noteq> []);
            (begun, s) = (if in_transaction then begin_transaction s else (True, s))
        in if \<not> begun then (Inr INT_MIN, s)
           else bind_a (each_item fmt in_transaction items 0 s) (\<lambda>res s.
             case res of
               None \<Rightarrow> (Inr INT_MIN, s)
             | Some affected \<Rightarrow>
                 (let (ok, s) = (if in_transaction then commit s else (True, s))
                  in (Inr (if ok then affected else INT_MIN), s))))"

definition insert_impl_vector ::
  "('f \<Rightarrow> string) \<Rightarrow> registry \<Rightarrow> struct_meta \<Rightarrow> opt_type \<Rightarrow> 'f cpp_val list list \<Rightarrow> session \<Rightarrow> i32 \<times> session" where
  "insert_impl_vector ftoa r T ty items s =
     (let sql = generate_insert_sql r T MySQL (ty = OptInsert) []
      in many_items (\<lambda>item s. format_struct_sql ftoa r T (\<not> backslash_escapes s) sql item ty []) items s)"

definition get_insert_id_after_insert ::
  "('f \<Rightarrow> string) \<Rightarrow> registry \<Rightarrow> struct_meta \<Rightarrow> 'f cpp_val list \<Rightarrow> session \<Rightarrow> u64 \<times> session" where
  "get_insert_id_after_insert ftoa r T item s =
     (let (count, s) = insert_impl ftoa r T OptInsert item s
      in (if count = INT_MIN then 0 else sess_last_insert_id s, s))"

section \<open>Update\<close>

definition update_requires :: string where
  "update_requires = ''update requires a conflict key or where condition''"

text \<open>\<open>conds\<close> are the arguments as pieces of the statement, \<open>args\<close> the same arguments as values.\<close>

definition update ::
  "('f \<Rightarrow> string) \<Rightarrow> registry \<Rightarrow> struct_meta \<Rightarrow> string list \<Rightarrow> sql_piece list \<Rightarrow> 'f cpp_val list \<Rightarrow>
   'f cpp_val list \<Rightarrow> session \<Rightarrow> i32 \<times> session" where
  "update ftoa r T members conds args item s =
     (let (sql, r) = generate_update_sql r T MySQL members conds
      in if sql = [] then (INT_MIN, set_last_error update_requires s)
         else try_a INT_MIN
           (bind_a (lift_a (format_struct_sql ftoa r T (\<not> backslash_escapes s) sql item OptUpdate args) s)
              (\<lambda>formatted s. let (ok, s) = execute formatted s
                             in (Inr (if ok then last_affect_rows s else INT_MIN), s))))"

definition update_vector ::
  "('f \<Rightarrow> string) \<Rightarrow> registry \<Rightarrow> struct_meta \<Rightarrow> string list \<Rightarrow> sql_piece list \<Rightarrow> 'f cpp_val list \<Rightarrow>
   'f cpp_val list list \<Rightarrow> session \<Rightarrow> i32 \<times> session" where
  "update_vector ftoa r T members conds args items s =
     (let (sql, r) = generate_update_sql r T MySQL members conds
      in if sql = [] then (INT_MIN, set_last_error update_requires s)
         else many_items
           (\<lambda>item s. format_struct_sql ftoa r T (\<not> backslash_escapes s) sql item OptUpdate args) items s)"

section \<open>Delete, query, create\<close>

definition bind_args :: "('f \<Rightarrow> string) \<Rightarrow> string \<Rightarrow> 'f cpp_val list \<Rightarrow> session \<Rightarrow> string result" where
  "bind_args ftoa sql args s =
     (if args = [] then Inr sql else format_query_args ftoa sql (\<not> backslash_escapes s) args)"

definition delete_records_s ::
  "('f \<Rightarrow> string) \<Rightarrow> struct_meta \<Rightarrow> string \<Rightarrow> 'f cpp_val list \<Rightarrow> session \<Rightarrow> u64 \<times> session" where
  "delete_records_s ftoa T str args s =
     try_a 0 (bind_a (lift_a (bind_args ftoa (generate_delete_sql T (Some str)) args s) s) (\<lambda>sql s.
       let (ok, s) = execute sql s in (Inr (if ok then scast (last_affect_rows s) else 0), s)))"

text \<open>\<open>mapper\<close> is \<^verbatim>\<open>map_row\<close> of the requested type.\<close>

fun map_rows :: "('r \<Rightarrow> 'v result) \<Rightarrow> 'r list \<Rightarrow> 'v list result" where
  "map_rows mapper [] = Inr []"
| "map_rows mapper (row # rs) =
     rbind (mapper row) (\<lambda>v. rbind (map_rows mapper rs) (\<lambda>vs. Inr (v # vs)))"

definition query_and_map ::
  "(string option list \<Rightarrow> 'v result) \<Rightarrow> string result \<Rightarrow> session \<Rightarrow> 'v list \<times> session" where
  "query_and_map mapper sql s =
     try_a [] (bind_a (lift_a sql s) (\<lambda>sql s.
       bind_a (query_text sql s) (\<lambda>res s. lift_a (map_rows mapper (rows res)) s)))"

definition query_s ::
  "('f \<Rightarrow> string) \<Rightarrow> (string \<Rightarrow> 'f result) \<Rightarrow> 'f \<Rightarrow> struct_meta \<Rightarrow> string \<Rightarrow> 'f cpp_val list \<Rightarrow> session \<Rightarrow>
   'f cpp_val list list \<times> session" where
  "query_s ftoa stod z T str args s =
     query_and_map (map_reflectable_row stod z T)
       (bind_args ftoa (if contains_select str then str else generate_query_sql T MySQL [str]) args s) s"

definition query_tuples ::
  "('f \<Rightarrow> string) \<Rightarrow> (string \<Rightarrow> 'f result) \<Rightarrow> 'f \<Rightarrow> tuple_item list \<Rightarrow> string \<Rightarrow> 'f cpp_val list \<Rightarrow> session \<Rightarrow>
   'f cpp_val list list list \<times> session" where
  "query_tuples ftoa stod z items str args s =
     query_and_map (map_tuple_row_impl stod z items) (bind_args ftoa str args s) s"

definition create_datatable :: "registry \<Rightarrow> struct_meta \<Rightarrow> table_arg list \<Rightarrow> session \<Rightarrow> bool \<times> session" where
  "create_datatable r T args s = execute (fst (generate_create_table_sql r T MySQL True args)) s"

section \<open>The client as a driver of the builders\<close>

interpretation mysql_driver: sql_driver "\<lambda>s sql. execute sql s" get_last_affect_rows
  "\<lambda>s. unat (last_affect_rows s)"
  by unfold_locales (simp add: get_last_affect_rows_def sint_is_unat)

section \<open>Result sets as the protocol lays them out\<close>

definition column_bytes :: "column_definition \<Rightarrow> byte list" where
  "column_bytes c =
     append_lenenc_string [] (col_schema c) @ append_lenenc_string [] (col_table c) @
     append_lenenc_string [] (col_org_table c) @ append_lenenc_string [] (col_name c) @
     append_lenenc_string [] (col_org_name c) @ append_lenenc_int [] 12 @
     append_le16 [] (col_character_set c) @ append_le32 [] (col_column_length c) @
     col_type c # append_le16 [] (col_flags c) @ [col_decimals c, 0, 0]"

definition wf_column :: "column_definition \<Rightarrow> bool" where
  "wf_column c \<longleftrightarrow> fits (col_schema c) \<and> fits (col_table c) \<and> fits (col_org_table c) \<and>
     fits (col_name c) \<and> fits (col_org_name c)"

lemma parse_column_bytes: "wf_column c \<Longrightarrow> parse_column_definition (column_bytes c) = Inr c"
proof -
  assume "wf_column c"
  moreover have "skip 2 [0, 0] = Inr []" using skip_app [of "[0, 0]" 2 "[]"] by simp
  ultimately show ?thesis
    by (simp add: parse_column_definition_def column_bytes_def wf_column_def read_lenenc_string_enc append_le_eq)
qed

definition row_bytes :: "string option list \<Rightarrow> byte list" where
  "row_bytes row = concat (map lenenc_opt_bytes row)"

lemma parse_row_bytes: "list_all fits_opt row \<Longrightarrow> parse_text_row (row_bytes row) (length row) = Inr row"
  using lenenc_cell.read_n_enc [of row "[]"] by (simp add: parse_text_row_def row_bytes_def)

text \<open>No row is mistaken for an error or for the end of the rows.\<close>

lemma cell_first:
  "\<exists>b bs. lenenc_opt_bytes c = b # bs \<and> b \<noteq> 0xff \<and> (b = 0xfe \<longrightarrow> 8 \<le> length bs)"
proof (cases c)
  case (Some t)
  let ?v = "word_of_nat (length t) :: u64"
  show ?thesis
  proof (cases "?v < 0xfb")
    case True
    then have "unat ?v < 251" by (simp add: word_less_nat_alt)
    then have "unat (ucast ?v :: byte) < 251"
      by (simp add: unsigned_ucast_eq unsigned_take_bit_eq take_bit_nat_eq_self_iff take_bit_nat_eq_self)
    with True Some show ?thesis
      by (auto simp: lenenc_opt_bytes_def append_lenenc_string_eq append_lenenc_int_def)
  qed (use Some in \<open>auto simp: lenenc_opt_bytes_def append_lenenc_string_eq append_lenenc_int_def append_le_eq\<close>)
qed (simp add: lenenc_opt_bytes_def)

lemma row_not_special:
  assumes "row \<noteq> []"
  shows "\<not> is_err_packet (row_bytes row)" "\<not> looks_like_eof_packet (row_bytes row)"
proof -
  from assms obtain c cs where "row = c # cs" by (cases row) auto
  with cell_first [of c] show "\<not> is_err_packet (row_bytes row)" "\<not> looks_like_eof_packet (row_bytes row)"
    by (auto simp: row_bytes_def is_err_packet_def looks_like_eof_packet_def)
qed

lemma read_columns_stream:
  "is_open s \<Longrightarrow> list_all wf_column cols \<Longrightarrow> length qs = length cols \<Longrightarrow>
   inp s = concat (map2 frames qs (map column_bytes cols)) @ rest \<Longrightarrow>
   \<exists>q. read_columns (length cols) s = (Inr cols, s\<lparr>seq_id := q, inp := rest\<rparr>)"
proof (induction cols arbitrary: s qs)
  case Nil
  then show ?case by (auto intro!: exI [of _ "seq_id s"])
next
  case (Cons c cols)
  then obtain q qs' where qs: "qs = q # qs'" by (cases qs) auto
  let ?rest = "concat (map2 frames qs' (map column_bytes cols)) @ rest"
  let ?s = "s\<lparr>seq_id := seq_after q (column_bytes c), inp := ?rest\<rparr>"
  have "read_packet s = (Inr (column_bytes c), ?s)"
    using Cons.prems qs by (intro read_packet_frames) simp_all
  moreover obtain q' where "read_columns (length cols) ?s = (Inr cols, ?s\<lparr>seq_id := q', inp := rest\<rparr>)"
    using Cons.IH [of ?s qs'] Cons.prems qs by auto
  ultimately show ?case using Cons.prems by (auto simp: lift_a_def parse_column_bytes)
qed

lemma read_rows_stream:
  assumes "looks_like_eof_packet eof" "parse_ok_packet eof = Inr ok"
  shows "is_open s \<Longrightarrow> list_all (\<lambda>r. list_all fits_opt r \<and> length r = n \<and> r \<noteq> []) rs \<Longrightarrow>
   length qs = length rs \<Longrightarrow>
   inp s = concat (map2 frames qs (map row_bytes rs)) @ frames q eof @ rest \<Longrightarrow>
   \<exists>q. read_rows n acc s = (Inr (acc @ rs), apply_ok ok (s\<lparr>seq_id := q, inp := rest\<rparr>))"
proof (induction rs arbitrary: s qs acc)
  case Nil
  have "read_packet s = (Inr eof, s\<lparr>seq_id := seq_after q eof, inp := rest\<rparr>)"
    using Nil.prems by (intro read_packet_frames) simp_all
  moreover have "\<not> is_err_packet eof"
    using assms(1) by (auto simp: looks_like_eof_packet_def is_err_packet_def)
  ultimately show ?case using assms by (subst read_rows.simps) auto
next
  case (Cons r rs)
  then obtain q1 qs' where qs: "qs = q1 # qs'" by (cases qs) auto
  let ?rest = "concat (map2 frames qs' (map row_bytes rs)) @ frames q eof @ rest"
  let ?s = "s\<lparr>seq_id := seq_after q1 (row_bytes r), inp := ?rest\<rparr>"
  have "read_packet s = (Inr (row_bytes r), ?s)"
    using Cons.prems qs by (intro read_packet_frames) simp_all
  moreover have "parse_text_row (row_bytes r) n = Inr r" using Cons.prems parse_row_bytes [of r] by auto
  moreover obtain q' where "read_rows n (acc @ [r]) ?s =
      (Inr ((acc @ [r]) @ rs), apply_ok ok (?s\<lparr>seq_id := q', inp := rest\<rparr>))"
    using Cons.IH [of ?s qs' "acc @ [r]"] Cons.prems qs by auto
  ultimately show ?case using Cons.prems row_not_special [of r] by (subst read_rows.simps) auto
qed

lemma count_packet:
  assumes "0 < n" "n < 2 ^ 64"
  shows "\<not> is_err_packet (append_lenenc_int [] (word_of_nat n))" "\<not> is_ok_packet (append_lenenc_int [] (word_of_nat n))"
proof -
  let ?v = "word_of_nat n :: u64"
  have u: "unat ?v = n" using assms by (simp add: unat_of_nat)
  have "\<exists>b bs. append_lenenc_int [] ?v = b # bs \<and> b \<noteq> 0xff \<and> b \<noteq> 0"
  proof (cases "?v < 0xfb")
    case True
    then have "n < 251" using u by (simp add: word_less_nat_alt)
    then have "unat (ucast ?v :: byte) = n" using u
      by (simp add: unsigned_ucast_eq unsigned_take_bit_eq take_bit_nat_eq_self_iff take_bit_nat_eq_self)
    then have "(ucast ?v :: byte) \<noteq> 0xff" "(ucast ?v :: byte) \<noteq> 0" using assms \<open>n < 251\<close> by auto
    with True show ?thesis by (simp add: append_lenenc_int_def)
  qed (auto simp: append_lenenc_int_def append_le_eq)
  then show "\<not> is_err_packet (append_lenenc_int [] ?v)" "\<not> is_ok_packet (append_lenenc_int [] ?v)"
    by (auto simp: is_err_packet_def is_ok_packet_def)
qed

text \<open>The response of a server: the column count, the column definitions, the rows and the last packet.\<close>

definition resultset_bytes :: "column_definition list \<Rightarrow> string option list list \<Rightarrow> byte list \<Rightarrow>
    byte \<Rightarrow> byte list \<Rightarrow> byte list \<Rightarrow> byte \<Rightarrow> byte list" where
  "resultset_bytes cols rs eof q0 qs1 qs2 q3 =
     frames q0 (append_lenenc_int [] (word_of_nat (length cols))) @
     concat (map2 frames qs1 (map column_bytes cols)) @
     concat (map2 frames qs2 (map row_bytes rs)) @ frames q3 eof"

definition wf_resultset :: "column_definition list \<Rightarrow> string option list list \<Rightarrow> bool" where
  "wf_resultset cols rs \<longleftrightarrow> cols \<noteq> [] \<and> length cols < 2 ^ 64 \<and> list_all wf_column cols \<and>
     list_all (\<lambda>r. list_all fits_opt r \<and> length r = length cols) rs"

lemma read_query_response_stream:
  assumes "is_open s" "wf_resultset cols rs" "looks_like_eof_packet eof" "parse_ok_packet eof = Inr ok"
    "length qs1 = length cols" "length qs2 = length rs"
    "inp s = resultset_bytes cols rs eof q0 qs1 qs2 q3 @ rest"
  shows "\<exists>q. read_query_response s =
    (Inr \<lparr>has_resultset = True, result_ok = no_ok, columns = cols, rows = rs\<rparr>,
     (apply_ok ok (s\<lparr>seq_id := q, inp := rest\<rparr>))\<lparr>last_affect_rows := word_of_nat (length rs)\<rparr>)"
proof -
  note wf = assms(2) [unfolded wf_resultset_def]
  let ?n = "word_of_nat (length cols) :: u64"
  let ?r1 = "concat (map2 frames qs2 (map row_bytes rs)) @ frames q3 eof @ rest"
  let ?r0 = "concat (map2 frames qs1 (map column_bytes cols)) @ ?r1"
  let ?s0 = "s\<lparr>seq_id := seq_after q0 (append_lenenc_int [] ?n), inp := ?r0\<rparr>"
  have p0: "read_packet s = (Inr (append_lenenc_int [] ?n), ?s0)"
    using assms(1, 7) by (intro read_packet_frames) (simp_all add: resultset_bytes_def)
  have n: "unat ?n = length cols" using wf by (simp add: unat_of_nat)
  have c: "read_lenenc_int (append_lenenc_int [] ?n) = Inr (?n, [])"
    using read_lenenc_int_enc [of ?n "[]"] by simp
  obtain q1 where c1: "read_columns (length cols) ?s0 = (Inr cols, ?s0\<lparr>seq_id := q1, inp := ?r1\<rparr>)"
    using read_columns_stream [of ?s0 cols qs1 ?r1] assms wf by auto
  let ?s1 = "?s0\<lparr>seq_id := q1, inp := ?r1\<rparr>"
  have "list_all (\<lambda>r. list_all fits_opt r \<and> length r = length cols \<and> r \<noteq> []) rs"
    using wf by (auto simp: list_all_iff)
  then obtain q2 where c2: "read_rows (length cols) [] ?s1 =
      (Inr rs, apply_ok ok (?s1\<lparr>seq_id := q2, inp := rest\<rparr>))"
    using read_rows_stream [OF assms(3, 4), of ?s1 "length cols" rs qs2 q3 rest "[]"] assms by auto
  have "0 < length cols" "length cols < 2 ^ 64" using wf by auto
  note special = count_packet [OF this]
  show ?thesis
    by (intro exI [of _ q2]) (simp add: read_query_response_def p0 special lift_a_def c n c1
        c2 [simplified] c1 [simplified])
qed

lemma query_text_stream:
  assumes "is_open s" "wf_resultset cols rs" "looks_like_eof_packet eof" "parse_ok_packet eof = Inr ok"
    "length qs1 = length cols" "length qs2 = length rs"
    "inp s = resultset_bytes cols rs eof q0 qs1 qs2 q3 @ rest"
  shows "fst (query_text sql s) = Inr \<lparr>has_resultset = True, result_ok = no_ok, columns = cols, rows = rs\<rparr> \<and>
    inp (snd (query_text sql s)) = rest \<and> outp (snd (query_text sql s)) = outp s @ frames 0 (3 # bytes_of sql) \<and>
    last_affect_rows (snd (query_text sql s)) = word_of_nat (length rs)"
proof -
  let ?s = "write_packet_loop (3 # bytes_of sql) (s\<lparr>seq_id := 0\<rparr>)"
  have o: "is_open ?s" "inp ?s = resultset_bytes cols rs eof q0 qs1 qs2 q3 @ rest"
    "outp ?s = outp s @ frames 0 (3 # bytes_of sql)"
    using assms(1, 7) by (simp_all add: write_packet_loop_frames)
  obtain q where "read_query_response ?s =
     (Inr \<lparr>has_resultset = True, result_ok = no_ok, columns = cols, rows = rs\<rparr>,
     (apply_ok ok (?s\<lparr>seq_id := q, inp := rest\<rparr>))\<lparr>last_affect_rows := word_of_nat (length rs)\<rparr>)"
    using read_query_response_stream [OF o(1) assms(2-6) o(2)] by blast
  with o(3) assms(1) show ?thesis
    by (simp add: query_text_def command_simple_def write_packet_def apply_ok_def)
qed

definition classic_eof :: "byte list" where
  "classic_eof = [0xfe, 0, 0, 2, 0]"

lemma classic_eof_ok:
  "looks_like_eof_packet classic_eof" "\<exists>ok. parse_ok_packet classic_eof = Inr ok"
proof -
  show "looks_like_eof_packet classic_eof" by (simp add: looks_like_eof_packet_def classic_eof_def)
  have "parse_ok_packet classic_eof =
      Inr \<lparr>affected_rows = 0, last_insert_id = 0, status_flags = 0, warnings = 0, info = str_of [2, 0]\<rparr>"
    by (simp add: parse_ok_packet_def classic_eof_def read_lenenc_int_def read_string_def require_def)
  then show "\<exists>ok. parse_ok_packet classic_eof = Inr ok" by blast
qed

section \<open>Properties\<close>


definition name_column :: column_definition where
  "name_column =
     \<lparr>col_schema = ''db'', col_table = ''person'', col_org_table = ''person'', col_name = ''name'',
      col_org_name = ''name'', col_character_set = 45, col_column_length = 400, col_type = 0xfd,
      col_flags = 0, col_decimals = 0\<rparr>"


text \<open>a server without \<^verbatim>\<open>CLIENT_DEPRECATE_EOF\<close> sends an EOF packet after the column definitions.  The
  client takes it for the end of the result: it returns no rows and leaves them all unread, for the
  next command to find.\<close>

theorem classic_eof_loses_rows:
  assumes "is_open s" "wf_resultset cols rs" "length qs1 = length cols"
    "inp s = resultset_bytes cols [] classic_eof q0 qs1 [] q3 @ concat (map2 frames qs2 (map row_bytes rs)) @ rest"
  shows "fst (query_text sql s) = Inr \<lparr>has_resultset = True, result_ok = no_ok, columns = cols, rows = []\<rparr> \<and>
    inp (snd (query_text sql s)) = concat (map2 frames qs2 (map row_bytes rs)) @ rest"
proof -
  obtain ok where ok: "parse_ok_packet classic_eof = Inr ok" using classic_eof_ok(2) by blast
  have "wf_resultset cols []" using assms(2) by (simp add: wf_resultset_def)
  from query_text_stream [OF assms(1) this classic_eof_ok(1) ok assms(3) _ assms(4)] show ?thesis by simp
qed

theorem classic_eof_loses_rows_witness:
  "fst (query_text ''select name from person''
     (new_session\<lparr>is_open := True,
        inp := resultset_bytes [name_column] [] classic_eof 1 [2] [] 3 @
               concat (map2 frames [4] (map row_bytes [[Some ''tom'']])) @ frames 5 classic_eof\<rparr>)) =
   Inr \<lparr>has_resultset = True, result_ok = no_ok, columns = [name_column], rows = []\<rparr>"
proof -
  have "wf_resultset [name_column] [[Some ''tom'']]"
    by (simp add: wf_resultset_def wf_column_def name_column_def fits_def fits_opt_def)
  then show ?thesis
    using classic_eof_loses_rows [of "new_session\<lparr>is_open := True,
        inp := resultset_bytes [name_column] [] classic_eof 1 [2] [] 3 @
               concat (map2 frames [4] (map row_bytes [[Some ''tom'']])) @ frames 5 classic_eof\<rparr>"
      "[name_column]" "[[Some ''tom'']]" "[2]" 1 3 "[4]" "frames 5 classic_eof"] by simp
qed

text \<open>with \<^verbatim>\<open>CLIENT_DEPRECATE_EOF\<close> the last packet is recognised only while it is shorter than nine bytes:
  an information text or session state of more than a byte or two makes the client read it as a row.\<close>

theorem final_packet_recognised_iff:
  "looks_like_eof_packet (ok_bytes 0xfe ok) \<longleftrightarrow>
   length (append_lenenc_int [] (affected_rows ok)) + length (append_lenenc_int [] (last_insert_id ok)) +
     length (info ok) < 4"
  by (auto simp: looks_like_eof_packet_def ok_bytes_def append_le_eq)

text \<open>run on the asynchronous MySQL client, a delete with a valid partition description returns the number
  of rows when the statement succeeds and -1 exactly when it fails, for fewer than \<open>2^31\<close> rows.\<close>

theorem mysql_delete_result:
  assumes "delete_validate_partition c" "execute (delete_build_sql MySQL T c) s = (ok, s')"
    "unat (last_affect_rows s') < 2 ^ 31"
  shows "delete_execute_impl (\<lambda>s sql. execute sql s) get_last_affect_rows MySQL T c s =
    (if ok then int (unat (last_affect_rows s')) else - 1, s')"
  using assms mysql_driver.run_dml_result [OF assms(2, 3)] by (simp add: delete_execute_impl_def)

theorem mysql_delete_result_witness:
  "fst (delete_execute_impl (\<lambda>s sql. execute sql s) get_last_affect_rows MySQL person empty_delete_ctx new_session) = - 1"
proof -
  obtain ok s' where e: "execute (delete_build_sql MySQL person empty_delete_ctx) new_session = (ok, s')" by fastforce
  then have "\<not> ok" "last_affect_rows s' = 0"
    by (auto simp: execute_def query_text_def command_simple_def write_packet_def new_session_def set_last_error_def)
  moreover have "delete_validate_partition empty_delete_ctx"
    by (simp add: delete_validate_partition_def empty_delete_ctx_def)
  ultimately show ?thesis using mysql_delete_result [OF _ e] by simp
qed

end
