(* ===== verification/Mysql_Statements.thy ===== *)
theory Mysql_Statements
  imports Mysql_Commands
begin

text \<open>
  What the asynchronous MySQL client puts on the wire for a struct, and how its operations end:
  the text of an insert with the values in place of the placeholders, the mismatch of an update
  with user conditions, and the endings of an operation over many items inside a transaction.
\<close>

section \<open>Replacing placeholders piece by piece\<close>

text \<open>Text the scanner passes over as a whole, whatever follows.\<close>

definition inert :: "bool \<Rightarrow> string \<Rightarrow> bool" where
  "inert nbe u \<longleftrightarrow> (\<forall>i rest. mysql_scan nbe i (u @ rest) = mysql_scan nbe (i + length u) rest)"

lemma inert_plain: "list_all plain_char u \<Longrightarrow> inert nbe u"
  by (simp add: inert_def mysql_scan_plain)

lemma inert_append: "inert nbe u \<Longrightarrow> inert nbe v \<Longrightarrow> inert nbe (u @ v)"
  by (simp add: inert_def add.assoc)

lemma skip_doubled_name: "q \<notin> set n \<Longrightarrow> c \<noteq> q \<Longrightarrow> skip_doubled q i (n @ q # c # rest) = (i + length n, q # c # rest)"
  by (induction n arbitrary: i) auto

lemma inert_quoted_name:
  assumes "backtick \<notin> set n" "plain_char c"
  shows "inert nbe (''`'' @ n @ ''`'' @ [c])"
proof -
  have "c \<noteq> backtick" using assms(2) by (simp add: plain_char_def)
  then have "mysql_scan nbe i (backtick # n @ backtick # c # rest) = mysql_scan nbe (Suc (Suc (Suc i + length n))) rest"
    for i rest
    using assms by (simp add: Let_def skip_doubled_name plain_char_def del: skip_doubled.simps)
  then show ?thesis by (simp add: inert_def add.commute)
qed

lemma mysql_offset_inert:
  "inert nbe u \<Longrightarrow> mysql_offset nbe (u @ s) = map_option (\<lambda>p. length u + p) (mysql_offset nbe s)"
  using mysql_scan_shift [of nbe "length u" 0 s] by (simp add: mysql_offset_def inert_def)

lemma format_values_inert:
  assumes "inert nbe u"
  shows "format_values nbe (u @ s) vs = map_sum id (\<lambda>t. u @ t) (format_values nbe s vs)"
proof (cases "mysql_offset nbe s")
  case None
  with assms have "mysql_offset nbe (u @ s) = None" by (simp add: mysql_offset_inert)
  with None show ?thesis
    unfolding format_values_weave by (cases vs) (simp_all add: my.scan_None)
next
  case (Some k)
  with assms have "mysql_offset nbe (u @ s) = Some (length u + k)" by (simp add: mysql_offset_inert)
  with Some show ?thesis
    unfolding format_values_weave by (cases vs) (simp_all add: my.scan_Some)
qed

lemma format_values_mark:
  "format_values nbe (CHR ''?'' # s) (v # vs) = map_sum id (\<lambda>t. v @ t) (format_values nbe s vs)"
  "format_values nbe (CHR ''?'' # s) [] = Inl mismatch"
proof -
  have "mysql_offset nbe (CHR ''?'' # s) = Some 0" by (simp add: mysql_offset_def)
  then have seg: "segments (mysql_offset nbe) (CHR ''?'' # s) = [] # segments (mysql_offset nbe) s"
    by (simp add: my.scan_Some)
  have ne: "segments (mysql_offset nbe) s \<noteq> []" by (rule my.segments_nonempty)
  show "format_values nbe (CHR ''?'' # s) (v # vs) = map_sum id (\<lambda>t. v @ t) (format_values nbe s vs)"
    "format_values nbe (CHR ''?'' # s) [] = Inl mismatch"
    unfolding format_values_weave seg using ne by simp_all
qed

lemma format_values_end: "format_values nbe [] vs = (if vs = [] then Inr [] else Inl mismatch)"
proof -
  have "segments (mysql_offset nbe) [] = [[]]" by (rule my.scan_None) (simp add: mysql_offset_def)
  then show ?thesis unfolding format_values_weave by (cases vs) simp_all
qed

lemma map_sum_map_sum: "map_sum id f (map_sum id g x) = map_sum id (\<lambda>t. f (g t)) x"
  by (cases x) simp_all

lemma format_values_plain_end:
  "inert nbe u \<Longrightarrow> format_values nbe u vs = (if vs = [] then Inr u else Inl mismatch)"
  using format_values_inert [of nbe u "[]" vs] by (simp add: format_values_end)

lemma inert_comma: "inert nbe '',''"
  by (rule inert_plain) (simp add: plain_char_def)

lemma format_marks:
  "length vs = n \<Longrightarrow>
   format_values nbe (comma_sep (replicate n ''?'') @ s) (vs @ ws) =
   map_sum id (\<lambda>t. comma_sep vs @ t) (format_values nbe s ws)"
proof (induction n arbitrary: vs)
  case 0
  then show ?case by (cases "format_values nbe s ws") simp_all
next
  case (Suc n)
  then obtain v vs' where vs: "vs = v # vs'" "length vs' = n" by (cases vs) auto
  show ?case
  proof (cases n)
    case 0
    with vs show ?thesis by (simp add: format_values_mark id_def)
  next
    case (Suc m)
    have "comma_sep (replicate (Suc n) ''?'') = ''?'' @ '','' @ comma_sep (replicate n ''?'')"
      by (simp add: Suc)
    then have "format_values nbe (comma_sep (replicate (Suc n) ''?'') @ s) (vs @ ws) =
        map_sum id (\<lambda>t. v @ t) (format_values nbe ('','' @ comma_sep (replicate n ''?'') @ s) (vs' @ ws))"
      by (simp add: vs format_values_mark)
    also have "\<dots> = map_sum id (\<lambda>t. v @ '','' @ comma_sep vs' @ t) (format_values nbe s ws)"
      by (simp only: format_values_inert [OF inert_comma] Suc.IH [OF vs(2)] map_sum_map_sum)
    also have "(\<lambda>t. v @ '','' @ comma_sep vs' @ t) = (\<lambda>t. comma_sep vs @ t)"
      using vs Suc by (cases vs') simp_all
    finally show ?thesis .
  qed
qed

section \<open>The statement of an inserted struct\<close>

lemma placeholders_mysql: "placeholders MySQL i n = replicate n ''?''"
  by (induction n arbitrary: i) (simp_all add: placeholder_def)

lemma length_filter_zip:
  "length xs = length ys \<Longrightarrow> length (filter (\<lambda>(x, y). P x) (zip xs ys)) = length (filter P xs)"
  by (induction xs ys rule: list_induct2) auto

lemma inert_columns:
  assumes "\<forall>n \<in> set cols. backtick \<notin> set n" "cols \<noteq> []"
  shows "inert nbe (comma_sep (map (quote_key MySQL) cols) @ '')'')"
  using assms
proof (induction cols)
  case (Cons n cols)
  have q: "inert nbe (quote_key MySQL n @ [c])" if "plain_char c" for c
    using inert_quoted_name [OF _ that, of n nbe] Cons.prems by (simp add: quote_key_def)
  have p: "plain_char (CHR '','')" "plain_char (CHR '')'')" by (simp_all add: plain_char_def)
  show ?case
  proof (cases cols)
    case Nil
    with q [OF p(2)] show ?thesis by simp
  next
    case (Cons m ms)
    have "inert nbe ((quote_key MySQL n @ [CHR '','']) @ comma_sep (map (quote_key MySQL) cols) @ '')'')"
      by (rule inert_append [OF q [OF p(1)]]) (use Cons.prems Cons.IH Cons in simp)
    with Cons show ?thesis by simp
  qed
qed simp

definition insert_values ::
  "('f \<Rightarrow> string) \<Rightarrow> registry \<Rightarrow> struct_meta \<Rightarrow> bool \<Rightarrow> bool \<Rightarrow> 'f cpp_val list \<Rightarrow> string list" where
  "insert_values ftoa r T ins nbe val =
     map (\<lambda>(n, v). to_query_arg_impl ftoa nbe v)
       (filter (\<lambda>(n, v). \<not> (ins \<and> is_auto_key r T n)) (zip (member_names T) val))"

lemma format_insert:
  assumes "ty \<noteq> OptUpdate" "length val = length (s_fields T)" "insert_columns r T (ty = OptInsert) \<noteq> []"
    "get_short_struct_name T \<noteq> []" "list_all plain_char (get_short_struct_name T)"
    "\<forall>n \<in> set (member_names T). backtick \<notin> set n"
  shows "format_struct_sql ftoa r T nbe (generate_insert_sql r T MySQL (ty = OptInsert) []) val ty [] =
    Inr ((if ty = OptInsert then ''insert into '' else ''replace into '') @ get_short_struct_name T @ '' ('' @
      comma_sep (map (quote_key MySQL) (insert_columns r T (ty = OptInsert))) @ '') values('' @
      comma_sep (insert_values ftoa r T (ty = OptInsert) nbe val) @ '') '')"
proof -
  let ?ins = "ty = OptInsert" and ?t = "get_short_struct_name T"
  let ?cols = "insert_columns r T ?ins" and ?vals = "insert_values ftoa r T ?ins nbe val"
  let ?kw = "if ?ins then ''insert into '' else ''replace into ''"
  let ?pre = "?kw @ ?t @ '' ('' @ (comma_sep (map (quote_key MySQL) ?cols) @ '')'') @ '' values(''"
  have len: "length ?vals = length ?cols"
    unfolding insert_values_def insert_columns_def length_map
    by (rule length_filter_zip) (simp add: assms(2))
  have "inert nbe ?kw" "inert nbe '' (''" "inert nbe '' values(''" "inert nbe '') ''"
    by (rule inert_plain; simp add: plain_char_def)+
  moreover have "inert nbe (comma_sep (map (quote_key MySQL) ?cols) @ '')'')"
    using assms(3, 6) by (intro inert_columns) (auto simp: insert_columns_def)
  moreover have "inert nbe ?t" by (rule inert_plain [OF assms(5)])
  ultimately have pre: "inert nbe ?pre" and fin: "inert nbe '') ''"
    by (blast intro: inert_append)+
  have sql: "generate_insert_sql r T MySQL ?ins [] = ?pre @ comma_sep (replicate (length ?cols) ''?'') @ '') ''"
    using generate_insert_sql_eq [OF assms(3) _ assms(4), of MySQL "[]"] by (simp add: placeholders_mysql)
  have "format_values nbe (generate_insert_sql r T MySQL ?ins []) ?vals = Inr (?pre @ comma_sep ?vals @ '') '')"
    unfolding sql
    using format_marks [OF len, of nbe "'') ''" "[]"]
    by (simp only: format_values_inert [OF pre] append_Nil2 format_values_plain_end [OF fin]) simp
  moreover have "format_struct_sql ftoa r T nbe sql val ty [] = format_values nbe sql ?vals" for sql
    using assms(1) by (simp add: format_struct_sql_def insert_values_def)
  ultimately show ?thesis by simp
qed

section \<open>An update with a condition\<close>

lemma inert_assignments:
  assumes "backtick \<notin> set n"
  shows "inert nbe (quote_key MySQL n @ ''='')"
  using inert_quoted_name [OF assms, of "CHR ''=''" nbe] by (simp add: quote_key_def plain_char_def)

lemma inert_space: "inert nbe '' where 1=1 and ''"
  by (rule inert_plain) (simp add: plain_char_def)

text \<open>The placeholders of a text are at most used up: too many values are a mismatch.\<close>

lemma format_assignments:
  assumes "\<forall>n \<in> set cols. backtick \<notin> set n" "inert nbe s" "length vs \<noteq> length cols"
  shows "format_values nbe (comma_sep (map (\<lambda>n. quote_key MySQL n @ ''=?'') cols) @ s) vs = Inl mismatch"
  using assms
proof (induction cols arbitrary: vs)
  case Nil
  then show ?case by (simp add: format_values_plain_end)
next
  case (Cons n cols)
  have i: "inert nbe (quote_key MySQL n @ ''='')" using Cons.prems by (intro inert_assignments) simp
  have split: "comma_sep (map (\<lambda>n. quote_key MySQL n @ ''=?'') (n # cols)) @ s =
      (quote_key MySQL n @ ''='') @ CHR ''?'' #
      ((if cols = [] then [] else '','') @ comma_sep (map (\<lambda>n. quote_key MySQL n @ ''=?'') cols) @ s)"
    by (cases cols) simp_all
  have c: "inert nbe (if cols = [] then [] else '','')"
    using inert_comma [of nbe] by (simp add: inert_def)
  show ?case
  proof (cases vs)
    case Nil
    then show ?thesis unfolding split format_values_inert [OF i] by (simp add: format_values_mark)
  next
    case (Cons v vs')
    then have "length vs' \<noteq> length cols" using Cons.prems by simp
    with Cons show ?thesis
      unfolding split format_values_inert [OF i] format_values_mark format_values_inert [OF c]
      using Cons.prems Cons.IH [of vs'] by (simp add: format_values_mark format_values_inert [OF c])
  qed
qed

lemma generate_update_sql_cond:
  assumes "get_short_struct_name T \<noteq> []" "s_fields T \<noteq> []" "w \<noteq> []" "last w \<noteq> CHR '' ''"
  shows "generate_update_sql r T MySQL [] [Str w] =
    (''update '' @ get_short_struct_name T @ '' set '' @
       comma_sep (map (\<lambda>n. quote_key MySQL n @ ''=?'') (member_names T)) @ '' where 1=1 and '' @ w, r)"
proof -
  let ?cols = "map (quote_key MySQL) (member_names T)"
  let ?terms = "map (\<lambda>n. quote_key MySQL n @ ''=?'') (member_names T)"
  have terms: "map2 (\<lambda>f p. f @ ''='' @ p) ?cols (placeholders MySQL 0 (length ?cols)) = ?terms"
    by (rule nth_equalityI) (simp_all add: placeholders_mysql)
  have set: "set_loop MySQL 0 ?cols [] = (comma_terminated ?terms, 0)"
    unfolding set_loop_eq terms by simp
  have ne: "?terms \<noteq> []" using assms(2) by (cases "s_fields T") (simp_all add: member_names_def)
  have bl: "butlast (comma_terminated ?terms) = comma_sep ?terms" using ne by (rule butlast_comma_terminated)
  have cne: "comma_sep ?terms \<noteq> []"
  proof -
    obtain n ns where "member_names T = n # ns" using ne by (cases "member_names T") auto
    then show ?thesis by (cases ns) (simp_all add: comma_sep_Cons)
  qed
  have cond: "append_pieces ''where 1=1'' [Lit '' and'', Str w] = ''where 1=1 and '' @ w @ '' ''"
    using assms(3) by simp
  have strip: "strip_trailing_spaces (u @ w @ '' '') = u @ w" for u
    using assms(3, 4) by (cases w rule: rev_cases) (simp_all add: strip_trailing_spaces_def)
  have "generate_update_sql r T MySQL [] [Str w] =
      (strip_trailing_spaces (append_pieces
         (append_pieces [] [Lit ''update'', Str (get_short_struct_name T), Lit ''set''])
         [Str (comma_sep ?terms), Str (''where 1=1 and '' @ w @ '' '')]), r)"
    unfolding generate_update_sql_def Let_def
    by (simp only: set prod.case bl cond list.distinct if_True if_False simp_thms)
  also have "strip_trailing_spaces (append_pieces
         (append_pieces [] [Lit ''update'', Str (get_short_struct_name T), Lit ''set''])
         [Str (comma_sep ?terms), Str (''where 1=1 and '' @ w @ '' '')]) =
      strip_trailing_spaces (''update '' @ get_short_struct_name T @ '' set '' @ comma_sep ?terms @ '' '' @
        ''where 1=1 and '' @ w @ '' '')"
    using update_pieces [OF assms(1) cne, of "''where 1=1 and '' @ w @ '' ''"] by simp
  also have "\<dots> = (''update '' @ get_short_struct_name T @ '' set '' @ comma_sep ?terms @ '' '' @
        ''where 1=1 and '') @ w"
    using strip [of "''update '' @ get_short_struct_name T @ '' set '' @ comma_sep ?terms @ '' '' @ ''where 1=1 and ''"]
    by simp
  finally show ?thesis by simp
qed

lemma format_update_condition:
  assumes "get_short_struct_name T \<noteq> []" "s_fields T \<noteq> []" "w \<noteq> []" "last w \<noteq> CHR '' ''"
    "list_all plain_char (get_short_struct_name T)" "list_all plain_char w" "args \<noteq> []"
    "\<forall>n \<in> set (member_names T). backtick \<notin> set n" "length val = length (s_fields T)"
  shows "format_struct_sql ftoa r T nbe (fst (generate_update_sql r' T MySQL [] [Str w])) val OptUpdate args = Inl mismatch"
proof -
  have pre: "inert nbe (''update '' @ get_short_struct_name T @ '' set '')"
    using assms(5) by (intro inert_plain) (simp add: plain_char_def)
  have post: "inert nbe ('' where 1=1 and '' @ w)"
    by (intro inert_append inert_space inert_plain assms(6))
  let ?vs = "map (\<lambda>(n, v). to_query_arg_impl ftoa nbe v) (zip (member_names T) val) @ map (to_query_arg_impl ftoa nbe) args"
  have len: "length ?vs \<noteq> length (member_names T)" using assms(7, 9) by simp
  have "format_values nbe ((''update '' @ get_short_struct_name T @ '' set '') @
      comma_sep (map (\<lambda>n. quote_key MySQL n @ ''=?'') (member_names T)) @ ('' where 1=1 and '' @ w)) ?vs = Inl mismatch"
    unfolding format_values_inert [OF pre] format_assignments [OF assms(8) post len] by simp
  moreover have "format_struct_sql ftoa r T nbe sql val OptUpdate args = format_values nbe sql ?vs" for sql
    using assms(7) by (simp add: format_struct_sql_def)
  ultimately show ?thesis
    unfolding generate_update_sql_cond [OF assms(1-4)] fst_conv by simp
qed

section \<open>The ending of an operation over many items\<close>

fun run_all :: "string list \<Rightarrow> session \<Rightarrow> session" where
  "run_all [] s = s"
| "run_all (sql # sqls) s = run_all sqls (snd (execute sql s))"

fun all_ok :: "string list \<Rightarrow> session \<Rightarrow> bool" where
  "all_ok [] s \<longleftrightarrow> True"
| "all_ok (sql # sqls) s \<longleftrightarrow> fst (execute sql s) \<and> all_ok sqls (snd (execute sql s))"

datatype ending = Not_begun | Committed | Commit_failed | Rolled_back | Left_open exn

text \<open>\<open>ends_with b e stmts s n s'\<close>: with (\<open>b\<close>) a transaction begun in \<open>s\<close>, the statements
  were executed and the operation ended in state \<open>s'\<close> with result \<open>n\<close> the way \<open>e\<close> says.\<close>

fun ends_with :: "ending \<Rightarrow> string list \<Rightarrow> session \<Rightarrow> i32 \<Rightarrow> session \<Rightarrow> bool" where
  "ends_with Not_begun stmts s n s' \<longleftrightarrow>
     \<not> fst (begin_transaction s) \<and> stmts = [] \<and> n = INT_MIN \<and> s' = snd (begin_transaction s)"
| "ends_with Committed stmts s n s' \<longleftrightarrow>
     (let s1 = snd (begin_transaction s); s2 = run_all stmts s1
      in fst (begin_transaction s) \<and> all_ok stmts s1 \<and> fst (commit s2) \<and> s' = snd (commit s2))"
| "ends_with Commit_failed stmts s n s' \<longleftrightarrow>
     (let s1 = snd (begin_transaction s); s2 = run_all stmts s1
      in fst (begin_transaction s) \<and> all_ok stmts s1 \<and> \<not> fst (commit s2) \<and> n = INT_MIN \<and> s' = snd (commit s2))"
| "ends_with Rolled_back stmts s n s' \<longleftrightarrow>
     (let s1 = snd (begin_transaction s); s2 = run_all stmts s1
      in fst (begin_transaction s) \<and> \<not> all_ok stmts s1 \<and> n = INT_MIN \<and> s' = snd (rollback s2))"
| "ends_with (Left_open e) stmts s n s' \<longleftrightarrow>
     (let s1 = snd (begin_transaction s); s2 = run_all stmts s1
      in fst (begin_transaction s) \<and> all_ok stmts s1 \<and> n = INT_MIN \<and> s' = set_last_error (what e) s2)"

lemma each_item_outcome:
  "each_item fmt True items k s = (res, s') \<Longrightarrow>
   \<exists>stmts. length stmts \<le> length items \<and>
     (case res of
        Inr (Some n) \<Rightarrow> length stmts = length items \<and> all_ok stmts s \<and> s' = run_all stmts s
      | Inr None \<Rightarrow> \<not> all_ok stmts s \<and> s' = snd (rollback (run_all stmts s))
      | Inl e \<Rightarrow> length stmts < length items \<and> all_ok stmts s \<and> s' = run_all stmts s)"
proof (induction items arbitrary: k s)
  case Nil
  then show ?case by auto
next
  case (Cons x items)
  show ?case
  proof (cases "fmt x s")
    case (Inl e)
    with Cons.prems show ?thesis by (auto simp: lift_a_def intro!: exI [of _ "[]"])
  next
    case (Inr sql)
    obtain ok s1 where e: "execute sql s = (ok, s1)" by fastforce
    show ?thesis
    proof (cases ok)
      case False
      with Inr e Cons.prems show ?thesis
        by (auto simp: lift_a_def intro!: exI [of _ "[sql]"])
    next
      case True
      with Inr e Cons.prems have "each_item fmt True items (k + last_affect_rows s1) s1 = (res, s')"
        by (simp add: lift_a_def)
      from Cons.IH [OF this] obtain stmts where st: "length stmts \<le> length items"
        "case res of
           Inr (Some n) \<Rightarrow> length stmts = length items \<and> all_ok stmts s1 \<and> s' = run_all stmts s1
         | Inr None \<Rightarrow> \<not> all_ok stmts s1 \<and> s' = snd (rollback (run_all stmts s1))
         | Inl e \<Rightarrow> length stmts < length items \<and> all_ok stmts s1 \<and> s' = run_all stmts s1" by blast
      with e True show ?thesis
        by (intro exI [of _ "sql # stmts"]) (auto split: sum.splits option.splits)
    qed
  qed
qed

lemma many_items_outcome:
  assumes "transaction s" "items \<noteq> []" "many_items fmt items s = (n, s')"
  shows "\<exists>e stmts. ends_with e stmts s n s' \<and> length stmts \<le> length items \<and>
    (e = Committed \<longrightarrow> length stmts = length items) \<and> (\<forall>x. e = Left_open x \<longrightarrow> length stmts < length items)"
proof -
  obtain begun s1 where b: "begin_transaction s = (begun, s1)" by fastforce
  obtain res s2 where x: "each_item fmt True items 0 s1 = (res, s2)" by fastforce
  show ?thesis
  proof (cases begun)
    case False
    with assms b show ?thesis
      by (intro exI [of _ Not_begun] exI [of _ "[]"]) (simp add: many_items_def)
  next
    case True
    note out = each_item_outcome [OF x]
    have m: "many_items fmt items s = try_a INT_MIN (bind_a (res, s2) (\<lambda>res s.
             case res of
               None \<Rightarrow> (Inr INT_MIN, s)
             | Some affected \<Rightarrow> (let (ok, s) = commit s in (Inr (if ok then affected else INT_MIN), s))))"
      using assms(1, 2) b True x by (simp add: many_items_def cong: option.case_cong)
    show ?thesis
    proof (cases res)
      case (Inl e)
      with out obtain stmts where "length stmts < length items" "all_ok stmts s1" "s2 = run_all stmts s1" by auto
      with m assms(3) Inl b True show ?thesis
        by (intro exI [of _ "Left_open e"] exI [of _ stmts]) simp
    next
      case (Inr r)
      show ?thesis
      proof (cases r)
        case None
        with out Inr obtain stmts where "length stmts \<le> length items" "\<not> all_ok stmts s1"
          "s2 = snd (rollback (run_all stmts s1))" by auto
        with m assms(3) Inr None b True show ?thesis
          by (intro exI [of _ Rolled_back] exI [of _ stmts]) simp
      next
        case (Some k)
        with out Inr obtain stmts where st: "length stmts = length items" "all_ok stmts s1"
          "s2 = run_all stmts s1" by auto
        obtain ok s3 where c: "commit s2 = (ok, s3)" by fastforce
        with m assms(3) Inr Some b True st show ?thesis
          by (intro exI [of _ "if ok then Committed else Commit_failed"] exI [of _ stmts]) auto
      qed
    qed
  qed
qed

section \<open>Properties\<close>

text \<open>C9: what \<^verbatim>\<open>insert\<close> and \<^verbatim>\<open>replace\<close> send for a struct: the statement over the columns that
  are not skipped, with the text of each member's value in the place of its placeholder - the
  placeholder search is never misled by the statement itself or by a value, and it never fails.\<close>

theorem insert_statement_sent:
  assumes "ty \<noteq> OptUpdate" "length val = length (s_fields T)" "insert_columns r T (ty = OptInsert) \<noteq> []"
    "get_short_struct_name T \<noteq> []" "list_all plain_char (get_short_struct_name T)"
    "\<forall>n \<in> set (member_names T). backtick \<notin> set n"
  shows "format_struct_sql ftoa r T nbe (generate_insert_sql r T MySQL (ty = OptInsert) []) val ty [] =
    Inr ((if ty = OptInsert then ''insert into '' else ''replace into '') @ get_short_struct_name T @ '' ('' @
      comma_sep (map (quote_key MySQL) (insert_columns r T (ty = OptInsert))) @ '') values('' @
      comma_sep (insert_values ftoa r T (ty = OptInsert) nbe val) @ '') '')"
  using assms by (rule format_insert)

lemma person_names_plain: "\<forall>n \<in> set (member_names person). backtick \<notin> set n"
  by simp

theorem insert_statement_sent_witness:
  "format_struct_sql (\<lambda>x. x) person_registry person False (generate_insert_sql person_registry person MySQL True [])
     [CInt 1, CStr (''who?'' @ [quote_char]), COpt None] OptInsert [] =
   Inr (''insert into person (`name`,`age`) values('' @ [quote_char] @ ''who?'' @ [backslash, quote_char, quote_char] @ '',NULL) '')"
proof -
  let ?val = "[CInt 1, CStr (''who?'' @ [quote_char]), COpt None] :: string cpp_val list"
  have cols: "insert_columns person_registry person True = [''name'', ''age'']"
    by (simp add: insert_columns_def)
  have "format_struct_sql (\<lambda>x. x) person_registry person False
      (generate_insert_sql person_registry person MySQL (OptInsert = OptInsert) []) ?val OptInsert [] =
    Inr ((if OptInsert = OptInsert then ''insert into '' else ''replace into '') @ get_short_struct_name person @ '' ('' @
      comma_sep (map (quote_key MySQL) (insert_columns person_registry person (OptInsert = OptInsert))) @ '') values('' @
      comma_sep (insert_values (\<lambda>x. x) person_registry person (OptInsert = OptInsert) False ?val) @ '') '')"
    by (rule insert_statement_sent) (simp_all add: cols person_names_plain, simp_all add: person_def plain_char_def)
  then show ?thesis
    by (simp add: cols insert_values_def quote_key_def escape_mysql_string_def mysql_escape_char_def)
qed

text \<open>an update with a user condition cannot be sent by the asynchronous client: the condition is
  written into the statement and passed as a further value, so that the number of values never fits
  and the operation ends with the mismatch error, the server untouched.\<close>

theorem update_with_condition_fails:
  assumes "get_short_struct_name T \<noteq> []" "s_fields T \<noteq> []" "w \<noteq> []" "last w \<noteq> CHR '' ''"
    "list_all plain_char (get_short_struct_name T)" "list_all plain_char w"
    "\<forall>n \<in> set (member_names T). backtick \<notin> set n" "length val = length (s_fields T)"
  shows "update ftoa r T [] [Str w] [CStr w] val s = (INT_MIN, set_last_error (what mismatch) s)"
proof -
  have "fst (generate_update_sql r T MySQL [] [Str w]) \<noteq> []" "snd (generate_update_sql r T MySQL [] [Str w]) = r"
    using generate_update_sql_cond [OF assms(1-4), of r] by simp_all
  moreover have "format_struct_sql ftoa r T nbe (fst (generate_update_sql r T MySQL [] [Str w])) val OptUpdate [CStr w] = Inl mismatch"
    for nbe using assms by (intro format_update_condition) simp_all
  ultimately show ?thesis
    by (cases "generate_update_sql r T MySQL [] [Str w]") (simp add: update_def lift_a_def)
qed

theorem update_with_condition_fails_witness:
  "update (\<lambda>x. x) person_registry person [] [Str ''id=1''] [CStr ''id=1''] [CInt 1, CStr ''tom'', COpt None] new_session =
   (INT_MIN, set_last_error (what mismatch) new_session)"
  by (rule update_with_condition_fails) (simp_all add: plain_char_def, simp_all add: person_def)

text \<open>C10: insert, replace and update over many items in a transaction: either \<^verbatim>\<open>BEGIN\<close> fails and nothing
  follows; or all items were executed and \<^verbatim>\<open>COMMIT\<close> was sent; or a statement failed and \<^verbatim>\<open>ROLLBACK\<close> was
  sent; or an exception ended the operation between two items, and then neither was sent.\<close>

theorem many_items_endings:
  assumes "transaction s" "items \<noteq> []" "many_items fmt items s = (n, s')"
  shows "\<exists>e stmts. ends_with e stmts s n s' \<and> length stmts \<le> length items \<and>
    (e = Committed \<longrightarrow> length stmts = length items) \<and> (\<forall>x. e = Left_open x \<longrightarrow> length stmts < length items)"
  using assms by (rule many_items_outcome)

theorem many_items_endings_witness:
  "\<exists>e stmts. ends_with e stmts new_session
     (fst (many_items (\<lambda>x s. Inr x) [''a''] new_session)) (snd (many_items (\<lambda>x s. Inr x) [''a''] new_session)) \<and>
     length stmts \<le> length [''a'']"
proof -
  obtain n s' where m: "many_items (\<lambda>x s. Inr x) [''a''] new_session = (n, s')" by fastforce
  have "transaction new_session" by (simp add: new_session_def)
  from many_items_endings [OF this _ m] m show ?thesis by auto
qed

text \<open>the gap that leaves a transaction open is reached: updating a list of structs with a user
  condition sends \<^verbatim>\<open>BEGIN\<close>, fails to format the first item, and returns without \<^verbatim>\<open>ROLLBACK\<close>.\<close>

theorem update_many_leaves_transaction_open:
  assumes "get_short_struct_name T \<noteq> []" "s_fields T \<noteq> []" "w \<noteq> []" "last w \<noteq> CHR '' ''"
    "list_all plain_char (get_short_struct_name T)" "list_all plain_char w"
    "\<forall>n \<in> set (member_names T). backtick \<notin> set n" "length val = length (s_fields T)"
    "transaction s" "fst (begin_transaction s)"
  shows "update_vector ftoa r T [] [Str w] [CStr w] (val # vals) s =
    (INT_MIN, set_last_error (what mismatch) (snd (begin_transaction s)))"
proof -
  obtain s1 where b: "begin_transaction s = (True, s1)" using assms(10) by (cases "begin_transaction s") auto
  have "fst (generate_update_sql r T MySQL [] [Str w]) \<noteq> []" "snd (generate_update_sql r T MySQL [] [Str w]) = r"
    using generate_update_sql_cond [OF assms(1-4), of r] by simp_all
  moreover have "format_struct_sql ftoa r T nbe (fst (generate_update_sql r T MySQL [] [Str w])) val OptUpdate [CStr w] = Inl mismatch"
    for nbe using assms(1-8) by (intro format_update_condition) simp_all
  ultimately show ?thesis using assms(9) b
    by (cases "generate_update_sql r T MySQL [] [Str w]") (simp add: update_vector_def many_items_def lift_a_def)
qed

text \<open>A server that answers the first command with an OK packet.\<close>

lemma execute_ok:
  assumes "is_open s" "inp s = frames q (ok_bytes 0 ok) @ rest"
  shows "fst (execute sql s)"
proof -
  let ?w = "write_packet_loop (3 # bytes_of sql) (s\<lparr>seq_id := 0\<rparr>)"
  have "read_packet ?w = (Inr (ok_bytes 0 ok), ?w\<lparr>seq_id := seq_after q (ok_bytes 0 ok), inp := rest\<rparr>)"
    using assms by (intro read_packet_frames) (simp_all add: write_packet_loop_frames)
  moreover have "\<not> is_err_packet (ok_bytes 0 ok)" "is_ok_packet (ok_bytes 0 ok)"
    by (simp_all add: is_err_packet_def is_ok_packet_def ok_bytes_def)
  ultimately show ?thesis using assms(1)
    by (simp add: execute_def query_text_def command_simple_def write_packet_def read_query_response_def
        lift_a_def parse_ok_bytes)
qed

definition ok_session :: session where
  "ok_session = new_session\<lparr>is_open := True, inp := frames 1 (ok_bytes 0 no_ok) @ []\<rparr>"

lemma ok_session_begins: "fst (begin_transaction ok_session)"
  unfolding begin_transaction_def by (rule execute_ok [of _ 1 no_ok "[]"]) (simp_all add: ok_session_def)

theorem update_many_leaves_transaction_open_witness:
  "update_vector (\<lambda>x. x) person_registry person [] [Str ''id=1''] [CStr ''id=1'']
     [[CInt 1, CStr ''tom'', COpt None], [CInt 2, CStr ''ann'', COpt None]] ok_session =
   (INT_MIN, set_last_error (what mismatch) (snd (begin_transaction ok_session)))"
proof (rule update_many_leaves_transaction_open)
  show "transaction ok_session" by (simp add: ok_session_def new_session_def)
  show "fst (begin_transaction ok_session)" by (rule ok_session_begins)
qed (simp_all add: plain_char_def, simp_all add: person_def)

end
