(* ===== verification/Connection_Pool.thy ===== *)
theory Connection_Pool
  imports Main "HOL-Library.Multiset"
begin

text \<open>
  The blocking pool of \<^verbatim>\<open>ormpp/connection_pool.hpp\<close>.  A connection is a number, new ones get the
  next number.  What a thread does under the mutex is one step; between the pop and the decision
  about the popped connection another thread may run, so a popped connection is a local of its
  thread.  Ping, connect and the clock are the environment's choice in the step.  Minutes are
  integers.
\<close>

section \<open>The contract of a pool\<close>

text \<open>
  \<open>conns\<close> collects the connections wherever they are: waiting in the pool, on their way to a user, or
  in use.  What a pool promises is that every step keeps each of them in one place.
\<close>

locale lending_pool =
  fixes start :: "'s \<Rightarrow> bool"
    and step :: "'s \<Rightarrow> 's \<Rightarrow> bool"
    and conns :: "'s \<Rightarrow> nat multiset"
    and inv :: "'s \<Rightarrow> bool"
  assumes start_inv: "start s \<Longrightarrow> inv s"
    and step_inv: "inv s \<Longrightarrow> step s s' \<Longrightarrow> inv s'"
    and inv_single: "inv s \<Longrightarrow> count (conns s) c \<le> 1"
begin

lemma reachable_inv:
  assumes "start s" "step\<^sup>*\<^sup>* s s'"
  shows "inv s'"
  using assms(2, 1) by (induction rule: rtranclp_induct) (auto intro: step_inv start_inv)

lemma never_shared: "start s \<Longrightarrow> step\<^sup>*\<^sup>* s s' \<Longrightarrow> count (conns s') c \<le> 1"
  by (rule inv_single) (rule reachable_inv)

end

lemma distinct_iff_single: "distinct xs \<longleftrightarrow> (\<forall>c. count (mset xs) c \<le> 1)"
proof
  show "distinct xs \<Longrightarrow> \<forall>c. count (mset xs) c \<le> 1" by (simp add: distinct_count_atmost_1)
  assume s: "\<forall>c. count (mset xs) c \<le> 1"
  have "count (mset xs) c = (if c \<in> set xs then 1 else 0)" for c
    using s [rule_format, of c] by (auto simp: le_Suc_eq count_mset_0_iff)
  then show "distinct xs" by (simp add: distinct_count_atmost_1)
qed

section \<open>The pool\<close>

record pool =
  pool_q :: "nat list"
  popped :: "(nat \<times> nat) list"
  held :: "nat list"
  last_operate :: "nat \<Rightarrow> int"
  next_conn :: nat
  init_done :: bool

definition new_pool :: pool where
  "new_pool = \<lparr>pool_q = [], popped = [], held = [], last_operate = (\<lambda>_. 0), next_conn = 0, init_done = False\<rparr>"

definition fresh_conn :: "int \<Rightarrow> pool \<Rightarrow> nat \<times> pool" where
  "fresh_conn now p =
     (next_conn p, p\<lparr>next_conn := Suc (next_conn p), last_operate := (last_operate p)(next_conn p := now)\<rparr>)"

text \<open>\<^verbatim>\<open>init_impl\<close>: one \<^verbatim>\<open>connect\<close> per connection, \<open>up\<close> tells which of them succeed; \<open>False\<close> is the
  exception, which leaves the connections made so far in the pool and the once-flag unset.\<close>

fun init_impl :: "int \<Rightarrow> (nat \<Rightarrow> bool) \<Rightarrow> nat \<Rightarrow> pool \<Rightarrow> bool \<times> pool" where
  "init_impl now up 0 p = (True, p)"
| "init_impl now up (Suc n) p =
     (let (c, p) = fresh_conn now p
      in if up c then init_impl now up n (p\<lparr>pool_q := pool_q p @ [c]\<rparr>) else (False, p))"

definition init :: "int \<Rightarrow> (nat \<Rightarrow> bool) \<Rightarrow> int \<Rightarrow> pool \<Rightarrow> bool \<times> pool" where
  "init now up maxsize p =
     (if init_done p then (True, p)
      else let (ok, p) = init_impl now up (nat maxsize) p
           in (ok, if ok then p\<lparr>init_done := True\<rparr> else p))"

definition size_of_pool :: "pool \<Rightarrow> nat" where
  "size_of_pool p = length (pool_q p)"

text \<open>\<^verbatim>\<open>get\<close>, first part, under the lock: \<open>None\<close> while the pool is empty (after three seconds without a
  notification \<^verbatim>\<open>get\<close> then returns a null pointer).\<close>

definition get_pop :: "nat \<Rightarrow> pool \<Rightarrow> pool option" where
  "get_pop t p =
     (case pool_q p of [] \<Rightarrow> None
      | c # cs \<Rightarrow> Some (p\<lparr>pool_q := cs, popped := (t, c) # popped p\<rparr>))"

definition create_connection :: "int \<Rightarrow> (nat \<Rightarrow> bool) \<Rightarrow> pool \<Rightarrow> nat option \<times> pool" where
  "create_connection now up p =
     (let (c, p) = fresh_conn now p in if up c then (Some c, p\<lparr>held := c # held p\<rparr>) else (None, p))"

text \<open>\<^verbatim>\<open>get\<close>, second part: a connection that does not answer, or was idle for more than six hours, is
  replaced by a new one - or by nothing when that cannot be connected.\<close>

definition get_finish :: "nat \<Rightarrow> nat \<Rightarrow> bool \<Rightarrow> int \<Rightarrow> (nat \<Rightarrow> bool) \<Rightarrow> pool \<Rightarrow> nat option \<times> pool" where
  "get_finish t c alive now up p =
     (let p = p\<lparr>popped := remove1 (t, c) (popped p)\<rparr> in
      if \<not> alive then create_connection now up p
      else if now - last_operate p c - 6 * 60 > 0 then create_connection now up p
      else (Some c, p\<lparr>last_operate := (last_operate p)(c := now), held := c # held p\<rparr>))"

text \<open>The deleter of a handle.\<close>

definition give_back :: "nat \<Rightarrow> pool \<Rightarrow> pool" where
  "give_back c p = p\<lparr>held := remove1 c (held p), pool_q := pool_q p @ [c]\<rparr>"

inductive pool_step :: "pool \<Rightarrow> pool \<Rightarrow> bool" where
  init: "pool_step p (snd (init now up maxsize p))"
| pop: "get_pop t p = Some p' \<Longrightarrow> pool_step p p'"
| finish: "(t, c) \<in> set (popped p) \<Longrightarrow> pool_step p (snd (get_finish t c alive now up p))"
| returned: "c \<in> set (held p) \<Longrightarrow> pool_step p (give_back c p)"

section \<open>Exclusive use\<close>

definition out_conns :: "pool \<Rightarrow> nat list" where
  "out_conns p = map snd (popped p) @ held p"

definition pool_inv :: "pool \<Rightarrow> bool" where
  "pool_inv p \<longleftrightarrow> distinct (pool_q p @ out_conns p) \<and> (\<forall>c \<in> set (pool_q p @ out_conns p). c < next_conn p)"

definition total :: "pool \<Rightarrow> nat" where
  "total p = length (pool_q p) + length (popped p) + length (held p)"

lemma distinct_remove1_snd:
  assumes "distinct (map snd xs)" "(t, c) \<in> set xs"
  shows "distinct (map snd (remove1 (t, c) xs))" "snd ` set (remove1 (t, c) xs) = snd ` set xs - {c}"
proof -
  have "distinct (map snd (remove1 (t, c) xs)) \<and> snd ` set (remove1 (t, c) xs) = snd ` set xs - {c}"
    using assms
  proof (induction xs)
    case (Cons a xs)
    show ?case
    proof (cases "a = (t, c)")
      case True
      with Cons(2) show ?thesis by simp
    next
      case False
      with Cons(3) have m: "(t, c) \<in> set xs" by simp
      then have c: "c \<in> snd ` set xs" by (metis image_eqI snd_conv)
      with Cons(2) have "snd a \<noteq> c" by auto
      with Cons False m show ?thesis by (simp add: insert_Diff_if)
    qed
  qed simp
  then show "distinct (map snd (remove1 (t, c) xs))"
    "snd ` set (remove1 (t, c) xs) = snd ` set xs - {c}" by simp_all
qed

lemma pool_inv_iff:
  "pool_inv p \<longleftrightarrow> distinct (pool_q p) \<and> distinct (map snd (popped p)) \<and> distinct (held p) \<and>
     set (pool_q p) \<inter> snd ` set (popped p) = {} \<and> set (pool_q p) \<inter> set (held p) = {} \<and>
     snd ` set (popped p) \<inter> set (held p) = {} \<and>
     set (pool_q p) \<union> snd ` set (popped p) \<union> set (held p) \<subseteq> {..<next_conn p}"
  unfolding pool_inv_def out_conns_def distinct_append set_append set_map by blast

lemma fresh_inv:
  assumes "pool_inv p"
  shows "pool_inv (p\<lparr>next_conn := Suc (next_conn p), last_operate := f\<rparr>)"
    "pool_inv (p\<lparr>next_conn := Suc (next_conn p), last_operate := f, pool_q := pool_q p @ [next_conn p]\<rparr>)"
    "pool_inv (p\<lparr>next_conn := Suc (next_conn p), last_operate := f, held := next_conn p # held p\<rparr>)"
proof -
  have "next_conn p \<notin> set (pool_q p)" "next_conn p \<notin> snd ` set (popped p)" "next_conn p \<notin> set (held p)"
    using assms unfolding pool_inv_iff by (meson UnI1 UnI2 lessThan_iff less_irrefl subsetD)+
  moreover have "{..<next_conn p} \<subseteq> {..<Suc (next_conn p)}" by auto
  ultimately show "pool_inv (p\<lparr>next_conn := Suc (next_conn p), last_operate := f\<rparr>)"
    "pool_inv (p\<lparr>next_conn := Suc (next_conn p), last_operate := f, pool_q := pool_q p @ [next_conn p]\<rparr>)"
    "pool_inv (p\<lparr>next_conn := Suc (next_conn p), last_operate := f, held := next_conn p # held p\<rparr>)"
    using assms by (simp_all add: pool_inv_iff lessThan_Suc) blast+
qed

lemma init_impl_inv: "pool_inv p \<Longrightarrow> pool_inv (snd (init_impl now up n p))"
proof (induction now up n p rule: init_impl.induct)
  case (2 now up n p)
  then show ?case using fresh_inv [OF 2(2)] by (simp add: fresh_conn_def)
qed simp

lemma create_inv: "pool_inv p \<Longrightarrow> pool_inv (snd (create_connection now up p))"
  using fresh_inv [of p] by (simp add: create_connection_def fresh_conn_def)

lemma drop_popped_inv:
  assumes "pool_inv p" "(t, c) \<in> set (popped p)"
  shows "pool_inv (p\<lparr>popped := remove1 (t, c) (popped p)\<rparr>)"
    "pool_inv (p\<lparr>popped := remove1 (t, c) (popped p), last_operate := f, held := c # held p\<rparr>)"
proof -
  have d: "distinct (map snd (popped p))" using assms(1) by (simp add: pool_inv_iff)
  have c: "c \<in> snd ` set (popped p)" using assms(2) by force
  show "pool_inv (p\<lparr>popped := remove1 (t, c) (popped p)\<rparr>)"
    "pool_inv (p\<lparr>popped := remove1 (t, c) (popped p), last_operate := f, held := c # held p\<rparr>)"
    using assms(1) c by (simp_all add: pool_inv_iff distinct_remove1_snd [OF d assms(2)]) blast+
qed

lemma pool_inv_perm:
  assumes "pool_inv p" "mset (pool_q p') + mset (out_conns p') = mset (pool_q p) + mset (out_conns p)"
    "next_conn p' = next_conn p"
  shows "pool_inv p'"
  using assms mset_eq_imp_distinct_iff [of "pool_q p' @ out_conns p'" "pool_q p @ out_conns p"]
    mset_eq_setD [of "pool_q p' @ out_conns p'" "pool_q p @ out_conns p"]
  unfolding pool_inv_def by simp

lemma pool_step_inv:
  assumes "pool_inv p" "pool_step p p'"
  shows "pool_inv p'"
  using assms(2)
proof cases
  case (init now up maxsize)
  have "pool_inv (q\<lparr>init_done := b\<rparr>) = pool_inv q" for q b by (simp add: pool_inv_iff)
  with init assms(1) init_impl_inv [OF assms(1), of now up "nat maxsize"] show ?thesis
    by (cases "init_impl now up (nat maxsize) p") (simp add: init_def)
next
  case (pop t)
  then show ?thesis
    by (intro pool_inv_perm [OF assms(1)]) (auto simp: get_pop_def out_conns_def split: list.splits)
next
  case (finish t c alive now up)
  with assms(1) show ?thesis by (simp add: get_finish_def Let_def create_inv drop_popped_inv)
next
  case (returned c)
  then show ?thesis
    by (intro pool_inv_perm [OF assms(1)]) (auto simp: give_back_def out_conns_def)
qed

interpretation blocking_pool:
  lending_pool "\<lambda>p. p = new_pool" pool_step "\<lambda>p. mset (pool_q p @ out_conns p)" pool_inv
proof
  show "p = new_pool \<Longrightarrow> pool_inv p" for p by (simp add: new_pool_def pool_inv_def out_conns_def)
  show "pool_inv p \<Longrightarrow> pool_step p p' \<Longrightarrow> pool_inv p'" for p p' by (rule pool_step_inv)
  show "pool_inv p \<Longrightarrow> count (mset (pool_q p @ out_conns p)) c \<le> 1" for p c
    by (simp only: pool_inv_def distinct_iff_single)
qed

section \<open>Size\<close>

lemma init_impl_total:
  "total (snd (init_impl now up n p)) \<le> total p + n \<and>
   (fst (init_impl now up n p) \<longrightarrow> total (snd (init_impl now up n p)) = total p + n)"
proof (induction now up n p rule: init_impl.induct)
  case (2 now up n p)
  show ?case
  proof (cases "up (next_conn p)")
    case True
    with 2 show ?thesis by (force simp: fresh_conn_def total_def)
  qed (simp add: fresh_conn_def total_def)
qed simp

lemma total_finish:
  assumes "(t, c) \<in> set (popped p)"
  shows "total (snd (get_finish t c alive now up p)) =
    (if fst (get_finish t c alive now up p) = None then total p - 1 else total p)"
proof -
  from assms obtain n where n: "length (popped p) = Suc n" by (cases "popped p") auto
  with assms show ?thesis
    by (simp add: get_finish_def create_connection_def fresh_conn_def total_def Let_def length_remove1)
qed

lemma finish_init_done [simp]: "init_done (snd (get_finish t c alive now up p)) = init_done p"
  by (simp add: get_finish_def create_connection_def fresh_conn_def Let_def)

lemma total_step_initialised:
  assumes "init_done p" "pool_step p p'"
  shows "init_done p' \<and> total p' \<le> total p"
  using assms(2)
proof cases
  case (finish t c alive now up)
  then show ?thesis using total_finish [OF finish(2), of alive now up] assms(1) by simp
next
  case (returned c)
  moreover from returned have "0 < length (held p)" by (cases "held p") auto
  ultimately show ?thesis using assms(1) by (simp add: give_back_def total_def length_remove1)
qed (use assms(1) in \<open>auto simp: init_def get_pop_def total_def split: list.splits\<close>)

lemma total_initialised:
  assumes "pool_step\<^sup>*\<^sup>* p p'" "init_done p"
  shows "init_done p' \<and> total p' \<le> total p"
  using assms by (induction rule: rtranclp_induct) (auto dest: total_step_initialised)

lemma init_impl_exact:
  "fst (init_impl now up n p) = (\<forall>c \<in> set [next_conn p..<next_conn p + n]. up c) \<and>
   pool_q (snd (init_impl now up n p)) = pool_q p @ takeWhile up [next_conn p..<next_conn p + n] \<and>
   init_done (snd (init_impl now up n p)) = init_done p"
proof (induction now up n p rule: init_impl.induct)
  case (2 now up n p)
  have r: "[next_conn p..<next_conn p + Suc n] = next_conn p # [Suc (next_conn p)..<Suc (next_conn p) + n]"
    by (simp add: upt_conv_Cons)
  show ?case
  proof (cases "up (next_conn p)")
    case True
    with 2 show ?thesis unfolding r by (simp add: fresh_conn_def)
  next
    case False
    then show ?thesis unfolding r by (simp add: fresh_conn_def)
  qed
qed simp



text \<open>C38: A pool initialised with \<open>maxsize\<close> never holds and lends more than \<open>maxsize\<close> connections
  together, and once its last connection is lost - a \<open>get\<close> that finds it dead and cannot reconnect returns
  null and puts nothing back - every later \<open>get\<close> finds the pool empty, also after the server is back.\<close>

theorem pool_capacity:
  assumes "fst (init now up maxsize new_pool)" "pool_step\<^sup>*\<^sup>* (snd (init now up maxsize new_pool)) p"
  shows "total p \<le> nat maxsize \<and> (total p = 0 \<and> pool_step\<^sup>*\<^sup>* p p' \<longrightarrow> get_pop t p' = None)"
proof -
  obtain p0 where p0: "init_impl now up (nat maxsize) new_pool = (True, p0)"
    using assms(1) by (cases "init_impl now up (nat maxsize) new_pool") (simp add: init_def new_pool_def)
  then have i: "snd (init now up maxsize new_pool) = p0\<lparr>init_done := True\<rparr>"
    by (simp add: init_def) (simp add: new_pool_def)
  have "total p0 = nat maxsize"
    using init_impl_total [of now up "nat maxsize" new_pool] p0 by (simp add: new_pool_def total_def)
  then have "total (p0\<lparr>init_done := True\<rparr>) = nat maxsize" by (simp add: total_def)
  with total_initialised [OF assms(2)] i have p: "init_done p \<and> total p \<le> nat maxsize" by simp
  have "total p = 0 \<and> pool_step\<^sup>*\<^sup>* p p' \<longrightarrow> get_pop t p' = None"
  proof
    assume a: "total p = 0 \<and> pool_step\<^sup>*\<^sup>* p p'"
    with total_initialised [of p p'] p have "total p' = 0" by simp
    then show "get_pop t p' = None" by (simp add: total_def get_pop_def)
  qed
  with p show ?thesis by simp
qed

theorem pool_capacity_witness:
  "\<exists>p. total p = 0 \<and> pool_step\<^sup>*\<^sup>* (snd (init 0 (\<lambda>_. True) 1 new_pool)) p \<and> total p \<le> nat 1 \<and> get_pop 9 p = None"
proof -
  let ?p1 = "snd (init 0 (\<lambda>_. True) 1 new_pool)"
  let ?p2 = "the (get_pop 7 ?p1)"
  let ?p3 = "snd (get_finish 7 0 False 5 (\<lambda>_. False) ?p2)"
  note d = init_def new_pool_def fresh_conn_def get_pop_def get_finish_def create_connection_def
  have "pool_step ?p1 ?p2" by (rule pool_step.pop [of 7]) (simp add: d)
  moreover have "pool_step ?p2 ?p3" by (rule pool_step.finish) (simp add: d)
  ultimately have r: "pool_step\<^sup>*\<^sup>* ?p1 ?p3" by (meson converse_rtranclp_into_rtranclp rtranclp.rtrancl_refl)
  have t: "total ?p3 = 0" by (simp add: d total_def)
  have f: "fst (init 0 (\<lambda>_. True) 1 new_pool)" by (simp add: d)
  from pool_capacity [OF f r, of ?p3 9] r t show ?thesis by blast
qed

text \<open>A failed \<open>init\<close> may be repeated, since its exception leaves the once-flag unset, but the
  connections it had made stay: when connection number \<open>k\<close> was the first that failed, the repeated \<open>init\<close>
  leaves \<open>k + maxsize\<close> connections in the pool.\<close>

theorem repeated_init_exceeds_maxsize:
  "size_of_pool (snd (init now' (\<lambda>_. True) maxsize (snd (init now up maxsize new_pool)))) =
     (if list_all up [0..<nat maxsize] then nat maxsize
      else length (takeWhile up [0..<nat maxsize]) + nat maxsize)"
proof -
  let ?i = "init_impl now up (nat maxsize) new_pool"
  have e: "fst ?i = list_all up [0..<nat maxsize]" "pool_q (snd ?i) = takeWhile up [0..<nat maxsize]"
    "\<not> init_done (snd ?i)"
    using init_impl_exact [of now up "nat maxsize" new_pool] by (auto simp: new_pool_def list_all_iff)
  have n: "\<not> init_done new_pool" by (simp add: new_pool_def)
  let ?j = "init_impl now' (\<lambda>_. True) (nat maxsize) (snd ?i)"
  have j: "fst ?j" "pool_q (snd ?j) = pool_q (snd ?i) @ [next_conn (snd ?i)..<next_conn (snd ?i) + nat maxsize]"
    using init_impl_exact [of now' "\<lambda>_. True" "nat maxsize" "snd ?i"] by (auto simp: takeWhile_eq_all_conv)
  show ?thesis
  proof (cases "list_all up [0..<nat maxsize]")
    case True
    then have "takeWhile up [0..<nat maxsize] = [0..<nat maxsize]"
      by (simp add: takeWhile_eq_all_conv list_all_iff)
    with True e n show ?thesis by (cases ?i) (simp add: init_def size_of_pool_def)
  next
    case False
    with e n have "snd (init now up maxsize new_pool) = snd ?i" by (cases ?i) (auto simp: init_def)
    moreover have "pool_q (snd (init now' (\<lambda>_. True) maxsize (snd ?i))) = pool_q (snd ?j)"
      using e(3) by (cases ?j) (simp add: init_def)
    ultimately show ?thesis
      unfolding if_not_P [OF False] size_of_pool_def by (simp add: e(2) j(2))
  qed
qed

end
