(* ===== verification/Async_Pool.thy ===== *)
theory Async_Pool
  imports Connection_Pool Ormpp_Prelude
begin

text \<open>
  The coroutine pool of \<^verbatim>\<open>ormpp/async_connection_pool.hpp\<close> on a context with one thread: what a coroutine
  does between two suspension points is one step.  A suspended coroutine is a program counter with
  its locals, the running ones form a multiset; a step takes one out, runs its next segment and puts
  back what it has become.  What an awaited operation returned and whether a deadline has passed are
  the environment's choice.  \<^verbatim>\<open>disconnect\<close> of the only driver does not suspend.  Counters are natural
  numbers; a decrement of zero gives \<open>2^64 - 1\<close>, as on \<^verbatim>\<open>size_t\<close>.
\<close>

section \<open>State\<close>

record pool_options =
  enable_dynamic_expansion :: bool
  max_dynamic_connections :: nat
  log_pool_exhaustion :: bool

text \<open>Suspension points: in \<^verbatim>\<open>init\<close> (waiting for a connect), \<^verbatim>\<open>get\<close> (for the strand, a ping, a reconnect, the
  strand again after failure or success, the retry timer), \<^verbatim>\<open>create_dynamic_connection\<close> (for the strand, a
  connect, the strand again) and \<^verbatim>\<open>close_all\<close>.  The number is the wait count of the \<^verbatim>\<open>get\<close>.\<close>

datatype pc =
    Init_connect nat nat
  | Get_strand nat
  | Get_ping nat nat
  | Get_connect nat nat
  | Get_drop nat nat
  | Get_alive nat nat
  | Get_timer nat
  | Dyn_strand nat
  | Dyn_connect nat nat
  | Dyn_fail nat nat
  | Dyn_finish nat nat
  | Close_start bool
  | Close_wait
  | Close_timer
  | Close_finish

text \<open>\<open>handles\<close> are the shared pointers users hold, with the dynamic flag of their deleter; \<open>posted\<close> the
  returns their deleters have posted to the strand.\<close>

record apool =
  options :: pool_options
  initialized :: bool
  closing :: bool
  pool_size :: nat
  in_use_count :: nat
  dynamic_count :: nat
  available :: "nat list"
  next_conn_id :: nat
  tasks :: "pc multiset"
  handles :: "(nat \<times> bool) multiset"
  posted :: "(nat \<times> bool) multiset"

definition new_apool :: "pool_options \<Rightarrow> apool" where
  "new_apool opts =
     \<lparr>options = opts, initialized = False, closing = False, pool_size = 0, in_use_count = 0,
      dynamic_count = 0, available = [], next_conn_id = 0, tasks = {#}, handles = {#}, posted = {#}\<rparr>"

definition suspend :: "pc \<Rightarrow> apool \<Rightarrow> apool" where
  "suspend p s = s\<lparr>tasks := add_mset p (tasks s)\<rparr>"

definition dec_guarded :: "nat \<Rightarrow> nat" where
  "dec_guarded n = (if n > 0 then n - 1 else n)"

definition dec_wrap :: "nat \<Rightarrow> nat" where
  "dec_wrap n = (if n = 0 then 2 ^ 64 - 1 else n - 1)"

section \<open>init\<close>

definition ainit_loop :: "nat \<Rightarrow> apool \<Rightarrow> apool" where
  "ainit_loop i s =
     (if i < pool_size s
      then suspend (Init_connect i (next_conn_id s)) (s\<lparr>next_conn_id := Suc (next_conn_id s)\<rparr>)
      else s\<lparr>initialized := True\<rparr>)"

definition ainit_start :: "nat \<Rightarrow> apool \<Rightarrow> apool" where
  "ainit_start n s =
     (if initialized s then s else if closing s then s else ainit_loop 0 (s\<lparr>pool_size := n\<rparr>))"

definition disconnect_available_connections :: "apool \<Rightarrow> apool" where
  "disconnect_available_connections s = s\<lparr>available := []\<rparr>"

definition ainit_connected :: "bool \<Rightarrow> nat \<Rightarrow> nat \<Rightarrow> apool \<Rightarrow> apool" where
  "ainit_connected ok i c s =
     (if \<not> ok then disconnect_available_connections s
      else ainit_loop (Suc i) (s\<lparr>available := available s @ [c]\<rparr>))"

section \<open>get\<close>

definition retry_wait :: "nat \<Rightarrow> nat \<Rightarrow> nat" where
  "retry_wait wait_count remaining = min (min (50 * 2 ^ min (wait_count - 1) 3) 500) remaining"

definition get_head :: "bool \<Rightarrow> nat \<Rightarrow> apool \<Rightarrow> apool" where
  "get_head in_time w s = (if in_time then suspend (Get_strand w) s else s)"

definition get_exhausted :: "bool \<Rightarrow> nat \<Rightarrow> apool \<Rightarrow> apool" where
  "get_exhausted in_time w s = (if in_time then suspend (Get_timer w) s else s)"

definition get_strand :: "bool \<Rightarrow> nat \<Rightarrow> apool \<Rightarrow> apool" where
  "get_strand in_time w s =
     (if \<not> initialized s \<or> closing s then s
      else case available s of
        c # cs \<Rightarrow> suspend (Get_ping w c) (s\<lparr>available := cs, in_use_count := in_use_count s + 1\<rparr>)
      | [] \<Rightarrow>
          (if enable_dynamic_expansion (options s) \<and> dynamic_count s < max_dynamic_connections (options s)
           then suspend (Dyn_strand (Suc w)) s else get_exhausted in_time (Suc w) s))"

definition get_drop :: "bool \<Rightarrow> nat \<Rightarrow> nat \<Rightarrow> apool \<Rightarrow> apool" where
  "get_drop in_time w c s = get_head in_time w (s\<lparr>in_use_count := dec_guarded (in_use_count s)\<rparr>)"

definition make_connection_handle :: "nat \<Rightarrow> bool \<Rightarrow> apool \<Rightarrow> apool" where
  "make_connection_handle c dyn s = s\<lparr>handles := add_mset (c, dyn) (handles s)\<rparr>"

definition get_alive :: "bool \<Rightarrow> nat \<Rightarrow> nat \<Rightarrow> apool \<Rightarrow> apool" where
  "get_alive in_time w c s =
     (if \<not> initialized s \<or> closing s
      then get_head in_time w (s\<lparr>in_use_count := dec_guarded (in_use_count s)\<rparr>)
      else make_connection_handle c False s)"

section \<open>Dynamic connections\<close>

definition dyn_strand :: "bool \<Rightarrow> nat \<Rightarrow> apool \<Rightarrow> apool" where
  "dyn_strand in_time w s =
     (if \<not> initialized s \<or> closing s \<or> dynamic_count s \<ge> max_dynamic_connections (options s)
      then get_exhausted in_time w s
      else suspend (Dyn_connect w (next_conn_id s))
        (s\<lparr>dynamic_count := dynamic_count s + 1, in_use_count := in_use_count s + 1,
           next_conn_id := Suc (next_conn_id s)\<rparr>))"

definition dyn_fail :: "bool \<Rightarrow> nat \<Rightarrow> apool \<Rightarrow> apool" where
  "dyn_fail in_time w s =
     get_exhausted in_time w
       (s\<lparr>dynamic_count := dec_wrap (dynamic_count s), in_use_count := dec_wrap (in_use_count s)\<rparr>)"

definition dyn_finish :: "bool \<Rightarrow> nat \<Rightarrow> nat \<Rightarrow> apool \<Rightarrow> apool" where
  "dyn_finish in_time w c s =
     (if \<not> initialized s \<or> closing s
      then get_exhausted in_time w
        (s\<lparr>dynamic_count := dec_guarded (dynamic_count s), in_use_count := dec_guarded (in_use_count s)\<rparr>)
      else make_connection_handle c True s)"

section \<open>close_all and the return of connections\<close>

definition close_loop :: "bool \<Rightarrow> apool \<Rightarrow> apool" where
  "close_loop in_time s = suspend (if in_time then Close_wait else Close_finish) s"

definition close_start :: "bool \<Rightarrow> bool \<Rightarrow> apool \<Rightarrow> apool" where
  "close_start in_time wait_for_return s =
     (if \<not> initialized s \<or> closing s then s
      else let s = s\<lparr>closing := True\<rparr>
           in if wait_for_return \<and> in_use_count s > 0 then close_loop in_time s else suspend Close_finish s)"

definition close_wait :: "bool \<Rightarrow> apool \<Rightarrow> apool" where
  "close_wait in_time s =
     (if in_use_count s = 0 then suspend Close_finish s
      else suspend (if in_time then Close_timer else Close_finish) s)"

definition close_finish :: "apool \<Rightarrow> apool" where
  "close_finish s =
     (disconnect_available_connections s)\<lparr>initialized := False, closing := False\<rparr>"

definition return_connection :: "nat \<Rightarrow> bool \<Rightarrow> apool \<Rightarrow> apool" where
  "return_connection c dyn s =
     (if dyn
      then s\<lparr>dynamic_count := dec_guarded (dynamic_count s), in_use_count := dec_guarded (in_use_count s)\<rparr>
      else let s = s\<lparr>in_use_count := dec_guarded (in_use_count s)\<rparr>
           in if initialized s \<and> \<not> closing s then s\<lparr>available := available s @ [c]\<rparr> else s)"

definition get_stats :: "apool \<Rightarrow> nat \<times> nat \<times> nat \<times> nat" where
  "get_stats s = (pool_size s, length (available s), in_use_count s, dynamic_count s)"

definition utilization :: "apool \<Rightarrow> nat" where
  "utilization s =
     (let (total, av, in_use, dyn) = get_stats s; capacity = total + dyn
      in if capacity = 0 then 0 else in_use * 100 div capacity)"

section \<open>Steps\<close>

fun resume :: "bool \<Rightarrow> bool \<Rightarrow> pc \<Rightarrow> apool \<Rightarrow> apool" where
  "resume ok in_time (Init_connect i c) s = ainit_connected ok i c s"
| "resume ok in_time (Get_strand w) s = get_strand in_time w s"
| "resume ok in_time (Get_ping w c) s = suspend (if ok then Get_alive w c else Get_connect w c) s"
| "resume ok in_time (Get_connect w c) s = suspend (if ok then Get_alive w c else Get_drop w c) s"
| "resume ok in_time (Get_drop w c) s = get_drop in_time w c s"
| "resume ok in_time (Get_alive w c) s = get_alive in_time w c s"
| "resume ok in_time (Get_timer w) s = get_head in_time w s"
| "resume ok in_time (Dyn_strand w) s = dyn_strand in_time w s"
| "resume ok in_time (Dyn_connect w c) s = suspend (if ok then Dyn_finish w c else Dyn_fail w c) s"
| "resume ok in_time (Dyn_fail w c) s = dyn_fail in_time w s"
| "resume ok in_time (Dyn_finish w c) s = dyn_finish in_time w c s"
| "resume ok in_time (Close_start b) s = close_start in_time b s"
| "resume ok in_time Close_wait s = close_wait in_time s"
| "resume ok in_time Close_timer s = close_loop in_time s"
| "resume ok in_time Close_finish s = close_finish s"

inductive astep :: "apool \<Rightarrow> apool \<Rightarrow> bool" where
  init: "astep s (ainit_start n s)"
| get: "astep s (get_head in_time 0 s)"
| close: "astep s (suspend (Close_start wait_for_return) s)"
| run: "tasks s = add_mset p M \<Longrightarrow> astep s (resume ok in_time p (s\<lparr>tasks := M\<rparr>))"
| drop: "handles s = add_mset h M \<Longrightarrow> astep s (s\<lparr>handles := M, posted := add_mset h (posted s)\<rparr>)"
| returned: "posted s = add_mset (c, dyn) M \<Longrightarrow> astep s (return_connection c dyn (s\<lparr>posted := M\<rparr>))"

inductive_cases astepE: "astep s s'"

section \<open>Who has which connection\<close>

fun uses :: "pc \<Rightarrow> bool" where
  "uses (Get_ping w c) = True" | "uses (Get_connect w c) = True" | "uses (Get_drop w c) = True"
| "uses (Get_alive w c) = True" | "uses (Dyn_connect w c) = True" | "uses (Dyn_fail w c) = True"
| "uses (Dyn_finish w c) = True" | "uses _ = False"

fun is_dyn :: "pc \<Rightarrow> bool" where
  "is_dyn (Dyn_connect w c) = True" | "is_dyn (Dyn_fail w c) = True" | "is_dyn (Dyn_finish w c) = True"
| "is_dyn _ = False"

fun conn_of :: "pc \<Rightarrow> nat multiset" where
  "conn_of (Init_connect i c) = {#c#}" | "conn_of (Get_ping w c) = {#c#}"
| "conn_of (Get_connect w c) = {#c#}" | "conn_of (Get_drop w c) = {#c#}"
| "conn_of (Get_alive w c) = {#c#}" | "conn_of (Dyn_connect w c) = {#c#}"
| "conn_of (Dyn_fail w c) = {#c#}" | "conn_of (Dyn_finish w c) = {#c#}"
| "conn_of _ = {#}"

definition borrowed :: "apool \<Rightarrow> nat" where
  "borrowed s = size (filter_mset uses (tasks s)) + size (handles s) + size (posted s)"

definition temporary :: "apool \<Rightarrow> nat" where
  "temporary s =
     size (filter_mset is_dyn (tasks s)) + size (filter_mset snd (handles s)) + size (filter_mset snd (posted s))"

definition conns :: "apool \<Rightarrow> nat multiset" where
  "conns s = mset (available s) + \<Sum>\<^sub># (image_mset conn_of (tasks s)) + image_mset fst (handles s) +
     image_mset fst (posted s)"

definition apool_inv :: "apool \<Rightarrow> bool" where
  "apool_inv s \<longleftrightarrow>
     in_use_count s = borrowed s \<and> dynamic_count s = temporary s \<and>
     dynamic_count s \<le> max_dynamic_connections (options s) \<and>
     (\<forall>c. count (conns s) c \<le> 1) \<and> (\<forall>c. c \<in># conns s \<longrightarrow> c < next_conn_id s)"

lemmas segment_defs =
  suspend_def dec_guarded_def dec_wrap_def ainit_loop_def ainit_start_def ainit_connected_def
  disconnect_available_connections_def get_head_def get_exhausted_def get_strand_def get_drop_def
  get_alive_def make_connection_handle_def dyn_strand_def dyn_fail_def dyn_finish_def close_loop_def
  close_start_def close_wait_def close_finish_def return_connection_def

lemmas count_defs = borrowed_def temporary_def conns_def

text \<open>Counters: a step changes them as it changes the number of borrowed connections.\<close>

definition counted :: "apool \<Rightarrow> bool" where
  "counted s \<longleftrightarrow> in_use_count s = borrowed s \<and> dynamic_count s = temporary s \<and>
     dynamic_count s \<le> max_dynamic_connections (options s)"

lemma counted_resume:
  assumes "counted s" "tasks s = add_mset p M"
  shows "counted (resume ok in_time p (s\<lparr>tasks := M\<rparr>))"
  using assms
  by (cases p) (auto simp: counted_def borrowed_def temporary_def segment_defs Let_def split: list.splits)

lemma counted_step:
  assumes "counted s" "astep s s'"
  shows "counted s'"
  using assms(2)
proof cases
  case (run p M ok in_time)
  with assms(1) show ?thesis by (simp add: counted_resume)
next
  case (returned c dyn M)
  with assms(1) show ?thesis
    by (cases dyn) (auto simp: counted_def borrowed_def temporary_def segment_defs Let_def)
qed (use assms(1) in \<open>auto simp: counted_def borrowed_def temporary_def segment_defs Let_def\<close>)

text \<open>Connections: a step loses some, or adds the one with the next number.\<close>

definition single :: "apool \<Rightarrow> bool" where
  "single s \<longleftrightarrow> (\<forall>c. count (conns s) c \<le> 1) \<and> (\<forall>c. c \<in># conns s \<longrightarrow> c < next_conn_id s)"

definition grows_to :: "apool \<Rightarrow> apool \<Rightarrow> bool" where
  "grows_to s s' \<longleftrightarrow>
     next_conn_id s' = next_conn_id s \<and> conns s' \<subseteq># conns s \<or>
     next_conn_id s' = Suc (next_conn_id s) \<and> conns s' \<subseteq># add_mset (next_conn_id s) (conns s)"

lemma single_grows:
  assumes "single s" "grows_to s s'"
  shows "single s'"
proof -
  have "count (conns s') c \<le> 1 \<and> (0 < count (conns s') c \<longrightarrow> c < next_conn_id s')" for c
  proof -
    have c: "count (conns s) c \<le> 1" "0 < count (conns s) c \<longrightarrow> c < next_conn_id s"
      using assms(1) by (auto simp: single_def)
    from assms(2) show ?thesis
      unfolding grows_to_def
    proof
      assume "next_conn_id s' = next_conn_id s \<and> conns s' \<subseteq># conns s"
      then show ?thesis using c mset_subset_eq_count [of "conns s'" "conns s" c] by fastforce
    next
      assume "next_conn_id s' = Suc (next_conn_id s) \<and> conns s' \<subseteq># add_mset (next_conn_id s) (conns s)"
      then show ?thesis
        using c mset_subset_eq_count [of "conns s'" "add_mset (next_conn_id s) (conns s)" c]
        by (auto split: if_splits simp del: count_greater_zero_iff)
    qed
  qed
  then show ?thesis by (simp add: single_def)
qed

lemma grows_resume:
  assumes "tasks s = add_mset p M"
  shows "grows_to s (resume ok in_time p (s\<lparr>tasks := M\<rparr>))"
  using assms
  by (cases p) (auto simp: grows_to_def conns_def segment_defs Let_def subset_mset.add_increasing2 split: list.splits)

lemma grows_refl: "next_conn_id s' = next_conn_id s \<Longrightarrow> conns s' = conns s \<Longrightarrow> grows_to s s'"
  by (simp add: grows_to_def)

lemma grows_step: "astep s s' \<Longrightarrow> grows_to s s'"
proof (erule astepE)
  show "\<And>n. s' = ainit_start n s \<Longrightarrow> grows_to s s'"
    by (auto simp: grows_to_def conns_def segment_defs)
  show "\<And>c dyn M. s' = return_connection c dyn (s\<lparr>posted := M\<rparr>) \<Longrightarrow> posted s = add_mset (c, dyn) M \<Longrightarrow> grows_to s s'"
    by (auto simp: grows_to_def conns_def segment_defs Let_def)
qed (auto simp: grows_resume intro: grows_refl simp: conns_def segment_defs)

lemma options_step: "astep s s' \<Longrightarrow> options s' = options s"
proof (erule astepE)
  show "\<And>p M ok in_time. s' = resume ok in_time p (s\<lparr>tasks := M\<rparr>) \<Longrightarrow> options s' = options s"
    subgoal for p by (cases p) (auto simp: segment_defs Let_def split: list.splits)
    done
qed (auto simp: segment_defs Let_def)

lemma options_path: "astep\<^sup>*\<^sup>* s s' \<Longrightarrow> options s' = options s"
  by (induction rule: rtranclp_induct) (auto dest: options_step)

lemma apool_inv_parts: "apool_inv s \<longleftrightarrow> counted s \<and> single s"
  by (auto simp: apool_inv_def counted_def single_def)

interpretation async_pool: lending_pool "\<lambda>s. \<exists>opts. s = new_apool opts" astep conns apool_inv
proof
  show "\<exists>opts. s = new_apool opts \<Longrightarrow> apool_inv s" for s
    by (auto simp: apool_inv_def new_apool_def count_defs)
  show "apool_inv s \<Longrightarrow> astep s s' \<Longrightarrow> apool_inv s'" for s s'
    unfolding apool_inv_parts using counted_step single_grows grows_step by blast
  show "apool_inv s \<Longrightarrow> count (conns s) c \<le> 1" for s c by (simp add: apool_inv_def)
qed

section \<open>Capacity\<close>

text \<open>The connections that are, or may come back to be, in the pool.\<close>

definition regular :: "apool \<Rightarrow> nat" where
  "regular s =
     length (available s) + size (filter_mset (\<lambda>p. uses p \<and> \<not> is_dyn p) (tasks s)) +
     size (filter_mset (\<lambda>h. \<not> snd h) (handles s)) + size (filter_mset (\<lambda>h. \<not> snd h) (posted s))"

fun is_init :: "pc \<Rightarrow> bool" where
  "is_init (Init_connect i c) = True" | "is_init _ = False"

definition no_init :: "apool \<Rightarrow> bool" where
  "no_init s \<longleftrightarrow> filter_mset is_init (tasks s) = {#}"

lemma regular_resume:
  assumes "no_init s" "tasks s = add_mset p M"
  shows "no_init (resume ok in_time p (s\<lparr>tasks := M\<rparr>)) \<and> regular (resume ok in_time p (s\<lparr>tasks := M\<rparr>)) \<le> regular s"
  using assms by (cases p) (auto simp: no_init_def regular_def segment_defs Let_def split: list.splits)

lemma regular_step:
  assumes "no_init s" "initialized s" "astep s s'"
  shows "no_init s' \<and> regular s' \<le> regular s"
  using assms(3)
proof cases
  case (run p M ok in_time)
  with regular_resume [OF assms(1)] show ?thesis by simp
next
  case (returned c dyn M)
  with assms show ?thesis by (cases dyn) (auto simp: no_init_def regular_def segment_defs Let_def)
next
  case (drop h M)
  with assms show ?thesis by (cases "snd h") (auto simp: no_init_def regular_def)
qed (use assms in \<open>auto simp: no_init_def regular_def segment_defs\<close>)

lemma regular_path:
  assumes "(\<lambda>s s'. astep s s' \<and> initialized s')\<^sup>*\<^sup>* s s'" "no_init s" "initialized s"
  shows "no_init s' \<and> initialized s' \<and> regular s' \<le> regular s"
  using assms
proof (induction rule: rtranclp_induct)
  case (step t u)
  with regular_step [of t u] show ?case by auto
qed simp

section \<open>Properties\<close>

definition fixed_size :: pool_options where
  "fixed_size = \<lparr>enable_dynamic_expansion = False, max_dynamic_connections = 10, log_pool_exhaustion = True\<rparr>"

definition expanding :: "nat \<Rightarrow> pool_options" where
  "expanding n = \<lparr>enable_dynamic_expansion = True, max_dynamic_connections = n, log_pool_exhaustion = True\<rparr>"

text \<open>A schedule: the coroutine that runs next, and what its awaited operation returned.\<close>

fun schedule :: "(pc \<times> bool) list \<Rightarrow> apool \<Rightarrow> apool" where
  "schedule [] s = s"
| "schedule ((p, ok) # ps) s = schedule ps (resume ok True p (s\<lparr>tasks := tasks s - {#p#}\<rparr>))"

fun schedulable :: "(pc \<times> bool) list \<Rightarrow> apool \<Rightarrow> bool" where
  "schedulable [] s = True"
| "schedulable ((p, ok) # ps) s =
     (p \<in># tasks s \<and> schedulable ps (resume ok True p (s\<lparr>tasks := tasks s - {#p#}\<rparr>)))"

lemma schedule_steps: "schedulable ps s \<Longrightarrow> astep\<^sup>*\<^sup>* s (schedule ps s)"
proof (induction ps s rule: schedule.induct)
  case (2 p ok ps s)
  then have "tasks s = add_mset p (tasks s - {#p#})" by simp
  from astep.run [OF this, of ok True] 2 show ?case by (auto intro: converse_rtranclp_into_rtranclp)
qed simp

lemma schedule_open_steps:
  "schedulable ps s \<Longrightarrow> (\<forall>qs rs. ps = qs @ rs \<longrightarrow> initialized (schedule qs s)) \<Longrightarrow>
   (\<lambda>s s'. astep s s' \<and> initialized s')\<^sup>*\<^sup>* s (schedule ps s)"
proof (induction ps s rule: schedule.induct)
  case (2 p ok ps s)
  let ?t = "resume ok True p (s\<lparr>tasks := tasks s - {#p#}\<rparr>)"
  from 2 have "tasks s = add_mset p (tasks s - {#p#})" by simp
  from astep.run [OF this, of ok True] have "astep s ?t" .
  moreover from 2(3) have "initialized ?t"
    by (metis append_Cons append_Nil schedule.simps)
  moreover have "\<forall>qs rs. ps = qs @ rs \<longrightarrow> initialized (schedule qs ?t)"
    using 2(3) by (metis append_Cons schedule.simps(2))
  ultimately show ?case using 2 by (auto intro: converse_rtranclp_into_rtranclp)
qed simp

lemmas schedule_eval = segment_defs Let_def new_apool_def fixed_size_def expanding_def

text \<open>C39: The counters of the coroutine pool are exact in every reachable state: \<^verbatim>\<open>in_use_count_\<close> is the number
  of connections that a coroutine is checking or connecting, a user holds or a deleter has posted back,
  \<^verbatim>\<open>dynamic_connection_count_\<close> the number of temporary ones among them, and these never exceed the
  configured maximum; so no decrement ever meets zero and wraps around.\<close>

theorem async_counters_exact:
  assumes "astep\<^sup>*\<^sup>* (new_apool opts) s"
  shows "get_stats s = (pool_size s, length (available s), borrowed s, temporary s) \<and>
    temporary s \<le> max_dynamic_connections opts"
proof -
  have "apool_inv s" using async_pool.reachable_inv [OF _ assms] by blast
  with options_path [OF assms] show ?thesis by (simp add: apool_inv_def get_stats_def new_apool_def)
qed

theorem async_counters_exact_witness:
  "\<exists>s. astep\<^sup>*\<^sup>* (new_apool (expanding 3)) s \<and> get_stats s = (0, 0, 1, 1) \<and> temporary s = 1"
proof -
  let ?a = "ainit_start 0 (new_apool (expanding 3))"
  let ?b = "schedule [(Get_strand 0, True), (Dyn_strand 1, True), (Dyn_connect 1 0, True), (Dyn_finish 1 0, True)]
    (get_head True 0 ?a)"
  have "astep\<^sup>*\<^sup>* (get_head True 0 ?a) ?b" by (rule schedule_steps) (simp add: schedule_eval)
  then have r: "astep\<^sup>*\<^sup>* (new_apool (expanding 3)) ?b"
    by (meson astep.init astep.get converse_rtranclp_into_rtranclp)
  have b: "get_stats ?b = (0, 0, 1, 1)" by (simp add: schedule_eval get_stats_def)
  with async_counters_exact [OF r] r show ?thesis by auto
qed

text \<open>C40: No connection of the coroutine pool is in two places, however the coroutines of \<^verbatim>\<open>init\<close>, \<^verbatim>\<open>get\<close>,
  \<^verbatim>\<open>close_all\<close> and the posted returns interleave.\<close>

theorem async_never_shares:
  assumes "astep\<^sup>*\<^sup>* (new_apool opts) s"
  shows "count (conns s) c \<le> 1"
  using async_pool.never_shared [OF _ assms] by auto

theorem async_never_shares_witness:
  "\<exists>s. astep\<^sup>*\<^sup>* (new_apool fixed_size) s \<and> handles s = {#(0, False)#} \<and> count (conns s) 0 \<le> 1"
proof -
  let ?a = "schedule [(Init_connect 0 0, True)] (ainit_start 1 (new_apool fixed_size))"
  let ?b = "schedule [(Get_strand 0, True), (Get_ping 0 0, True), (Get_alive 0 0, True)] (get_head True 0 ?a)"
  have "astep\<^sup>*\<^sup>* (new_apool fixed_size) ?a"
    by (rule converse_rtranclp_into_rtranclp [OF astep.init schedule_steps]) (simp add: schedule_eval)
  moreover have "astep\<^sup>*\<^sup>* ?a ?b"
    by (rule converse_rtranclp_into_rtranclp [OF astep.get schedule_steps]) (simp add: schedule_eval)
  ultimately have r: "astep\<^sup>*\<^sup>* (new_apool fixed_size) ?b" by (rule rtranclp_trans)
  have "handles ?b = {#(0, False)#}" by (simp add: schedule_eval)
  with async_never_shares [OF r] r show ?thesis by blast
qed

text \<open>While the pool stays initialized its regular connections only become fewer: a connection whose ping
  and reconnect fail is dropped and never replaced, and when none is left no \<^verbatim>\<open>get\<close> finds one and only
  temporary connections are handed out, also after the server is back.\<close>

theorem async_capacity_lost:
  assumes "initialized s" "no_init s" "(\<lambda>s s'. astep s s' \<and> initialized s')\<^sup>*\<^sup>* s s'"
  shows "regular s' \<le> regular s \<and> (regular s = 0 \<longrightarrow> available s' = [] \<and> filter_mset (\<lambda>h. \<not> snd h) (handles s') = {#})"
proof -
  have r: "regular s' \<le> regular s" using regular_path [OF assms(3, 2, 1)] by simp
  have "regular s' = 0 \<longrightarrow> available s' = [] \<and> filter_mset (\<lambda>h. \<not> snd h) (handles s') = {#}"
    by (auto simp: regular_def)
  with r show ?thesis by auto
qed

theorem async_capacity_lost_witness:
  "\<exists>s s'. regular s = 1 \<and> (\<lambda>s s'. astep s s' \<and> initialized s')\<^sup>*\<^sup>* s s' \<and> regular s' = 0 \<and> tasks s' = {#Get_strand 0#} \<and>
     regular s' \<le> regular s"
proof -
  let ?a = "get_head True 0 (schedule [(Init_connect 0 0, True)] (ainit_start 1 (new_apool fixed_size)))"
  let ?ps = "[(Get_strand 0, True), (Get_ping 0 0, False), (Get_connect 0 0, False), (Get_drop 0 0, True)]"
  have r: "(\<lambda>s s'. astep s s' \<and> initialized s')\<^sup>*\<^sup>* ?a (schedule ?ps ?a)"
    by (rule schedule_open_steps) (auto simp: schedule_eval Cons_eq_append_conv)
  have "initialized ?a" "no_init ?a" "regular ?a = 1" "regular (schedule ?ps ?a) = 0"
    "tasks (schedule ?ps ?a) = {#Get_strand 0#}"
    by (simp_all add: schedule_eval no_init_def regular_def)
  with async_capacity_lost [OF _ _ r] r show ?thesis by blast
qed

text \<open>A connection lent before \<^verbatim>\<open>close_all\<close> and returned after the pool was initialized again is added to
  the connections of the new pool, and two overlapping calls of \<^verbatim>\<open>init\<close> both fill it: in both cases a pool
  of size one ends, with nobody using it, with two connections available.\<close>

theorem async_pool_exceeds_size:
  "(\<exists>s. astep\<^sup>*\<^sup>* (new_apool fixed_size) s \<and> handles s = {#(0, False)#} \<and>
      (\<exists>s'. astep\<^sup>*\<^sup>* s s' \<and> tasks s' = {#} \<and> handles s' = {#} \<and> get_stats s' = (1, 2, 0, 0))) \<and>
   (\<exists>s. astep\<^sup>*\<^sup>* (new_apool fixed_size) s \<and> tasks s = {#} \<and> handles s = {#} \<and> get_stats s = (1, 2, 0, 0))"
proof -
  let ?n = "new_apool fixed_size"
  let ?a = "schedule [(Init_connect 0 0, True)] (ainit_start 1 ?n)"
  let ?b = "schedule [(Get_strand 0, True), (Get_ping 0 0, True), (Get_alive 0 0, True)] (get_head True 0 ?a)"
  let ?c = "schedule [(Close_start False, True), (Close_finish, True)] (suspend (Close_start False) ?b)"
  let ?d = "schedule [(Init_connect 0 1, True)] (ainit_start 1 ?c)"
  let ?e = "?d\<lparr>handles := {#}, posted := {#(0, False)#}\<rparr>"
  let ?f = "return_connection 0 False (?e\<lparr>posted := {#}\<rparr>)"
  let ?g = "schedule [(Init_connect 0 0, True), (Init_connect 0 1, True)] (ainit_start 1 (ainit_start 1 ?n))"
  note steps = astep.init astep.get astep.close schedule_steps
  have na: "astep\<^sup>*\<^sup>* ?n ?a"
    by (rule converse_rtranclp_into_rtranclp [OF astep.init schedule_steps]) (simp add: schedule_eval)
  have ab: "astep\<^sup>*\<^sup>* ?a ?b"
    by (rule converse_rtranclp_into_rtranclp [OF astep.get schedule_steps]) (simp add: schedule_eval)
  have bc: "astep\<^sup>*\<^sup>* ?b ?c"
    by (rule converse_rtranclp_into_rtranclp [OF astep.close schedule_steps]) (simp add: schedule_eval)
  have cd: "astep\<^sup>*\<^sup>* ?c ?d"
    by (rule converse_rtranclp_into_rtranclp [OF astep.init schedule_steps]) (simp add: schedule_eval)
  have "astep ?d (?d\<lparr>handles := {#}, posted := add_mset (0, False) (posted ?d)\<rparr>)"
    by (rule astep.drop) (simp add: schedule_eval)
  then have de: "astep ?d ?e" by (simp add: schedule_eval)
  have ef: "astep ?e ?f" by (rule astep.returned) simp
  have bf: "astep\<^sup>*\<^sup>* ?b ?f" using bc cd de ef by (meson rtranclp.rtrancl_into_rtrancl rtranclp_trans)
  have nb: "astep\<^sup>*\<^sup>* ?n ?b" using na ab by (rule rtranclp_trans)
  have f: "tasks ?f = {#}" "handles ?f = {#}" "get_stats ?f = (1, 2, 0, 0)"
    by (simp_all add: schedule_eval get_stats_def)
  have b: "handles ?b = {#(0, False)#}" by (simp add: schedule_eval)
  have "astep\<^sup>*\<^sup>* (ainit_start 1 (ainit_start 1 ?n)) ?g" by (rule schedule_steps) (simp add: schedule_eval)
  then have ng: "astep\<^sup>*\<^sup>* ?n ?g" by (meson astep.init converse_rtranclp_into_rtranclp)
  have g: "tasks ?g = {#}" "handles ?g = {#}" "get_stats ?g = (1, 2, 0, 0)"
    by (simp_all add: schedule_eval get_stats_def)
  show ?thesis using nb b bf f ng g by blast
qed

text \<open>The waiting time between two attempts doubles from 50 to 400 milliseconds and stays there: the limit
  of 500 milliseconds that the code and its comment name is never reached.\<close>

theorem retry_wait_exact:
  "retry_wait w remaining = min (if w \<le> 1 then 50 else if w = 2 then 100 else if w = 3 then 200 else 400) remaining"
proof -
  consider "w \<le> 1" | "w = 2" | "w = 3" | "w \<ge> 4" by linarith
  then show ?thesis
  proof cases
    case 4
    then have "min (w - 1) 3 = 3" by simp
    with 4 show ?thesis by (simp add: retry_wait_def)
  qed (simp_all add: retry_wait_def)
qed

end
