(* ===== verification/Driver_Values.thy ===== *)
theory Driver_Values
  imports Mysql_Text Sql_Generate
begin

text \<open>
  What the blocking drivers share: the implicit conversions of C++ integers, the C library's reading of
  numbers, and which members of an item are bound to the placeholders of its statement.
\<close>

section \<open>Integers\<close>

text \<open>The implicit conversion of an \<^verbatim>\<open>int\<close> or \<^verbatim>\<open>int64_t\<close> to the type of the member.\<close>

fun wrap_to :: "scalar_type \<Rightarrow> int \<Rightarrow> int" where
  "wrap_to TChar i = signed_take_bit 7 i"
| "wrap_to TInt8 i = signed_take_bit 7 i"
| "wrap_to TShort i = signed_take_bit 15 i"
| "wrap_to TInt i = signed_take_bit 31 i"
| "wrap_to TInt64 i = signed_take_bit 63 i"
| "wrap_to TUint8 i = take_bit 8 i"
| "wrap_to TUint16 i = take_bit 16 i"
| "wrap_to TUint32 i = take_bit 32 i"
| "wrap_to TUint64 i = take_bit 64 i"
| "wrap_to _ i = i"

definition is_int64 :: "scalar_type \<Rightarrow> bool" where
  "is_int64 ty \<longleftrightarrow> ty = TInt64 \<or> ty = TUint64"

lemma wrap_to_in_range:
  "cpp_range ty = Some (lo, hi) \<Longrightarrow> lo \<le> i \<Longrightarrow> i \<le> hi \<Longrightarrow> wrap_to ty i = i"
  by (cases ty) (auto simp: signed_take_bit_int_eq_self take_bit_int_eq_self)

text \<open>\<^verbatim>\<open>INT_MIN\<close>, which the drivers return for an error, and what an empty optional becomes.\<close>

definition INT_MIN_s :: int where
  "INT_MIN_s = - (2 ^ 31)"

text \<open>The number at the start of a text as the C library reads it: white space, a sign, digits.  No digits
  read as 0.  \<^verbatim>\<open>atoi\<close> and \<^verbatim>\<open>atoll\<close> have no defined result for a number out of range; \<^verbatim>\<open>strtoull\<close>
  saturates, and negates modulo \<open>2 ^ 64\<close>.\<close>

definition scan_number :: "string \<Rightarrow> bool \<times> nat" where
  "scan_number t =
     (let t = dropWhile isspace_c t;
          neg = (case t of c # _ \<Rightarrow> c = CHR ''-'' | [] \<Rightarrow> False);
          t = (case t of c # cs \<Rightarrow> if c = CHR ''-'' \<or> c = CHR ''+'' then cs else t | [] \<Rightarrow> t)
      in (neg, parse_digits (takeWhile isdigit_c t)))"

definition scan_int :: "nat \<Rightarrow> string \<Rightarrow> int option" where
  "scan_int bits t =
     (let (neg, n) = scan_number t; i = (if neg then - int n else int n)
      in if - (2 ^ (bits - 1)) \<le> i \<and> i < 2 ^ (bits - 1) then Some i else None)"

definition atoi :: "string \<Rightarrow> int option" where
  "atoi = scan_int 32"

definition atoll :: "string \<Rightarrow> int option" where
  "atoll = scan_int 64"

definition strtoull :: "string \<Rightarrow> nat" where
  "strtoull t =
     (let (neg, n) = scan_number t
      in if 2 ^ 64 \<le> n then 2 ^ 64 - 1 else if neg then (2 ^ 64 - n) mod 2 ^ 64 else n)"

lemma takeWhile_digits [simp]: "takeWhile isdigit_c (nat_str n) = nat_str n"
  using nat_str_digits by (auto simp: takeWhile_eq_all_conv)

lemma nat_str_first: "\<exists>c cs. nat_str n = c # cs \<and> isdigit_c c"
  using nat_str_digits [of _ n] by (cases "nat_str n") auto

lemma digit_no_space: "isdigit_c c \<Longrightarrow> \<not> isspace_c c \<and> c \<noteq> CHR ''-'' \<and> c \<noteq> CHR ''+''"
  by (auto simp: isdigit_c_def isspace_c_def)

lemma scan_number_nat_str: "scan_number (nat_str n) = (False, n)"
proof -
  obtain c cs where c: "nat_str n = c # cs" "isdigit_c c" using nat_str_first by blast
  have "\<forall>x \<in> set cs. isdigit_c x" using nat_str_digits [of _ n] c by auto
  then have t: "takeWhile isdigit_c cs = cs" by (simp add: takeWhile_eq_all_conv)
  show ?thesis using c digit_no_space [of c] parse_digits_nat_str [of n]
    by (simp add: scan_number_def t)
qed

lemma scan_number_int_str: "scan_number (int_str i) = (i < 0, nat \<bar>i\<bar>)"
proof (cases "i < 0")
  case True
  then show ?thesis by (simp add: int_str_def scan_number_def isspace_c_def)
next
  case False
  then show ?thesis by (simp add: int_str_def scan_number_nat_str)
qed

lemma scan_int_str: "scan_int bits (int_str i) = (if - (2 ^ (bits - 1)) \<le> i \<and> i < 2 ^ (bits - 1) then Some i else None)"
  by (simp add: scan_int_def scan_number_int_str)

lemma strtoull_nat_str: "n < 2 ^ 64 \<Longrightarrow> strtoull (nat_str n) = n"
  by (simp add: strtoull_def scan_number_nat_str)

section \<open>The members bound to a statement\<close>

text \<open>\<^verbatim>\<open>stmt_execute\<close> of every driver binds the chosen members, or all but a skipped auto key, and for an
  update without user conditions the conflict keys, for MySQL in backticks; \<open>bind\<close> is how the driver binds one value.\<close>

definition bound_values ::
  "registry \<Rightarrow> struct_meta \<Rightarrow> db_type \<Rightarrow> (field_type \<Rightarrow> 'v \<Rightarrow> 'x) \<Rightarrow> string list \<Rightarrow> 'v list \<Rightarrow>
   opt_type \<Rightarrow> bool \<Rightarrow> 'x list" where
  "bound_values r T db bind members val ty has_args =
     (let row = zip (s_fields T) val;
          cell = (\<lambda>(f, v). bind (f_type f) v);
          chosen = (if members \<noteq> []
            then map (\<lambda>m. cell (hd (filter (\<lambda>(f, v). f_name f = m) row))) members
            else map cell (filter (\<lambda>(f, v). \<not> (ty = OptInsert \<and> is_auto_key r T (f_name f))) row));
          keys = (if \<not> has_args \<and> ty = OptUpdate
            then map cell (filter (\<lambda>(f, v). is_conflict_key r T (quote_key db (f_name f)) db) row) else [])
      in chosen @ keys)"

text \<open>A struct, or the items of a tuple, is read from consecutive columns.\<close>

fun item_types :: "tuple_item \<Rightarrow> field_type list" where
  "item_types (Item_field ty) = [ty]"
| "item_types (Item_struct T) = map f_type (s_fields T)"

section \<open>The bound members and the statement\<close>

lemma named_member:
  assumes "m \<in> set (member_names T)"
  shows "snd (hd (filter (\<lambda>(f, v). f_name f = m) (map (\<lambda>f. (f, f_name f)) (s_fields T)))) = m"
proof -
  let ?ys = "filter (\<lambda>f. f_name f = m) (s_fields T)"
  from assms have "?ys \<noteq> []" by (auto simp: member_names_def filter_empty_conv)
  moreover from this have "hd ?ys \<in> set ?ys" by (rule hd_in_set)
  ultimately show ?thesis by (simp add: filter_map comp_def hd_map)
qed

lemma bound_names:
  assumes "set members \<subseteq> set (member_names T)"
  shows "bound_values r T db (\<lambda>_ name. name) members (member_names T) ty has_args =
    (if members \<noteq> [] then members else insert_columns r T (ty = OptInsert)) @
    (if \<not> has_args \<and> ty = OptUpdate
     then filter (\<lambda>n. quote_key db n \<in> set (fst (get_conflict_keys r T db))) (member_names T) else [])"
proof -
  have z: "zip (s_fields T) (member_names T) = map (\<lambda>f. (f, f_name f)) (s_fields T)"
    by (simp add: member_names_def zip_map2 zip_same_conv_map)
  have m: "map (\<lambda>m. snd (hd (filter (\<lambda>(f, v). f_name f = m) (map (\<lambda>f. (f, f_name f)) (s_fields T))))) members = members"
    by (rule map_idI) (use named_member assms in auto)
  show ?thesis
    unfolding bound_values_def z Let_def case_prod_beta m [unfolded case_prod_beta]
    by (simp add: insert_columns_def member_names_def filter_map comp_def is_conflict_key_def)
qed

text \<open>The values an insert or replace of a driver binds are those of the columns its statement names, in
  the same order.\<close>

theorem insert_binds_columns:
  "bound_values r T db (\<lambda>_ name. name) [] (member_names T) (if ins then OptInsert else OptReplace) has_args =
   insert_columns r T ins"
  by (simp add: bound_names)



end
