(* ===== verification/Sqlite_Driver.thy ===== *)
theory Sqlite_Driver
  imports Driver_Values Dml_Builders
begin

text \<open>
  The SQLite driver \<^verbatim>\<open>ormpp/sqlite.hpp\<close>: members bound as parameters and read from columns, prepared
  statements and their guard, single and repeated inserts and updates, queries, transactions.  The
  sqlite3 library is the parameter \<open>api\<close>, a record of functions on a state \<open>'d\<close> that holds the
  connection and the current statement.  \<^verbatim>\<open>last_error_\<close>, \<^verbatim>\<open>has_error_\<close> and \<^verbatim>\<open>transaction_\<close> are static in
  the code; they are fields of the one driver modelled here.  SQLCipher keys are compiled in only with
  \<^verbatim>\<open>SQLITE_HAS_CODEC\<close> and left out.
\<close>

section \<open>Cells\<close>

datatype 'f sq_cell = S_null | S_int int | S_real 'f | S_text string | S_blob "byte list"

text \<open>How sqlite3 converts a cell of another storage class is left open.\<close>

record 'f sq_conv =
  c_int64 :: "'f sq_cell \<Rightarrow> int"
  c_double :: "'f sq_cell \<Rightarrow> 'f"
  c_text :: "'f sq_cell \<Rightarrow> string"
  c_blob :: "'f sq_cell \<Rightarrow> byte list"

definition bind_int_cell :: "scalar_type \<Rightarrow> int \<Rightarrow> 'f sq_cell" where
  "bind_int_cell ty i = S_int (if is_int64 ty then signed_take_bit 63 i else signed_take_bit 31 i)"

text \<open>An empty blob has no storage: its \<^verbatim>\<open>data()\<close> is a null pointer, which binds NULL.  Texts are
  bound up to their first NUL character (\<^verbatim>\<open>strlen\<close>).\<close>

fun bind_scalar :: "scalar_type \<Rightarrow> 'f cpp_val \<Rightarrow> 'f sq_cell" where
  "bind_scalar ty (CBool b) = bind_int_cell ty (if b then 1 else 0)"
| "bind_scalar ty (CInt i) = bind_int_cell ty i"
| "bind_scalar ty (CEnum i) = bind_int_cell TInt i"
| "bind_scalar ty (CFloat x) = S_real x"
| "bind_scalar ty (CStr t) = S_text (cut_nul t)"
| "bind_scalar ty (CChars t) = S_text (cut_nul t)"
| "bind_scalar ty (CBlob b) = (if b = [] then S_null else S_blob b)"
| "bind_scalar ty (COpt v) = S_null"

fun set_param_bind :: "field_type \<Rightarrow> 'f cpp_val \<Rightarrow> 'f sq_cell" where
  "set_param_bind (Optional ty) (COpt (Some v)) = bind_scalar ty v"
| "set_param_bind (Optional ty) v = S_null"
| "set_param_bind (Plain ty) v = bind_scalar ty v"
| "set_param_bind Enum v = bind_scalar TInt v"

definition column_int :: "'f sq_conv \<Rightarrow> 'f sq_cell \<Rightarrow> int" where
  "column_int cv cell = signed_take_bit 31 (c_int64 cv cell)"

text \<open>\<open>None\<close>: the \<^verbatim>\<open>memcpy\<close> of a whole array reads past the text and its terminating NUL.  A
  \<^verbatim>\<open>string_view\<close> refers to a static buffer and is valid until the next column is read.\<close>

fun assign_column :: "'f sq_conv \<Rightarrow> scalar_type \<Rightarrow> 'f sq_cell \<Rightarrow> 'f cpp_val option" where
  "assign_column cv TBool cell = Some (CBool (column_int cv cell \<noteq> 0))"
| "assign_column cv TFloat cell = Some (CFloat (c_double cv cell))"
| "assign_column cv TDouble cell = Some (CFloat (c_double cv cell))"
| "assign_column cv TString cell = Some (CStr (c_text cv cell))"
| "assign_column cv TStringView cell = Some (CStr (c_text cv cell))"
| "assign_column cv (TCharArray n) cell =
     (let buffer = c_text cv cell @ [CHR 0x00]
      in if n \<le> length buffer then Some (CChars (take n buffer)) else None)"
| "assign_column cv TBlob cell = Some (CBlob (c_blob cv cell))"
| "assign_column cv ty cell =
     Some (CInt (wrap_to ty (if is_int64 ty then c_int64 cv cell else column_int cv cell)))"

definition assign :: "'f sq_conv \<Rightarrow> 'f \<Rightarrow> field_type \<Rightarrow> 'f sq_cell \<Rightarrow> 'f cpp_val option" where
  "assign cv z ty cell =
     (if cell = S_null then Some (default_value_of z ty)
      else case ty of
        Plain s \<Rightarrow> assign_column cv s cell
      | Optional s \<Rightarrow> map_option (\<lambda>v. COpt (Some v)) (assign_column cv s cell)
      | Enum \<Rightarrow> Some (CEnum (column_int cv cell)))"

section \<open>The driver and the library\<close>

datatype step_code = Step_row | Step_done | Step_error

record ('d, 'f) sqlite_api =
  api_open :: "string \<Rightarrow> 'd \<Rightarrow> bool \<times> 'd"
  api_close :: "'d \<Rightarrow> bool \<times> 'd"
  api_prepare :: "string \<Rightarrow> 'd \<Rightarrow> bool \<times> 'd"
  api_bind :: "nat \<Rightarrow> 'f sq_cell \<Rightarrow> 'd \<Rightarrow> bool \<times> 'd"
  api_step :: "'d \<Rightarrow> step_code \<times> 'd"
  api_column :: "'d \<Rightarrow> nat \<Rightarrow> 'f sq_cell"
  api_reset :: "'d \<Rightarrow> bool \<times> 'd"
  api_finalize :: "'d \<Rightarrow> nat \<times> 'd"
  api_exec :: "string \<Rightarrow> 'd \<Rightarrow> bool \<times> 'd"
  api_changes :: "'d \<Rightarrow> nat"
  api_rowid :: "'d \<Rightarrow> int"
  api_errmsg :: "'d option \<Rightarrow> string"

record 'd sqlite =
  sq_db :: 'd
  sq_open :: bool
  sq_has_error :: bool
  sq_last_error :: string
  sq_transaction :: bool

definition sq_reset_error :: "'d sqlite \<Rightarrow> 'd sqlite" where
  "sq_reset_error s = s\<lparr>sq_has_error := False, sq_last_error := []\<rparr>"

definition sq_set_last_error :: "string \<Rightarrow> 'd sqlite \<Rightarrow> 'd sqlite" where
  "sq_set_last_error e s = s\<lparr>sq_has_error := True, sq_last_error := e\<rparr>"

text \<open>A call of the library, and the error of the connection.\<close>

definition on_db :: "('d \<Rightarrow> 'a \<times> 'd) \<Rightarrow> 'd sqlite \<Rightarrow> 'a \<times> 'd sqlite" where
  "on_db f s = (let (x, d) = f (sq_db s) in (x, s\<lparr>sq_db := d\<rparr>))"

definition db_error :: "('d, 'f) sqlite_api \<Rightarrow> 'd sqlite \<Rightarrow> 'd sqlite" where
  "db_error api s = sq_set_last_error (api_errmsg api (if sq_open s then Some (sq_db s) else None)) s"

definition sq_connect :: "('d, 'f) sqlite_api \<Rightarrow> string \<Rightarrow> string \<Rightarrow> 'd sqlite \<Rightarrow> bool \<times> 'd sqlite" where
  "sq_connect api host db s =
     (let file = (if db = [] then host else db);
          (ok, s) = on_db (api_open api file) (sq_reset_error s);
          s = s\<lparr>sq_open := True\<rparr>
      in if \<not> ok then (False, db_error api s) else (True, s))"

definition sq_ping :: "'d sqlite \<Rightarrow> bool" where
  "sq_ping s = True"

definition sq_disconnect :: "('d, 'f) sqlite_api \<Rightarrow> 'd sqlite \<Rightarrow> bool \<times> 'd sqlite" where
  "sq_disconnect api s =
     (if sq_open s
      then let (ok, s) = on_db (api_close api) s; s = s\<lparr>sq_open := False\<rparr>
           in if ok then (True, s) else (False, db_error api s)
      else (True, s))"

definition sq_exec :: "('d, 'f) sqlite_api \<Rightarrow> string \<Rightarrow> 'd sqlite \<Rightarrow> bool \<times> 'd sqlite" where
  "sq_exec api sql s =
     (let (ok, s) = on_db (api_exec api sql) (sq_reset_error s)
      in if \<not> ok then (False, db_error api s) else (True, s))"

definition sq_begin :: "('d, 'f) sqlite_api \<Rightarrow> 'd sqlite \<Rightarrow> bool \<times> 'd sqlite" where
  "sq_begin api s = sq_exec api ''BEGIN'' s"

definition sq_commit :: "('d, 'f) sqlite_api \<Rightarrow> 'd sqlite \<Rightarrow> bool \<times> 'd sqlite" where
  "sq_commit api s = sq_exec api ''COMMIT'' s"

definition sq_rollback :: "('d, 'f) sqlite_api \<Rightarrow> 'd sqlite \<Rightarrow> bool \<times> 'd sqlite" where
  "sq_rollback api s = sq_exec api ''ROLLBACK'' s"

definition sq_set_enable_transaction :: "bool \<Rightarrow> 'd sqlite \<Rightarrow> 'd sqlite" where
  "sq_set_enable_transaction enable s = s\<lparr>sq_transaction := enable\<rparr>"

section \<open>Prepared statements\<close>

text \<open>\<^verbatim>\<open>guard_statment\<close>: the constructor clears the error, the destructor finalizes the statement.\<close>

definition close_statement :: "('d, 'f) sqlite_api \<Rightarrow> 'd sqlite \<Rightarrow> 'd sqlite" where
  "close_statement api s =
     (let (status, s) = on_db (api_finalize api) s
      in if status \<noteq> 0 then sq_set_last_error (''close statment error code '' @ nat_str status) s else s)"

definition with_guard :: "('d, 'f) sqlite_api \<Rightarrow> ('d sqlite \<Rightarrow> 'a \<times> 'd sqlite) \<Rightarrow> 'd sqlite \<Rightarrow> 'a \<times> 'd sqlite" where
  "with_guard api body s = (let (x, s) = body (sq_reset_error s) in (x, close_statement api s))"

fun bind_from :: "('d, 'f) sqlite_api \<Rightarrow> nat \<Rightarrow> 'f sq_cell list \<Rightarrow> 'd \<Rightarrow> bool \<times> 'd" where
  "bind_from api i [] d = (True, d)"
| "bind_from api i (c # cs) d =
     (let (ok, d) = api_bind api i c d in if ok then bind_from api (Suc i) cs d else (False, d))"

text \<open>The parameters of a query or delete are bound without looking at the results.\<close>

fun bind_all :: "('d, 'f) sqlite_api \<Rightarrow> nat \<Rightarrow> 'f sq_cell list \<Rightarrow> 'd \<Rightarrow> unit \<times> 'd" where
  "bind_all api i [] d = ((), d)"
| "bind_all api i (c # cs) d = bind_all api (Suc i) cs (snd (api_bind api i c d))"

definition sq_execute :: "('d, 'f) sqlite_api \<Rightarrow> string \<Rightarrow> 'd sqlite \<Rightarrow> bool \<times> 'd sqlite" where
  "sq_execute api sql s =
     (let (ok, s) = on_db (api_prepare api sql) s
      in if \<not> ok then (False, db_error api s)
         else with_guard api (\<lambda>s.
           let (code, s) = on_db (api_step api) s
           in if code \<noteq> Step_done then (False, db_error api s) else (True, s)) s)"

definition sq_affected :: "('d, 'f) sqlite_api \<Rightarrow> 'd sqlite \<Rightarrow> int" where
  "sq_affected api s = signed_take_bit 31 (int (api_changes api (sq_db s)))"

definition sq_delete_records :: "('d, 'f) sqlite_api \<Rightarrow> struct_meta \<Rightarrow> string option \<Rightarrow> 'd sqlite \<Rightarrow> bool \<times> 'd sqlite" where
  "sq_delete_records api T cond s = sq_execute api (generate_delete_sql T cond) s"

definition sq_delete_records_s ::
  "('d, 'f) sqlite_api \<Rightarrow> struct_meta \<Rightarrow> string \<Rightarrow> 'f sq_cell list \<Rightarrow> 'd sqlite \<Rightarrow> int \<times> 'd sqlite" where
  "sq_delete_records_s api T str args s =
     (let (ok, s) = on_db (api_prepare api (generate_delete_sql T (Some str))) s
      in if \<not> ok then (0, db_error api s)
         else let (_, s) = on_db (bind_all api 1 args) s
              in with_guard api (\<lambda>s.
                   let (code, s) = on_db (api_step api) s
                   in if code \<noteq> Step_done then (0, db_error api s) else (take_bit 64 (sq_affected api s), s)) s)"

section \<open>Insert, replace, update\<close>

definition bound_cells ::
  "registry \<Rightarrow> struct_meta \<Rightarrow> string list \<Rightarrow> 'f cpp_val list \<Rightarrow> opt_type \<Rightarrow> bool \<Rightarrow> 'f sq_cell list" where
  "bound_cells r T = bound_values r T SQLite set_param_bind"

definition stmt_execute ::
  "('d, 'f) sqlite_api \<Rightarrow> opt_type \<Rightarrow> 'f sq_cell list \<Rightarrow> 'd sqlite \<Rightarrow> int \<times> 'd sqlite" where
  "stmt_execute api ty cells s =
     (let (bind_ok, s) = on_db (bind_from api 1 cells) s
      in if \<not> bind_ok then (INT_MIN_s, db_error api s)
         else let (code, s) = on_db (api_step api) s
              in if code \<noteq> Step_done then (INT_MIN_s, db_error api s)
                 else let count = sq_affected api s
                      in (if count = 0 then (if ty = OptUpdate then count else INT_MIN_s) else 1, s))"

definition insert_or_update_one ::
  "('d, 'f) sqlite_api \<Rightarrow> string \<Rightarrow> opt_type \<Rightarrow> bool \<Rightarrow> 'f sq_cell list \<Rightarrow> 'd sqlite \<Rightarrow> int option \<times> 'd sqlite" where
  "insert_or_update_one api sql ty get_insert_id cells s =
     (let (ok, s) = on_db (api_prepare api sql) s
      in if \<not> ok then (None, db_error api s)
         else with_guard api (\<lambda>s.
           let (n, s) = stmt_execute api ty cells s
           in if n = INT_MIN_s then (None, s)
              else (Some (if get_insert_id then take_bit 64 (api_rowid api (sq_db s)) else 1), s)) s)"

fun each_row ::
  "('d, 'f) sqlite_api \<Rightarrow> opt_type \<Rightarrow> 'f sq_cell list list \<Rightarrow> 'd sqlite \<Rightarrow> bool \<times> 'd sqlite" where
  "each_row api ty [] s = (True, s)"
| "each_row api ty (cells # rows) s =
     (let (n, s) = stmt_execute api ty cells s
      in if n = INT_MIN_s
         then (False, if sq_transaction s then snd (sq_rollback api s) else s)
         else let (ok, s) = on_db (api_reset api) s
              in if \<not> ok
                 then (False, db_error api (if sq_transaction s then snd (sq_rollback api s) else s))
                 else each_row api ty rows s)"

definition many_body ::
  "('d, 'f) sqlite_api \<Rightarrow> opt_type \<Rightarrow> bool \<Rightarrow> 'f sq_cell list list \<Rightarrow> 'd sqlite \<Rightarrow> int option \<times> 'd sqlite" where
  "many_body api ty get_insert_id rows s =
     (let (begun, s) = (if sq_transaction s then sq_begin api s else (True, s))
      in if \<not> begun then (None, s)
         else let (ok, s) = each_row api ty rows s
              in if \<not> ok then (None, s)
                 else let (done, s) = (if sq_transaction s then sq_commit api s else (True, s))
                      in if \<not> done then (None, s)
                         else (Some (if get_insert_id then take_bit 64 (api_rowid api (sq_db s))
                                else signed_take_bit 31 (int (length rows))), s))"

definition insert_or_update_many ::
  "('d, 'f) sqlite_api \<Rightarrow> string \<Rightarrow> opt_type \<Rightarrow> bool \<Rightarrow> 'f sq_cell list list \<Rightarrow> 'd sqlite \<Rightarrow>
   int option \<times> 'd sqlite" where
  "insert_or_update_many api sql ty get_insert_id rows s =
     (let (ok, s) = on_db (api_prepare api sql) s
      in if \<not> ok then (None, db_error api s)
         else with_guard api (many_body api ty get_insert_id rows) s)"

definition or_int_min :: "int option \<times> 'd sqlite \<Rightarrow> int \<times> 'd sqlite" where
  "or_int_min = (\<lambda>(res, s). (case res of None \<Rightarrow> INT_MIN_s | Some n \<Rightarrow> n, s))"

definition sq_insert ::
  "('d, 'f) sqlite_api \<Rightarrow> registry \<Rightarrow> struct_meta \<Rightarrow> opt_type \<Rightarrow> 'f cpp_val list \<Rightarrow> 'd sqlite \<Rightarrow> int \<times> 'd sqlite" where
  "sq_insert api r T ty val s =
     or_int_min (insert_or_update_one api (generate_insert_sql r T SQLite (ty = OptInsert) []) ty False
       (bound_cells r T [] val ty False) s)"

definition sq_insert_many ::
  "('d, 'f) sqlite_api \<Rightarrow> registry \<Rightarrow> struct_meta \<Rightarrow> opt_type \<Rightarrow> 'f cpp_val list list \<Rightarrow> 'd sqlite \<Rightarrow> int \<times> 'd sqlite" where
  "sq_insert_many api r T ty vals s =
     or_int_min (insert_or_update_many api (generate_insert_sql r T SQLite (ty = OptInsert) []) ty False
       (map (\<lambda>val. bound_cells r T [] val ty False) vals) s)"

definition sq_insert_id ::
  "('d, 'f) sqlite_api \<Rightarrow> registry \<Rightarrow> struct_meta \<Rightarrow> 'f cpp_val list \<Rightarrow> 'd sqlite \<Rightarrow> int \<times> 'd sqlite" where
  "sq_insert_id api r T val s =
     (let (res, s) = insert_or_update_one api (generate_insert_sql r T SQLite True []) OptInsert True
            (bound_cells r T [] val OptInsert False) s
      in (case res of None \<Rightarrow> 0 | Some n \<Rightarrow> n, s))"

definition sq_insert_id_many ::
  "('d, 'f) sqlite_api \<Rightarrow> registry \<Rightarrow> struct_meta \<Rightarrow> 'f cpp_val list list \<Rightarrow> 'd sqlite \<Rightarrow> int \<times> 'd sqlite" where
  "sq_insert_id_many api r T vals s =
     (let (res, s) = insert_or_update_many api (generate_insert_sql r T SQLite True []) OptInsert True
            (map (\<lambda>val. bound_cells r T [] val OptInsert False) vals) s
      in (case res of None \<Rightarrow> 0 | Some n \<Rightarrow> n, s))"

definition update_refused :: string where
  "update_refused = ''update requires a conflict key or where condition''"

definition sq_update ::
  "('d, 'f) sqlite_api \<Rightarrow> registry \<Rightarrow> struct_meta \<Rightarrow> string list \<Rightarrow> sql_piece list \<Rightarrow> 'f cpp_val list \<Rightarrow>
   'd sqlite \<Rightarrow> int \<times> 'd sqlite" where
  "sq_update api r T members args val s =
     (let sql = fst (generate_update_sql r T SQLite members args)
      in if sql = [] then (INT_MIN_s, sq_set_last_error update_refused s)
         else or_int_min (insert_or_update_one api sql OptUpdate False
                (bound_cells r T members val OptUpdate (args \<noteq> [])) s))"

definition sq_update_many ::
  "('d, 'f) sqlite_api \<Rightarrow> registry \<Rightarrow> struct_meta \<Rightarrow> string list \<Rightarrow> sql_piece list \<Rightarrow> 'f cpp_val list list \<Rightarrow>
   'd sqlite \<Rightarrow> int \<times> 'd sqlite" where
  "sq_update_many api r T members args vals s =
     (let sql = fst (generate_update_sql r T SQLite members args)
      in if sql = [] then (INT_MIN_s, sq_set_last_error update_refused s)
         else or_int_min (insert_or_update_many api sql OptUpdate False
                (map (\<lambda>val. bound_cells r T members val OptUpdate (args \<noteq> [])) vals) s))"

section \<open>Queries\<close>

text \<open>Fetching may go on as long as the library yields rows; \<open>None\<close>: for ever.\<close>

partial_function (option) fetch ::
  "('d \<Rightarrow> step_code \<times> 'd) \<Rightarrow> ('d \<Rightarrow> 'r) \<Rightarrow> 'd \<Rightarrow> 'r list \<Rightarrow> ('r list \<times> 'd) option" where
  "fetch step row d acc =
     (case step d of (code, d) \<Rightarrow>
        if code \<noteq> Step_row then Some (acc, d) else fetch step row d (acc @ [row d]))"

text \<open>A struct, or the items of a tuple, read from consecutive columns; \<open>None\<close> stands for a read
  past the end of a text.\<close>

fun read_members :: "'f sq_conv \<Rightarrow> 'f \<Rightarrow> (nat \<Rightarrow> 'f sq_cell) \<Rightarrow> field_type list \<Rightarrow> nat \<Rightarrow> 'f cpp_val list option" where
  "read_members cv z col [] i = Some []"
| "read_members cv z col (ty # tys) i =
     (case assign cv z ty (col i) of None \<Rightarrow> None
      | Some v \<Rightarrow> (case read_members cv z col tys (Suc i) of None \<Rightarrow> None | Some vs \<Rightarrow> Some (v # vs)))"

definition run_query ::
  "('d, 'f) sqlite_api \<Rightarrow> ('d \<Rightarrow> 'r) \<Rightarrow> string \<Rightarrow> 'f sq_cell list \<Rightarrow> 'd sqlite \<Rightarrow> ('r list \<times> 'd sqlite) option" where
  "run_query api row sql args s =
     (let (ok, s) = on_db (api_prepare api sql) s
      in if \<not> ok then Some ([], db_error api s)
         else let (_, s) = on_db (bind_all api 1 args) s; s = sq_reset_error s
              in case fetch (api_step api) row (sq_db s) [] of
                   None \<Rightarrow> None
                 | Some (rows, d) \<Rightarrow> Some (rows, close_statement api (s\<lparr>sq_db := d\<rparr>)))"

definition sq_query_s ::
  "('d, 'f) sqlite_api \<Rightarrow> 'f sq_conv \<Rightarrow> 'f \<Rightarrow> struct_meta \<Rightarrow> string \<Rightarrow> 'f sq_cell list \<Rightarrow> 'd sqlite \<Rightarrow>
   ('f cpp_val list option list \<times> 'd sqlite) option" where
  "sq_query_s api cv z T str args s =
     run_query api (\<lambda>d. read_members cv z (api_column api d) (map f_type (s_fields T)) 0)
       (if contains_select str then str else generate_query_sql T SQLite [str]) args s"

definition sq_query_tuples ::
  "('d, 'f) sqlite_api \<Rightarrow> 'f sq_conv \<Rightarrow> 'f \<Rightarrow> tuple_item list \<Rightarrow> string \<Rightarrow> 'f sq_cell list \<Rightarrow> 'd sqlite \<Rightarrow>
   ('f cpp_val list option list \<times> 'd sqlite) option" where
  "sq_query_tuples api cv z items sql args s =
     (case run_query api (\<lambda>d. read_members cv z (api_column api d) (concat (map item_types items)) 0) sql args s of
        None \<Rightarrow> None
      | Some (rows, s) \<Rightarrow> Some (if concat (map item_types items) \<noteq> [] then rows else [], s))"

definition sq_query ::
  "('d, 'f) sqlite_api \<Rightarrow> 'f sq_conv \<Rightarrow> 'f \<Rightarrow> struct_meta \<Rightarrow> string list \<Rightarrow> 'd sqlite \<Rightarrow>
   ('f cpp_val list option list \<times> 'd sqlite) option" where
  "sq_query api cv z T args s =
     run_query api (\<lambda>d. read_members cv z (api_column api d) (map f_type (s_fields T)) 0)
       (generate_query_sql T SQLite args) [] s"

text \<open>The deprecated query of tuples, with its values written into the statement.\<close>

definition sq_query_text ::
  "('d, 'f) sqlite_api \<Rightarrow> 'f sq_conv \<Rightarrow> 'f \<Rightarrow> tuple_item list \<Rightarrow> string \<Rightarrow> str_arg list \<Rightarrow> 'd sqlite \<Rightarrow>
   ('f cpp_val list option list \<times> 'd sqlite) option result" where
  "sq_query_text api cv z items str args s =
     (if args \<noteq> [] \<and> length args \<noteq> length (filter (\<lambda>c. c = CHR ''?'') str) then Inr (Some ([], s))
      else rbind (if args \<noteq> [] then get_sql str args else Inr str) (\<lambda>sql.
             Inr (sq_query_tuples api cv z items sql [] s)))"

section \<open>The driver under the builders\<close>

text \<open>The update and delete builders run their statement with \<^verbatim>\<open>execute\<close> and read
  \<^verbatim>\<open>get_last_affect_rows\<close>, an \<^verbatim>\<open>int\<close>.\<close>

interpretation sqlite_driver: sql_driver "\<lambda>s sql. sq_execute api sql s" "sq_affected api"
  "\<lambda>s. api_changes api (sq_db s)" for api :: "('d, 'f) sqlite_api"
  by unfold_locales (simp add: sq_affected_def signed_take_bit_int_eq_self)

section \<open>Values in cells\<close>

text \<open>What the documentation says of a column that holds a value of its own storage class.\<close>

definition conv_ok :: "'f sq_conv \<Rightarrow> bool" where
  "conv_ok cv \<longleftrightarrow> (\<forall>n. c_int64 cv (S_int n) = n) \<and> (\<forall>x. c_double cv (S_real x) = x) \<and>
     (\<forall>t. c_text cv (S_text t) = t) \<and> (\<forall>b. c_blob cv (S_blob b) = b)"

fun kept_scalar :: "scalar_type \<Rightarrow> 'f cpp_val \<Rightarrow> bool" where
  "kept_scalar (TCharArray n) (CChars t) \<longleftrightarrow> n \<le> length (cut_nul t) + 1"
| "kept_scalar ty (CStr t) \<longleftrightarrow> CHR 0x00 \<notin> set t"
| "kept_scalar ty v \<longleftrightarrow> True"

fun kept :: "field_type \<Rightarrow> 'f cpp_val \<Rightarrow> bool" where
  "kept (Optional ty) (COpt (Some v)) \<longleftrightarrow> v \<noteq> CBlob [] \<and> kept_scalar ty v"
| "kept (Plain ty) v \<longleftrightarrow> kept_scalar ty v"
| "kept ty v \<longleftrightarrow> True"

lemma cut_nul_eq: "cut_nul t = t \<longleftrightarrow> CHR 0x00 \<notin> set t"
  by (auto simp: cut_nul_def takeWhile_eq_all_conv)

lemma chars_buffer:
  assumes "length u \<le> n" "n \<le> Suc (length u)"
  shows "take n (u @ [CHR 0x00]) = fill_chars n u"
proof (cases "n = length u")
  case False
  with assms have "n = Suc (length u)" by simp
  then show ?thesis by (simp add: fill_chars_def)
qed (simp add: fill_chars_def)

lemma bind_scalar_null: "has_scalar ty v \<Longrightarrow> bind_scalar ty v = S_null \<longleftrightarrow> v = CBlob []"
  by (cases ty) (auto simp: bind_int_cell_def split: if_splits)

lemma assign_bind_scalar:
  assumes "conv_ok cv" "has_scalar ty v" "v \<noteq> CBlob []"
  shows "assign_column cv ty (bind_scalar ty v) = Some v \<longleftrightarrow> kept_scalar ty v"
proof (cases ty)
  case (TCharArray n)
  then obtain u where u: "v = CChars (fill_chars n u)" "length u \<le> n" "CHR 0x00 \<notin> set u"
    using assms(2) by auto
  with assms(1) TCharArray show ?thesis
    using chars_buffer [of u n] by (auto simp: cut_nul_fill conv_ok_def Let_def)
qed (use assms in \<open>auto simp: conv_ok_def cut_nul_eq bind_int_cell_def column_int_def is_int64_def
       signed_take_bit_int_eq_self take_bit_int_eq_self take_bit_signed_take_bit split: if_splits\<close>)

section \<open>Rows\<close>

text \<open>\<open>yields step row d rows code d'\<close>: from \<open>d\<close> the library yields the rows and then stops with \<open>code\<close>.\<close>

inductive yields :: "('d \<Rightarrow> step_code \<times> 'd) \<Rightarrow> ('d \<Rightarrow> 'r) \<Rightarrow> 'd \<Rightarrow> 'r list \<Rightarrow> step_code \<Rightarrow> 'd \<Rightarrow> bool"
  for step :: "'d \<Rightarrow> step_code \<times> 'd" and row :: "'d \<Rightarrow> 'r" where
  stop: "step d = (code, d') \<Longrightarrow> code \<noteq> Step_row \<Longrightarrow> yields step row d [] code d'"
| more: "step d = (Step_row, d1) \<Longrightarrow> yields step row d1 rows code d' \<Longrightarrow> yields step row d (row d1 # rows) code d'"

lemma fetch_yields: "yields step row d rows code d' \<Longrightarrow> fetch step row d acc = Some (acc @ rows, d')"
proof (induction arbitrary: acc rule: yields.induct)
  case (stop d code d')
  then show ?case by (subst fetch.simps) simp
next
  case (more d d1 rows code d')
  then show ?case by (subst fetch.simps) simp
qed

lemma fetch_Some:
  fixes step :: "'d \<Rightarrow> step_code \<times> 'd" and row :: "'d \<Rightarrow> 'r"
  assumes "fetch step row d acc = Some res"
  shows "\<exists>rows code. fst res = acc @ rows \<and> yields step row d rows code (snd res)"
proof (rule fetch.raw_induct
    [OF _ assms, where P = "\<lambda>step row d acc res. \<exists>rows code. fst res = acc @ rows \<and> yields step row d rows code (snd res)"])
  fix f and step :: "'d \<Rightarrow> step_code \<times> 'd" and row :: "'d \<Rightarrow> 'r" and d acc res
  assume IH: "\<And>step row d acc res. f step row d acc = Some res \<Longrightarrow>
      \<exists>rows code. fst res = acc @ rows \<and> yields step row d rows code (snd res)"
    and r: "(case step d of (code, d) \<Rightarrow>
        if code \<noteq> Step_row then Some (acc, d) else f step row d (acc @ [row d])) = Some res"
  obtain code d1 where s: "step d = (code, d1)" by fastforce
  show "\<exists>rows code. fst res = acc @ rows \<and> yields step row d rows code (snd res)"
  proof (cases "code = Step_row")
    case True
    with r s have "f step row d1 (acc @ [row d1]) = Some res" by simp
    from IH [OF this] obtain rows c
      where i: "fst res = (acc @ [row d1]) @ rows" "yields step row d1 rows c (snd res)" by blast
    have "yields step row d (row d1 # rows) c (snd res)" using s True i(2) by (auto intro: yields.more)
    with i(1) show ?thesis by auto
  next
    case False
    with r s have "res = (acc, d1)" by auto
    with s False show ?thesis by (auto intro: yields.stop)
  qed
qed

lemma fetch_iff: "fetch step row d [] = Some (rows, d') \<longleftrightarrow> (\<exists>code. yields step row d rows code d')"
  using fetch_yields [of step row d rows _ d' "[]"] fetch_Some [of step row d "[]" "(rows, d')"] by auto

section \<open>Transactions\<close>

text \<open>The documented effect of the library's calls on whether a transaction is open; the prepared
  statements of the driver's inserts and updates do not open one.\<close>

definition tx_laws :: "('d, 'f) sqlite_api \<Rightarrow> ('d \<Rightarrow> bool) \<Rightarrow> bool" where
  "tx_laws api in_tx \<longleftrightarrow>
     (\<forall>d. fst (api_exec api ''COMMIT'' d) \<longrightarrow> \<not> in_tx (snd (api_exec api ''COMMIT'' d))) \<and>
     (\<forall>d. fst (api_exec api ''ROLLBACK'' d) \<longrightarrow> \<not> in_tx (snd (api_exec api ''ROLLBACK'' d))) \<and>
     (\<forall>d. \<not> fst (api_exec api ''BEGIN'' d) \<longrightarrow> in_tx (snd (api_exec api ''BEGIN'' d)) \<longrightarrow> in_tx d) \<and>
     (\<forall>sql d. in_tx (snd (api_prepare api sql d)) \<longrightarrow> in_tx d) \<and>
     (\<forall>d. in_tx (snd (api_finalize api d)) \<longrightarrow> in_tx d)"

lemma db_of_errors [simp]:
  "sq_db (sq_set_last_error e s) = sq_db s" "sq_db (sq_reset_error s) = sq_db s" "sq_db (db_error api s) = sq_db s"
  "sq_transaction (sq_set_last_error e s) = sq_transaction s" "sq_transaction (sq_reset_error s) = sq_transaction s"
  "sq_transaction (db_error api s) = sq_transaction s"
  by (simp_all add: sq_set_last_error_def sq_reset_error_def db_error_def)

lemma on_db_eq: "on_db f s = (fst (f (sq_db s)), s\<lparr>sq_db := snd (f (sq_db s))\<rparr>)"
  by (simp add: on_db_def split: prod.splits)

lemma sq_exec_simps:
  "fst (sq_exec api sql s) = fst (api_exec api sql (sq_db s))"
  "sq_db (snd (sq_exec api sql s)) = snd (api_exec api sql (sq_db s))"
  "sq_transaction (snd (sq_exec api sql s)) = sq_transaction s"
  by (simp_all add: sq_exec_def on_db_eq)

lemma close_statement_db [simp]:
  "sq_db (close_statement api s) = snd (api_finalize api (sq_db s))"
  by (simp add: close_statement_def on_db_eq)

lemma stmt_execute_transaction [simp]:
  "sq_transaction (snd (stmt_execute api ty cells s)) = sq_transaction s"
  by (simp add: stmt_execute_def on_db_eq Let_def)

lemma each_row_transaction:
  "sq_transaction (snd (each_row api ty rows s)) = sq_transaction s"
proof (induction api ty rows s rule: each_row.induct)
  case (2 api ty cells rows s)
  obtain n s1 where n: "stmt_execute api ty cells s = (n, s1)" by fastforce
  have t: "sq_transaction s1 = sq_transaction s" using stmt_execute_transaction [of api ty cells s] n by simp
  obtain ok s2 where r: "on_db (api_reset api) s1 = (ok, s2)" by fastforce
  then have "sq_transaction s2 = sq_transaction s1" by (auto simp: on_db_eq)
  with 2 n r t show ?case by (auto simp: sq_rollback_def sq_exec_simps)
qed simp

text \<open>A failing row ends with the rollback.\<close>

lemma each_row_failed:
  "each_row api ty rows s = (False, s') \<Longrightarrow> sq_transaction s \<Longrightarrow>
   \<exists>d. sq_db s' = snd (api_exec api ''ROLLBACK'' d)"
proof (induction api ty rows s arbitrary: s' rule: each_row.induct)
  case (2 api ty cells rows s)
  obtain n s1 where n: "stmt_execute api ty cells s = (n, s1)" by fastforce
  have t: "sq_transaction s1 = sq_transaction s" using stmt_execute_transaction [of api ty cells s] n by simp
  obtain ok s2 where r: "on_db (api_reset api) s1 = (ok, s2)" by fastforce
  then have t2: "sq_transaction s2 = sq_transaction s1" by (auto simp: on_db_eq)
  show ?case
  proof (cases "n = INT_MIN_s \<or> \<not> ok")
    case True
    with "2.prems" n r t t2 show ?thesis by (auto simp: sq_rollback_def sq_exec_simps split: if_splits)
  next
    case False
    with "2.prems" n r t t2 "2.IH" [OF n [symmetric]] show ?thesis by auto
  qed
qed simp

lemma or_int_min_fst: "fst (or_int_min r) = (case fst r of None \<Rightarrow> INT_MIN_s | Some n \<Rightarrow> n)"
  by (cases r) (simp add: or_int_min_def)

lemma value_kept:
  assumes "conv_ok cv" "has_type ty v"
  shows "assign cv z ty (set_param_bind ty v) = Some v \<longleftrightarrow> kept ty v"
proof (cases ty)
  case (Plain s)
  with assms have v: "has_scalar s v" by simp
  show ?thesis
  proof (cases "v = CBlob []")
    case True
    with v Plain show ?thesis by (cases s) (auto simp: assign_def)
  next
    case False
    with v Plain show ?thesis
      using assign_bind_scalar [OF assms(1) v False] bind_scalar_null [OF v] by (simp add: assign_def)
  qed
next
  case (Optional s)
  show ?thesis
  proof (cases "v = COpt None")
    case False
    with Optional assms(2) obtain w where w: "v = COpt (Some w)" "has_scalar s w" by auto
    then show ?thesis
      using Optional assign_bind_scalar [OF assms(1) w(2)] bind_scalar_null [OF w(2)]
      by (cases "w = CBlob []") (auto simp: assign_def)
  qed (simp add: Optional assign_def)
next
  case Enum
  with assms show ?thesis
    by (auto simp: assign_def conv_ok_def column_int_def bind_int_cell_def is_int64_def int_range_def
        signed_take_bit_int_eq_self)
qed

section \<open>Properties\<close>


definition plain_conv :: "unit sq_conv" where
  "plain_conv =
     \<lparr>c_int64 = (\<lambda>c. case c of S_int n \<Rightarrow> n | _ \<Rightarrow> 0), c_double = (\<lambda>_. ()),
      c_text = (\<lambda>c. case c of S_text t \<Rightarrow> t | _ \<Rightarrow> []), c_blob = (\<lambda>c. case c of S_blob b \<Rightarrow> b | _ \<Rightarrow> [])\<rparr>"


text \<open>A library that knows only whether a transaction is open, and refuses \<^verbatim>\<open>COMMIT\<close> when told so.\<close>

definition toy_api :: "bool \<Rightarrow> step_code \<Rightarrow> nat \<Rightarrow> (bool, unit) sqlite_api" where
  "toy_api refuse code status =
     \<lparr>api_open = (\<lambda>f d. (True, d)), api_close = (\<lambda>d. (True, d)), api_prepare = (\<lambda>sql d. (True, d)),
      api_bind = (\<lambda>i c d. (True, d)), api_step = (\<lambda>d. (code, d)), api_column = (\<lambda>d i. S_null),
      api_reset = (\<lambda>d. (True, d)), api_finalize = (\<lambda>d. (status, d)),
      api_exec = (\<lambda>sql d. if sql = ''BEGIN'' then (True, True) else if refuse then (False, d) else (True, False)),
      api_changes = (\<lambda>d. 1), api_rowid = (\<lambda>d. 1), api_errmsg = (\<lambda>d. ''constraint failed'')\<rparr>"

definition toy_sqlite :: "bool sqlite" where
  "toy_sqlite = \<lparr>sq_db = False, sq_open = True, sq_has_error = False, sq_last_error = [], sq_transaction = True\<rparr>"

lemmas driver_eval =
  insert_or_update_many_def many_body_def on_db_eq with_guard_def sq_begin_def sq_commit_def sq_rollback_def
  sq_exec_def stmt_execute_def close_statement_def sq_reset_error_def sq_set_last_error_def db_error_def
  sq_affected_def toy_sqlite_def INT_MIN_s_def Let_def

text \<open>How the body of a list operation ends.\<close>

lemma many_body_end:
  assumes "many_body api ty False rows s = (res, s')" "sq_transaction s"
  shows "res = None \<and> \<not> fst (sq_begin api s) \<and> s' = snd (sq_begin api s) \<or>
    res = None \<and> (\<exists>d. sq_db s' = snd (api_exec api ''ROLLBACK'' d)) \<or>
    (\<exists>t. s' = snd (sq_commit api t) \<and> res = (if fst (sq_commit api t) then Some (signed_take_bit 31 (int (length rows))) else None))"
proof -
  obtain begun s2 where g: "sq_begin api s = (begun, s2)" by fastforce
  then have t2: "sq_transaction s2" using sq_exec_simps(3) [of api "''BEGIN''" s] assms(2) by (simp add: sq_begin_def)
  obtain fin s3 where e: "each_row api ty rows s2 = (fin, s3)" by fastforce
  have t3: "sq_transaction s3" using each_row_transaction [of api ty rows s2] e t2 by simp
  obtain ended s4 where c: "sq_commit api s3 = (ended, s4)" by fastforce
  consider "\<not> begun" | "begun" "\<not> fin" | "begun" "fin" by blast
  then show ?thesis
  proof cases
    case 1
    with assms g show ?thesis by (simp add: many_body_def)
  next
    case 2
    with assms g e have "res = None" "s' = s3" by (auto simp: many_body_def)
    with each_row_failed [of api ty rows s2 s3] e 2 t2 show ?thesis by auto
  next
    case 3
    with assms g e c t3 have "res = (if ended then Some (signed_take_bit 31 (int (length rows))) else None)" "s' = s4"
      by (auto simp: many_body_def split: if_splits)
    with c show ?thesis by (metis fst_conv snd_conv)
  qed
qed

text \<open>C19: Inserting or updating a list in a transaction: a result counts all the items (as an \<^verbatim>\<open>int\<close>) and no transaction is
  left open; a transaction is left open only when \<^verbatim>\<open>COMMIT\<close> or the \<^verbatim>\<open>ROLLBACK\<close> after a failed item was refused,
  and then that was the last thing done before the statement was closed.\<close>

theorem sqlite_many_transaction:
  assumes "tx_laws api in_tx" "\<not> in_tx (sq_db s)" "sq_transaction s"
    "insert_or_update_many api sql ty False rows s = (res, s')"
  shows "(res = None \<or> res = Some (signed_take_bit 31 (int (length rows))) \<and> \<not> in_tx (sq_db s')) \<and>
    (in_tx (sq_db s') \<longrightarrow> res = None \<and>
      (\<exists>c d d'. c \<in> {''COMMIT'', ''ROLLBACK''} \<and> api_exec api c d = (False, d') \<and>
         sq_db s' = snd (api_finalize api d')))"
proof -
  have ends: "\<not> in_tx (snd (api_exec api c d))" if "c \<in> {''COMMIT'', ''ROLLBACK''}" "fst (api_exec api c d)" for c d
    using assms(1) that unfolding tx_laws_def by blast
  have begins: "\<not> in_tx (snd (api_exec api ''BEGIN'' d))" if "\<not> fst (api_exec api ''BEGIN'' d)" "\<not> in_tx d" for d
    using assms(1) that unfolding tx_laws_def by blast
  have kept: "\<not> in_tx (snd (api_prepare api sql d))" "\<not> in_tx (snd (api_finalize api d))" if "\<not> in_tx d" for d
    using assms(1) that unfolding tx_laws_def by blast+
  obtain ok d1 where p: "api_prepare api sql (sq_db s) = (ok, d1)" by fastforce
  with kept(1) [OF assms(2)] have d1: "\<not> in_tx d1" by simp
  show ?thesis
  proof (cases ok)
    case False
    with assms(4) p d1 show ?thesis by (auto simp: insert_or_update_many_def on_db_eq)
  next
    case True
    let ?s1 = "sq_reset_error (s\<lparr>sq_db := d1\<rparr>)"
    obtain t where t: "many_body api ty False rows ?s1 = (res, t)" "s' = close_statement api t"
      using assms(4) p True by (auto simp: insert_or_update_many_def on_db_eq with_guard_def split: prod.splits)
    have refused: "\<exists>c d d'. c \<in> {''COMMIT'', ''ROLLBACK''} \<and> api_exec api c d = (False, d') \<and>
        sq_db s' = snd (api_finalize api d')"
      if "in_tx (sq_db s')" "sq_db t = snd (api_exec api c d)" "c \<in> {''COMMIT'', ''ROLLBACK''}" for c d
    proof -
      have "in_tx (sq_db t)" using that(1) t(2) kept(2) by (metis close_statement_db)
      then have "api_exec api c d = (False, sq_db t)" using ends [OF that(3)] that(2) by (metis prod.collapse)
      with that(3) t(2) show ?thesis by (metis close_statement_db)
    qed
    have tr: "sq_transaction ?s1" using assms(3) by simp
    from many_body_end [OF t(1) tr] consider
        (b) "res = None" "\<not> fst (sq_begin api ?s1)" "t = snd (sq_begin api ?s1)"
      | (r) d where "res = None" "sq_db t = snd (api_exec api ''ROLLBACK'' d)"
      | (c) u where "t = snd (sq_commit api u)"
          "res = (if fst (sq_commit api u) then Some (signed_take_bit 31 (int (length rows))) else None)"
      by blast
    then show ?thesis
    proof cases
      case b
      then have "\<not> in_tx (sq_db t)" using begins [of d1] d1 by (simp add: sq_begin_def sq_exec_simps)
      with b kept(2) t(2) show ?thesis by simp
    next
      case r
      with refused show ?thesis by auto
    next
      case c
      have "\<not> in_tx (sq_db s')" if "fst (sq_commit api u)"
        using that c(1) ends [of "''COMMIT''"] kept(2) t(2) by (simp add: sq_commit_def sq_exec_simps)
      with c refused [of "''COMMIT''" "sq_db u"] show ?thesis
        by (auto simp: sq_commit_def sq_exec_simps split: if_splits)
    qed
  qed
qed

theorem sqlite_many_transaction_witness:
  "let s = snd (insert_or_update_many (toy_api True Step_done 0) ''insert'' OptInsert False [[]] toy_sqlite)
   in sq_db s \<and> (\<exists>c d d'. c \<in> {''COMMIT'', ''ROLLBACK''} \<and> api_exec (toy_api True Step_done 0) c d = (False, d') \<and>
     sq_db s = snd (api_finalize (toy_api True Step_done 0) d'))"
proof -
  let ?api = "toy_api True Step_done 0"
  have l: "tx_laws ?api (\<lambda>d. d)" by (simp add: tx_laws_def toy_api_def)
  obtain res s where r: "insert_or_update_many ?api ''insert'' OptInsert False [[]] toy_sqlite = (res, s)" by fastforce
  then have "sq_db s" by (auto simp: driver_eval toy_api_def)
  then show ?thesis
    using sqlite_many_transaction [OF l _ _ r] r unfolding Let_def by (simp add: toy_sqlite_def)
qed

lemma sq_exec_ok_error:
  "fst (api_exec api sql (sq_db s)) \<Longrightarrow>
   sq_has_error (snd (sq_exec api sql s)) = False \<and> sq_last_error (snd (sq_exec api sql s)) = []"
  by (simp add: sq_exec_def on_db_eq sq_reset_error_def)

lemma each_row_failed_error:
  "each_row api ty rows s = (False, s') \<Longrightarrow> sq_transaction s \<Longrightarrow> (\<And>d. fst (api_reset api d)) \<Longrightarrow>
   (\<And>d. fst (api_exec api ''ROLLBACK'' d)) \<Longrightarrow> \<not> sq_has_error s' \<and> sq_last_error s' = []"
proof (induction api ty rows s arbitrary: s' rule: each_row.induct)
  case (2 api ty cells rows s)
  obtain n s1 where n: "stmt_execute api ty cells s = (n, s1)" by fastforce
  have t: "sq_transaction s1 = sq_transaction s" using stmt_execute_transaction [of api ty cells s] n by simp
  show ?case
  proof (cases "n = INT_MIN_s")
    case True
    with "2.prems" n t show ?thesis
      using sq_exec_ok_error [of api "''ROLLBACK''" s1] by (auto simp: sq_rollback_def)
  next
    case False
    with "2.prems" n t show ?thesis
      using "2.IH" [OF n [symmetric] refl False refl on_db_eq [symmetric]] by (simp add: on_db_eq)
  qed
qed simp

text \<open>The message of a failed item is lost: \<^verbatim>\<open>rollback\<close> clears the error, so that after a list whose item
  failed the driver reports no error at all, or only the status with which the statement was closed.\<close>

theorem sqlite_item_error_lost:
  assumes "sq_transaction s" "fst (api_prepare api sql (sq_db s))" "\<And>d. fst (api_reset api d)"
    "\<And>c d. fst (api_exec api c d)" "insert_or_update_many api sql ty False rows s = (None, s')"
  shows "\<exists>d. let status = fst (api_finalize api d) in
    (sq_has_error s', sq_last_error s') =
      (if status = 0 then (False, []) else (True, ''close statment error code '' @ nat_str status))"
proof -
  let ?s1 = "sq_reset_error (s\<lparr>sq_db := snd (api_prepare api sql (sq_db s))\<rparr>)"
  obtain r t where b: "many_body api ty False rows ?s1 = (r, t)" by fastforce
  with assms(2, 5) have res: "r = None" "s' = close_statement api t"
    by (auto simp: insert_or_update_many_def on_db_eq with_guard_def)
  obtain begun s2 where g: "sq_begin api ?s1 = (begun, s2)" by fastforce
  then have s2: "begun" "sq_transaction s2"
    using sq_exec_simps [of api "''BEGIN''" ?s1] assms(1, 4) by (auto simp: sq_begin_def)
  obtain fin s3 where e: "each_row api ty rows s2 = (fin, s3)" by fastforce
  have "fst (sq_commit api s3)" using sq_exec_simps(1) [of api "''COMMIT''" s3] assms(4) by (simp add: sq_commit_def)
  with b g s2 e res(1) assms(1) have f: "\<not> fin" "t = s3"
    by (auto simp: many_body_def each_row_transaction split: if_splits prod.splits)
  have "\<not> sq_has_error t \<and> sq_last_error t = []"
    using each_row_failed_error [of api ty rows s2 s3] e f s2(2) assms(3, 4) by simp
  with res(2) show ?thesis
    by (intro exI [of _ "sq_db t"]) (auto simp: close_statement_def on_db_eq Let_def sq_set_last_error_def)
qed

theorem sqlite_item_error_lost_witness:
  "let s = snd (insert_or_update_many (toy_api False Step_error 19) ''insert'' OptInsert False [[]] toy_sqlite)
   in sq_has_error s \<and> sq_last_error s = ''close statment error code 19''"
proof -
  let ?api = "toy_api False Step_error 19"
  obtain res s where r: "insert_or_update_many ?api ''insert'' OptInsert False [[]] toy_sqlite = (res, s)" by fastforce
  then have n: "res = None" by (auto simp: driver_eval toy_api_def)
  have "\<exists>d. let status = fst (api_finalize ?api d) in (sq_has_error s, sq_last_error s) =
      (if status = 0 then (False, []) else (True, ''close statment error code '' @ nat_str status))"
    by (rule sqlite_item_error_lost [OF _ _ _ _ r [unfolded n]]) (simp_all add: toy_sqlite_def toy_api_def)
  moreover have "nat_str 19 = ''19''" by code_simp
  ultimately show ?thesis using r by (simp add: toy_api_def Let_def)
qed

text \<open>An update of one item returns 1 whenever the statement ran - also when it matched no row - and
  \<^verbatim>\<open>INT_MIN\<close> when it could not be built, prepared, bound or run.\<close>

theorem sqlite_update_hides_count:
  "fst (sq_update api r T members args val s) =
     (let sql = fst (generate_update_sql r T SQLite members args);
          (prepared, d) = api_prepare api sql (sq_db s);
          (bound, d) = bind_from api 1 (bound_cells r T members val OptUpdate (args \<noteq> [])) d
      in if sql \<noteq> [] \<and> prepared \<and> bound \<and> fst (api_step api d) = Step_done
         then 1 else INT_MIN_s)"
  by (auto simp: sq_update_def or_int_min_fst insert_or_update_one_def with_guard_def on_db_eq
      stmt_execute_def Let_def sq_affected_def INT_MIN_s_def split: prod.splits if_splits)

text \<open>A query returns exactly the rows the library yields, converted member by member, and looks no
  further: whether the rows ended or an error cut them short makes no difference to the result, only
  the status of closing the statement may tell.  It returns whenever the library stops yielding rows.\<close>

theorem sqlite_query_rows:
  assumes "fst (api_prepare api sql (sq_db s))" "sql = (if contains_select str then str else generate_query_sql T SQLite [str])"
  shows "sq_query_s api cv z T str args (s :: 'a sqlite) = Some (rows, s') \<longleftrightarrow>
    (\<exists>code d. yields (api_step api) (\<lambda>d. read_members cv z (api_column api d) (map f_type (s_fields T)) 0)
        (snd (bind_all api 1 args (snd (api_prepare api sql (sq_db s))))) rows code d \<and>
      s' = close_statement api (sq_reset_error s\<lparr>sq_db := d\<rparr>))"
proof -
  let ?row = "\<lambda>d. read_members cv z (api_column api d) (map f_type (s_fields T)) 0"
    and ?d = "snd (bind_all api 1 args (snd (api_prepare api sql (sq_db s))))"
  have e: "sq_reset_error (t\<lparr>sq_db := x\<rparr>) = sq_reset_error t\<lparr>sq_db := x\<rparr>" for t :: "'a sqlite" and x
    by (simp add: sq_reset_error_def)
  have q: "sq_query_s api cv z T str args s =
      (case fetch (api_step api) ?row ?d [] of None \<Rightarrow> None
       | Some (rows, d) \<Rightarrow> Some (rows, close_statement api (sq_reset_error s\<lparr>sq_db := d\<rparr>)))"
    using assms(1) unfolding sq_query_s_def run_query_def assms(2) [symmetric] on_db_eq Let_def
    by (simp add: e cong: option.case_cong)
  have "sq_query_s api cv z T str args s = Some (rows, s') \<longleftrightarrow>
      (\<exists>d. fetch (api_step api) ?row ?d [] = Some (rows, d) \<and>
        s' = close_statement api (sq_reset_error s\<lparr>sq_db := d\<rparr>))"
    unfolding q by (cases "fetch (api_step api) ?row ?d []") auto
  then show ?thesis unfolding fetch_iff by blast
qed

theorem sqlite_query_rows_witness:
  "sq_query_s (toy_api True Step_error 0) plain_conv () person ''select 1'' [] toy_sqlite = Some ([], toy_sqlite)"
proof -
  let ?api = "toy_api True Step_error 0"
  have p: "fst (api_prepare ?api ''select 1'' (sq_db toy_sqlite))" by (simp add: toy_api_def)
  have s: "''select 1'' = (if contains_select ''select 1'' then ''select 1'' else generate_query_sql person SQLite [''select 1''])"
    by code_simp
  have y: "yields (api_step ?api) row d [] Step_error d" for row :: "bool \<Rightarrow> 'r" and d
    by (rule yields.stop) (simp_all add: toy_api_def)
  have c: "snd (bind_all ?api 1 [] (snd (api_prepare ?api ''select 1'' (sq_db toy_sqlite)))) = False"
    "close_statement ?api (sq_reset_error toy_sqlite\<lparr>sq_db := False\<rparr>) = toy_sqlite"
    by (simp_all add: driver_eval toy_api_def)
  show ?thesis
    apply (rule iffD2 [OF sqlite_query_rows [OF p s]])
    apply (intro exI conjI)
     apply (unfold c)
     apply (rule y)
    apply (rule c(2) [symmetric])
    done
qed

end
