(* ===== verification/Sqlite_Store.thy ===== *)
theory Sqlite_Store
  imports Sqlite_Driver
begin

text \<open>
  The SQLite driver as a store of items: what a program that inserts items and then queries the
  struct gets back.  The layers of the library meet here - the generated statements, the cells bound
  to their placeholders, the driver's calls, and the conversion of the columns back to members - on
  a library that does what SQL says of the two statements.
\<close>

section \<open>The library\<close>

definition insert_text :: "registry \<Rightarrow> struct_meta \<Rightarrow> string" where
  "insert_text r T =
     ''insert into '' @ get_short_struct_name T @ '' ('' @ comma_sep (map (quote_key SQLite) (insert_columns r T True)) @
     '') values('' @ comma_sep (placeholders SQLite 0 (length (insert_columns r T True))) @ '') ''"

text \<open>
  \<open>tab\<close> gives the rows of the struct's table, a cell per member.  An insert that is run appends one row,
  which has the bound cells in the named columns and a number or NULL in the others; one that fails,
  and every call beside it, leaves the table as it is.  A select of all columns yields the rows in their order.
\<close>

definition row_of_bound :: "registry \<Rightarrow> struct_meta \<Rightarrow> 'f sq_cell list \<Rightarrow> 'f sq_cell list \<Rightarrow> bool" where
  "row_of_bound r T cells row \<longleftrightarrow>
     list_all2 (\<lambda>n c. case map_of (zip (insert_columns r T True) cells) n of
       Some b \<Rightarrow> c = b | None \<Rightarrow> c = S_null \<or> (\<exists>k. c = S_int k)) (member_names T) row"

definition serves ::
  "('d, 'f) sqlite_api \<Rightarrow> registry \<Rightarrow> struct_meta \<Rightarrow> ('d \<Rightarrow> 'f sq_cell list list) \<Rightarrow> bool" where
  "serves api r T tab \<longleftrightarrow>
     (\<forall>sql d. tab (snd (api_prepare api sql d)) = tab d) \<and>
     (\<forall>i c d. tab (snd (api_bind api i c d)) = tab d) \<and>
     (\<forall>d. tab (snd (api_finalize api d)) = tab d) \<and>
     (\<forall>cells d d1 d2 code d3. api_prepare api (insert_text r T) d = (True, d1) \<longrightarrow>
        length cells = length (insert_columns r T True) \<longrightarrow> bind_from api 1 cells d1 = (True, d2) \<longrightarrow>
        api_step api d2 = (code, d3) \<longrightarrow>
        (if code = Step_done
         then api_changes api d3 = 1 \<and> (\<exists>row. tab d3 = tab d2 @ [row] \<and> row_of_bound r T cells row)
         else tab d3 = tab d2)) \<and>
     (\<forall>d d1. api_prepare api (select_prefix T SQLite) d = (True, d1) \<longrightarrow>
        (\<exists>d2. yields (api_step api) (\<lambda>d. map (api_column api d) [0 ..< length (member_names T)]) d1 (tab d1) Step_done d2 \<and>
           tab d2 = tab d1))"

section \<open>One insert\<close>

lemma insert_text_generated:
  assumes "insert_columns r T True \<noteq> []" "get_short_struct_name T \<noteq> []"
  shows "generate_insert_sql r T SQLite True [] = insert_text r T"
  using generate_insert_sql_eq [OF assms(1) _ assms(2), of SQLite "[]"] by (simp add: insert_text_def)

lemma select_generated:
  assumes "s_fields T \<noteq> []" "get_short_struct_name T \<noteq> []"
  shows "generate_query_sql T SQLite [[]] = select_prefix T SQLite"
  using assms
  by (simp add: generate_query_sql_def select_prefix_def get_fields_eq append_pieces_eq piece_text_def
      contains_select_def Let_def)

lemma bind_from_tab:
  assumes "\<And>i c d. tab (snd (api_bind api i c d)) = tab d"
  shows "tab (snd (bind_from api i cells d)) = tab d"
proof (induction cells arbitrary: i d)
  case (Cons c cells)
  show ?case using assms [of i c d] Cons by (auto simp: case_prod_beta Let_def)
qed simp

lemma filter_zip_names:
  "length val = length fs \<Longrightarrow>
    map (\<lambda>(f, v). f_name f) (filter (\<lambda>(f, v). P (f_name f)) (zip fs val)) = filter P (map f_name fs)"
  by (induction val fs rule: list_induct2) auto

lemma length_bound_cells:
  assumes "length val = length (s_fields T)"
  shows "length (bound_cells r T [] val OptInsert False) = length (insert_columns r T True)"
proof -
  have "length (filter (\<lambda>(f, v). \<not> is_auto_key r T (f_name f)) (zip (s_fields T) val)) = length (insert_columns r T True)"
    using arg_cong [OF filter_zip_names [OF assms, of "\<lambda>n. \<not> is_auto_key r T n"], of length]
    by (simp add: insert_columns_def member_names_def)
  then show ?thesis by (simp add: bound_cells_def bound_values_def Let_def)
qed

lemma sq_insert_appends:
  assumes "serves api r T tab" "insert_columns r T True \<noteq> []" "get_short_struct_name T \<noteq> []"
    "length val = length (s_fields T)" "sq_insert api r T OptInsert val s = (n, s')"
  shows "n = 1 \<and> (\<exists>row. tab (sq_db s') = tab (sq_db s) @ [row] \<and>
           row_of_bound r T (bound_cells r T [] val OptInsert False) row) \<or>
         n = INT_MIN_s \<and> tab (sq_db s') = tab (sq_db s)"
proof -
  let ?cells = "bound_cells r T [] val OptInsert False"
  have len: "length ?cells = length (insert_columns r T True)"
    by (rule length_bound_cells [OF assms(4)])
  have keeps: "\<And>sql d. tab (snd (api_prepare api sql d)) = tab d" "\<And>i c d. tab (snd (api_bind api i c d)) = tab d"
    "\<And>d. tab (snd (api_finalize api d)) = tab d"
    using assms(1) unfolding serves_def by blast+
  obtain ok d1 where p: "api_prepare api (insert_text r T) (sq_db s) = (ok, d1)" by fastforce
  obtain bok d2 where b: "bind_from api 1 ?cells d1 = (bok, d2)" by fastforce
  obtain code d3 where c: "api_step api d2 = (code, d3)" by fastforce
  have t: "tab d1 = tab (sq_db s)" "tab d2 = tab d1"
    using keeps(1) [of "insert_text r T" "sq_db s"] bind_from_tab [of tab api 1 ?cells d1, OF keeps(2)] p b by simp_all
  have step: "if code = Step_done then api_changes api d3 = 1 \<and> (\<exists>row. tab d3 = tab d2 @ [row] \<and> row_of_bound r T ?cells row)
     else tab d3 = tab d2" if ok bok
  proof -
    have "api_prepare api (insert_text r T) (sq_db s) = (True, d1)" "bind_from api 1 ?cells d1 = (True, d2)"
      using p b that by simp_all
    then show ?thesis using assms(1) c len unfolding serves_def by metis
  qed
  have r: "sq_insert api r T OptInsert val s =
      or_int_min (insert_or_update_one api (insert_text r T) OptInsert False ?cells s)"
    by (simp add: sq_insert_def insert_text_generated [OF assms(2,3)])
  note eval = r or_int_min_def insert_or_update_one_def with_guard_def on_db_eq stmt_execute_def Let_def sq_affected_def
    INT_MIN_s_def sq_reset_error_def db_error_def sq_set_last_error_def
  consider "\<not> ok" | "ok" "\<not> bok" | "ok" "bok" "code \<noteq> Step_done" | "ok" "bok" "code = Step_done" by blast
  then show ?thesis
  proof cases
    case 1
    then show ?thesis using assms(5) p t by (auto simp: eval)
  next
    case 2
    then show ?thesis using assms(5) p b t keeps(3) by (auto simp: eval)
  next
    case 3
    then show ?thesis using assms(5) p b c t step keeps(3) by (auto simp: eval)
  next
    case 4
    then show ?thesis using assms(5) p b c t step keeps(3) by (auto simp: eval)
  qed
qed

section \<open>Reading a row back\<close>

definition item_of :: "'f sq_conv \<Rightarrow> 'f \<Rightarrow> struct_meta \<Rightarrow> 'f sq_cell list \<Rightarrow> 'f cpp_val list option" where
  "item_of cv z T row = read_members cv z (\<lambda>i. row ! i) (map f_type (s_fields T)) 0"

lemma read_members_nth:
  assumes "length vs = length tys" "\<And>j. j < length tys \<Longrightarrow> assign cv z (tys ! j) (col (i + j)) = Some (vs ! j)"
  shows "read_members cv z col tys i = Some vs"
  using assms
proof (induction tys arbitrary: vs i)
  case (Cons ty tys)
  obtain v ws where vs: "vs = v # ws" using Cons.prems(1) by (cases vs) auto
  have "assign cv z ty (col i) = Some v" using Cons.prems(2) [of 0] by (simp add: vs)
  moreover have "read_members cv z col tys (Suc i) = Some ws"
    using Cons.prems(1) Cons.prems(2) [of "Suc _"] by (intro Cons.IH) (simp_all add: vs)
  ultimately show ?case by (simp add: vs)
qed simp

lemma read_members_cong:
  "(\<And>j. j < i + length tys \<Longrightarrow> col j = col' j) \<Longrightarrow> read_members cv z col tys i = read_members cv z col' tys i"
  by (induction tys arbitrary: i) (simp_all cong: option.case_cong)

lemma yields_map: "yields step row d rows code d' \<Longrightarrow> yields step (\<lambda>d. f (row d)) d (map f rows) code d'"
  by (induction rule: yields.induct) (auto intro: yields.intros)

lemma bound_cell_of:
  assumes "distinct (member_names T)" "length val = length (s_fields T)" "i < length (s_fields T)"
  shows "map_of (zip (insert_columns r T True) (bound_cells r T [] val OptInsert False)) (member_names T ! i) =
    (if is_auto_key r T (member_names T ! i) then None
     else Some (set_param_bind (f_type (s_fields T ! i)) (val ! i)))"
proof -
  let ?ps = "filter (\<lambda>(f, v). \<not> is_auto_key r T (f_name f)) (zip (s_fields T) val)"
  have n: "insert_columns r T True = map (\<lambda>(f, v). f_name f) ?ps"
    using filter_zip_names [OF assms(2), of "\<lambda>n. \<not> is_auto_key r T n"] by (simp add: insert_columns_def member_names_def)
  have "bound_cells r T [] val OptInsert False = map (\<lambda>(f, v). set_param_bind (f_type f) v) ?ps"
    by (simp add: bound_cells_def bound_values_def Let_def)
  with n have z: "zip (insert_columns r T True) (bound_cells r T [] val OptInsert False) =
    map (\<lambda>(f, v). (f_name f, set_param_bind (f_type f) v)) ?ps" (is "?z = ?m")
    by (simp add: zip_map_map zip_same_conv_map case_prod_beta)
  have names: "map fst ?m = insert_columns r T True" by (simp add: n case_prod_beta)
  have d: "distinct (map fst ?m)" unfolding names insert_columns_def using assms(1) by simp
  have at: "member_names T ! i = f_name (s_fields T ! i)" using assms(3) by (simp add: member_names_def)
  show ?thesis
  proof (cases "is_auto_key r T (member_names T ! i)")
    case True
    then have "member_names T ! i \<notin> fst ` set ?m"
      unfolding list.set_map [symmetric] names by (simp add: insert_columns_def)
    then show ?thesis using True by (simp add: z map_of_eq_None_iff)
  next
    case False
    have "(s_fields T ! i, val ! i) \<in> set (zip (s_fields T) val)" using assms(2,3) by (simp add: set_zip) blast
    with False at have "(f_name (s_fields T ! i), set_param_bind (f_type (s_fields T ! i)) (val ! i)) \<in> set ?m" by force
    then have "map_of ?m (member_names T ! i) = Some (set_param_bind (f_type (s_fields T ! i)) (val ! i))"
      using d at by (simp only: map_of_is_SomeI)
    then show ?thesis using False by (simp add: z)
  qed
qed

text \<open>A member that the statement names is read back as it was; an auto key reads the number the library chose.\<close>

definition same_item :: "registry \<Rightarrow> struct_meta \<Rightarrow> 'f cpp_val list \<Rightarrow> 'f cpp_val list \<Rightarrow> bool" where
  "same_item r T val found \<longleftrightarrow> length found = length (s_fields T) \<and>
     (\<forall>i < length (s_fields T). \<not> is_auto_key r T (f_name (s_fields T ! i)) \<longrightarrow> found ! i = val ! i)"

definition keeps_item :: "struct_meta \<Rightarrow> 'f cpp_val list \<Rightarrow> bool" where
  "keeps_item T val \<longleftrightarrow> list_all2 (\<lambda>f v. has_type (f_type f) v \<and> kept (f_type f) v) (s_fields T) val"

definition auto_keys_count :: "registry \<Rightarrow> struct_meta \<Rightarrow> 'f sq_conv \<Rightarrow> 'f \<Rightarrow> bool" where
  "auto_keys_count r T cv z \<longleftrightarrow>
     (\<forall>f \<in> set (s_fields T). is_auto_key r T (f_name f) \<longrightarrow> (\<forall>k. assign cv z (f_type f) (S_int k) \<noteq> None))"

lemma item_of_inserted:
  assumes "conv_ok cv" "distinct (member_names T)" "keeps_item T val" "auto_keys_count r T cv z"
    "row_of_bound r T (bound_cells r T [] val OptInsert False) row"
  obtains found where "item_of cv z T row = Some found" "same_item r T val found"
proof -
  let ?n = "length (s_fields T)"
  let ?found = "map (\<lambda>i. the (assign cv z (f_type (s_fields T ! i)) (row ! i))) [0 ..< ?n]"
  have len: "length val = ?n" using assms(3) by (auto simp: keeps_item_def dest: list_all2_lengthD)
  have cell: "case map_of (zip (insert_columns r T True) (bound_cells r T [] val OptInsert False)) (member_names T ! i) of
      Some b \<Rightarrow> row ! i = b | None \<Rightarrow> row ! i = S_null \<or> (\<exists>k. row ! i = S_int k)" if "i < ?n" for i
    using assms(5) that unfolding row_of_bound_def by (auto dest: list_all2_nthD)
  have named: "assign cv z (f_type (s_fields T ! i)) (row ! i) = Some (val ! i)"
    if "i < ?n" "\<not> is_auto_key r T (f_name (s_fields T ! i))" for i
  proof -
    have "row ! i = set_param_bind (f_type (s_fields T ! i)) (val ! i)"
      using cell [OF that(1)] bound_cell_of [OF assms(2) len that(1), of r] that by (simp add: member_names_def)
    moreover have "has_type (f_type (s_fields T ! i)) (val ! i)" "kept (f_type (s_fields T ! i)) (val ! i)"
      using assms(3) that(1) unfolding keeps_item_def by (auto dest: list_all2_nthD)
    ultimately show ?thesis using value_kept [OF assms(1)] by simp
  qed
  have some: "assign cv z (f_type (s_fields T ! i)) (row ! i) \<noteq> None" if "i < ?n" for i
  proof (cases "is_auto_key r T (f_name (s_fields T ! i))")
    case True
    then have "row ! i = S_null \<or> (\<exists>k. row ! i = S_int k)"
      using cell [OF that] bound_cell_of [OF assms(2) len that, of r] that by (simp add: member_names_def)
    moreover have "s_fields T ! i \<in> set (s_fields T)" using that by simp
    moreover have "assign cv z (f_type (s_fields T ! i)) S_null \<noteq> None" by (simp add: assign_def)
    ultimately show ?thesis using assms(4) True unfolding auto_keys_count_def by metis
  qed (use named that in simp)
  have "item_of cv z T row = Some ?found"
    unfolding item_of_def by (rule read_members_nth) (use some in auto)
  moreover have "same_item r T val ?found" using named by (simp add: same_item_def)
  ultimately show thesis by (rule that)
qed

section \<open>A program of inserts\<close>

fun insert_each ::
  "('d, 'f) sqlite_api \<Rightarrow> registry \<Rightarrow> struct_meta \<Rightarrow> 'f cpp_val list list \<Rightarrow> 'd sqlite \<Rightarrow> int list \<times> 'd sqlite" where
  "insert_each api r T [] s = ([], s)"
| "insert_each api r T (val # vals) s =
     (let (n, s) = sq_insert api r T OptInsert val s; (ns, s) = insert_each api r T vals s in (n # ns, s))"

text \<open>The items whose insert returned 1.\<close>

definition inserted :: "int list \<Rightarrow> 'a list \<Rightarrow> 'a list" where
  "inserted ns vals = map snd (filter (\<lambda>(n, v). n = 1) (zip ns vals))"

lemma inserted_simps [simp]:
  "inserted [] [] = []" "inserted (n # ns) (v # vs) = (if n = 1 then [v] else []) @ inserted ns vs"
  by (simp_all add: inserted_def)

lemma insert_each_rows:
  assumes "serves api r T tab" "insert_columns r T True \<noteq> []" "get_short_struct_name T \<noteq> []"
    "conv_ok cv" "distinct (member_names T)" "auto_keys_count r T cv z"
  shows "list_all (keeps_item T) vals \<Longrightarrow> insert_each api r T vals s = (ns, s') \<Longrightarrow>
    set ns \<subseteq> {1, INT_MIN_s} \<and>
    (\<exists>rows found. tab (sq_db s') = tab (sq_db s) @ rows \<and> map (item_of cv z T) rows = map Some found \<and>
      list_all2 (same_item r T) (inserted ns vals) found)"
proof (induction vals arbitrary: s ns)
  case (Cons val vals)
  obtain n s1 where i: "sq_insert api r T OptInsert val s = (n, s1)" by fastforce
  obtain ms where e: "insert_each api r T vals s1 = (ms, s')" "ns = n # ms"
    using Cons.prems(2) i by (auto split: prod.splits)
  have val: "keeps_item T val" using Cons.prems(1) by simp
  then have len: "length val = length (s_fields T)" by (auto simp: keeps_item_def dest: list_all2_lengthD)
  obtain rows found where rest: "set ms \<subseteq> {1, INT_MIN_s}" "tab (sq_db s') = tab (sq_db s1) @ rows"
    "map (item_of cv z T) rows = map Some found" "list_all2 (same_item r T) (inserted ms vals) found"
    using Cons.IH [OF _ e(1)] Cons.prems(1) by auto
  from sq_insert_appends [OF assms(1-3) len i] show ?case
  proof
    assume "n = 1 \<and> (\<exists>row. tab (sq_db s1) = tab (sq_db s) @ [row] \<and>
      row_of_bound r T (bound_cells r T [] val OptInsert False) row)"
    then obtain row where row: "n = 1" "tab (sq_db s1) = tab (sq_db s) @ [row]"
      "row_of_bound r T (bound_cells r T [] val OptInsert False) row" by blast
    obtain f where "item_of cv z T row = Some f" "same_item r T val f"
      using item_of_inserted [OF assms(4,5) val assms(6) row(3)] .
    then show ?thesis using rest row
      by (intro conjI exI [of _ "row # rows"] exI [of _ "f # found"]) (simp_all add: e(2))
  next
    assume "n = INT_MIN_s \<and> tab (sq_db s1) = tab (sq_db s)"
    then show ?thesis using rest
      by (intro conjI exI [of _ rows] exI [of _ found]) (simp_all add: e(2) INT_MIN_s_def)
  qed
qed simp

lemma select_all_rows:
  assumes "serves api r T tab" "s_fields T \<noteq> []" "get_short_struct_name T \<noteq> []"
    "fst (api_prepare api (select_prefix T SQLite) (sq_db s))"
  obtains s' where "sq_query_s api cv z T [] [] s = Some (map (item_of cv z T) (tab (sq_db s)), s')"
    "tab (sq_db s') = tab (sq_db s)"
proof -
  obtain d1 where p: "api_prepare api (select_prefix T SQLite) (sq_db s) = (True, d1)"
    using assms(4) by (metis prod.collapse)
  let ?n = "length (member_names T)"
  obtain d2 where y: "yields (api_step api) (\<lambda>d. map (api_column api d) [0 ..< ?n]) d1 (tab d1) Step_done d2" "tab d2 = tab d1"
    using assms(1) p unfolding serves_def by meson
  have keeps: "\<And>sql d. tab (snd (api_prepare api sql d)) = tab d" "\<And>d. tab (snd (api_finalize api d)) = tab d"
    using assms(1) unfolding serves_def by blast+
  have t: "tab d1 = tab (sq_db s)" using keeps(1) [of "select_prefix T SQLite" "sq_db s"] p by simp
  have row: "(\<lambda>d. item_of cv z T (map (api_column api d) [0 ..< ?n])) =
    (\<lambda>d. read_members cv z (api_column api d) (map f_type (s_fields T)) 0)"
    unfolding item_of_def by (intro ext read_members_cong) simp
  have "fetch (api_step api) (\<lambda>d. read_members cv z (api_column api d) (map f_type (s_fields T)) 0) d1 [] =
    Some (map (item_of cv z T) (tab d1), d2)"
    using yields_map [OF y(1), of "item_of cv z T"] unfolding row fetch_iff by blast
  then have "sq_query_s api cv z T [] [] s =
    Some (map (item_of cv z T) (tab d1), close_statement api ((sq_reset_error (s\<lparr>sq_db := d1\<rparr>))\<lparr>sq_db := d2\<rparr>))"
    using p by (simp add: sq_query_s_def run_query_def on_db_eq select_generated [OF assms(2,3)] contains_select_def
        sq_reset_error_def)
  then show thesis using that t y(2) keeps(2) by simp
qed


section \<open>A library for the witness\<close>

text \<open>It knows the two statements of one struct, and keeps the rows and the statement at work.\<close>

datatype 'f statement = Closed | Inserting "'f sq_cell list" | Selecting "'f sq_cell list list" "'f sq_cell list"

type_synonym 'f mem_db = "'f sq_cell list list \<times> 'f statement"

definition mem_row :: "registry \<Rightarrow> struct_meta \<Rightarrow> 'f sq_cell list \<Rightarrow> int \<Rightarrow> 'f sq_cell list" where
  "mem_row r T cells k =
     map (\<lambda>n. case map_of (zip (insert_columns r T True) cells) n of Some c \<Rightarrow> c | None \<Rightarrow> S_int k) (member_names T)"

fun mem_step :: "registry \<Rightarrow> struct_meta \<Rightarrow> 'f mem_db \<Rightarrow> step_code \<times> 'f mem_db" where
  "mem_step r T (rows, Inserting cells) = (Step_done, rows @ [mem_row r T cells (int (length rows) + 1)], Closed)"
| "mem_step r T (rows, Selecting (row # todo) _) = (Step_row, rows, Selecting todo row)"
| "mem_step r T (rows, Selecting [] cur) = (Step_done, rows, Closed)"
| "mem_step r T (rows, Closed) = (Step_error, rows, Closed)"

fun mem_bind :: "'f sq_cell \<Rightarrow> 'f mem_db \<Rightarrow> bool \<times> 'f mem_db" where
  "mem_bind c (rows, Inserting cells) = (True, rows, Inserting (cells @ [c]))"
| "mem_bind c d = (False, d)"

text \<open>A row of another width is no row of the struct's table.\<close>

definition mem_tab :: "struct_meta \<Rightarrow> 'f mem_db \<Rightarrow> 'f sq_cell list list" where
  "mem_tab T d = filter (\<lambda>row. length row = length (member_names T)) (fst d)"

definition mem_api :: "registry \<Rightarrow> struct_meta \<Rightarrow> ('f mem_db, 'f) sqlite_api" where
  "mem_api r T =
     \<lparr>api_open = (\<lambda>f d. (True, d)), api_close = (\<lambda>d. (True, d)),
      api_prepare = (\<lambda>sql (rows, st). if sql = insert_text r T then (True, rows, Inserting [])
        else if sql = select_prefix T SQLite then (True, rows, Selecting (mem_tab T (rows, st)) []) else (False, rows, st)),
      api_bind = (\<lambda>i. mem_bind), api_step = mem_step r T,
      api_column = (\<lambda>(rows, st) i. case st of Selecting _ cur \<Rightarrow> cur ! i | _ \<Rightarrow> S_null),
      api_reset = (\<lambda>d. (True, d)), api_finalize = (\<lambda>d. (0, d)), api_exec = (\<lambda>sql d. (True, d)),
      api_changes = (\<lambda>d. 1), api_rowid = (\<lambda>(rows, st). int (length rows)), api_errmsg = (\<lambda>d. [])\<rparr>"

lemma mem_bind_from: "bind_from (mem_api r T) i cells (rows, Inserting cs) = (True, rows, Inserting (cs @ cells))"
  by (induction cells arbitrary: i cs) (simp_all add: mem_api_def)

lemma mem_yields:
  assumes "list_all (\<lambda>row. length row = n) todo"
  shows "yields (mem_step r T) (\<lambda>d. map (api_column (mem_api r T) d) [0 ..< n]) (rows, Selecting todo cur) todo
    Step_done (rows, Closed)"
  using assms
proof (induction todo arbitrary: cur)
  case (Cons row todo)
  have "map (api_column (mem_api r T) (rows, Selecting todo row)) [0 ..< n] = row"
    using Cons.prems by (intro nth_equalityI) (simp_all add: mem_api_def)
  then show ?case
    using yields.more [of "mem_step r T" "(rows, Selecting (row # todo) cur)" "(rows, Selecting todo row)"
        "\<lambda>d. map (api_column (mem_api r T) d) [0 ..< n]"] Cons by simp
qed (auto intro: yields.stop)

lemma mem_row_bound: "row_of_bound r T cells (mem_row r T cells k)"
  by (auto simp: row_of_bound_def mem_row_def list_all2_conv_all_nth split: option.split)

lemma mem_serves:
  assumes "insert_text r T \<noteq> select_prefix T SQLite"
  shows "serves (mem_api r T) r T (mem_tab T)"
  unfolding serves_def
proof (intro conjI allI impI)
  fix sql and d :: "'a mem_db"
  show "mem_tab T (snd (api_prepare (mem_api r T) sql d)) = mem_tab T d"
    by (cases d) (simp add: mem_api_def mem_tab_def)
next
  fix i c and d :: "'a mem_db"
  show "mem_tab T (snd (api_bind (mem_api r T) i c d)) = mem_tab T d"
    by (cases "(c, d)" rule: mem_bind.cases) (auto simp: mem_api_def mem_tab_def)
next
  fix d :: "'a mem_db"
  show "mem_tab T (snd (api_finalize (mem_api r T) d)) = mem_tab T d" by (simp add: mem_api_def)
next
  fix cells code and d d1 d2 d3 :: "'a mem_db"
  assume "api_prepare (mem_api r T) (insert_text r T) d = (True, d1)" "bind_from (mem_api r T) 1 cells d1 = (True, d2)"
    "api_step (mem_api r T) d2 = (code, d3)"
  moreover have "api_prepare (mem_api r T) (insert_text r T) d = (True, fst d, Inserting [])"
    by (cases d) (simp add: mem_api_def)
  ultimately have "d2 = (fst d, Inserting cells)" "mem_step r T d2 = (code, d3)"
    using mem_bind_from [of r T 1 cells "fst d" "[]"] by (simp_all add: mem_api_def)
  then have "d2 = (fst d, Inserting cells)" "code = Step_done"
    "d3 = (fst d @ [mem_row r T cells (int (length (fst d)) + 1)], Closed)" by simp_all
  then show "if code = Step_done then api_changes (mem_api r T) d3 = 1 \<and>
      (\<exists>row. mem_tab T d3 = mem_tab T d2 @ [row] \<and> row_of_bound r T cells row) else mem_tab T d3 = mem_tab T d2"
    by (simp add: mem_tab_def mem_row_bound) (simp add: mem_api_def mem_row_def)
next
  fix d d1 :: "'a mem_db"
  assume "api_prepare (mem_api r T) (select_prefix T SQLite) d = (True, d1)"
  then have "d1 = (fst d, Selecting (mem_tab T d) [])" using assms by (cases d) (simp add: mem_api_def split: if_splits)
  moreover have "list_all (\<lambda>row. length row = length (member_names T)) (mem_tab T d)"
    by (simp add: mem_tab_def list_all_iff)
  ultimately show "\<exists>d2. yields (api_step (mem_api r T)) (\<lambda>d. map (api_column (mem_api r T) d) [0 ..< length (member_names T)])
      d1 (mem_tab T d1) Step_done d2 \<and> mem_tab T d2 = mem_tab T d1"
    using mem_yields [of "length (member_names T)" "mem_tab T d" r T "fst d" "[]"]
    by (intro exI [of _ "(fst d, Closed)"]) (simp add: mem_tab_def mem_api_def)
qed

definition two_persons :: "unit cpp_val list list" where
  "two_persons = [[CInt 0, CStr ''tom'', COpt None], [CInt 0, CStr ''ann'', COpt (Some (CInt 30))]]"

definition empty_mem :: "unit mem_db sqlite" where
  "empty_mem = \<lparr>sq_db = ([], Closed), sq_open = True, sq_has_error = False, sq_last_error = [], sq_transaction = True\<rparr>"


end
