(* ===== verification/Driver_Tables.thy ===== *)
theory Driver_Tables
  imports Sqlite_Driver
begin

text \<open>
  \<^verbatim>\<open>generate_createtb_sql\<close> and \<^verbatim>\<open>create_datatable\<close> of the three blocking drivers
  (\<^verbatim>\<open>ormpp/sqlite.hpp\<close>, \<^verbatim>\<open>ormpp/mysql.hpp\<close>, \<^verbatim>\<open>ormpp/postgresql.hpp\<close>).  The three copies of the generator
  differ in the text that makes a column auto-increment, in the primary key, and in that SQLite's
  registers an auto key found among the arguments.
\<close>

section \<open>The generator\<close>

text \<open>What each loop does behind the type of an auto-increment column; PostgreSQL's takes the type off
  again, character by character.\<close>

fun auto_mark :: "db_type \<Rightarrow> string \<Rightarrow> string \<Rightarrow> string" where
  "auto_mark SQLite sql ty = sql @ '' PRIMARY KEY AUTOINCREMENT ''"
| "auto_mark PostgreSQL sql ty =
     (butlast ^^ length ty) sql @ (if ty = ''bigint'' then '' bigserial '' else '' serial '')"
| "auto_mark db sql ty = sql @ '' AUTO_INCREMENT ''"

text \<open>\<^verbatim>\<open>*item.fields.begin()\<close> of an empty set has no value.\<close>

fun arg_defined :: "table_arg \<Rightarrow> bool" where
  "arg_defined (Ormpp_unique fs) = (fs \<noteq> [])"
| "arg_defined _ = True"

definition register_found_key :: "db_type \<Rightarrow> registry \<Rightarrow> struct_meta \<Rightarrow> string option \<Rightarrow> registry" where
  "register_found_key db r T found =
     (case found of
        Some n \<Rightarrow> if db = SQLite \<and> get_auto_key r T = [] then add_auto_key_field r (get_short_struct_name T) n else r
      | None \<Rightarrow> r)"

definition generate_createtb_sql ::
  "db_type \<Rightarrow> registry \<Rightarrow> struct_meta \<Rightarrow> table_arg list \<Rightarrow> (string \<times> registry) option" where
  "generate_createtb_sql db r T args =
     (if \<not> list_all arg_defined args then None
      else
        let ta = declared r T db args;
            (pks, r') = get_conflict_keys r T db;
            found = find (\<lambda>n. n \<in> set (ta_auto ta)) (member_names T);
            (sql, auto_key) =
               create_columns (auto_mark db) (zip (member_names T) (get_type_names T db))
                 (''CREATE TABLE IF NOT EXISTS '' @ get_short_struct_name T @ ''('')
                 (ta_auto ta) (ta_not_null ta) (get_auto_key r T);
            sql = (if auto_key \<noteq> [] \<and> db \<noteq> SQLite then sql @ ''PRIMARY KEY ('' @ auto_key @ ''),''
                   else if auto_key = [] \<and> ta_primary ta \<noteq> []
                   then butlast (sql @ ''PRIMARY KEY ('' @ comma_terminated (ta_primary ta)) @ ''),''
                   else sql);
            sql = foldl (\<lambda>sql name. sql @ ''UNIQUE ('' @ name @ ''),'') sql (ta_unique ta)
        in Some (butlast sql @ '')'', register_found_key db r' T found))"

definition sq_create_datatable ::
  "('d, 'f) sqlite_api \<Rightarrow> registry \<Rightarrow> struct_meta \<Rightarrow> table_arg list \<Rightarrow> 'd sqlite \<Rightarrow>
   ((bool \<times> 'd sqlite) \<times> registry) option" where
  "sq_create_datatable api r T args s =
     map_option (\<lambda>(sql, r). (sq_exec api sql s, r)) (generate_createtb_sql SQLite r T args)"

section \<open>The shape of the statement\<close>

fun auto_type :: "db_type \<Rightarrow> string \<Rightarrow> string" where
  "auto_type SQLite ty = ty @ '' PRIMARY KEY AUTOINCREMENT ''"
| "auto_type PostgreSQL ty = (if ty = ''bigint'' then '' bigserial '' else '' serial '')"
| "auto_type db ty = ty @ '' AUTO_INCREMENT ''"

lemma butlast_pow: "(butlast ^^ n) xs = take (length xs - n) xs"
  by (induction n arbitrary: xs) (simp_all add: butlast_conv_take funpow_swap1 del: funpow.simps add: funpow_Suc_right)

lemma auto_mark_type: "auto_mark db (sql @ ty) ty = sql @ auto_type db ty"
  by (cases db) (simp_all add: butlast_pow)

lemma sqlite_keys_text:
  "(if k \<noteq> [] \<and> db \<noteq> SQLite then sql @ ''PRIMARY KEY ('' @ k @ ''),''
    else if k = [] \<and> keys \<noteq> [] then butlast (sql @ ''PRIMARY KEY ('' @ comma_terminated keys) @ ''),''
    else sql) =
   sql @ comma_terminated (if db = SQLite \<and> k \<noteq> [] then [] else key_constraint k keys)"
  by (simp add: key_constraint_def comma_terminated_sep butlast_append)

text \<open>\<^verbatim>\<open>create_datatable\<close> of a driver defines every member in order, the first declared auto key - and
  only it - as the database's auto-increment column (on PostgreSQL a serial type in place of the
  member's own), then the primary key, then the unique constraints.  SQLite declares no separate key
  when there is an auto key, so that declared keys are ignored - and the table has no primary
  key at all when the registered auto key is no member.\<close>

theorem driver_create_statement:
  assumes "distinct (member_names T)" "s_fields T \<noteq> []" "list_all arg_defined args"
  shows "map_option fst (generate_createtb_sql db r T args) =
    (let d = declared r T db args;
         auto = auto_column (ta_auto d) (member_names T);
         key = (case auto of None \<Rightarrow> get_auto_key r T | Some n \<Rightarrow> n)
     in Some (''CREATE TABLE IF NOT EXISTS '' @ get_short_struct_name T @ ''('' @
        comma_sep
          (map (column_definition_text (auto_type db) auto (set (ta_not_null d)))
             (zip (member_names T) (get_type_names T db)) @
           (if db = SQLite \<and> key \<noteq> [] then [] else key_constraint key (ta_primary d)) @
           map (\<lambda>n. ''UNIQUE ('' @ n @ '')'') (ta_unique d)) @ '')''))"
proof -
  let ?cols = "zip (member_names T) (get_type_names T db)" and ?d = "declared r T db args"
  have len: "length (get_type_names T db) = length (s_fields T)" by (simp add: get_type_names_def)
  then have m: "map fst ?cols = member_names T" by simp
  obtain pks r' where g: "get_conflict_keys r T db = (pks, r')" by fastforce
  note shape = create_columns_shape [of ?cols "auto_mark db" "auto_type db", unfolded m, OF assms(1) auto_mark_type]
  have ne: "?cols \<noteq> []" using assms(2) by (simp add: member_names_def get_type_names_def)
  have bl: "butlast (''CREATE TABLE IF NOT EXISTS '' @ t @ ''('' @ comma_terminated (map f ?cols) @
        comma_terminated ks @ comma_terminated us) =
      ''CREATE TABLE IF NOT EXISTS '' @ t @ ''('' @ comma_sep (map f ?cols @ ks @ us)"
    for t ks us and f :: "string \<times> string \<Rightarrow> string"
    using ne butlast_app_comma_terminated [of "map f ?cols @ ks @ us" "''CREATE TABLE IF NOT EXISTS '' @ t @ ''(''"]
    by (simp only: append_assoc comma_terminated_app append_is_Nil_conv map_is_Nil_conv simp_thms)
  have p: "\<not> list_all arg_defined args \<longleftrightarrow> False" using assms(3) by simp
  show ?thesis
    unfolding generate_createtb_sql_def Let_def g prod.case shape sqlite_keys_text unique_text p if_False
      option.map fst_conv
    by (simp only: append_assoc bl)
qed

theorem driver_create_statement_witness:
  "map fst [the (generate_createtb_sql SQLite empty_registry person [Ormpp_auto_key ''id'', Ormpp_key ''name'']),
            the (generate_createtb_sql PostgreSQL empty_registry person [Ormpp_auto_key ''id'', Ormpp_key ''name''])] =
   [''CREATE TABLE IF NOT EXISTS person(id INTEGER PRIMARY KEY AUTOINCREMENT ,name TEXT,age INTEGER)'',
    ''CREATE TABLE IF NOT EXISTS person(id  serial ,name text,age integer,PRIMARY KEY (id))'']"
proof -
  let ?args = "[Ormpp_auto_key ''id'', Ormpp_key ''name'']"
  have d: "distinct (member_names person)" "list_all arg_defined ?args" by code_simp+
  note s = driver_create_statement [OF d(1) person_fields_nonempty d(2), of _ empty_registry]
  have f: "fst (the x) = the (map_option fst x)" if "x \<noteq> None" for x :: "(string \<times> registry) option"
    using that by auto
  have n: "generate_createtb_sql db empty_registry person ?args \<noteq> None" for db
    using s [of db] by (auto simp: Let_def)
  show ?thesis unfolding list.map f [OF n] s by code_simp
qed

text \<open>C17: An auto key named only in the arguments of \<^verbatim>\<open>create_datatable\<close> is registered by SQLite's driver
  alone: there inserts skip it from then on; the other drivers leave the registry as it was, so that
  their inserts go on writing the member's value into the column.\<close>

theorem created_auto_key_skipped:
  assumes "generate_createtb_sql db r T args = Some (sql, r')" "auto_key_map r (get_short_struct_name T) = None"
  shows "filter (\<lambda>f. is_auto_key r' T (f_name f)) (s_fields T) =
    (if db = SQLite
     then filter (\<lambda>f. auto_column (ta_auto (declared r T db args)) (member_names T) = Some (f_name f)) (s_fields T)
     else [])"
proof -
  obtain pks r1 where g: "get_conflict_keys r T db = (pks, r1)" by fastforce
  then have k: "auto_key_map r1 = auto_key_map r" by (auto simp: get_conflict_keys_def Let_def split: if_splits)
  from assms(1) g have "r' = register_found_key db r1 T (auto_column (ta_auto (declared r T db args)) (member_names T))"
    by (auto simp: generate_createtb_sql_def Let_def auto_column_def split: if_splits prod.splits)
  then show ?thesis using assms(2) k
    by (auto simp: register_found_key_def is_auto_key_def get_auto_key_def add_auto_key_field_def emplace_def
        filter_empty_conv split: option.splits intro!: filter_cong)
qed

theorem created_auto_key_skipped_witness:
  "map (\<lambda>db. map f_name (filter (\<lambda>f. is_auto_key (snd (the (generate_createtb_sql db empty_registry person
      [Ormpp_auto_key ''id'']))) person (f_name f)) (s_fields person))) [SQLite, PostgreSQL] = [[''id''], []]"
proof -
  let ?g = "\<lambda>db. generate_createtb_sql db empty_registry person [Ormpp_auto_key ''id'']"
  have n: "?g db = Some (fst (the (?g db)), snd (the (?g db)))" for db
    by (simp add: generate_createtb_sql_def Let_def split: prod.splits)
  have e: "auto_key_map empty_registry (get_short_struct_name person) = None" by (simp add: empty_registry_def)
  have d: "filter (\<lambda>f. auto_column (ta_auto (declared empty_registry person SQLite [Ormpp_auto_key ''id'']))
      (member_names person) = Some (f_name f)) (s_fields person) = [hd (s_fields person)]" "f_name (hd (s_fields person)) = ''id''"
    by code_simp+
  show ?thesis using created_auto_key_skipped [OF n e, of SQLite] created_auto_key_skipped [OF n e, of PostgreSQL] d
    by simp
qed

end
