(* ===== verification/Postgresql_Driver.thy ===== *)
theory Postgresql_Driver
  imports Driver_Tables
begin

text \<open>
  The PostgreSQL driver \<^verbatim>\<open>ormpp/postgresql.hpp\<close>: parameter buffers, result cells, prepared and plain
  statements with their result guard, transactions, inserts and updates, queries, the connection
  string.  libpq is the parameter \<open>api\<close>, a record of functions on a state \<open>'c\<close>; a result of libpq is
  the record of what its accessor functions return, \<open>None\<close> a null pointer.  The number of parameter
  types given to \<^verbatim>\<open>PQprepare\<close> is left out: the array of types is null.  An outer \<open>None\<close> of an operation is
  undefined behaviour.
\<close>

section \<open>Parameters\<close>

definition padded :: "nat \<Rightarrow> string \<Rightarrow> string" where
  "padded n t = t @ replicate (n - length t) (CHR 0x00)"

text \<open>\<^verbatim>\<open>set_param_values\<close>: the buffer of one parameter.  \<open>sf\<close> is \<^verbatim>\<open>sprintf\<close> with \<^verbatim>\<open>%f\<close>, which writes past
  the end of its buffer of 20 characters for a long text (\<open>None\<close>).  A \<^verbatim>\<open>std::string_view\<close> is taken to view
  a text with its NUL, a character array to be a C array (of a \<^verbatim>\<open>std::array\<close> one character more is
  copied).\<close>

fun scalar_buffer :: "('f \<Rightarrow> string) \<Rightarrow> scalar_type \<Rightarrow> 'f cpp_val \<Rightarrow> string option" where
  "scalar_buffer sf ty (CBool b) = Some (padded 20 (int_str (if b then 1 else 0)))"
| "scalar_buffer sf ty (CInt i) =
     Some (if ty = TChar then padded 20 [char_of_byte (word_of_int i)]
           else if is_int64 ty then padded 65 (int_str i) else padded 20 (int_str i))"
| "scalar_buffer sf ty (CEnum i) = Some (padded 20 (int_str i))"
| "scalar_buffer sf ty (CFloat x) = (if length (sf x) < 20 then Some (padded 20 (sf x)) else None)"
| "scalar_buffer sf ty (CStr t) = Some (t @ [CHR 0x00])"
| "scalar_buffer sf ty (CChars t) = Some t"
| "scalar_buffer sf ty (CBlob b) = Some (map char_of_byte b)"
| "scalar_buffer sf ty (COpt v) = Some []"

fun set_param_values :: "('f \<Rightarrow> string) \<Rightarrow> field_type \<Rightarrow> 'f cpp_val \<Rightarrow> string option" where
  "set_param_values sf (Optional ty) (COpt (Some v)) = scalar_buffer sf ty v"
| "set_param_values sf (Optional ty) v = Some []"
| "set_param_values sf (Plain ty) v = scalar_buffer sf ty v"
| "set_param_values sf Enum v = scalar_buffer sf TInt v"

text \<open>What libpq makes of a buffer: the address of an empty one is null; a text ends at its first NUL, and
  without one is read past the end.\<close>

datatype pg_param = P_null | P_text string | P_overrun

definition param_text :: "string \<Rightarrow> pg_param" where
  "param_text buf = (if buf = [] then P_null else if CHR 0x00 \<in> set buf then P_text (cut_nul buf) else P_overrun)"

section \<open>Results\<close>

text \<open>A cell of a text result; \<open>None\<close> is NULL.  \<open>atof\<close> is a parameter.  The result \<open>None\<close>: no defined value
  (\<^verbatim>\<open>atoi\<close> out of range, \<^verbatim>\<open>memcpy\<close> past the end of the text).\<close>

fun pg_assign_scalar :: "(string \<Rightarrow> 'f) \<Rightarrow> scalar_type \<Rightarrow> string \<Rightarrow> 'f cpp_val option" where
  "pg_assign_scalar atof TBool t = map_option (\<lambda>i. CBool (i \<noteq> 0)) (atoi t)"
| "pg_assign_scalar atof TFloat t = Some (CFloat (atof t))"
| "pg_assign_scalar atof TDouble t = Some (CFloat (atof t))"
| "pg_assign_scalar atof TString t = Some (CStr t)"
| "pg_assign_scalar atof TStringView t = Some (CStr t)"
| "pg_assign_scalar atof (TCharArray n) t =
     (let buffer = t @ [CHR 0x00] in if n \<le> length buffer then Some (CChars (take n buffer)) else None)"
| "pg_assign_scalar atof TBlob t = Some (CBlob (map byte_of_char t))"
| "pg_assign_scalar atof ty t =
     map_option (\<lambda>i. CInt (wrap_to ty i)) (if is_int64 ty then atoll t else atoi t)"

definition pg_assign :: "(string \<Rightarrow> 'f) \<Rightarrow> 'f \<Rightarrow> field_type \<Rightarrow> string option \<Rightarrow> 'f cpp_val option" where
  "pg_assign atof z ty cell =
     (case cell of
        None \<Rightarrow> Some (default_value_of z ty)
      | Some t \<Rightarrow> (case ty of
          Plain s \<Rightarrow> pg_assign_scalar atof s t
        | Optional s \<Rightarrow> map_option (\<lambda>v. COpt (Some v)) (pg_assign_scalar atof s t)
        | Enum \<Rightarrow> map_option CEnum (atoi t)))"

datatype pg_status = Command_ok | Tuples_ok | Failed

record pg_result =
  pr_status :: pg_status
  pr_cmd_tuples :: string
  pr_rows :: "string option list list"
  pr_error :: string

definition status_of :: "pg_result option \<Rightarrow> pg_status" where
  "status_of res = (case res of None \<Rightarrow> Failed | Some r \<Rightarrow> pr_status r)"

section \<open>The driver and the library\<close>

record 'c pg_api =
  pq_connectdb :: "string \<Rightarrow> 'c \<Rightarrow> 'c"
  pq_connected :: "'c \<Rightarrow> bool"
  pq_error_message :: "'c \<Rightarrow> string"
  pq_finish :: "'c \<Rightarrow> 'c"
  pq_exec :: "string \<Rightarrow> 'c \<Rightarrow> pg_result option \<times> 'c"
  pq_prepare :: "string \<Rightarrow> 'c \<Rightarrow> pg_result option \<times> 'c"
  pq_exec_prepared :: "string list \<Rightarrow> 'c \<Rightarrow> pg_result option \<times> 'c"

record 'c postgresql =
  pg_con :: 'c
  pg_open :: bool
  pg_has_error :: bool
  pg_last_error :: string
  pg_transaction :: bool
  pg_last_affect_rows :: "32 word"

definition pg_reset_error :: "'c postgresql \<Rightarrow> 'c postgresql" where
  "pg_reset_error s = s\<lparr>pg_has_error := False, pg_last_error := []\<rparr>"

definition pg_set_last_error :: "string \<Rightarrow> 'c postgresql \<Rightarrow> 'c postgresql" where
  "pg_set_last_error e s = s\<lparr>pg_has_error := True, pg_last_error := e\<rparr>"

text \<open>A call on a null connection yields a null result.\<close>

definition on_con :: "('c \<Rightarrow> pg_result option \<times> 'c) \<Rightarrow> 'c postgresql \<Rightarrow> pg_result option \<times> 'c postgresql" where
  "on_con f s = (if pg_open s then let (x, c) = f (pg_con s) in (x, s\<lparr>pg_con := c\<rparr>) else (None, s))"

text \<open>\<^verbatim>\<open>guard_statment\<close>: the error is cleared when the result is guarded and set when it is released.\<close>

definition release :: "pg_result option \<Rightarrow> 'c postgresql \<Rightarrow> 'c postgresql" where
  "release res s =
     (case res of None \<Rightarrow> s
      | Some r \<Rightarrow> if pr_status r \<noteq> Command_ok \<and> pr_status r \<noteq> Tuples_ok
                  then pg_set_last_error (pr_error r) s else s)"

definition guarded :: "('c \<Rightarrow> pg_result option \<times> 'c) \<Rightarrow> 'c postgresql \<Rightarrow> pg_result option \<times> 'c postgresql" where
  "guarded call s = (let (res, s) = on_con call s in (res, release res (pg_reset_error s)))"

definition pg_command :: "'c pg_api \<Rightarrow> string \<Rightarrow> 'c postgresql \<Rightarrow> bool \<times> 'c postgresql" where
  "pg_command api sql s = (let (res, s) = guarded (pq_exec api sql) s in (status_of res = Command_ok, s))"

definition pg_begin :: "'c pg_api \<Rightarrow> 'c postgresql \<Rightarrow> bool \<times> 'c postgresql" where
  "pg_begin api s = pg_command api ''begin;'' s"

definition pg_commit :: "'c pg_api \<Rightarrow> 'c postgresql \<Rightarrow> bool \<times> 'c postgresql" where
  "pg_commit api s = pg_command api ''commit;'' s"

definition pg_rollback :: "'c pg_api \<Rightarrow> 'c postgresql \<Rightarrow> bool \<times> 'c postgresql" where
  "pg_rollback api s = pg_command api ''rollback;'' s"

definition pg_set_enable_transaction :: "bool \<Rightarrow> 'c postgresql \<Rightarrow> 'c postgresql" where
  "pg_set_enable_transaction enable s = s\<lparr>pg_transaction := enable\<rparr>"

definition pg_execute :: "'c pg_api \<Rightarrow> string \<Rightarrow> 'c postgresql \<Rightarrow> bool \<times> 'c postgresql" where
  "pg_execute api sql s =
     (let (res, s) = guarded (pq_exec api sql) s
      in case res of
           Some r \<Rightarrow> if pr_status r = Command_ok
             then (True, s\<lparr>pg_last_affect_rows := of_nat (strtoull (pr_cmd_tuples r))\<rparr>)
             else (False, s\<lparr>pg_last_affect_rows := 0\<rparr>)
         | None \<Rightarrow> (False, s\<lparr>pg_last_affect_rows := 0\<rparr>))"

definition pg_get_last_affect_rows :: "'c postgresql \<Rightarrow> int" where
  "pg_get_last_affect_rows s = sint (pg_last_affect_rows s)"

interpretation postgresql_driver: sql_driver "\<lambda>s sql. pg_execute api sql s" pg_get_last_affect_rows
  "\<lambda>s. unat (pg_last_affect_rows s)" for api :: "'c pg_api"
  by unfold_locales (simp add: pg_get_last_affect_rows_def sint_is_unat)

definition pg_create_datatable ::
  "'c pg_api \<Rightarrow> registry \<Rightarrow> struct_meta \<Rightarrow> table_arg list \<Rightarrow> 'c postgresql \<Rightarrow>
   ((bool \<times> 'c postgresql) \<times> registry) option" where
  "pg_create_datatable api r T args s =
     map_option (\<lambda>(sql, r). (pg_command api sql s, r)) (generate_createtb_sql PostgreSQL r T args)"

definition pg_prepare :: "'c pg_api \<Rightarrow> string \<Rightarrow> 'c postgresql \<Rightarrow> bool \<times> 'c postgresql" where
  "pg_prepare api sql s = (let (res, s) = guarded (pq_prepare api sql) s in (status_of res = Command_ok, s))"

section \<open>The connection\<close>

definition generate_conn_sql ::
  "string \<Rightarrow> string \<Rightarrow> string \<Rightarrow> string \<Rightarrow> int option \<Rightarrow> int option \<Rightarrow> string" where
  "generate_conn_sql host user passwd db timeout port =
     butlast (''host='' @ host @ '' '' @ ''user='' @ user @ '' '' @ ''password='' @ passwd @ '' '' @
       ''dbname='' @ db @ '' '' @
       (case timeout of None \<Rightarrow> [] | Some t \<Rightarrow> ''connect_timeout='' @ int_str t @ '' '') @
       (case port of None \<Rightarrow> [] | Some p \<Rightarrow> ''port='' @ int_str p @ '' ''))"

definition pg_connect ::
  "'c pg_api \<Rightarrow> string \<Rightarrow> string \<Rightarrow> string \<Rightarrow> string \<Rightarrow> int option \<Rightarrow> int option \<Rightarrow> 'c postgresql \<Rightarrow>
   bool \<times> 'c postgresql" where
  "pg_connect api host user passwd db timeout port s =
     (let s = pg_reset_error s;
          s = s\<lparr>pg_con := pq_connectdb api (generate_conn_sql host user passwd db timeout port) (pg_con s),
                pg_open := True\<rparr>
      in if \<not> pq_connected api (pg_con s)
         then (False, pg_set_last_error (pq_error_message api (pg_con s)) s) else (True, s))"

definition pg_disconnect :: "'c pg_api \<Rightarrow> 'c postgresql \<Rightarrow> bool \<times> 'c postgresql" where
  "pg_disconnect api s =
     (True, if pg_open s then s\<lparr>pg_con := pq_finish api (pg_con s), pg_open := False\<rparr> else s)"

definition pg_ping :: "'c pg_api \<Rightarrow> 'c postgresql \<Rightarrow> bool" where
  "pg_ping api s \<longleftrightarrow> pg_open s \<and> pq_connected api (pg_con s)"

section \<open>Insert, replace, update\<close>

text \<open>The value \<^verbatim>\<open>PQgetvalue(res, 0, 0)\<close>: empty for NULL, a null pointer when there is no row.\<close>

definition first_value :: "pg_result option \<Rightarrow> string option" where
  "first_value res =
     (case res of
        Some r \<Rightarrow> (case pr_rows r of (cell # _) # _ \<Rightarrow> Some (case cell of None \<Rightarrow> [] | Some t \<Rightarrow> t) | _ \<Rightarrow> None)
      | None \<Rightarrow> None)"

definition pg_stmt_execute ::
  "'c pg_api \<Rightarrow> string list option \<Rightarrow> 'c postgresql \<Rightarrow> (nat option \<times> 'c postgresql) option" where
  "pg_stmt_execute api param_values s =
     (case param_values of
        None \<Rightarrow> None
      | Some params \<Rightarrow>
          if params = [] then Some (None, s)
          else let (res, s) = guarded (pq_exec_prepared api params) s
               in case status_of res of
                    Tuples_ok \<Rightarrow> map_option (\<lambda>v. (Some (strtoull v), s)) (first_value res)
                  | Command_ok \<Rightarrow> Some (Some 1, s)
                  | Failed \<Rightarrow> Some (None, s))"

definition returning :: "registry \<Rightarrow> struct_meta \<Rightarrow> bool \<Rightarrow> string \<Rightarrow> string" where
  "returning r T get_insert_id sql = (if get_insert_id then sql @ ''returning '' @ get_auto_key r T else sql)"

definition pg_one ::
  "'c pg_api \<Rightarrow> string \<Rightarrow> string list option \<Rightarrow> 'c postgresql \<Rightarrow> (nat option \<times> 'c postgresql) option" where
  "pg_one api sql params s =
     (let (ok, s) = pg_prepare api sql s
      in if \<not> ok then Some (None, s) else pg_stmt_execute api params s)"

fun pg_each ::
  "'c pg_api \<Rightarrow> string list option list \<Rightarrow> nat \<Rightarrow> 'c postgresql \<Rightarrow> (nat option \<times> 'c postgresql) option" where
  "pg_each api [] res s = Some (Some res, s)"
| "pg_each api (params # rows) res s =
     (case pg_stmt_execute api params s of
        None \<Rightarrow> None
      | Some (None, s) \<Rightarrow> Some (None, if pg_transaction s then snd (pg_rollback api s) else s)
      | Some (Some n, s) \<Rightarrow> pg_each api rows n s)"

definition pg_many ::
  "'c pg_api \<Rightarrow> string \<Rightarrow> bool \<Rightarrow> string list option list \<Rightarrow> 'c postgresql \<Rightarrow> (int option \<times> 'c postgresql) option" where
  "pg_many api sql get_insert_id rows s =
     (let (begun, s) = (if pg_transaction s then pg_begin api s else (True, s))
      in if \<not> begun then Some (None, s)
         else let (ok, s) = pg_prepare api sql s
              in if \<not> ok then Some (None, s)
                 else case pg_each api rows 0 s of
                        None \<Rightarrow> None
                      | Some (None, s) \<Rightarrow> Some (None, s)
                      | Some (Some n, s) \<Rightarrow>
                          (let (ended, s) = (if pg_transaction s then pg_commit api s else (True, s))
                           in if \<not> ended then Some (None, s)
                              else Some (Some (if get_insert_id then int n
                                               else signed_take_bit 31 (int (length rows))), s)))"

text \<open>The buffers \<^verbatim>\<open>stmt_execute\<close> fills for one item; \<open>None\<close> when one of them overflows.\<close>

definition item_params ::
  "('f \<Rightarrow> string) \<Rightarrow> registry \<Rightarrow> struct_meta \<Rightarrow> string list \<Rightarrow> opt_type \<Rightarrow> bool \<Rightarrow> 'f cpp_val list \<Rightarrow>
   string list option" where
  "item_params sf r T members ty has_args val =
     those (bound_values r T PostgreSQL (set_param_values sf) members val ty has_args)"

definition as_int :: "('a \<Rightarrow> int) \<Rightarrow> ('a option \<times> 'c postgresql) option \<Rightarrow> (int \<times> 'c postgresql) option" where
  "as_int f = map_option (\<lambda>(res, s). (case res of None \<Rightarrow> INT_MIN_s | Some n \<Rightarrow> signed_take_bit 31 (f n), s))"

definition pg_insert ::
  "'c pg_api \<Rightarrow> ('f \<Rightarrow> string) \<Rightarrow> registry \<Rightarrow> struct_meta \<Rightarrow> opt_type \<Rightarrow> sql_piece list \<Rightarrow> 'f cpp_val list \<Rightarrow>
   'c postgresql \<Rightarrow> (int \<times> 'c postgresql) option" where
  "pg_insert api sf r T ty args val s =
     as_int int (pg_one api (generate_insert_sql r T PostgreSQL (ty = OptInsert) args)
       (item_params sf r T [] ty False val) s)"

definition pg_insert_many ::
  "'c pg_api \<Rightarrow> ('f \<Rightarrow> string) \<Rightarrow> registry \<Rightarrow> struct_meta \<Rightarrow> opt_type \<Rightarrow> sql_piece list \<Rightarrow> 'f cpp_val list list \<Rightarrow>
   'c postgresql \<Rightarrow> (int \<times> 'c postgresql) option" where
  "pg_insert_many api sf r T ty args vals s =
     as_int id (pg_many api (generate_insert_sql r T PostgreSQL (ty = OptInsert) args) False
       (map (item_params sf r T [] ty False) vals) s)"

definition pg_insert_id ::
  "'c pg_api \<Rightarrow> ('f \<Rightarrow> string) \<Rightarrow> registry \<Rightarrow> struct_meta \<Rightarrow> 'f cpp_val list \<Rightarrow>
   'c postgresql \<Rightarrow> (nat \<times> 'c postgresql) option" where
  "pg_insert_id api sf r T val s =
     map_option (\<lambda>(res, s). (case res of None \<Rightarrow> 0 | Some n \<Rightarrow> n, s))
       (pg_one api (returning r T True (generate_insert_sql r T PostgreSQL True []))
          (item_params sf r T [] OptInsert False val) s)"

definition pg_insert_id_many ::
  "'c pg_api \<Rightarrow> ('f \<Rightarrow> string) \<Rightarrow> registry \<Rightarrow> struct_meta \<Rightarrow> 'f cpp_val list list \<Rightarrow>
   'c postgresql \<Rightarrow> (int \<times> 'c postgresql) option" where
  "pg_insert_id_many api sf r T vals s =
     map_option (\<lambda>(res, s). (case res of None \<Rightarrow> 0 | Some n \<Rightarrow> n, s))
       (pg_many api (returning r T True (generate_insert_sql r T PostgreSQL True [])) True
          (map (item_params sf r T [] OptInsert False) vals) s)"

definition pg_update ::
  "'c pg_api \<Rightarrow> ('f \<Rightarrow> string) \<Rightarrow> registry \<Rightarrow> struct_meta \<Rightarrow> string list \<Rightarrow> sql_piece list \<Rightarrow> 'f cpp_val list \<Rightarrow>
   'c postgresql \<Rightarrow> (int \<times> 'c postgresql) option" where
  "pg_update api sf r T members args val s =
     (let sql = fst (generate_update_sql r T PostgreSQL members args)
      in if sql = [] then Some (INT_MIN_s, pg_set_last_error update_refused s)
         else as_int int (pg_one api sql (item_params sf r T members OptUpdate (args \<noteq> []) val) s))"

definition pg_update_many ::
  "'c pg_api \<Rightarrow> ('f \<Rightarrow> string) \<Rightarrow> registry \<Rightarrow> struct_meta \<Rightarrow> string list \<Rightarrow> sql_piece list \<Rightarrow> 'f cpp_val list list \<Rightarrow>
   'c postgresql \<Rightarrow> (int \<times> 'c postgresql) option" where
  "pg_update_many api sf r T members args vals s =
     (let sql = fst (generate_update_sql r T PostgreSQL members args)
      in if sql = [] then Some (INT_MIN_s, pg_set_last_error update_refused s)
         else as_int id (pg_many api sql False (map (item_params sf r T members OptUpdate (args \<noteq> [])) vals) s))"

section \<open>Deletes and queries\<close>

text \<open>A statement with parameters is prepared, one without is sent as it is.\<close>

definition run_params ::
  "'c pg_api \<Rightarrow> string \<Rightarrow> string list \<Rightarrow> 'c postgresql \<Rightarrow> pg_result option \<times> 'c postgresql" where
  "run_params api sql params s =
     (if params \<noteq> []
      then let (ok, s) = pg_prepare api sql s
           in if \<not> ok then (None, s) else guarded (pq_exec_prepared api params) s
      else guarded (pq_exec api sql) s)"

definition pg_delete_records_s ::
  "'c pg_api \<Rightarrow> struct_meta \<Rightarrow> string \<Rightarrow> string list \<Rightarrow> 'c postgresql \<Rightarrow> nat \<times> 'c postgresql" where
  "pg_delete_records_s api T str params s =
     (let (res, s) = run_params api (generate_delete_sql T (Some str)) params s
      in (case res of
            Some r \<Rightarrow> if pr_status r \<noteq> Command_ok then 0 else strtoull (pr_cmd_tuples r)
          | None \<Rightarrow> 0, s))"

definition pg_delete_records ::
  "'c pg_api \<Rightarrow> struct_meta \<Rightarrow> string option \<Rightarrow> 'c postgresql \<Rightarrow> bool \<times> 'c postgresql" where
  "pg_delete_records api T cond s = pg_execute api (generate_delete_sql T cond) s"

text \<open>\<^verbatim>\<open>PQgetisnull\<close> holds for a column the row does not have.\<close>

fun pg_read_members :: "(string \<Rightarrow> 'f) \<Rightarrow> 'f \<Rightarrow> string option list \<Rightarrow> field_type list \<Rightarrow> 'f cpp_val list option" where
  "pg_read_members atof z cells [] = Some []"
| "pg_read_members atof z cells (ty # tys) =
     (case pg_assign atof z ty (case cells of [] \<Rightarrow> None | c # _ \<Rightarrow> c) of
        None \<Rightarrow> None
      | Some v \<Rightarrow> (case pg_read_members atof z (tl cells) tys of None \<Rightarrow> None | Some vs \<Rightarrow> Some (v # vs)))"

definition result_rows ::
  "(string \<Rightarrow> 'f) \<Rightarrow> 'f \<Rightarrow> field_type list \<Rightarrow> pg_result option \<Rightarrow> 'f cpp_val list option list" where
  "result_rows atof z tys res =
     (case res of
        Some r \<Rightarrow> if pr_status r \<noteq> Tuples_ok then []
                  else map (\<lambda>cells. pg_read_members atof z cells tys) (pr_rows r)
      | None \<Rightarrow> [])"

definition pg_query_s ::
  "'c pg_api \<Rightarrow> (string \<Rightarrow> 'f) \<Rightarrow> 'f \<Rightarrow> struct_meta \<Rightarrow> string \<Rightarrow> string list \<Rightarrow> 'c postgresql \<Rightarrow>
   'f cpp_val list option list \<times> 'c postgresql" where
  "pg_query_s api atof z T str params s =
     (let (res, s) = run_params api (if contains_select str then str else generate_query_sql T PostgreSQL [str]) params s
      in (result_rows atof z (map f_type (s_fields T)) res, s))"

definition tuple_rows ::
  "(string \<Rightarrow> 'f) \<Rightarrow> 'f \<Rightarrow> tuple_item list \<Rightarrow> pg_result option \<Rightarrow> 'f cpp_val list option list" where
  "tuple_rows atof z items res =
     (let tys = concat (map item_types items) in if tys \<noteq> [] then result_rows atof z tys res else [])"

definition pg_query_tuples ::
  "'c pg_api \<Rightarrow> (string \<Rightarrow> 'f) \<Rightarrow> 'f \<Rightarrow> tuple_item list \<Rightarrow> string \<Rightarrow> string list \<Rightarrow> 'c postgresql \<Rightarrow>
   'f cpp_val list option list \<times> 'c postgresql" where
  "pg_query_tuples api atof z items sql params s =
     (let (res, s) = run_params api sql params s in (tuple_rows atof z items res, s))"

definition pg_query ::
  "'c pg_api \<Rightarrow> (string \<Rightarrow> 'f) \<Rightarrow> 'f \<Rightarrow> struct_meta \<Rightarrow> string list \<Rightarrow> 'c postgresql \<Rightarrow>
   'f cpp_val list option list \<times> 'c postgresql" where
  "pg_query api atof z T args s =
     (let (res, s) = guarded (pq_exec api (generate_query_sql T PostgreSQL args)) s
      in (result_rows atof z (map f_type (s_fields T)) res, s))"

text \<open>The deprecated query of tuples counts dollar signs but fills in question marks.\<close>

definition pg_query_text ::
  "'c pg_api \<Rightarrow> (string \<Rightarrow> 'f) \<Rightarrow> 'f \<Rightarrow> tuple_item list \<Rightarrow> string \<Rightarrow> str_arg list \<Rightarrow> 'c postgresql \<Rightarrow>
   ('f cpp_val list option list \<times> 'c postgresql) result" where
  "pg_query_text api atof z items str args s =
     (if args \<noteq> [] \<and> length args \<noteq> length (filter (\<lambda>c. c = CHR ''$'') str) then Inr ([], s)
      else rbind (if args \<noteq> [] then get_sql str args else Inr str) (\<lambda>sql.
             let (res, s) = guarded (pq_exec api sql) s in Inr (tuple_rows atof z items res, s)))"


section \<open>Transactions\<close>

text \<open>The documented effect of the commands on whether a transaction block is open; preparing and running a
  statement of the driver does not open or close one.\<close>

definition pg_tx_laws :: "'c pg_api \<Rightarrow> ('c \<Rightarrow> bool) \<Rightarrow> bool" where
  "pg_tx_laws api in_tx \<longleftrightarrow>
     (\<forall>c. status_of (fst (pq_exec api ''begin;'' c)) = Command_ok \<longrightarrow> in_tx (snd (pq_exec api ''begin;'' c))) \<and>
     (\<forall>c. status_of (fst (pq_exec api ''commit;'' c)) = Command_ok \<longrightarrow> \<not> in_tx (snd (pq_exec api ''commit;'' c))) \<and>
     (\<forall>c. status_of (fst (pq_exec api ''rollback;'' c)) = Command_ok \<longrightarrow> \<not> in_tx (snd (pq_exec api ''rollback;'' c))) \<and>
     (\<forall>sql c. in_tx (snd (pq_prepare api sql c)) = in_tx c)"

lemma guarded_eq:
  "guarded call s =
     (if pg_open s
      then (fst (call (pg_con s)), release (fst (call (pg_con s))) (pg_reset_error (s\<lparr>pg_con := snd (call (pg_con s))\<rparr>)))
      else (None, pg_reset_error s))"
  by (cases "call (pg_con s)") (simp add: guarded_def on_con_def release_def)

lemma release_fields [simp]:
  "pg_con (release res s) = pg_con s" "pg_open (release res s) = pg_open s"
  "pg_transaction (release res s) = pg_transaction s"
  "pg_con (pg_reset_error s) = pg_con s" "pg_open (pg_reset_error s) = pg_open s"
  "pg_transaction (pg_reset_error s) = pg_transaction s"
  by (simp_all add: release_def pg_reset_error_def pg_set_last_error_def split: option.splits)

lemma pg_command_simps:
  "fst (pg_command api sql s) \<longleftrightarrow> pg_open s \<and> status_of (fst (pq_exec api sql (pg_con s))) = Command_ok"
  "pg_con (snd (pg_command api sql s)) = (if pg_open s then snd (pq_exec api sql (pg_con s)) else pg_con s)"
  "pg_open (snd (pg_command api sql s)) = pg_open s" "pg_transaction (snd (pg_command api sql s)) = pg_transaction s"
  by (simp_all add: pg_command_def guarded_eq status_of_def)

lemma pg_prepare_simps:
  "fst (pg_prepare api sql s) \<longleftrightarrow> pg_open s \<and> status_of (fst (pq_prepare api sql (pg_con s))) = Command_ok"
  "pg_con (snd (pg_prepare api sql s)) = (if pg_open s then snd (pq_prepare api sql (pg_con s)) else pg_con s)"
  "pg_open (snd (pg_prepare api sql s)) = pg_open s" "pg_transaction (snd (pg_prepare api sql s)) = pg_transaction s"
  by (simp_all add: pg_prepare_def guarded_eq status_of_def)

lemma pg_stmt_execute_keeps:
  "pg_stmt_execute api params s = Some (res, s') \<Longrightarrow> pg_open s' = pg_open s \<and> pg_transaction s' = pg_transaction s"
  by (auto simp: pg_stmt_execute_def guarded_eq split: option.splits if_splits pg_status.splits)

text \<open>The loop over the items keeps the driver connected, and a failed item ends with the rollback.\<close>

lemma pg_each_end:
  "pg_each api rows n s = Some (res, s') \<Longrightarrow> pg_open s \<Longrightarrow> pg_transaction s \<Longrightarrow>
   pg_open s' \<and> pg_transaction s' \<and> (res = None \<longrightarrow> (\<exists>c. pg_con s' = snd (pq_exec api ''rollback;'' c)))"
proof (induction api rows n s rule: pg_each.induct)
  case (2 api params rows n s)
  from "2.prems" obtain r s1 where x: "pg_stmt_execute api params s = Some (r, s1)"
    by (auto split: option.splits)
  with "2.prems" pg_stmt_execute_keeps [OF x] "2.IH" [OF x] show ?case
    by (cases r) (auto simp: pg_rollback_def pg_command_simps)
qed auto

text \<open>C22: A list inserted or updated in a transaction: a result means the transaction was closed; when the
  statement cannot be prepared, the transaction just begun is left open; otherwise it is left open
  only when \<^verbatim>\<open>commit\<close>, or \<^verbatim>\<open>rollback\<close> after a failed item, was refused, and that was the last thing done.\<close>

theorem pg_many_transaction:
  assumes "pg_tx_laws api in_tx" "pg_open s" "pg_transaction s" "pg_many api sql get_id rows s = Some (res, s')"
  shows "(res \<noteq> None \<longrightarrow> \<not> in_tx (pg_con s')) \<and>
    (fst (pg_begin api s) \<and> \<not> fst (pg_prepare api sql (snd (pg_begin api s))) \<longrightarrow> res = None \<and> in_tx (pg_con s')) \<and>
    (fst (pg_begin api s) \<and> fst (pg_prepare api sql (snd (pg_begin api s))) \<and> in_tx (pg_con s') \<longrightarrow>
      (\<exists>c d. d \<in> {''commit;'', ''rollback;''} \<and> status_of (fst (pq_exec api d c)) \<noteq> Command_ok \<and>
         pg_con s' = snd (pq_exec api d c)))"
proof -
  have ends: "\<not> in_tx (snd (pq_exec api d c))"
    if "d \<in> {''commit;'', ''rollback;''}" "status_of (fst (pq_exec api d c)) = Command_ok" for c d
    using assms(1) that unfolding pg_tx_laws_def by blast
  have left: "\<exists>c d. d \<in> {''commit;'', ''rollback;''} \<and> status_of (fst (pq_exec api d c)) \<noteq> Command_ok \<and>
      pg_con s' = snd (pq_exec api d c)"
    if "pg_con s' = snd (pq_exec api d c)" "d \<in> {''commit;'', ''rollback;''}" "in_tx (pg_con s')" for c d
    using that ends by metis
  have opens: "in_tx (snd (pq_exec api ''begin;'' c))" if "status_of (fst (pq_exec api ''begin;'' c)) = Command_ok" for c
    using assms(1) that unfolding pg_tx_laws_def by blast
  have prep: "in_tx (snd (pq_prepare api sql c)) = in_tx c" for c
    using assms(1) unfolding pg_tx_laws_def by blast
  obtain begun s1 where b: "pg_begin api s = (begun, s1)" by fastforce
  then have b1: "pg_open s1" "pg_transaction s1" "begun \<Longrightarrow> in_tx (pg_con s1)"
    using pg_command_simps [of api "''begin;''" s] assms(2, 3) opens [of "pg_con s"] by (auto simp: pg_begin_def)
  obtain ok s2 where p: "pg_prepare api sql s1 = (ok, s2)" by fastforce
  then have p2: "pg_open s2" "pg_transaction s2" "in_tx (pg_con s2) = in_tx (pg_con s1)"
    using pg_prepare_simps [of api sql s1] b1 prep by auto
  show ?thesis
  proof (cases "begun \<and> ok")
    case False
    have "res = None \<and> (begun \<longrightarrow> s' = s2)"
    proof (cases begun)
      case True
      with False assms(3, 4) b p show ?thesis by (simp add: pg_many_def)
    next
      case False
      with assms(3, 4) b show ?thesis by (simp add: pg_many_def)
    qed
    with False b p b1(3) p2(3) show ?thesis by auto
  next
    case True
    with assms(3, 4) b p obtain r s3 where e: "pg_each api rows 0 s2 = Some (r, s3)"
      by (auto simp: pg_many_def split: option.splits)
    note s3 = pg_each_end [OF e p2(1, 2)]
    show ?thesis
    proof (cases r)
      case None
      with True assms(3, 4) b p e have "res = None" "s' = s3" by (auto simp: pg_many_def)
      moreover from this None s3 obtain c where "pg_con s' = snd (pq_exec api ''rollback;'' c)" by auto
      ultimately show ?thesis using True b p left [of "''rollback;''" c] by auto
    next
      case (Some n)
      obtain ended s4 where c: "pg_commit api s3 = (ended, s4)" by fastforce
      then have s4: "pg_con s4 = snd (pq_exec api ''commit;'' (pg_con s3))"
        "ended \<longleftrightarrow> status_of (fst (pq_exec api ''commit;'' (pg_con s3))) = Command_ok"
        using pg_command_simps [of api "''commit;''" s3] s3 by (auto simp: pg_commit_def)
      with True assms(3, 4) b p e c Some s3 have "res \<noteq> None \<longleftrightarrow> ended" "s' = s4"
        by (auto simp: pg_many_def split: if_splits)
      moreover from this s4 ends have "res \<noteq> None \<longrightarrow> \<not> in_tx (pg_con s')" by auto
      ultimately show ?thesis using True b p s4(1) left [of "''commit;''" "pg_con s3"] by auto
    qed
  qed
qed


definition pg_toy :: "string \<Rightarrow> bool pg_api" where
  "pg_toy refused =
     (let answer = \<lambda>sql. Some \<lparr>pr_status = (if sql = refused then Failed else Command_ok), pr_cmd_tuples = ''1'',
            pr_rows = [], pr_error = ''ERROR''\<rparr>
      in \<lparr>pq_connectdb = (\<lambda>_ c. c), pq_connected = (\<lambda>c. True), pq_error_message = (\<lambda>c. []), pq_finish = (\<lambda>c. c),
          pq_exec = (\<lambda>sql c. (answer sql, if sql = refused then c else sql = ''begin;'')),
          pq_prepare = (\<lambda>sql c. (answer sql, c)), pq_exec_prepared = (\<lambda>params c. (answer (concat params), c))\<rparr>)"

definition pg_toy_state :: "bool postgresql" where
  "pg_toy_state = \<lparr>pg_con = False, pg_open = True, pg_has_error = False, pg_last_error = [], pg_transaction = True,
     pg_last_affect_rows = 0\<rparr>"

lemmas pg_eval =
  pg_begin_def pg_commit_def pg_rollback_def pg_command_def pg_prepare_def guarded_eq release_def pg_reset_error_def
  pg_set_last_error_def status_of_def pg_toy_def pg_toy_state_def Let_def

theorem pg_many_transaction_witness:
  "let s = snd (the (pg_many (pg_toy ''insert'') ''insert'' False [Some [''7'']] pg_toy_state))
   in pg_con s \<and> (pg_con s \<longrightarrow> pg_has_error s)"
proof -
  let ?api = "pg_toy ''insert''"
  have l: "pg_tx_laws ?api (\<lambda>c. c)" by (auto simp: pg_tx_laws_def pg_toy_def status_of_def)
  have m: "pg_many ?api ''insert'' False [Some [''7'']] pg_toy_state =
      Some (None, \<lparr>pg_con = True, pg_open = True, pg_has_error = True, pg_last_error = ''ERROR'', pg_transaction = True,
        pg_last_affect_rows = 0\<rparr>)"
    by (simp add: pg_many_def pg_eval)
  have o: "pg_open pg_toy_state" "pg_transaction pg_toy_state" by (simp_all add: pg_toy_state_def)
  have "fst (pg_begin ?api pg_toy_state) \<and> \<not> fst (pg_prepare ?api ''insert'' (snd (pg_begin ?api pg_toy_state)))"
    by (simp add: pg_eval)
  with pg_many_transaction [OF l o m] m show ?thesis by simp
qed

text \<open>The deprecated query of tuples with arguments never runs a statement written with PostgreSQL's own
  placeholders: when the counts agree it throws, looking for a question mark to replace, otherwise
  it returns no rows.\<close>

theorem pg_text_query_never_runs:
  assumes "args \<noteq> []" "CHR ''?'' \<notin> set str"
  shows "pg_query_text api atof z items str args s =
    (if length args = length (filter (\<lambda>c. c = CHR ''$'') str) then Inl Out_of_range else Inr ([], s))"
proof -
  obtain a as where "args = a # as" using assms(1) by (cases args) auto
  moreover have "find_char (CHR ''?'') str = None" using assms(2) by (simp add: find_char_None)
  ultimately show ?thesis by (simp add: pg_query_text_def get_str_def)
qed

theorem pg_text_query_never_runs_witness:
  "pg_query_text (pg_toy []) (\<lambda>t. ()) () [] ''select * from person where id=$1'' [IntArg 7] pg_toy_state = Inl Out_of_range"
  by (subst pg_text_query_never_runs) simp_all


section \<open>The connection string\<close>

text \<open>How libpq reads a connection string according to its documentation: keywords and values, white space
  around the equals sign, values quoted or not, backslash escapes.\<close>

fun plain_value :: "bool \<Rightarrow> string \<Rightarrow> string \<times> string" where
  "plain_value escaped [] = ([], [])"
| "plain_value escaped (c # cs) =
     (if \<not> escaped \<and> isspace_c c then ([], cs)
      else if \<not> escaped \<and> c = backslash then plain_value True cs
      else apfst ((#) c) (plain_value False cs))"

fun quoted_value :: "bool \<Rightarrow> string \<Rightarrow> (string \<times> string) option" where
  "quoted_value escaped [] = None"
| "quoted_value escaped (c # cs) =
     (if \<not> escaped \<and> c = quote_char then Some ([], cs)
      else if \<not> escaped \<and> c = backslash then quoted_value True cs
      else map_option (apfst ((#) c)) (quoted_value False cs))"

definition conninfo_value :: "string \<Rightarrow> (string \<times> string) option" where
  "conninfo_value t =
     (case dropWhile isspace_c t of
        c # cs \<Rightarrow> if c = quote_char then quoted_value False cs else Some (plain_value False (c # cs))
      | [] \<Rightarrow> Some ([], []))"

lemma plain_value_shorter: "length (snd (plain_value e t)) \<le> length t"
  by (induction e t rule: plain_value.induct) auto

lemma quoted_value_shorter: "quoted_value e t = Some (v, u) \<Longrightarrow> length u \<le> length t"
proof (induction e t arbitrary: v u rule: quoted_value.induct)
  case (2 e c cs)
  then show ?case by (auto split: if_splits dest!: le_SucI)
qed simp

lemma conninfo_value_shorter: "conninfo_value t = Some (v, u) \<Longrightarrow> length u \<le> length t"
proof -
  assume a: "conninfo_value t = Some (v, u)"
  have l: "length (dropWhile isspace_c t) \<le> length t" by (simp add: length_dropWhile_le)
  show ?thesis
  proof (cases "dropWhile isspace_c t")
    case Nil
    with a show ?thesis by (simp add: conninfo_value_def)
  next
    case (Cons c cs)
    with a l plain_value_shorter [of False "c # cs"] quoted_value_shorter [of False cs v u] show ?thesis
      by (auto simp: conninfo_value_def split: if_splits)
  qed
qed

definition is_name_char :: "char \<Rightarrow> bool" where
  "is_name_char c \<longleftrightarrow> c \<noteq> CHR ''='' \<and> \<not> isspace_c c"

function read_conninfo :: "string \<Rightarrow> (string \<times> string) list option" where
  "read_conninfo t =
     (case dropWhile isspace_c t of
        [] \<Rightarrow> Some []
      | t \<Rightarrow>
         (case dropWhile isspace_c (dropWhile is_name_char t) of
            [] \<Rightarrow> None
          | e # u \<Rightarrow> if e \<noteq> CHR ''='' then None
              else case conninfo_value u of
                None \<Rightarrow> None
              | Some (v, rest) \<Rightarrow> map_option ((#) (takeWhile is_name_char t, v)) (read_conninfo rest)))"
  by pat_completeness auto
termination
proof (relation "measure length", goal_cases)
  case (2 t c cs e u vr v rest)
  have "length rest \<le> length u" using 2 conninfo_value_shorter [of u v rest] by simp
  also have "length u < length (dropWhile isspace_c (dropWhile is_name_char (c # cs)))" using 2 by simp
  also have "\<dots> \<le> length (c # cs)"
    using length_dropWhile_le [of isspace_c "dropWhile is_name_char (c # cs)"] length_dropWhile_le [of is_name_char "c # cs"]
    by linarith
  also have "\<dots> \<le> length t" using 2(1) length_dropWhile_le [of isspace_c t] by simp
  finally show ?case by simp
qed simp

declare read_conninfo.simps [simp del]

definition conn_plain :: "string \<Rightarrow> bool" where
  "conn_plain v \<longleftrightarrow> v \<noteq> [] \<and> hd v \<noteq> quote_char \<and> list_all (\<lambda>c. \<not> isspace_c c \<and> c \<noteq> backslash) v"

lemma plain_value_app:
  "list_all (\<lambda>c. \<not> isspace_c c \<and> c \<noteq> backslash) v \<Longrightarrow> rest = [] \<or> isspace_c (hd rest) \<Longrightarrow>
   plain_value False (v @ rest) = (v, tl rest)"
proof (induction v)
  case Nil
  then show ?case by (cases rest) auto
qed auto

lemma read_pair:
  assumes "k \<noteq> []" "list_all is_name_char k" "list_all isspace_c sp" "conn_plain v" "rest = [] \<or> isspace_c (hd rest)"
  shows "read_conninfo (k @ ''='' @ sp @ v @ rest) = map_option ((#) (k, v)) (read_conninfo (tl rest))"
proof -
  obtain c cs where k: "k = c # cs" "is_name_char c" using assms(1, 2) by (cases k) auto
  obtain d ds where v: "v = d # ds" "d \<noteq> quote_char" "\<not> isspace_c d" using assms(4) by (cases v) (auto simp: conn_plain_def)
  have "dropWhile isspace_c (sp @ v @ rest) = v @ rest"
    using assms(3) v by (subst dropWhile_append2) (auto simp: list_all_iff)
  with v plain_value_app [of v rest] assms(4, 5) have cv: "conninfo_value (sp @ v @ rest) = Some (v, tl rest)"
    by (simp add: conninfo_value_def conn_plain_def)
  have e: "\<not> is_name_char (CHR ''='')" "\<not> isspace_c (CHR ''='')" by (simp_all add: is_name_char_def isspace_c_def)
  have nk: "x \<in> set k \<Longrightarrow> is_name_char x" for x using assms(2) by (auto simp: list_all_iff)
  have dw: "dropWhile is_name_char (k @ ''='' @ sp @ v @ rest) = ''='' @ sp @ v @ rest"
    using nk e by (subst dropWhile_append2) auto
  have tw: "takeWhile is_name_char (k @ ''='' @ sp @ v @ rest) = k"
    using nk e by (subst takeWhile_append2) auto
  have ds: "dropWhile isspace_c (k @ ''='' @ sp @ v @ rest) = k @ ''='' @ sp @ v @ rest"
    using k by (simp add: is_name_char_def)
  show ?thesis
    by (subst read_conninfo.simps) (use ds dw tw cv e k in \<open>simp\<close>)
qed


text \<open>Keyword, white space before the value, value, and a space behind.\<close>

definition pair_text :: "string \<times> string \<times> string \<Rightarrow> string" where
  "pair_text = (\<lambda>(k, sp, v). k @ ''='' @ sp @ v @ '' '')"

lemma read_pairs:
  assumes "list_all (\<lambda>(k, sp, v). k \<noteq> [] \<and> list_all is_name_char k \<and> list_all isspace_c sp \<and> conn_plain v) ps" "ps \<noteq> []"
  shows "read_conninfo (butlast (concat (map pair_text ps))) = Some (map (\<lambda>(k, sp, v). (k, v)) ps)"
  using assms
proof (induction ps)
  case (Cons p ps)
  obtain k sp v where p: "p = (k, sp, v)" by (cases p) auto
  note pair = read_pair [of k sp v]
  have space: "isspace_c (CHR '' '')" by (simp add: isspace_c_def)
  show ?case
  proof (cases ps)
    case Nil
    have "read_conninfo [] = Some []" by (subst read_conninfo.simps) simp
    then have "read_conninfo (k @ ''='' @ sp @ v) = Some [(k, v)]"
      using Cons.prems(1) pair [of "[]"] by (simp add: p)
    then show ?thesis by (simp add: Nil p pair_text_def butlast_append)
  next
    case (Cons q qs)
    then have ne: "concat (map pair_text ps) \<noteq> []" by (cases q) (auto simp: pair_text_def)
    let ?rest = "butlast (concat (map pair_text ps))"
    have "butlast (pair_text p @ concat (map pair_text ps)) = k @ ''='' @ sp @ v @ '' '' @ ?rest"
      using ne by (simp add: pair_text_def p butlast_append)
    then have "read_conninfo (butlast (concat (map pair_text (p # ps)))) = map_option ((#) (k, v)) (read_conninfo ?rest)"
      using Cons.prems(1) pair [of "'' '' @ ?rest"] space by (simp add: p)
    also have "read_conninfo ?rest = Some (map (\<lambda>(k, sp, v). (k, v)) ps)"
      using Cons.IH Cons.prems(1) Cons by simp
    finally show ?thesis by (simp add: p)
  qed
qed simp

lemma conn_plain_int: "conn_plain (int_str i)"
proof -
  have "\<not> isspace_c c \<and> c \<noteq> backslash \<and> c \<noteq> quote_char" if "c \<in> set (int_str i)" for c
    using int_str_chars [OF that] by (auto simp: isdigit_c_def isspace_c_def)
  moreover have "hd (int_str i) \<in> set (int_str i)" by simp
  ultimately show ?thesis by (auto simp: conn_plain_def list_all_iff)
qed

text \<open>libpq reads from the connection string the values the caller gave, as long as they have no white
  space, backslash or leading quote - except that with an empty password it takes the text
  \<^verbatim>\<open>dbname=...\<close> for the password and no database is named.\<close>

theorem connection_string_read:
  assumes "conn_plain host" "conn_plain user" "conn_plain db" "passwd = [] \<or> conn_plain passwd"
  shows "read_conninfo (generate_conn_sql host user passwd db timeout port) =
    Some ([(''host'', host), (''user'', user)] @
      (if passwd = [] then [(''password'', ''dbname='' @ db)] else [(''password'', passwd), (''dbname'', db)]) @
      (case timeout of None \<Rightarrow> [] | Some t \<Rightarrow> [(''connect_timeout'', int_str t)]) @
      (case port of None \<Rightarrow> [] | Some p \<Rightarrow> [(''port'', int_str p)]))"
proof -
  let ?ps = "[(''host'', [], host), (''user'', [], user)] @
      (if passwd = [] then [(''password'', '' '', ''dbname='' @ db)] else [(''password'', [], passwd), (''dbname'', [], db)]) @
      (case timeout of None \<Rightarrow> [] | Some t \<Rightarrow> [(''connect_timeout'', [], int_str t)]) @
      (case port of None \<Rightarrow> [] | Some p \<Rightarrow> [(''port'', [], int_str p)])"
  have t: "generate_conn_sql host user passwd db timeout port = butlast (concat (map pair_text ?ps))"
    unfolding generate_conn_sql_def pair_text_def by (simp split: option.split)
  have db: "conn_plain (''dbname='' @ db)" using assms(3) by (auto simp: conn_plain_def isspace_c_def)
  have "read_conninfo (butlast (concat (map pair_text ?ps))) = Some (map (\<lambda>(k, sp, v). (k, v)) ?ps)"
    by (rule read_pairs) (use assms db conn_plain_int in \<open>auto simp: is_name_char_def isspace_c_def split: option.split\<close>)
  then show ?thesis unfolding t by (simp split: option.split)
qed

theorem connection_string_read_witness:
  "read_conninfo (generate_conn_sql ''localhost'' ''root'' [] ''test'' (Some 5) None) =
   Some [(''host'', ''localhost''), (''user'', ''root''), (''password'', ''dbname=test''), (''connect_timeout'', ''5'')]"
proof -
  have p: "conn_plain ''localhost''" "conn_plain ''root''" "conn_plain ''test''" by code_simp+
  have "int_str 5 = ''5''" by code_simp
  with connection_string_read [OF p, of "[]" "Some 5" None] show ?thesis by simp
qed

end
