(* ===== verification/Postgresql_Values.thy ===== *)
theory Postgresql_Values
  imports Postgresql_Driver
begin

text \<open>
  What becomes of a member's value that is written to a PostgreSQL column as a text parameter and read
  back: \<^verbatim>\<open>set_param_values\<close>, libpq, the column of the type \<^verbatim>\<open>type_mapping.hpp\<close> chose, and \<^verbatim>\<open>assign\<close>.
\<close>

section \<open>Columns\<close>

text \<open>What the documentation says of a text written to a column and read back, up to the output of
  \<^verbatim>\<open>bytea\<close>; \<open>None\<close>: refused.\<close>

definition pg_int_columns :: "(string \<times> int \<times> int) list" where
  "pg_int_columns =
     [(''smallint'', -32768, 32767), (''integer'', - (2 ^ 31), 2 ^ 31 - 1), (''bigint'', - (2 ^ 63), 2 ^ 63 - 1)]"

definition pg_columns :: "(string \<Rightarrow> string \<Rightarrow> string option) \<Rightarrow> bool" where
  "pg_columns column \<longleftrightarrow>
     list_all (\<lambda>(ty, lo, hi). \<forall>i. column ty (int_str i) = (if lo \<le> i \<and> i \<le> hi then Some (int_str i) else None))
       pg_int_columns \<and>
     (\<forall>t. column ''text'' t = Some t) \<and>
     (\<forall>n t. length t \<le> n \<longrightarrow> column (''varchar('' @ nat_str n @ '')'') t = Some t) \<and>
     column ''char'' [] = Some '' '' \<and>
     (\<forall>c. column ''char'' [c] = None \<or> column ''char'' [c] = Some [c]) \<and>
     (\<forall>c. isdigit_c c \<longrightarrow> column ''char'' [c] = Some [c]) \<and>
     (\<forall>i. 1 < length (int_str i) \<longrightarrow> column ''char'' (int_str i) = None) \<and>
     (\<forall>t u. column ''bytea'' t = Some u \<longrightarrow> CHR 0x00 \<notin> set u)"

text \<open>A value written as a parameter and read back.\<close>

definition through_column ::
  "(string \<Rightarrow> string \<Rightarrow> string option) \<Rightarrow> ('f \<Rightarrow> string) \<Rightarrow> (string \<Rightarrow> 'f) \<Rightarrow> 'f \<Rightarrow> field_type \<Rightarrow> 'f cpp_val \<Rightarrow>
   'f cpp_val option" where
  "through_column column sf atof z ty v =
     (case set_param_values sf ty v of
        None \<Rightarrow> None
      | Some buf \<Rightarrow> (case param_text buf of
          P_null \<Rightarrow> pg_assign atof z ty None
        | P_text t \<Rightarrow> (case column (type_name PostgreSQL ty) t of
            None \<Rightarrow> None
          | Some u \<Rightarrow> pg_assign atof z ty (Some u))
        | P_overrun \<Rightarrow> None))"

definition pg_kept_scalar :: "scalar_type \<Rightarrow> 'f cpp_val \<Rightarrow> bool" where
  "pg_kept_scalar ty v \<longleftrightarrow>
     (case v of
        CInt i \<Rightarrow> (if ty = TChar then i = 0 else if ty = TInt8 then 0 \<le> i \<and> i \<le> 9
                  else if ty = TUint32 then i < 2 ^ 31 else if ty = TUint64 then i < 2 ^ 63 else True)
      | CStr t \<Rightarrow> CHR 0x00 \<notin> set t
      | CChars t \<Rightarrow> t = [] \<or> length t = length (cut_nul t) + 1
      | CBlob b \<Rightarrow> b = []
      | _ \<Rightarrow> True)"

fun pg_kept :: "field_type \<Rightarrow> 'f cpp_val \<Rightarrow> bool" where
  "pg_kept (Plain ty) v \<longleftrightarrow> pg_kept_scalar ty v"
| "pg_kept (Optional ty) (COpt (Some v)) \<longleftrightarrow> pg_kept_scalar ty v \<and> v \<noteq> CBlob [] \<and> v \<noteq> CChars []"
| "pg_kept ty v \<longleftrightarrow> True"

fun no_float :: "field_type \<Rightarrow> bool" where
  "no_float (Plain ty) = (ty \<noteq> TFloat \<and> ty \<noteq> TDouble)"
| "no_float (Optional ty) = (ty \<noteq> TFloat \<and> ty \<noteq> TDouble)"
| "no_float Enum = True"

text \<open>A scalar that is sent.\<close>

definition scalar_through ::
  "(string \<Rightarrow> string \<Rightarrow> string option) \<Rightarrow> (string \<Rightarrow> 'f) \<Rightarrow> scalar_type \<Rightarrow> string \<Rightarrow> 'f cpp_val option" where
  "scalar_through column atof ty buf =
     (case param_text buf of
        P_null \<Rightarrow> None
      | P_text t \<Rightarrow> Option.bind (column (postgresql_type_to_name ty) t) (pg_assign_scalar atof ty)
      | P_overrun \<Rightarrow> None)"

lemma nul_notin_int_str: "CHR 0x00 \<notin> set (int_str i)"
  using int_str_chars [of "CHR 0x00" i] by (auto simp: isdigit_c_def)

lemma cut_nul_app: "CHR 0x00 \<notin> set t \<Longrightarrow> cut_nul (t @ CHR 0x00 # u) = t"
  by (auto simp: cut_nul_def intro!: takeWhile_append2 [THEN trans])

lemma cut_nul_text: "cut_nul (t @ [CHR 0x00]) = t \<longleftrightarrow> CHR 0x00 \<notin> set t"
  using cut_nul_app [of t "[]"] set_takeWhileD [of "CHR 0x00" "\<lambda>c. c \<noteq> CHR 0x00"] by (auto simp: cut_nul_def)

lemma param_text_padded:
  "CHR 0x00 \<notin> set t \<Longrightarrow> length t < n \<Longrightarrow> param_text (padded n t) = P_text t"
proof -
  assume a: "CHR 0x00 \<notin> set t" "length t < n"
  then obtain k where "n - length t = Suc k" by (metis Suc_diff_Suc)
  with a(1) cut_nul_app [OF a(1)] show ?thesis by (simp add: param_text_def padded_def)
qed

lemma nat_str_length: "n < 10 ^ k \<Longrightarrow> 0 < k \<Longrightarrow> length (nat_str n) \<le> k"
proof (induction n arbitrary: k rule: nat_str.induct)
  case (1 n)
  show ?case
  proof (cases "n < 10")
    case True
    with 1 show ?thesis by (simp add: nat_str.simps [of n])
  next
    case False
    with 1(2) obtain m where m: "k = Suc m" "0 < m" by (cases k; cases "k - 1") auto
    with 1(2) have "n div 10 < 10 ^ m" by (simp add: less_mult_imp_div_less mult.commute)
    with 1(1) [OF False this m(2)] False m show ?thesis by (simp add: nat_str.simps [of n])
  qed
qed

lemma int_str_length: "nat \<bar>i\<bar> < 10 ^ k \<Longrightarrow> 0 < k \<Longrightarrow> length (int_str i) \<le> Suc k"
  using nat_str_length [of "nat \<bar>i\<bar>" k] by (cases "i < 0") (simp_all add: int_str_def)

lemma nat_str_one: "length (nat_str n) \<le> 1 \<longleftrightarrow> n < 10"
proof (cases "n < 10")
  case False
  then show ?thesis by (simp add: nat_str.simps [of n])
qed (simp add: nat_str.simps [of n])

lemma int_str_one: "length (int_str i) \<le> 1 \<longleftrightarrow> 0 \<le> i \<and> i \<le> 9"
  using nat_str_one [of "nat i"] by (auto simp: int_str_def)

text \<open>Integers, characters, texts.\<close>

lemma scalar_through_int:
  "length (int_str i) < n \<Longrightarrow> scalar_through column atof ty (padded n (int_str i)) =
     Option.bind (column (postgresql_type_to_name ty) (int_str i)) (pg_assign_scalar atof ty)"
  by (simp add: scalar_through_def param_text_padded nul_notin_int_str)

lemma int_lengths:
  "-2147483648 \<le> i \<Longrightarrow> i \<le> 4294967295 \<Longrightarrow> length (int_str i) < 20"
  "-9223372036854775808 \<le> i \<Longrightarrow> i \<le> 18446744073709551615 \<Longrightarrow> length (int_str i) < 65"
  using int_str_length [of i 10] int_str_length [of i 20] by (simp_all add: nat_less_iff abs_less_iff)

lemma scan_number_char: "scan_number [c] = (c = CHR ''-'', if isdigit_c c then digit_val c else 0)"
  using digit_no_space [of c] by (auto simp: scan_number_def parse_digits_def isdigit_c_def isspace_c_def)


lemma pg_columns_int:
  assumes "pg_columns column" "(ty, lo, hi) \<in> set pg_int_columns"
  shows "column ty (int_str i) = (if lo \<le> i \<and> i \<le> hi then Some (int_str i) else None)"
  using assms unfolding pg_columns_def list_all_iff by fast

lemma pg_columns_ints:
  assumes "pg_columns column"
  shows "column ''smallint'' (int_str i) = (if -32768 \<le> i \<and> i \<le> 32767 then Some (int_str i) else None)"
    "column ''integer'' (int_str i) = (if -2147483648 \<le> i \<and> i \<le> 2147483647 then Some (int_str i) else None)"
    "column ''bigint'' (int_str i) =
       (if -9223372036854775808 \<le> i \<and> i \<le> 9223372036854775807 then Some (int_str i) else None)"
  by (rule pg_columns_int [OF assms]; simp add: pg_int_columns_def)+

lemma char_of_zero: "char_of (0 :: nat) = CHR 0x00"
  by (simp add: char_of_def)

lemma atoi_char: "atoi [c] = Some (if isdigit_c c then int (digit_val c) else 0)"
proof -
  have "isdigit_c c \<Longrightarrow> digit_val c \<le> 9 \<and> c \<noteq> CHR ''-''" by (auto simp: isdigit_c_def digit_val_def)
  then show ?thesis by (auto simp: atoi_def scan_int_def scan_number_char)
qed

lemma char_through:
  assumes "pg_columns column" "-128 \<le> i" "i \<le> 127"
  shows "scalar_through column atof TChar (padded 20 [char_of_byte (word_of_int i)]) = Some (CInt i) \<longleftrightarrow> i = 0"
proof (cases "i = 0")
  case True
  have "param_text (padded 20 [char_of_byte 0]) = P_text []"
    by (simp add: param_text_def padded_def cut_nul_def char_of_byte_def char_of_zero)
  with True assms(1) show ?thesis
    by (simp add: scalar_through_def pg_columns_def atoi_char is_int64_def isdigit_c_def)
next
  case False
  define c where "c = char_of_byte (word_of_int i)"
  have n: "(of_char c :: nat) = nat (i mod 256)"
  proof -
    have "unat (word_of_int i :: byte) = nat (i mod 256)" by (simp add: unat_eq_nat_uint uint_word_of_int)
    then show ?thesis by (simp add: c_def char_of_byte_def of_char_of)
  qed
  have m: "i mod 256 = (if i < 0 then i + 256 else i)" 
  proof (cases "i < 0")
    case True
    have "i mod 256 = (i + 256) mod 256" by simp
    also have "\<dots> = i + 256" using True assms(2) by (intro mod_pos_pos_trivial) auto
    finally show ?thesis using True by simp
  next
    case False
    then show ?thesis using assms(3) by (simp add: mod_pos_pos_trivial)
  qed
  have "c \<noteq> CHR 0x00" using n m False assms by (auto split: if_splits)
  then have p: "param_text (padded 20 [c]) = P_text [c]" by (simp add: param_text_padded)
  have d: "(if isdigit_c c then int (digit_val c) else 0) \<noteq> i"
    using n m False assms by (auto simp: isdigit_c_def digit_val_def)
  have w: "signed_take_bit 7 (if isdigit_c c then int (digit_val c) else 0) = (if isdigit_c c then int (digit_val c) else 0)"
    by (rule char_wrap) (auto simp: isdigit_c_def digit_val_def)
  have "column ''char'' [c] = None \<or> column ''char'' [c] = Some [c]" using assms(1) by (simp add: pg_columns_def)
  with p d w False show ?thesis
    by (auto simp: scalar_through_def atoi_char is_int64_def c_def [symmetric])
qed


lemma chars_through:
  assumes "pg_columns column" "length u \<le> n" "CHR 0x00 \<notin> set u" "n \<noteq> 0"
  shows "scalar_through column atof (TCharArray n) (fill_chars n u) = Some (CChars (fill_chars n u)) \<longleftrightarrow>
    n = length u + 1"
proof (cases "n = length u")
  case True
  with assms show ?thesis by (auto simp: scalar_through_def param_text_def fill_chars_def)
next
  case False
  then obtain k where k: "n - length u = Suc k" using assms(2) by (metis Suc_diff_Suc le_neq_implies_less)
  then have p: "param_text (fill_chars n u) = P_text u"
    using assms(2) cut_nul_app [OF assms(3)] by (simp add: param_text_def fill_chars_def)
  have "column (postgresql_type_to_name (TCharArray n)) u = Some u" using assms(1, 2) by (simp add: pg_columns_def)
  then have e: "scalar_through column atof (TCharArray n) (fill_chars n u) =
      (if n \<le> Suc (length u) then Some (CChars (take n (u @ [CHR 0x00]))) else None)"
    by (simp add: scalar_through_def p del: postgresql_type_to_name.simps)
  have "length (fill_chars n u) \<le> n" using assms(2) by (simp add: fill_chars_def)
  then show ?thesis unfolding e using chars_buffer [of u n] assms(2) False by auto
qed

lemma scalar_roundtrip:
  assumes "pg_columns column" "has_scalar ty v" "ty \<noteq> TFloat" "ty \<noteq> TDouble" "scalar_buffer sf ty v = Some buf" "buf \<noteq> []"
  shows "scalar_through column atof ty buf = Some v \<longleftrightarrow> pg_kept_scalar ty v"
proof -
  note [simp] = pg_kept_scalar_def
  note ints = pg_columns_ints [OF assms(1)]
  have plain: "column ''text'' t = Some t" for t using assms(1) by (simp add: pg_columns_def)
  note through = scalar_through_int int_lengths
  show ?thesis
  proof (cases ty)
    case TBool
    then obtain b where "v = CBool b" using assms(2) by auto
    with TBool assms(5) show ?thesis
      by (auto simp: through ints atoi_def scan_int_str)
  next
    case TChar
    then obtain i where "v = CInt i" "-128 \<le> i" "i \<le> 127" using assms(2) by auto
    with TChar assms(5) char_through [OF assms(1), of i] show ?thesis by auto
  next
    case TInt8
    then obtain i where i: "v = CInt i" "-128 \<le> i" "i \<le> 127" using assms(2) by auto
    with TInt8 assms(5) have e: "scalar_through column atof ty buf =
        Option.bind (column ''char'' (int_str i)) (pg_assign_scalar atof ty)"
      by (auto simp: through is_int64_def)
    show ?thesis
    proof (cases "0 \<le> i \<and> i \<le> 9")
      case True
      then obtain c where c: "int_str i = [c]" "isdigit_c c"
        using int_str_one [of i] nat_str_first [of "nat i"] by (auto simp: int_str_def le_Suc_eq)
      then have "column ''char'' (int_str i) = Some (int_str i)" using assms(1) by (simp add: pg_columns_def)
      with True i TInt8 show ?thesis
        unfolding e by (simp add: is_int64_def atoi_def scan_int_str char_wrap)
    next
      case False
      then have "1 < length (int_str i)" using int_str_one [of i] by auto
      with assms(1) have "column ''char'' (int_str i) = None" unfolding pg_columns_def by fast
      with False i TInt8 show ?thesis unfolding e by simp
    qed
  next
    case (TCharArray n)
    then obtain u where u: "v = CChars (fill_chars n u)" "length u \<le> n" "CHR 0x00 \<notin> set u" using assms(2) by auto
    moreover have "n \<noteq> 0" using TCharArray u assms(5, 6) by (auto simp: fill_chars_def)
    moreover from u(2) have "length (fill_chars n u) = n" by (simp add: fill_chars_def)
    moreover have "cut_nul (fill_chars n u) = u" using u by (simp add: cut_nul_fill)
    moreover from calculation have "fill_chars n u \<noteq> []" by auto
    ultimately show ?thesis
      using TCharArray assms(5) chars_through [OF assms(1) u(2, 3), of atof] by simp
  next
    case TBlob
    then obtain b where b: "v = CBlob b" using assms(2) by auto
    have n: "CHR 0x00 \<notin> set u" if "column ''bytea'' t = Some u" for t u
      using assms(1) that unfolding pg_columns_def by fast
    have "b \<noteq> map byte_of_char u" if "CHR 0x00 \<in> set buf" "column ''bytea'' (cut_nul buf) = Some u" for u
    proof
      assume "b = map byte_of_char u"
      with b TBlob assms(5) have "buf = u" by (auto simp: comp_def)
      with n that show False by simp
    qed
    with TBlob b assms(5, 6) show ?thesis
      by (auto simp: scalar_through_def param_text_def bind_eq_Some_conv split: if_splits)
  next
    case TString
    then obtain t where "v = CStr t" using assms(2) by auto
    with TString assms(5) plain show ?thesis
      by (auto simp: scalar_through_def param_text_def cut_nul_text)
  next
    case TStringView
    then obtain t where "v = CStr t" using assms(2) by auto
    with TStringView assms(5) plain show ?thesis
      by (auto simp: scalar_through_def param_text_def cut_nul_text)
  qed (use assms in \<open>auto simp: through ints is_int64_def atoi_def atoll_def scan_int_str
      signed_take_bit_int_eq_self take_bit_int_eq_self split: if_splits\<close>)
qed


text \<open>C21: A value written as a parameter into the column its member is mapped to and read back is the same,
  for every type but floating point, exactly when: a \<^verbatim>\<open>char\<close> is NUL (it is written as a character and
  read as a number), an \<^verbatim>\<open>int8_t\<close> has one digit, \<^verbatim>\<open>uint32_t\<close> and \<^verbatim>\<open>uint64_t\<close> fit the signed type, a text
  has no NUL, a character array has exactly one free place, a blob is empty - any other blob is
  written without an end and read as hexadecimal text.\<close>

theorem pg_value_roundtrip:
  assumes "pg_columns column" "has_type ty v" "no_float ty"
  shows "through_column column sf atof z ty v = Some v \<longleftrightarrow> pg_kept ty v"
proof -
  have sent: "through_column column sf atof z ty v = Some v \<longleftrightarrow>
      (if scalar_buffer sf s w = Some [] then default_value_of z ty = v
       else pg_kept_scalar s w)"
    if sc: "has_scalar s w" "s \<noteq> TFloat" "s \<noteq> TDouble"
      "ty = Plain s \<and> v = w \<or> ty = Optional s \<and> v = COpt (Some w)" for s w
  proof -
    obtain buf where buf: "scalar_buffer sf s w = Some buf" using sc(1-3) by (cases s) auto
    show ?thesis
    proof (cases "buf = []")
      case True
      with buf sc(4) show ?thesis by (auto simp: through_column_def param_text_def pg_assign_def)
    next
      case False
      with scalar_roundtrip [OF assms(1) sc(1-3) buf False, of atof] sc(4) buf show ?thesis
        by (auto simp: through_column_def scalar_through_def pg_assign_def param_text_def split: option.splits if_splits)
    qed
  qed
  have [simp]: "pg_kept_scalar s (CBlob [])" "pg_kept_scalar s (CChars [])" for s by (simp_all add: pg_kept_scalar_def)
  show ?thesis
  proof (cases ty)
    case (Plain s)
    with assms sent [of s v] show ?thesis
      by (cases s) (auto simp: padded_def fill_chars_def split: if_splits)
  next
    case (Optional s)
    show ?thesis
    proof (cases "v = COpt None")
      case True
      with Optional show ?thesis by (simp add: through_column_def param_text_def pg_assign_def)
    next
      case False
      with Optional assms(2) obtain w where w: "v = COpt (Some w)" "has_scalar s w" by auto
      with assms(3) Optional sent [of s w] show ?thesis
        by (cases s) (auto simp: padded_def fill_chars_def split: if_splits)
    qed
  next
    case Enum
    then obtain i where i: "v = CEnum i" "- (2 ^ 31) \<le> i" "i \<le> 2 ^ 31 - 1"
      using assms(2) by (auto simp: int_range_def)
    then have "length (int_str i) < 20" by (simp add: int_lengths)
    with i Enum pg_columns_ints(2) [OF assms(1), of i] show ?thesis
      by (simp add: through_column_def param_text_padded nul_notin_int_str pg_assign_def atoi_def scan_int_str)
  qed
qed


definition plain_column :: "string \<Rightarrow> string \<Rightarrow> string option" where
  "plain_column ty t =
     (case map_of pg_int_columns ty of
        Some (lo, hi) \<Rightarrow>
          (let (neg, n) = scan_number t; i = (if neg then - int n else int n)
           in if t = int_str i \<and> lo \<le> i \<and> i \<le> hi then Some t else None)
      | None \<Rightarrow>
          if ty = ''bytea'' then None
          else if ty = ''char'' then (if t = [] then Some '' '' else if length t = 1 then Some t else None)
          else Some t)"

lemma plain_column_int:
  "map_of pg_int_columns ty = Some (lo, hi) \<Longrightarrow>
   plain_column ty (int_str i) = (if lo \<le> i \<and> i \<le> hi then Some (int_str i) else None)"
  by (cases "i < 0") (simp_all add: plain_column_def scan_number_int_str Let_def)

lemma plain_column_other:
  "map_of pg_int_columns ty = None \<Longrightarrow> plain_column ty t =
     (if ty = ''bytea'' then None
      else if ty = ''char'' then (if t = [] then Some '' '' else if length t = 1 then Some t else None) else Some t)"
  by (simp add: plain_column_def)

lemma plain_column_ok: "pg_columns plain_column"
proof -
  have v: "map_of pg_int_columns (''varchar('' @ t) = None" for t by (simp add: pg_int_columns_def)
  have o: "map_of pg_int_columns ''text'' = None" "map_of pg_int_columns ''char'' = None"
    "map_of pg_int_columns ''bytea'' = None" by (simp_all add: pg_int_columns_def)
  have "list_all (\<lambda>(ty, lo, hi). map_of pg_int_columns ty = Some (lo, hi)) pg_int_columns"
    by (simp add: pg_int_columns_def)
  then have "list_all (\<lambda>(ty, lo, hi). \<forall>i. plain_column ty (int_str i) =
      (if lo \<le> i \<and> i \<le> hi then Some (int_str i) else None)) pg_int_columns"
    by (rule list.pred_mono_strong) (use plain_column_int in blast)
  then show ?thesis
    unfolding pg_columns_def by (simp add: plain_column_other o plain_column_other [OF v, simplified])
qed

theorem pg_value_roundtrip_witness:
  "map (\<lambda>(ty, v). through_column plain_column (\<lambda>_. []) (\<lambda>_. ()) () (Plain ty) v = Some v)
     [(TInt, CInt (- 5)), (TInt8, CInt (- 5)), (TChar, CInt 65), (TUint32, CInt 3000000000), (TString, CStr ''tom''),
      (TCharArray 4, CChars (fill_chars 4 ''tom'')), (TCharArray 5, CChars (fill_chars 5 ''tom'')), (TBlob, CBlob [1])] =
   [True, False, False, False, True, True, False, False]"
proof -
  have r: "through_column plain_column (\<lambda>_. []) (\<lambda>_. ()) () (Plain ty) v = Some v \<longleftrightarrow> pg_kept_scalar ty v"
    if "has_scalar ty v" "ty \<noteq> TFloat" "ty \<noteq> TDouble" for ty v
    using pg_value_roundtrip [OF plain_column_ok, of "Plain ty" v "\<lambda>_. []" "\<lambda>_. ()" "()"] that by simp
  have c: "has_scalar (TCharArray n) (CChars (fill_chars n ''tom''))" if "3 \<le> n" for n
    using that by (auto intro!: exI [of _ "''tom''"])
  have k: "pg_kept_scalar (TCharArray 4) (CChars (fill_chars 4 ''tom''))"
    "\<not> pg_kept_scalar (TCharArray 5) (CChars (fill_chars 5 ''tom''))"
    by code_simp+
  have "has_scalar TInt (CInt (- 5))" "has_scalar TInt8 (CInt (- 5))" "has_scalar TChar (CInt 65)"
    "has_scalar TUint32 (CInt 3000000000)" "has_scalar TString (CStr ''tom'')" "has_scalar TBlob (CBlob [1])"
    by simp_all
  note e = this [THEN r, simplified] c [of 4, THEN r, simplified k] c [of 5, THEN r, simplified k]
  show ?thesis
    unfolding list.map prod.case using e k by (simp add: pg_kept_scalar_def)
qed
end
