(* ===== verification/Mysql_Driver.thy ===== *)
theory Mysql_Driver
  imports Driver_Tables
begin

text \<open>
  The MySQL driver over libmysqlclient, \<^verbatim>\<open>ormpp/mysql.hpp\<close>: parameter and result bindings, prepared
  statements and their guards, transactions, inserts and updates, queries.  libmysqlclient is the
  parameter \<open>api\<close>, a record of functions on a state \<open>'d\<close> that holds the connection and the current
  statement.  The static error and transaction fields are fields of the one driver modelled here, and
  the connection is taken to be open where the code hands it to the library.  Truncated rows are
  handled like complete ones.
\<close>

section \<open>Bindings\<close>

datatype my_type = Type_tiny | Type_short | Type_long | Type_longlong | Type_float | Type_double | Type_string | Type_blob

fun type_to_id :: "scalar_type \<Rightarrow> my_type" where
  "type_to_id TBool = Type_tiny"
| "type_to_id TChar = Type_tiny"
| "type_to_id TShort = Type_short"
| "type_to_id TInt = Type_long"
| "type_to_id TFloat = Type_float"
| "type_to_id TDouble = Type_double"
| "type_to_id TInt8 = Type_tiny"
| "type_to_id TInt64 = Type_longlong"
| "type_to_id TUint8 = Type_tiny"
| "type_to_id TUint16 = Type_short"
| "type_to_id TUint32 = Type_long"
| "type_to_id TUint64 = Type_longlong"
| "type_to_id TBlob = Type_blob"
| "type_to_id _ = Type_string"

definition bind_unsigned :: "scalar_type \<Rightarrow> bool" where
  "bind_unsigned ty \<longleftrightarrow> ty \<in> {TUint8, TUint16, TUint32, TUint64}"

text \<open>The number libmysqlclient reads from, or stores into, a member through a binding.\<close>

definition bound_int :: "my_type \<Rightarrow> bool \<Rightarrow> int \<Rightarrow> int" where
  "bound_int t uns i =
     (let bits = (case t of Type_tiny \<Rightarrow> 8 | Type_short \<Rightarrow> 16 | Type_long \<Rightarrow> 32 | _ \<Rightarrow> 64)
      in if uns then take_bit bits i else signed_take_bit (bits - 1) i)"

datatype 'f my_cell = M_null | M_int int | M_real 'f | M_text string | M_blob "byte list"

text \<open>\<^verbatim>\<open>set_param_bind\<close> of a parameter; an enum is bound as a \<^verbatim>\<open>LONG\<close> of four bytes.\<close>

fun my_param_scalar :: "scalar_type \<Rightarrow> 'f cpp_val \<Rightarrow> 'f my_cell" where
  "my_param_scalar ty (CBool b) = M_int (if b then 1 else 0)"
| "my_param_scalar ty (CInt i) = M_int (bound_int (type_to_id ty) (bind_unsigned ty) i)"
| "my_param_scalar ty (CEnum i) = M_int (bound_int Type_long False i)"
| "my_param_scalar ty (CFloat x) = M_real x"
| "my_param_scalar ty (CStr t) = M_text t"
| "my_param_scalar ty (CChars t) = M_text (cut_nul t)"
| "my_param_scalar ty (CBlob b) = M_blob b"
| "my_param_scalar ty (COpt v) = M_null"

fun my_param :: "field_type \<Rightarrow> 'f cpp_val \<Rightarrow> 'f my_cell" where
  "my_param (Optional ty) (COpt (Some v)) = my_param_scalar ty v"
| "my_param (Optional ty) v = M_null"
| "my_param (Plain ty) v = my_param_scalar ty v"
| "my_param Enum v = my_param_scalar TInt v"

text \<open>How the library converts a cell to a number, a text or bytes.\<close>

record 'f my_conv =
  m_int :: "'f my_cell \<Rightarrow> int"
  m_real :: "'f my_cell \<Rightarrow> 'f"
  m_text :: "'f my_cell \<Rightarrow> string"
  m_bytes :: "'f my_cell \<Rightarrow> byte list"

text \<open>A cell that is not NULL: numbers are stored in the member itself, texts in a zeroed buffer that is then
  copied up to its first NUL or, for an array, as a whole; a blob with the length of the cell.\<close>

fun my_read_scalar :: "'f my_conv \<Rightarrow> scalar_type \<Rightarrow> 'f my_cell \<Rightarrow> 'f cpp_val" where
  "my_read_scalar cv TBool cell = CBool (bound_int Type_tiny False (m_int cv cell) \<noteq> 0)"
| "my_read_scalar cv TFloat cell = CFloat (m_real cv cell)"
| "my_read_scalar cv TDouble cell = CFloat (m_real cv cell)"
| "my_read_scalar cv TString cell = CStr (cut_nul (m_text cv cell))"
| "my_read_scalar cv TStringView cell = CStr (cut_nul (m_text cv cell))"
| "my_read_scalar cv (TCharArray n) cell = CChars (fill_chars n (m_text cv cell))"
| "my_read_scalar cv TBlob cell = CBlob (m_bytes cv cell)"
| "my_read_scalar cv ty cell = CInt (bound_int (type_to_id ty) (bind_unsigned ty) (m_int cv cell))"

text \<open>One member of the row, which starts as the member of the row before: NULL leaves the storage alone, and
  only optional and arithmetic members are then set to their default; the buffers of texts and blobs
  have been zeroed.  An enum is neither.\<close>

fun my_read_member :: "'f my_conv \<Rightarrow> 'f \<Rightarrow> field_type \<Rightarrow> 'f cpp_val \<Rightarrow> 'f my_cell \<Rightarrow> 'f cpp_val" where
  "my_read_member cv z (Plain ty) old cell =
     (if cell = M_null then default_scalar z ty else my_read_scalar cv ty cell)"
| "my_read_member cv z (Optional ty) old cell =
     (if cell = M_null then COpt None else COpt (Some (my_read_scalar cv ty cell)))"
| "my_read_member cv z Enum old cell =
     (if cell = M_null then old else CEnum (bound_int Type_long False (m_int cv cell)))"

definition my_read_row :: "'f my_conv \<Rightarrow> 'f \<Rightarrow> field_type list \<Rightarrow> 'f cpp_val list \<Rightarrow> 'f my_cell list \<Rightarrow> 'f cpp_val list" where
  "my_read_row cv z tys old cells =
     map (\<lambda>((ty, v), cell). my_read_member cv z ty v cell) (zip (zip tys old) cells)"

text \<open>The loop over the fetched rows; the object \<^verbatim>\<open>t\<close> is the same for all of them.\<close>

fun my_read_rows ::
  "'f my_conv \<Rightarrow> 'f \<Rightarrow> field_type list \<Rightarrow> 'f cpp_val list \<Rightarrow> 'f my_cell list list \<Rightarrow> 'f cpp_val list list" where
  "my_read_rows cv z tys t [] = []"
| "my_read_rows cv z tys t (cells # rows) =
     (let t = my_read_row cv z tys t cells in t # my_read_rows cv z tys t rows)"

section \<open>The driver and the library\<close>

record ('d, 'f) mysql_api =
  m_close :: "'d \<Rightarrow> 'd"
  m_init :: "'d \<Rightarrow> bool \<times> 'd"
  m_connect_timeout :: "int \<Rightarrow> 'd \<Rightarrow> bool \<times> 'd"
  m_charset :: "'d \<Rightarrow> 'd"
  m_real_connect :: "string \<Rightarrow> string \<Rightarrow> string \<Rightarrow> string \<Rightarrow> int \<Rightarrow> 'd \<Rightarrow> bool \<times> 'd"
  m_ping :: "'d \<Rightarrow> bool \<times> 'd"
  m_error :: "'d \<Rightarrow> string"
  m_query :: "string \<Rightarrow> 'd \<Rightarrow> bool \<times> 'd"
  m_stmt_init :: "'d \<Rightarrow> bool \<times> 'd"
  m_prepare :: "string \<Rightarrow> 'd \<Rightarrow> bool \<times> 'd"
  m_metadata :: "'d \<Rightarrow> bool \<times> 'd"
  m_bind_param :: "'f my_cell list \<Rightarrow> 'd \<Rightarrow> bool \<times> 'd"
  m_bind_result :: "field_type list \<Rightarrow> 'd \<Rightarrow> bool \<times> 'd"
  m_execute :: "'d \<Rightarrow> bool \<times> 'd"
  m_fetch :: "'d \<Rightarrow> step_code \<times> 'd"
  m_row :: "'d \<Rightarrow> 'f my_cell list"
  m_affected :: "'d \<Rightarrow> nat"
  m_insert_id :: "'d \<Rightarrow> nat"
  m_stmt_error :: "'d \<Rightarrow> string"
  m_stmt_close :: "'d \<Rightarrow> nat \<times> 'd"

record 'd mysql =
  my_db :: 'd
  my_open :: bool
  my_has_error :: bool
  my_last_error :: string
  my_transaction :: bool
  my_last_affect_rows :: "32 word"

definition my_reset_error :: "'d mysql \<Rightarrow> 'd mysql" where
  "my_reset_error s = s\<lparr>my_has_error := False, my_last_error := []\<rparr>"

definition my_set_last_error :: "string \<Rightarrow> 'd mysql \<Rightarrow> 'd mysql" where
  "my_set_last_error e s = s\<lparr>my_has_error := True, my_last_error := e\<rparr>"

definition on_my :: "('d \<Rightarrow> 'a \<times> 'd) \<Rightarrow> 'd mysql \<Rightarrow> 'a \<times> 'd mysql" where
  "on_my f s = (let (x, d) = f (my_db s) in (x, s\<lparr>my_db := d\<rparr>))"

definition con_error :: "('d, 'f) mysql_api \<Rightarrow> 'd mysql \<Rightarrow> 'd mysql" where
  "con_error api s = my_set_last_error (m_error api (my_db s)) s"

definition stmt_error :: "('d, 'f) mysql_api \<Rightarrow> 'd mysql \<Rightarrow> 'd mysql" where
  "stmt_error api s = my_set_last_error (m_stmt_error api (my_db s)) s"

definition my_disconnect :: "('d, 'f) mysql_api \<Rightarrow> 'd mysql \<Rightarrow> bool \<times> 'd mysql" where
  "my_disconnect api s =
     (True, if my_open s then s\<lparr>my_db := m_close api (my_db s), my_open := False\<rparr> else s)"

definition my_connect ::
  "('d, 'f) mysql_api \<Rightarrow> string \<Rightarrow> string \<Rightarrow> string \<Rightarrow> string \<Rightarrow> int option \<Rightarrow> int option \<Rightarrow> 'd mysql \<Rightarrow>
   bool \<times> 'd mysql" where
  "my_connect api host user passwd db timeout port s =
     (let s = my_reset_error s;
          s = (if my_open s then s\<lparr>my_db := m_close api (my_db s)\<rparr> else s);
          (ok, s) = on_my (m_init api) s; s = s\<lparr>my_open := ok\<rparr>
      in if \<not> ok then (False, my_set_last_error ''mysql init failed'' s)
         else let seconds = (case timeout of Some t \<Rightarrow> t | None \<Rightarrow> - 1);
                  (ok, s) = (if 0 < seconds then on_my (m_connect_timeout api seconds) s else (True, s))
              in if \<not> ok then (False, con_error api s)
                 else let s = s\<lparr>my_db := m_charset api (my_db s)\<rparr>;
                          (ok, s) = on_my (m_real_connect api host user passwd db (case port of Some p \<Rightarrow> p | None \<Rightarrow> 0)) s
                      in if \<not> ok then (False, con_error api s) else (True, s))"

definition my_ping :: "('d, 'f) mysql_api \<Rightarrow> 'd mysql \<Rightarrow> bool \<times> 'd mysql" where
  "my_ping api s = on_my (m_ping api) s"

definition my_command :: "('d, 'f) mysql_api \<Rightarrow> string \<Rightarrow> 'd mysql \<Rightarrow> bool \<times> 'd mysql" where
  "my_command api sql s =
     (let (ok, s) = on_my (m_query api sql) (my_reset_error s)
      in if \<not> ok then (False, con_error api s) else (True, s))"

definition my_begin :: "('d, 'f) mysql_api \<Rightarrow> 'd mysql \<Rightarrow> bool \<times> 'd mysql" where
  "my_begin api s = my_command api ''BEGIN'' s"

definition my_commit :: "('d, 'f) mysql_api \<Rightarrow> 'd mysql \<Rightarrow> bool \<times> 'd mysql" where
  "my_commit api s = my_command api ''COMMIT'' s"

definition my_rollback :: "('d, 'f) mysql_api \<Rightarrow> 'd mysql \<Rightarrow> bool \<times> 'd mysql" where
  "my_rollback api s = my_command api ''ROLLBACK'' s"

definition my_set_enable_transaction :: "bool \<Rightarrow> 'd mysql \<Rightarrow> 'd mysql" where
  "my_set_enable_transaction enable s = s\<lparr>my_transaction := enable\<rparr>"

definition my_create_datatable ::
  "('d, 'f) mysql_api \<Rightarrow> registry \<Rightarrow> struct_meta \<Rightarrow> table_arg list \<Rightarrow> 'd mysql \<Rightarrow>
   ((bool \<times> 'd mysql) \<times> registry) option" where
  "my_create_datatable api r T args s =
     map_option (\<lambda>(sql, r). (my_command api (sql @ '' DEFAULT CHARSET=utf8mb4'') s, r))
       (generate_createtb_sql MySQL r T args)"

section \<open>Statements\<close>

text \<open>\<^verbatim>\<open>guard_statment\<close>.\<close>

definition my_close :: "('d, 'f) mysql_api \<Rightarrow> 'd mysql \<Rightarrow> 'd mysql" where
  "my_close api s =
     (let (status, s) = on_my (m_stmt_close api) s
      in if status \<noteq> 0 then my_set_last_error (''close statment error code '' @ nat_str status) s else s)"

definition my_guard :: "('d, 'f) mysql_api \<Rightarrow> ('d mysql \<Rightarrow> 'a \<times> 'd mysql) \<Rightarrow> 'd mysql \<Rightarrow> 'a \<times> 'd mysql" where
  "my_guard api body s = (let (x, s) = body (my_reset_error s) in (x, my_close api s))"

text \<open>A call on the statement that ends the operation with the statement's error when it fails.\<close>

definition attempt ::
  "('d, 'f) mysql_api \<Rightarrow> ('d \<Rightarrow> bool \<times> 'd) \<Rightarrow> 'a \<Rightarrow> ('d mysql \<Rightarrow> 'a \<times> 'd mysql) \<Rightarrow> 'd mysql \<Rightarrow> 'a \<times> 'd mysql" where
  "attempt api f failed k s =
     (let (ok, s) = on_my f s in if \<not> ok then (failed, stmt_error api s) else k s)"

definition with_statement ::
  "('d, 'f) mysql_api \<Rightarrow> string \<Rightarrow> 'a \<Rightarrow> ('d mysql \<Rightarrow> 'a \<times> 'd mysql) \<Rightarrow> 'd mysql \<Rightarrow> 'a \<times> 'd mysql" where
  "with_statement api sql failed body s =
     (let (ok, s) = on_my (m_stmt_init api) s
      in if \<not> ok then (failed, con_error api s)
         else my_guard api (attempt api (m_prepare api sql) failed body) s)"

definition my_execute :: "('d, 'f) mysql_api \<Rightarrow> string \<Rightarrow> 'd mysql \<Rightarrow> bool \<times> 'd mysql" where
  "my_execute api sql =
     with_statement api sql False (attempt api (m_execute api) False
       (\<lambda>s. (True, s\<lparr>my_last_affect_rows := of_nat (m_affected api (my_db s))\<rparr>)))"

definition my_get_last_affect_rows :: "'d mysql \<Rightarrow> int" where
  "my_get_last_affect_rows s = sint (my_last_affect_rows s)"

interpretation libmysql_driver: sql_driver "\<lambda>s sql. my_execute api sql s" my_get_last_affect_rows
  "\<lambda>s. unat (my_last_affect_rows s)" for api :: "('d, 'f) mysql_api"
  by unfold_locales (simp add: my_get_last_affect_rows_def sint_is_unat)

definition my_delete_records :: "('d, 'f) mysql_api \<Rightarrow> struct_meta \<Rightarrow> string option \<Rightarrow> 'd mysql \<Rightarrow> bool \<times> 'd mysql" where
  "my_delete_records api T cond = my_execute api (generate_delete_sql T cond)"

definition bind_params ::
  "('d, 'f) mysql_api \<Rightarrow> 'f my_cell list \<Rightarrow> 'a \<Rightarrow> ('d mysql \<Rightarrow> 'a \<times> 'd mysql) \<Rightarrow> 'd mysql \<Rightarrow> 'a \<times> 'd mysql" where
  "bind_params api params failed k = (if params \<noteq> [] then attempt api (m_bind_param api params) failed k else k)"

definition my_delete_records_s ::
  "('d, 'f) mysql_api \<Rightarrow> struct_meta \<Rightarrow> string \<Rightarrow> 'f my_cell list \<Rightarrow> 'd mysql \<Rightarrow> nat \<times> 'd mysql" where
  "my_delete_records_s api T str params =
     with_statement api (generate_delete_sql T (Some str)) 0 (bind_params api params 0
       (attempt api (m_execute api) 0 (\<lambda>s. (m_affected api (my_db s), s))))"

section \<open>Inserts and updates\<close>

text \<open>The cells \<^verbatim>\<open>stmt_execute\<close> binds; without any the address of the first one is undefined (\<open>None\<close>).\<close>

definition my_params ::
  "registry \<Rightarrow> struct_meta \<Rightarrow> string list \<Rightarrow> 'f cpp_val list \<Rightarrow> opt_type \<Rightarrow> bool \<Rightarrow> 'f my_cell list" where
  "my_params r T = bound_values r T MySQL my_param"

definition my_stmt_execute ::
  "('d, 'f) mysql_api \<Rightarrow> opt_type \<Rightarrow> 'f my_cell list \<Rightarrow> 'd mysql \<Rightarrow> (int \<times> 'd mysql) option" where
  "my_stmt_execute api ty params s =
     (if params = [] then None
      else Some (attempt api (m_bind_param api params) INT_MIN_s
        (attempt api (m_execute api) INT_MIN_s
          (\<lambda>s. let count = m_affected api (my_db s)
               in (if count = 0 then (if ty = OptUpdate then 0 else INT_MIN_s)
                   else signed_take_bit 31 (int count), s))) s))"

definition finish_guard :: "('d, 'f) mysql_api \<Rightarrow> ('a \<times> 'd mysql) option \<Rightarrow> ('a \<times> 'd mysql) option" where
  "finish_guard api = map_option (\<lambda>(x, s). (x, my_close api s))"

text \<open>\<^verbatim>\<open>insert_or_update_impl\<close> guards the statement only once it is prepared.\<close>

definition unguarded_statement ::
  "('d, 'f) mysql_api \<Rightarrow> string \<Rightarrow> ('d mysql \<Rightarrow> ('a option \<times> 'd mysql) option) \<Rightarrow> 'd mysql \<Rightarrow>
   ('a option \<times> 'd mysql) option" where
  "unguarded_statement api sql body s =
     (let (ok, s) = on_my (m_stmt_init api) s
      in if \<not> ok then Some (None, con_error api s)
         else let (ok, s) = on_my (m_prepare api sql) s
              in if \<not> ok then Some (None, stmt_error api s)
                 else finish_guard api (body (my_reset_error s)))"

definition my_one ::
  "('d, 'f) mysql_api \<Rightarrow> string \<Rightarrow> opt_type \<Rightarrow> bool \<Rightarrow> 'f my_cell list \<Rightarrow> 'd mysql \<Rightarrow> (int option \<times> 'd mysql) option" where
  "my_one api sql ty get_insert_id params =
     unguarded_statement api sql (\<lambda>s.
       case my_stmt_execute api ty params s of
         None \<Rightarrow> None
       | Some (n, s) \<Rightarrow>
           if n = INT_MIN_s then Some (None, s)
           else Some (Some (if get_insert_id then int (m_insert_id api (my_db s)) else 1), s))"

fun my_each ::
  "('d, 'f) mysql_api \<Rightarrow> opt_type \<Rightarrow> 'f my_cell list list \<Rightarrow> 'd mysql \<Rightarrow> (bool \<times> 'd mysql) option" where
  "my_each api ty [] s = Some (True, s)"
| "my_each api ty (params # rows) s =
     (case my_stmt_execute api ty params s of
        None \<Rightarrow> None
      | Some (n, s) \<Rightarrow>
          if n = INT_MIN_s then Some (False, if my_transaction s then snd (my_rollback api s) else s)
          else my_each api ty rows s)"

definition my_many_body ::
  "('d, 'f) mysql_api \<Rightarrow> opt_type \<Rightarrow> bool \<Rightarrow> 'f my_cell list list \<Rightarrow> 'd mysql \<Rightarrow> (int option \<times> 'd mysql) option" where
  "my_many_body api ty get_insert_id rows s =
     (let (begun, s) = (if my_transaction s \<and> \<not> get_insert_id then my_begin api s else (True, s))
      in if \<not> begun then Some (None, s)
         else case my_each api ty rows s of
                None \<Rightarrow> None
              | Some (ok, s) \<Rightarrow>
                  if \<not> ok then Some (None, s)
                  else let (ended, s) = (if my_transaction s \<and> \<not> get_insert_id then my_commit api s else (True, s))
                       in if \<not> ended then Some (None, s)
                          else Some (Some (if get_insert_id then int (m_insert_id api (my_db s))
                                           else signed_take_bit 31 (int (length rows))), s))"

definition my_many ::
  "('d, 'f) mysql_api \<Rightarrow> string \<Rightarrow> opt_type \<Rightarrow> bool \<Rightarrow> 'f my_cell list list \<Rightarrow> 'd mysql \<Rightarrow>
   (int option \<times> 'd mysql) option" where
  "my_many api sql ty get_insert_id rows = unguarded_statement api sql (my_many_body api ty get_insert_id rows)"

definition my_result :: "int \<Rightarrow> (int option \<times> 'd mysql) option \<Rightarrow> (int \<times> 'd mysql) option" where
  "my_result failed = map_option (\<lambda>(res, s). (case res of None \<Rightarrow> failed | Some n \<Rightarrow> n, s))"

definition my_insert ::
  "('d, 'f) mysql_api \<Rightarrow> registry \<Rightarrow> struct_meta \<Rightarrow> opt_type \<Rightarrow> 'f cpp_val list \<Rightarrow> 'd mysql \<Rightarrow> (int \<times> 'd mysql) option" where
  "my_insert api r T ty val s =
     my_result INT_MIN_s (my_one api (generate_insert_sql r T MySQL (ty = OptInsert) []) ty False
       (my_params r T [] val ty False) s)"

definition my_insert_many ::
  "('d, 'f) mysql_api \<Rightarrow> registry \<Rightarrow> struct_meta \<Rightarrow> opt_type \<Rightarrow> 'f cpp_val list list \<Rightarrow> 'd mysql \<Rightarrow>
   (int \<times> 'd mysql) option" where
  "my_insert_many api r T ty vals s =
     my_result INT_MIN_s (my_many api (generate_insert_sql r T MySQL (ty = OptInsert) []) ty False
       (map (\<lambda>val. my_params r T [] val ty False) vals) s)"

definition my_insert_id ::
  "('d, 'f) mysql_api \<Rightarrow> registry \<Rightarrow> struct_meta \<Rightarrow> 'f cpp_val list \<Rightarrow> 'd mysql \<Rightarrow> (int \<times> 'd mysql) option" where
  "my_insert_id api r T val s =
     my_result 0 (my_one api (generate_insert_sql r T MySQL True []) OptInsert True
       (my_params r T [] val OptInsert False) s)"

definition my_insert_id_many ::
  "('d, 'f) mysql_api \<Rightarrow> registry \<Rightarrow> struct_meta \<Rightarrow> 'f cpp_val list list \<Rightarrow> 'd mysql \<Rightarrow> (int \<times> 'd mysql) option" where
  "my_insert_id_many api r T vals s =
     my_result 0 (my_many api (generate_insert_sql r T MySQL True []) OptInsert True
       (map (\<lambda>val. my_params r T [] val OptInsert False) vals) s)"

definition my_update ::
  "('d, 'f) mysql_api \<Rightarrow> registry \<Rightarrow> struct_meta \<Rightarrow> string list \<Rightarrow> sql_piece list \<Rightarrow> 'f cpp_val list \<Rightarrow>
   'd mysql \<Rightarrow> (int \<times> 'd mysql) option" where
  "my_update api r T members args val s =
     (let sql = fst (generate_update_sql r T MySQL members args)
      in if sql = [] then Some (INT_MIN_s, my_set_last_error update_refused s)
         else my_result INT_MIN_s (my_one api sql OptUpdate False (my_params r T members val OptUpdate (args \<noteq> [])) s))"

definition my_update_many ::
  "('d, 'f) mysql_api \<Rightarrow> registry \<Rightarrow> struct_meta \<Rightarrow> string list \<Rightarrow> sql_piece list \<Rightarrow> 'f cpp_val list list \<Rightarrow>
   'd mysql \<Rightarrow> (int \<times> 'd mysql) option" where
  "my_update_many api r T members args vals s =
     (let sql = fst (generate_update_sql r T MySQL members args)
      in if sql = [] then Some (INT_MIN_s, my_set_last_error update_refused s)
         else my_result INT_MIN_s (my_many api sql OptUpdate False
                (map (\<lambda>val. my_params r T members val OptUpdate (args \<noteq> [])) vals) s))"

section \<open>Queries\<close>

text \<open>The loop over the rows of the library; the error of a failing fetch is not looked at.  \<open>None\<close>: the
  library yields rows for ever.\<close>

definition my_fetch_rows ::
  "('d, 'f) mysql_api \<Rightarrow> 'f my_conv \<Rightarrow> 'f \<Rightarrow> field_type list \<Rightarrow> 'd mysql \<Rightarrow> ('f cpp_val list list \<times> 'd mysql) option" where
  "my_fetch_rows api cv z tys s =
     map_option (\<lambda>(rows, d). (my_read_rows cv z tys (map (default_value_of z) tys) rows, s\<lparr>my_db := d\<rparr>))
       (fetch (m_fetch api) (m_row api) (my_db s) [])"

text \<open>The steps of a query before the loop, in the code's order; the result tells whether they succeeded.\<close>

definition query_steps ::
  "('d, 'f) mysql_api \<Rightarrow> field_type list \<Rightarrow> string \<Rightarrow> 'f my_cell list \<Rightarrow> 'd mysql \<Rightarrow> bool \<times> 'd mysql" where
  "query_steps api tys sql params =
     attempt api (m_prepare api sql) False (attempt api (m_metadata api) False (bind_params api params False
       (if tys = [] then (\<lambda>s. (False, s))
        else attempt api (m_bind_result api tys) False (attempt api (m_execute api) False (\<lambda>s. (True, s))))))"

definition my_run_query ::
  "('d, 'f) mysql_api \<Rightarrow> 'f my_conv \<Rightarrow> 'f \<Rightarrow> field_type list \<Rightarrow> string \<Rightarrow> 'f my_cell list \<Rightarrow> 'd mysql \<Rightarrow>
   ('f cpp_val list list \<times> 'd mysql) option" where
  "my_run_query api cv z tys sql params s =
     (let (ok, s) = on_my (m_stmt_init api) s
      in if \<not> ok then Some ([], con_error api s)
         else let (ok, s) = query_steps api tys sql params (my_reset_error s)
              in finish_guard api (if \<not> ok then Some ([], s) else my_fetch_rows api cv z tys s))"

definition my_query_s ::
  "('d, 'f) mysql_api \<Rightarrow> 'f my_conv \<Rightarrow> 'f \<Rightarrow> struct_meta \<Rightarrow> string \<Rightarrow> 'f my_cell list \<Rightarrow> 'd mysql \<Rightarrow>
   ('f cpp_val list list \<times> 'd mysql) option" where
  "my_query_s api cv z T str params =
     my_run_query api cv z (map f_type (s_fields T)) (if contains_select str then str else generate_query_sql T MySQL [str]) params"

definition my_query_tuples ::
  "('d, 'f) mysql_api \<Rightarrow> 'f my_conv \<Rightarrow> 'f \<Rightarrow> tuple_item list \<Rightarrow> string \<Rightarrow> 'f my_cell list \<Rightarrow> 'd mysql \<Rightarrow>
   ('f cpp_val list list \<times> 'd mysql) option" where
  "my_query_tuples api cv z items sql params = my_run_query api cv z (concat (map item_types items)) sql params"

definition my_query ::
  "('d, 'f) mysql_api \<Rightarrow> 'f my_conv \<Rightarrow> 'f \<Rightarrow> struct_meta \<Rightarrow> string list \<Rightarrow> 'd mysql \<Rightarrow>
   ('f cpp_val list list \<times> 'd mysql) option" where
  "my_query api cv z T args = my_run_query api cv z (map f_type (s_fields T)) (generate_query_sql T MySQL args) []"

definition my_query_text ::
  "('d, 'f) mysql_api \<Rightarrow> 'f my_conv \<Rightarrow> 'f \<Rightarrow> tuple_item list \<Rightarrow> string \<Rightarrow> str_arg list \<Rightarrow> 'd mysql \<Rightarrow>
   ('f cpp_val list list \<times> 'd mysql) option result" where
  "my_query_text api cv z items str args s =
     (if args \<noteq> [] \<and> length args \<noteq> length (filter (\<lambda>c. c = CHR ''?'') str)
      then Inr (Some ([], my_set_last_error ''arg size error'' s))
      else rbind (if args \<noteq> [] then get_sql str args else Inr str) (\<lambda>sql.
             Inr (my_query_tuples api cv z items sql [] s)))"

section \<open>Values\<close>

definition my_conv_ok :: "'f my_conv \<Rightarrow> bool" where
  "my_conv_ok cv \<longleftrightarrow> (\<forall>n. m_int cv (M_int n) = n) \<and> (\<forall>x. m_real cv (M_real x) = x) \<and>
     (\<forall>t. m_text cv (M_text t) = t) \<and> (\<forall>b. m_bytes cv (M_blob b) = b)"

fun text_of :: "'f cpp_val \<Rightarrow> string" where
  "text_of (CStr t) = t"
| "text_of (COpt (Some v)) = text_of v"
| "text_of v = []"

lemma my_scalar_roundtrip:
  assumes "my_conv_ok cv" "has_scalar ty v"
  shows "my_param_scalar ty v \<noteq> M_null" "my_read_scalar cv ty (my_param_scalar ty v) = v \<longleftrightarrow> CHR 0x00 \<notin> set (text_of v)"
proof -
  show "my_param_scalar ty v \<noteq> M_null" using assms(2) by (cases ty) auto
  show "my_read_scalar cv ty (my_param_scalar ty v) = v \<longleftrightarrow> CHR 0x00 \<notin> set (text_of v)"
    using assms
    by (cases ty) (auto simp: my_conv_ok_def bind_unsigned_def cut_nul_eq cut_nul_fill bound_int_def
        signed_take_bit_int_eq_self take_bit_int_eq_self split: if_splits)
qed


definition plain_my_conv :: "unit my_conv" where
  "plain_my_conv =
     \<lparr>m_int = (\<lambda>c. case c of M_int n \<Rightarrow> n | _ \<Rightarrow> 0), m_real = (\<lambda>_. ()),
      m_text = (\<lambda>c. case c of M_text t \<Rightarrow> t | _ \<Rightarrow> []), m_bytes = (\<lambda>c. case c of M_blob b \<Rightarrow> b | _ \<Rightarrow> [])\<rparr>"


section \<open>Rows\<close>

lemma my_read_row_nth:
  "length old = length tys \<Longrightarrow> length cells = length tys \<Longrightarrow> j < length tys \<Longrightarrow>
   my_read_row cv z tys old cells ! j = my_read_member cv z (tys ! j) (old ! j) (cells ! j)"
  by (simp add: my_read_row_def)

lemma length_my_read_row [simp]:
  "length old = length tys \<Longrightarrow> length cells = length tys \<Longrightarrow> length (my_read_row cv z tys old cells) = length tys"
  by (simp add: my_read_row_def)

lemma my_read_rows_nth:
  assumes "list_all (\<lambda>r. length r = length tys) rows" "length t = length tys" "i < length rows" "j < length tys"
  shows "my_read_rows cv z tys t rows ! i ! j =
    foldl (my_read_member cv z (tys ! j)) (t ! j) (map (\<lambda>r. r ! j) (take (Suc i) rows))"
  using assms
proof (induction rows arbitrary: t i)
  case (Cons cells rows)
  then show ?case by (cases i) (simp_all add: my_read_row_nth Let_def)
qed simp

text \<open>Every member of every row is determined by its own cell, although all rows are read through one
  object - except an enum: where its cell is NULL it shows the last value an earlier row had.\<close>

theorem libmysql_rows:
  assumes "list_all (\<lambda>r. length r = length tys) rows" "i < length rows" "j < length tys"
  shows "my_read_rows cv z tys (map (default_value_of z) tys) rows ! i ! j =
    (if tys ! j = Enum
     then (case filter (\<lambda>c. c \<noteq> M_null) (map (\<lambda>r. r ! j) (take (Suc i) rows)) of
             [] \<Rightarrow> CEnum 0
           | c # cs \<Rightarrow> my_read_member cv z Enum (CEnum 0) (last (c # cs)))
     else my_read_member cv z (tys ! j) (default_value_of z (tys ! j)) (rows ! i ! j))"
proof -
  have indep: "my_read_member cv z ty v c = my_read_member cv z ty w c" if "ty \<noteq> Enum" for ty v w c
    using that by (cases ty) auto
  have enum: "foldl (my_read_member cv z Enum) v cs =
      (case filter (\<lambda>c. c \<noteq> M_null) cs of [] \<Rightarrow> v | c # ds \<Rightarrow> my_read_member cv z Enum w (last (c # ds)))" for v w cs
    by (induction cs arbitrary: v) (auto split: list.splits)
  have s: "take (Suc i) rows = take i rows @ [rows ! i]" using assms(2) by (simp add: take_Suc_conv_app_nth)
  show ?thesis
  proof (cases "tys ! j = Enum")
    case True
    with my_read_rows_nth [OF assms(1) _ assms(2, 3), of "map (default_value_of z) tys"] assms(3) enum [of _ _ "CEnum 0"]
    show ?thesis by simp
  next
    case False
    with my_read_rows_nth [OF assms(1) _ assms(2, 3), of "map (default_value_of z) tys"] assms(3) show ?thesis
      using indep [OF False] by (simp add: s)
  qed
qed


theorem libmysql_rows_witness:
  "map (\<lambda>i. my_read_rows plain_my_conv () [Enum, Plain TInt] [CEnum 0, CInt 0]
      [[M_int 2, M_int 7], [M_null, M_null]] ! 1 ! i) [0, 1] = [CEnum 2, CInt 0]"
proof -
  let ?rows = "[[M_int 2, M_int 7], [M_null, M_null]] :: unit my_cell list list"
  have l: "list_all (\<lambda>r. length r = length [Enum, Plain TInt]) ?rows" by simp
  have "take (Suc 1) ?rows = ?rows" by simp
  with libmysql_rows [OF l, of 1 0 plain_my_conv "()"] libmysql_rows [OF l, of 1 1 plain_my_conv "()"]
  show ?thesis by (simp add: plain_my_conv_def bound_int_def signed_take_bit_int_eq_self)
qed

section \<open>Statement handles\<close>

text \<open>The number of statements not yet closed: \<^verbatim>\<open>mysql_stmt_init\<close> opens one, \<^verbatim>\<open>mysql_stmt_close\<close> closes one.\<close>

definition my_live_laws :: "('d, 'f) mysql_api \<Rightarrow> ('d \<Rightarrow> int) \<Rightarrow> bool" where
  "my_live_laws api live \<longleftrightarrow>
     (\<forall>d. live (snd (m_stmt_init api d)) = live d + (if fst (m_stmt_init api d) then 1 else 0)) \<and>
     (\<forall>d. live (snd (m_stmt_close api d)) = live d - 1) \<and>
     (\<forall>sql d. live (snd (m_prepare api sql d)) = live d) \<and>
     (\<forall>ps d. live (snd (m_bind_param api ps d)) = live d) \<and>
     (\<forall>d. live (snd (m_execute api d)) = live d) \<and>
     (\<forall>sql d. live (snd (m_query api sql d)) = live d)"

lemma on_my_eq: "on_my f s = (fst (f (my_db s)), s\<lparr>my_db := snd (f (my_db s))\<rparr>)"
  by (simp add: on_my_def split: prod.splits)

lemma my_errors [simp]:
  "my_db (my_set_last_error e s) = my_db s" "my_db (my_reset_error s) = my_db s" "my_db (con_error api s) = my_db s"
  "my_db (stmt_error api s) = my_db s" "my_transaction (my_set_last_error e s) = my_transaction s"
  "my_transaction (my_reset_error s) = my_transaction s" "my_transaction (con_error api s) = my_transaction s"
  "my_transaction (stmt_error api s) = my_transaction s"
  by (simp_all add: my_set_last_error_def my_reset_error_def con_error_def stmt_error_def)

lemma my_close_db [simp]: "my_db (my_close api s) = snd (m_stmt_close api (my_db s))"
  by (simp add: my_close_def on_my_eq)

lemma my_command_simps:
  "fst (my_command api sql s) = fst (m_query api sql (my_db s))"
  "my_db (snd (my_command api sql s)) = snd (m_query api sql (my_db s))"
  "my_transaction (snd (my_command api sql s)) = my_transaction s"
  by (simp_all add: my_command_def on_my_eq)

lemma my_stmt_execute_keeps:
  assumes "my_stmt_execute api ty ps s = Some (n, s')"
  shows "my_transaction s' = my_transaction s" "my_live_laws api live \<Longrightarrow> live (my_db s') = live (my_db s)"
  using assms by (auto simp: my_stmt_execute_def attempt_def on_my_eq Let_def my_live_laws_def split: if_splits)

lemma my_each_live:
  "my_each api ty rows s = Some (ok, s') \<Longrightarrow> my_live_laws api live \<Longrightarrow> live (my_db s') = live (my_db s)"
proof (induction api ty rows s rule: my_each.induct)
  case (2 api ty ps rows s)
  from "2.prems"(1) obtain n s1 where x: "my_stmt_execute api ty ps s = Some (n, s1)" by (auto split: option.splits)
  note k = my_stmt_execute_keeps(2) [OF x "2.prems"(2)]
  have "live (my_db (snd (my_rollback api s1))) = live (my_db s1)"
    using "2.prems"(2) by (simp add: my_rollback_def my_command_simps my_live_laws_def)
  with "2.prems" "2.IH" [OF x] x k show ?case by (auto split: if_splits)
qed auto

lemma my_command_live: "my_live_laws api live \<Longrightarrow> my_command api sql s = (ok, s') \<Longrightarrow> live (my_db s') = live (my_db s)"
  using my_command_simps(2) [of api sql s] by (simp add: my_live_laws_def)

lemma my_many_body_live:
  assumes "my_live_laws api live" "my_many_body api ty gid rows s = Some (res, s')"
  shows "live (my_db s') = live (my_db s)"
proof -
  let ?tx = "\<lambda>s :: 'a mysql. my_transaction s \<and> \<not> gid"
  obtain b s1 where b: "(if ?tx s then my_begin api s else (True, s)) = (b, s1)" by fastforce
  then have l1: "live (my_db s1) = live (my_db s)"
    using my_command_live [OF assms(1), of "''BEGIN''" s] by (auto simp: my_begin_def split: if_splits)
  show ?thesis
  proof (cases b)
    case False
    with assms(2) b l1 show ?thesis by (simp add: my_many_body_def)
  next
    case True
    with assms(2) b obtain ok s2 where e: "my_each api ty rows s1 = Some (ok, s2)"
      by (auto simp: my_many_body_def split: option.splits)
    have l2: "live (my_db s2) = live (my_db s1)" by (rule my_each_live [OF e assms(1)])
    obtain d s3 where c: "(if ?tx s2 then my_commit api s2 else (True, s2)) = (d, s3)" by fastforce
    then have "live (my_db s3) = live (my_db s2)"
      using my_command_live [OF assms(1), of "''COMMIT''" s2] by (auto simp: my_commit_def split: if_splits)
    with assms(2) b True e c l1 l2 show ?thesis by (auto simp: my_many_body_def split: if_splits)
  qed
qed

text \<open>Inserting or updating a list closes the statement it opened on every path but one: a statement the
  server refuses to prepare is never closed.\<close>

theorem libmysql_statement_leak:
  assumes "my_live_laws api live" "my_many api sql ty gid rows s = Some (res, s')"
  shows "live (my_db s') = live (my_db s) +
    (let (opened, d) = m_stmt_init api (my_db s) in if opened \<and> \<not> fst (m_prepare api sql d) then 1 else 0)"
proof -
  obtain opened d where i: "m_stmt_init api (my_db s) = (opened, d)" by fastforce
  obtain ok d1 where p: "m_prepare api sql d = (ok, d1)" by fastforce
  have li: "live d = live (my_db s) + (if opened then 1 else 0)" "live d1 = live d"
    using assms(1) i p unfolding my_live_laws_def by (metis fst_conv snd_conv)+
  show ?thesis
  proof (cases "opened \<and> ok")
    case True
    with assms(2) i p obtain t where t: "my_many_body api ty gid rows (my_reset_error (s\<lparr>my_db := d1\<rparr>)) = Some (res, t)"
      "s' = my_close api t"
      by (auto simp: my_many_def unguarded_statement_def on_my_eq finish_guard_def)
    have "live (my_db t) = live d1" using my_many_body_live [OF assms(1) t(1)] by simp
    moreover have "live (my_db s') = live (my_db t) - 1" using t(2) assms(1) by (simp add: my_live_laws_def)
    ultimately show ?thesis using True i p li by simp
  next
    case False
    with assms(2) i p li show ?thesis by (auto simp: my_many_def unguarded_statement_def on_my_eq)
  qed
qed


text \<open>A library that knows whether a transaction is open and how many statements are; it refuses one
  statement to prepare and one command.\<close>

definition my_toy :: "string \<Rightarrow> string \<Rightarrow> (bool \<times> int, unit) mysql_api" where
  "my_toy unprepared refused =
     \<lparr>m_close = id, m_init = Pair True, m_connect_timeout = (\<lambda>_. Pair True), m_charset = id,
      m_real_connect = (\<lambda>_ _ _ _ _. Pair True), m_ping = Pair True, m_error = (\<lambda>d. ''refused''),
      m_query = (\<lambda>sql d. if sql = refused then (False, d) else (True, (sql = ''BEGIN'', snd d))),
      m_stmt_init = (\<lambda>d. (True, (fst d, snd d + 1))), m_prepare = (\<lambda>sql. Pair (sql \<noteq> unprepared)),
      m_metadata = Pair True, m_bind_param = (\<lambda>_. Pair True), m_bind_result = (\<lambda>_. Pair True),
      m_execute = Pair True, m_fetch = Pair Step_done, m_row = (\<lambda>d. []), m_affected = (\<lambda>d. 1), m_insert_id = (\<lambda>d. 1),
      m_stmt_error = (\<lambda>d. ''syntax''), m_stmt_close = (\<lambda>d. (0, (fst d, snd d - 1)))\<rparr>"

definition my_toy_state :: "(bool \<times> int) mysql" where
  "my_toy_state = \<lparr>my_db = (False, 0), my_open = True, my_has_error = False, my_last_error = [], my_transaction = True,
     my_last_affect_rows = 0\<rparr>"

lemmas my_eval =
  my_many_def unguarded_statement_def my_many_body_def finish_guard_def my_stmt_execute_def attempt_def on_my_eq
  my_begin_def my_commit_def my_rollback_def my_command_def my_close_def my_reset_error_def my_set_last_error_def
  con_error_def stmt_error_def my_toy_def my_toy_state_def INT_MIN_s_def Let_def

theorem libmysql_statement_leak_witness:
  "snd (my_db (snd (the (my_many (my_toy ''insert'' []) ''insert'' OptInsert False [[M_int 1]] my_toy_state)))) = 1 \<and>
   snd (my_db (snd (the (my_many (my_toy [] []) ''insert'' OptInsert False [[M_int 1]] my_toy_state)))) = 0"
proof -
  have l: "my_live_laws (my_toy u q) snd" for u q by (auto simp: my_live_laws_def my_toy_def)
  obtain r1 s1 r2 s2 where
    r: "my_many (my_toy ''insert'' []) ''insert'' OptInsert False [[M_int 1]] my_toy_state = Some (r1, s1)"
      "my_many (my_toy [] []) ''insert'' OptInsert False [[M_int 1]] my_toy_state = Some (r2, s2)"
    by (simp add: my_eval)
  from libmysql_statement_leak [OF l r(1)] libmysql_statement_leak [OF l r(2)] r show ?thesis
    by (simp add: my_toy_def my_toy_state_def)
qed

section \<open>Transactions\<close>

definition my_tx_laws :: "('d, 'f) mysql_api \<Rightarrow> ('d \<Rightarrow> bool) \<Rightarrow> bool" where
  "my_tx_laws api in_tx \<longleftrightarrow>
     (\<forall>d. fst (m_query api ''COMMIT'' d) \<longrightarrow> \<not> in_tx (snd (m_query api ''COMMIT'' d))) \<and>
     (\<forall>d. fst (m_query api ''ROLLBACK'' d) \<longrightarrow> \<not> in_tx (snd (m_query api ''ROLLBACK'' d))) \<and>
     (\<forall>d. \<not> fst (m_query api ''BEGIN'' d) \<longrightarrow> in_tx (snd (m_query api ''BEGIN'' d)) \<longrightarrow> in_tx d) \<and>
     (\<forall>d. in_tx (snd (m_stmt_init api d)) \<longrightarrow> in_tx d) \<and>
     (\<forall>sql d. in_tx (snd (m_prepare api sql d)) \<longrightarrow> in_tx d) \<and>
     (\<forall>d. in_tx (snd (m_stmt_close api d)) \<longrightarrow> in_tx d)"

lemma my_each_end:
  "my_each api ty rows s = Some (ok, s') \<Longrightarrow> my_transaction s \<Longrightarrow>
   my_transaction s' \<and> (\<not> ok \<longrightarrow> (\<exists>t. s' = snd (my_rollback api t)))"
proof (induction api ty rows s rule: my_each.induct)
  case (2 api ty ps rows s)
  from "2.prems"(1) obtain n s1 where x: "my_stmt_execute api ty ps s = Some (n, s1)" by (auto split: option.splits)
  with "2.prems" "2.IH" [OF x] my_stmt_execute_keeps(1) [OF x] show ?case
    by (auto simp: my_rollback_def my_command_simps split: if_splits)
qed auto

text \<open>How the body of a list operation ends.\<close>

lemma my_many_body_end:
  assumes "my_many_body api ty False rows s = Some (res, s')" "my_transaction s"
  shows "res = None \<and> \<not> fst (my_begin api s) \<and> s' = snd (my_begin api s) \<or>
    res = None \<and> (\<exists>t. s' = snd (my_rollback api t)) \<or>
    (\<exists>t. s' = snd (my_commit api t) \<and> res = (if fst (my_commit api t) then Some (signed_take_bit 31 (int (length rows))) else None))"
proof -
  obtain b s1 where b: "my_begin api s = (b, s1)" by fastforce
  then have t1: "my_transaction s1" using my_command_simps(3) [of api "''BEGIN''" s] assms(2) by (simp add: my_begin_def)
  show ?thesis
  proof (cases b)
    case False
    with assms b show ?thesis by (simp add: my_many_body_def)
  next
    case True
    with assms b obtain ok s2 where e: "my_each api ty rows s1 = Some (ok, s2)"
      by (auto simp: my_many_body_def split: option.splits)
    note fin = my_each_end [OF e t1]
    obtain c s3 where c: "my_commit api s2 = (c, s3)" by fastforce
    show ?thesis
    proof (cases ok)
      case False
      with assms b True e fin show ?thesis by (auto simp: my_many_body_def)
    next
      case 2: True
      with assms b True e fin c have "s' = snd (my_commit api s2) \<and>
          res = (if fst (my_commit api s2) then Some (signed_take_bit 31 (int (length rows))) else None)"
        by (auto simp: my_many_body_def split: if_splits)
      then show ?thesis by blast
    qed
  qed
qed

text \<open>A list inserted or updated in a transaction: a result counts the items and no transaction is left
  open; one is left open only when \<^verbatim>\<open>COMMIT\<close>, or the \<^verbatim>\<open>ROLLBACK\<close> after a failed item, was refused.\<close>

theorem libmysql_many_transaction:
  assumes "my_tx_laws api in_tx" "\<not> in_tx (my_db s)" "my_transaction s" "my_many api sql ty False rows s = Some (res, s')"
  shows "(res \<noteq> None \<longrightarrow> res = Some (signed_take_bit 31 (int (length rows))) \<and> \<not> in_tx (my_db s')) \<and>
    (in_tx (my_db s') \<longrightarrow> res = None \<and>
      (\<exists>c d d'. c \<in> {''COMMIT'', ''ROLLBACK''} \<and> m_query api c d = (False, d') \<and> my_db s' = snd (m_stmt_close api d')))"
proof -
  obtain opened d where i: "m_stmt_init api (my_db s) = (opened, d)" by fastforce
  obtain ok d1 where p: "m_prepare api sql d = (ok, d1)" by fastforce
  have d: "\<not> in_tx d" "\<not> in_tx d1" using assms(1, 2) i p unfolding my_tx_laws_def by (metis snd_conv)+
  show ?thesis
  proof (cases "opened \<and> ok")
    case False
    then have "res = None \<and> \<not> in_tx (my_db s')"
      using assms(4) i p d by (cases opened) (auto simp: my_many_def unguarded_statement_def on_my_eq)
    then show ?thesis by simp
  next
    case True
    let ?s1 = "my_reset_error (s\<lparr>my_db := d1\<rparr>)"
    from True assms(4) i p obtain t where t: "my_many_body api ty False rows ?s1 = Some (res, t)" "s' = my_close api t"
      by (auto simp: my_many_def unguarded_statement_def on_my_eq finish_guard_def)
    have closed: "\<not> in_tx (my_db s')" if "\<not> in_tx (my_db t)"
      using that t(2) assms(1) unfolding my_tx_laws_def by (metis my_close_db)
    have ends: "\<not> in_tx (snd (m_query api c x))" if "c \<in> {''COMMIT'', ''ROLLBACK''}" "fst (m_query api c x)" for c x
      using that assms(1) unfolding my_tx_laws_def by blast
    have begins: "\<not> in_tx (snd (m_query api ''BEGIN'' x))" if "\<not> fst (m_query api ''BEGIN'' x)" "\<not> in_tx x" for x
      using that assms(1) unfolding my_tx_laws_def by blast
    have refused: "\<exists>c d d'. c \<in> {''COMMIT'', ''ROLLBACK''} \<and> m_query api c d = (False, d') \<and> my_db s' = snd (m_stmt_close api d')"
      if "in_tx (my_db t)" "t = snd (my_command api c u)" "c \<in> {''COMMIT'', ''ROLLBACK''}" for c u
    proof -
      have m: "my_db t = snd (m_query api c (my_db u))" using that(2) by (simp add: my_command_simps)
      then have "\<not> fst (m_query api c (my_db u))" using that(1) ends [OF that(3)] by auto
      then have "m_query api c (my_db u) = (False, my_db t)" using m by (metis prod.collapse)
      with that(3) t(2) show ?thesis by (metis my_close_db)
    qed
    have tr: "my_transaction ?s1" using assms(3) by simp
    from my_many_body_end [OF t(1) tr] consider
        (b) "res = None" "\<not> fst (my_begin api ?s1)" "t = snd (my_begin api ?s1)"
      | (r) u where "res = None" "t = snd (my_rollback api u)"
      | (c) u where "t = snd (my_commit api u)"
          "res = (if fst (my_commit api u) then Some (signed_take_bit 31 (int (length rows))) else None)"
      by blast
    then show ?thesis
    proof cases
      case b
      then have "\<not> in_tx (my_db t)" using begins [of d1] d(2) by (simp add: my_begin_def my_command_simps)
      with b closed show ?thesis by simp
    next
      case r
      with closed refused [of "''ROLLBACK''" u] show ?thesis by (auto simp: my_rollback_def)
    next
      case c
      have "\<not> in_tx (my_db t)" if "fst (my_commit api u)"
        using that c(1) ends [of "''COMMIT''"] by (simp add: my_commit_def my_command_simps)
      with c closed refused [of "''COMMIT''" u] show ?thesis by (auto simp: my_commit_def split: if_splits)
    qed
  qed
qed

theorem libmysql_many_transaction_witness:
  "let s = snd (the (my_many (my_toy [] ''COMMIT'') ''insert'' OptInsert False [[M_int 1]] my_toy_state))
   in fst (my_db s) \<and> (\<exists>c d d'. c \<in> {''COMMIT'', ''ROLLBACK''} \<and> m_query (my_toy [] ''COMMIT'') c d = (False, d') \<and>
        my_db s = snd (m_stmt_close (my_toy [] ''COMMIT'') d'))"
proof -
  let ?api = "my_toy [] ''COMMIT''"
  have l: "my_tx_laws ?api fst" by (auto simp: my_tx_laws_def my_toy_def)
  obtain res s where r: "my_many ?api ''insert'' OptInsert False [[M_int 1]] my_toy_state = Some (res, s)"
    by (simp add: my_eval)
  then have "fst (my_db s)" by (auto simp: my_eval)
  then show ?thesis
    using libmysql_many_transaction [OF l _ _ r] r unfolding Let_def by (simp add: my_toy_state_def)
qed

end
