(* ===== verification/Coroutine_Adapter.thy ===== *)
theory Coroutine_Adapter
  imports Ormpp_Prelude "HOL-Library.Multiset"
begin

text \<open>
  The awaiters of \<^verbatim>\<open>ormpp/asio_async_simple_adapter.hpp\<close>, which let a coroutine of \<^verbatim>\<open>async_simple\<close> wait for one
  of \<^verbatim>\<open>asio\<close>.  The awaited operation returns a value of type \<open>'a\<close> or throws an exception \<open>'e\<close>; a \<^verbatim>\<open>void\<close>
  result is the unit value.  Everything posted to an executor is a handler that waits in a
  multiset: any of them may run next, which covers the order the executor has.  Whether
  \<^verbatim>\<open>asio::post\<close>, \<^verbatim>\<open>asio::co_spawn\<close> or \<^verbatim>\<open>Executor::schedule\<close> throws is an argument of the operation that
  calls it.  Testing that the parent may be resumed and resuming it are two steps, since nothing
  makes them one: on one thread no other step comes between them (\<open>race = False\<close>).
\<close>

section \<open>State\<close>

datatype 'e exn =
    Thrown 'e
  | Post_failed
  | Spawn_failed
  | Schedule_failed
  | Runtime_error string

datatype 'e handler =
    Start
  | Complete "'e exn option"
  | Resume
  | Cancel "32 word"

datatype schedule_answer = Scheduled | Refused | Throws

datatype parent_state = Before | Waiting | Continued | Destroyed

text \<open>The first group is \<^verbatim>\<open>SharedState\<close> (\<open>exn_ptr\<close> its \<^verbatim>\<open>exception\<close>), \<open>owned\<close> whether \<^verbatim>\<open>state_\<close> is set.  Then what
  executors and threads hold: the handlers of the strand, whether the operation runs, the lambdas
  scheduled on the parent's executor, and the threads about to call \<^verbatim>\<open>handle.resume()\<close>.  The last group
  records what happened: the parent, the results it got, what the operation returned or was aborted
  with, the cancellations delivered to it, a resume of a parent that does not wait, and the use of a
  null pointer.\<close>

record ('a, 'e) adapter =
  result :: "'a option"
  exn_ptr :: "'e exn option"
  has_handle :: bool
  finished :: bool
  await_started :: bool
  abandoned :: bool
  resume_observed :: bool
  has_executor :: bool
  pending_cancellation :: "32 word"
  owned :: bool
  strand :: "'e handler multiset"
  running :: bool
  jobs :: nat
  resuming :: nat
  parent :: parent_state
  outcomes :: "('e exn + 'a) list"
  returned :: "('e + 'a) option"
  aborted :: "'e option"
  delivered :: "32 word"
  dangling :: bool
  crashed :: bool

definition new_adapter :: "bool \<Rightarrow> ('a, 'e) adapter" where
  "new_adapter executor =
     \<lparr>result = None, exn_ptr = None, has_handle = False, finished = False, await_started = False,
      abandoned = False, resume_observed = False, has_executor = executor, pending_cancellation = 0,
      owned = True, strand = {#}, running = False, jobs = 0, resuming = 0, parent = Before,
      outcomes = [], returned = None, aborted = None, delivered = 0, dangling = False, crashed = False\<rparr>"

section \<open>Operations of the safe adapter\<close>

definition enqueue :: "'e handler \<Rightarrow> ('a, 'e) adapter \<Rightarrow> ('a, 'e) adapter" where
  "enqueue h s = s\<lparr>strand := add_mset h (strand s)\<rparr>"

definition keep_exn :: "'e exn \<Rightarrow> ('a, 'e) adapter \<Rightarrow> ('a, 'e) adapter" where
  "keep_exn e s = (if exn_ptr s = None then s\<lparr>exn_ptr := Some e\<rparr> else s)"

definition should_resume :: "('a, 'e) adapter \<Rightarrow> bool" where
  "should_resume s \<longleftrightarrow> \<not> abandoned s \<and> \<not> resume_observed s \<and> has_handle s"

definition run_asio :: "'e + 'a \<Rightarrow> ('a, 'e) adapter \<Rightarrow> ('a, 'e) adapter" where
  "run_asio body s =
     (case body of
        Inr v \<Rightarrow> s\<lparr>result := Some v, finished := True\<rparr>
      | Inl e \<Rightarrow> s\<lparr>exn_ptr := Some (Thrown e), finished := True\<rparr>)"

text \<open>When \<^verbatim>\<open>asio::post\<close> throws, \<^verbatim>\<open>state\<close> has already been moved into the lambda: the handler of the
  exception reads \<^verbatim>\<open>state->exception\<close> through a null pointer.\<close>

definition post_resume :: "bool \<Rightarrow> ('a, 'e) adapter \<Rightarrow> ('a, 'e) adapter" where
  "post_resume posted s = (if posted then enqueue Resume s else s\<lparr>crashed := True\<rparr>)"

definition about_to_resume :: "('a, 'e) adapter \<Rightarrow> ('a, 'e) adapter" where
  "about_to_resume s = s\<lparr>resuming := Suc (resuming s)\<rparr>"

definition resume_parent :: "schedule_answer \<Rightarrow> ('a, 'e) adapter \<Rightarrow> ('a, 'e) adapter" where
  "resume_parent answer s =
     (if \<not> should_resume s then s
      else if has_executor s
      then (case answer of
              Scheduled \<Rightarrow> s\<lparr>jobs := Suc (jobs s)\<rparr>
            | Refused \<Rightarrow> about_to_resume s
            | Throws \<Rightarrow> about_to_resume (keep_exn Schedule_failed s))
      else about_to_resume s)"

definition scheduled_resume :: "('a, 'e) adapter \<Rightarrow> ('a, 'e) adapter" where
  "scheduled_resume s = (if should_resume s then about_to_resume s else s)"

definition no_result_text :: string where
  "no_result_text = ''asio_async_simple_adapter: safe asio coroutine finished without a result''"

definition complete_asio :: "'e exn option \<Rightarrow> bool \<Rightarrow> ('a, 'e) adapter \<Rightarrow> ('a, 'e) adapter" where
  "complete_asio e posted s =
     (let s = (case e of None \<Rightarrow> s | Some x \<Rightarrow> keep_exn x s);
          s = (if \<not> finished s \<and> exn_ptr s = None then s\<lparr>exn_ptr := Some (Runtime_error no_result_text)\<rparr> else s)
      in post_resume posted s)"

text \<open>A cancellation signal reaches the operation only while it runs.\<close>

definition emit :: "32 word \<Rightarrow> ('a, 'e) adapter \<Rightarrow> ('a, 'e) adapter" where
  "emit ty s = (if running s then s\<lparr>delivered := or (delivered s) ty\<rparr> else s)"

definition start_asio :: "bool \<Rightarrow> bool \<Rightarrow> ('a, 'e) adapter \<Rightarrow> ('a, 'e) adapter" where
  "start_asio spawned posted s =
     (if abandoned s then s
      else if spawned
      then (let s = s\<lparr>running := True\<rparr>
            in if pending_cancellation s \<noteq> 0 then emit (pending_cancellation s) s else s)
      else post_resume posted (s\<lparr>exn_ptr := Some Spawn_failed, finished := True\<rparr>))"

definition request_cancel :: "bool \<Rightarrow> 32 word \<Rightarrow> bool \<Rightarrow> ('a, 'e) adapter \<Rightarrow> bool \<times> ('a, 'e) adapter" where
  "request_cancel alive ty posted s =
     (if \<not> alive then (False, s)
      else if resume_observed s then (False, s)
      else if posted then (True, enqueue (Cancel ty) s)
      else (False, s))"

definition cancel_handler :: "32 word \<Rightarrow> ('a, 'e) adapter \<Rightarrow> ('a, 'e) adapter" where
  "cancel_handler ty s =
     (if finished s \<or> resume_observed s then s
      else emit ty (s\<lparr>pending_cancellation := or (pending_cancellation s) ty\<rparr>))"

text \<open>\<open>all_types\<close> is \<^verbatim>\<open>asio::cancellation_type::all\<close>.\<close>

definition abandon :: "32 word \<Rightarrow> bool \<Rightarrow> ('a, 'e) adapter \<Rightarrow> ('a, 'e) adapter" where
  "abandon all_types posted s =
     (if \<not> owned s \<or> resume_observed s then s\<lparr>owned := False\<rparr>
      else let s = s\<lparr>abandoned := True, owned := False\<rparr>
           in if \<not> await_started s then s else snd (request_cancel True all_types posted s))"

definition await_suspend :: "bool \<Rightarrow> ('a, 'e) adapter \<Rightarrow> bool \<times> ('a, 'e) adapter" where
  "await_suspend posted s =
     (if \<not> owned s then (False, s)
      else let s = s\<lparr>has_handle := True, await_started := True\<rparr>
           in if posted then (True, enqueue Start s)
              else (False, s\<lparr>exn_ptr := Some Post_failed, finished := True\<rparr>))"

definition await_resume :: "('a, 'e) adapter \<Rightarrow> ('e exn + 'a) \<times> ('a, 'e) adapter" where
  "await_resume s =
     (if \<not> owned s then (Inl (Runtime_error ''asio_async_simple_adapter: safe awaiter has no state''), s)
      else let s = s\<lparr>resume_observed := True\<rparr>
           in case exn_ptr s of
                Some e \<Rightarrow> (Inl e, s)
              | None \<Rightarrow> (case result s of
                    None \<Rightarrow> (Inl (Runtime_error ''asio_async_simple_adapter: missing safe asio result''), s)
                  | Some v \<Rightarrow> (Inr v, s\<lparr>result := None\<rparr>)))"

definition coAwait :: "bool \<Rightarrow> ('a, 'e) adapter \<Rightarrow> ('a, 'e) adapter" where
  "coAwait executor s = (if owned s then s\<lparr>has_executor := executor\<rparr> else s)"

section \<open>Steps\<close>

definition continue_parent :: "('a, 'e) adapter \<Rightarrow> ('a, 'e) adapter" where
  "continue_parent s = (let (r, s) = await_resume s in s\<lparr>parent := Continued, outcomes := r # outcomes s\<rparr>)"

definition suspend_parent :: "bool \<Rightarrow> ('a, 'e) adapter \<Rightarrow> ('a, 'e) adapter" where
  "suspend_parent posted s =
     (let (suspended, s) = await_suspend posted s
      in if suspended then s\<lparr>parent := Waiting\<rparr> else continue_parent s)"

definition handle_resume :: "('a, 'e) adapter \<Rightarrow> ('a, 'e) adapter" where
  "handle_resume s =
     (let s = s\<lparr>resuming := resuming s - 1\<rparr>
      in if parent s = Waiting then continue_parent s else s\<lparr>dangling := True\<rparr>)"

text \<open>After an undefined operation there is nothing to say; on one thread a \<^verbatim>\<open>resume\<close> follows its test
  at once.\<close>

definition may_step :: "bool \<Rightarrow> ('a, 'e) adapter \<Rightarrow> bool" where
  "may_step race s \<longleftrightarrow> \<not> crashed s \<and> \<not> dangling s \<and> (race \<or> resuming s = 0)"

inductive adapter_step :: "bool \<Rightarrow> 32 word \<Rightarrow> ('a, 'e) adapter \<Rightarrow> ('a, 'e) adapter \<Rightarrow> bool" for race all_types where
  step_suspend: "may_step race s \<Longrightarrow> parent s = Before \<Longrightarrow> adapter_step race all_types s (suspend_parent posted s)"
| step_start: "may_step race s \<Longrightarrow> strand s = add_mset Start hs \<Longrightarrow>
    adapter_step race all_types s (start_asio spawned posted (s\<lparr>strand := hs\<rparr>))"
| step_return: "may_step race s \<Longrightarrow> running s \<Longrightarrow>
    adapter_step race all_types s
      (enqueue (Complete None) (run_asio body (s\<lparr>running := False, returned := Some body\<rparr>)))"
| step_abort: "may_step race s \<Longrightarrow> running s \<Longrightarrow>
    adapter_step race all_types s
      (enqueue (Complete (map_option Thrown x)) (s\<lparr>running := False, aborted := x\<rparr>))"
| step_complete: "may_step race s \<Longrightarrow> strand s = add_mset (Complete e) hs \<Longrightarrow>
    adapter_step race all_types s (complete_asio e posted (s\<lparr>strand := hs\<rparr>))"
| step_resume: "may_step race s \<Longrightarrow> strand s = add_mset Resume hs \<Longrightarrow>
    adapter_step race all_types s (resume_parent answer (s\<lparr>strand := hs\<rparr>))"
| step_job: "may_step race s \<Longrightarrow> jobs s = Suc n \<Longrightarrow>
    adapter_step race all_types s (scheduled_resume (s\<lparr>jobs := n\<rparr>))"
| step_handle: "\<not> crashed s \<Longrightarrow> \<not> dangling s \<Longrightarrow> resuming s > 0 \<Longrightarrow>
    adapter_step race all_types s (handle_resume s)"
| step_request: "may_step race s \<Longrightarrow> adapter_step race all_types s (snd (request_cancel alive ty posted s))"
| step_cancel: "may_step race s \<Longrightarrow> strand s = add_mset (Cancel ty) hs \<Longrightarrow>
    adapter_step race all_types s (cancel_handler ty (s\<lparr>strand := hs\<rparr>))"
| step_destroy: "may_step race s \<Longrightarrow> parent s \<noteq> Destroyed \<Longrightarrow>
    adapter_step race all_types s (abandon all_types posted s\<lparr>parent := Destroyed\<rparr>)"

definition adapter_reachable :: "bool \<Rightarrow> 32 word \<Rightarrow> bool \<Rightarrow> ('a, 'e) adapter \<Rightarrow> bool" where
  "adapter_reachable race all_types executor s \<longleftrightarrow> (adapter_step race all_types)\<^sup>*\<^sup>* (coAwait executor (new_adapter False)) s"

section \<open>The invariant\<close>

fun carries :: "'e handler \<Rightarrow> bool" where
  "carries (Cancel ty) = False"
| "carries h = True"

definition carriers :: "'e handler multiset \<Rightarrow> nat" where
  "carriers hs = size (filter_mset carries hs)"

definition tokens :: "('a, 'e) adapter \<Rightarrow> nat" where
  "tokens s = carriers (strand s) + of_bool (running s) + jobs s + resuming s"

definition ready :: "('a, 'e) adapter \<Rightarrow> bool" where
  "ready s \<longleftrightarrow> result s \<noteq> None \<or> exn_ptr s \<noteq> None"

definition untouched :: "('a, 'e) adapter \<Rightarrow> bool" where
  "untouched s \<longleftrightarrow> result s = None \<and> exn_ptr s = None \<and> \<not> finished s \<and> returned s = None"

definition control_inv :: "bool \<Rightarrow> ('a, 'e) adapter \<Rightarrow> bool" where
  "control_inv race s \<longleftrightarrow>
     (case parent s of
        Before \<Rightarrow> tokens s = 0 \<and> owned s \<and> \<not> abandoned s \<and> \<not> resume_observed s \<and> \<not> has_handle s \<and>
          \<not> await_started s \<and> outcomes s = [] \<and> untouched s
      | Waiting \<Rightarrow> (crashed s \<or> tokens s = 1) \<and> owned s \<and> \<not> abandoned s \<and> \<not> resume_observed s \<and>
          has_handle s \<and> outcomes s = []
      | Continued \<Rightarrow> tokens s = 0 \<and> owned s \<and> resume_observed s \<and> \<not> abandoned s \<and> length (outcomes s) = 1
      | Destroyed \<Rightarrow> \<not> owned s \<and> tokens s \<le> 1 \<and>
          (abandoned s \<and> \<not> resume_observed s \<and> outcomes s = [] \<and> (tokens s = 0 \<or> has_handle s) \<or>
           resume_observed s \<and> tokens s = 0 \<and> length (outcomes s) = 1)) \<and>
     (dangling s \<longrightarrow> race \<and> abandoned s) \<and>
     (resuming s > 0 \<longrightarrow> parent s = Waiting \<or> race \<and> abandoned s)"

fun explained :: "('e + 'a) option \<Rightarrow> 'e option \<Rightarrow> bool \<Rightarrow> 'e exn \<Rightarrow> bool" where
  "explained r a scheduler (Thrown x) \<longleftrightarrow> r = Some (Inl x) \<or> a = Some x"
| "explained r a scheduler Schedule_failed \<longleftrightarrow> scheduler"
| "explained r a scheduler (Runtime_error m) \<longleftrightarrow> m = no_result_text \<and> r = None"
| "explained r a scheduler Post_failed \<longleftrightarrow> r = None"
| "explained r a scheduler Spawn_failed \<longleftrightarrow> r = None"

definition ready_inv :: "('a, 'e) adapter \<Rightarrow> bool" where
  "ready_inv s \<longleftrightarrow>
     (Start \<in># strand s \<or> running s \<longrightarrow> untouched s) \<and>
     (\<forall>e. Complete e \<in># strand s \<longrightarrow>
        finished s \<and> ready s \<and> e = None \<or> untouched s \<and> e = map_option Thrown (aborted s)) \<and>
     (Resume \<in># strand s \<or> jobs s > 0 \<or> resuming s > 0 \<longrightarrow> ready s)"

definition outcome_inv :: "('a, 'e) adapter \<Rightarrow> bool" where
  "outcome_inv s \<longleftrightarrow>
     (\<forall>e. exn_ptr s = Some e \<longrightarrow> explained (returned s) (aborted s) (has_executor s) e) \<and>
     (outcomes s = [] \<longrightarrow> result s = (case returned s of Some (Inr v) \<Rightarrow> Some v | _ \<Rightarrow> None)) \<and>
     (\<forall>v. returned s = Some (Inr v) \<longrightarrow> exn_ptr s = None \<or> exn_ptr s = Some Schedule_failed) \<and>
     (\<forall>e. Inl e \<in> set (outcomes s) \<longrightarrow> exn_ptr s = Some e) \<and>
     (\<forall>v. Inr v \<in> set (outcomes s) \<longrightarrow> returned s = Some (Inr v))"

lemma carriers_simps [simp]:
  "carriers {#} = 0"
  "carriers (add_mset h hs) = of_bool (carries h) + carriers hs"
  by (auto simp: carriers_def)

lemma no_carrier [simp]:
  "carriers hs = 0 \<Longrightarrow> Start \<notin># hs"
  "carriers hs = 0 \<Longrightarrow> Complete e \<notin># hs"
  "carriers hs = 0 \<Longrightarrow> Resume \<notin># hs"
  by (auto simp: carriers_def)

lemmas adapter_ops = suspend_parent_def await_suspend_def continue_parent_def await_resume_def enqueue_def
  start_asio_def emit_def post_resume_def run_asio_def complete_asio_def keep_exn_def resume_parent_def
  about_to_resume_def should_resume_def scheduled_resume_def handle_resume_def request_cancel_def
  cancel_handler_def abandon_def may_step_def Let_def

lemmas control_defs = adapter_ops control_inv_def tokens_def untouched_def

lemma control_step:
  assumes "adapter_step race all_types s s'" "control_inv race s"
  shows "control_inv race s'"
  using assms
proof (induction rule: adapter_step.induct)
  case (step_suspend s posted)
  then show ?case by (cases posted) (simp_all add: control_defs)
next
  case (step_start s hs spawned posted)
  then show ?case by (cases spawned; cases posted; cases "parent s") (auto simp: control_defs)
next
  case (step_return s body)
  then show ?case by (cases "parent s"; cases body) (auto simp: control_defs)
next
  case (step_abort s x)
  then show ?case by (cases "parent s") (auto simp: control_defs)
next
  case (step_complete s e hs posted)
  then show ?case by (cases "parent s"; cases posted; cases e) (auto simp: control_defs)
next
  case (step_resume s hs answer)
  then show ?case by (cases "parent s"; cases answer) (auto simp: control_defs)
next
  case (step_job s n)
  then show ?case by (cases "parent s") (auto simp: control_defs)
next
  case (step_handle s)
  then show ?case by (cases "parent s"; cases "exn_ptr s"; cases "result s") (auto simp: control_defs add_is_1)
next
  case (step_request s alive ty posted)
  then show ?case by (cases "parent s") (auto simp: control_defs)
next
  case (step_cancel s ty hs)
  then show ?case by (cases "parent s") (auto simp: control_defs)
next
  case (step_destroy s posted)
  then show ?case by (cases "parent s") (auto simp: control_defs)
qed

lemma one_token:
  assumes "control_inv race s" "may_step race s \<or> \<not> crashed s" "0 < tokens s"
  shows "carriers (strand s) + of_bool (running s) + jobs s + resuming s = 1"
    "\<not> resume_observed s" "outcomes s = []" "has_handle s"
  using assms by (auto simp: control_inv_def may_step_def tokens_def split: parent_state.splits)

lemmas data_defs = adapter_ops tokens_def ready_inv_def outcome_inv_def ready_def untouched_def

lemma cancel_fields [simp]:
  "result (cancel_handler ty s) = result s" "exn_ptr (cancel_handler ty s) = exn_ptr s"
  "finished (cancel_handler ty s) = finished s" "returned (cancel_handler ty s) = returned s"
  "aborted (cancel_handler ty s) = aborted s" "has_executor (cancel_handler ty s) = has_executor s"
  "strand (cancel_handler ty s) = strand s" "running (cancel_handler ty s) = running s"
  "jobs (cancel_handler ty s) = jobs s" "resuming (cancel_handler ty s) = resuming s"
  "outcomes (cancel_handler ty s) = outcomes s"
  by (simp_all add: cancel_handler_def emit_def)

lemma data_step:
  assumes "adapter_step race all_types s s'" "control_inv race s" "ready_inv s" "outcome_inv s"
  shows "ready_inv s' \<and> outcome_inv s'"
  using assms
proof (induction rule: adapter_step.induct)
  case (step_suspend s posted)
  then show ?case
    by (cases posted) (simp_all add: data_defs control_inv_def)
next
  case (step_start s hs spawned posted)
  have "untouched s" using step_start by (simp add: ready_inv_def)
  moreover have "carriers hs = 0" "\<not> running s" "jobs s = 0" "resuming s = 0" "outcomes s = []"
    using one_token [of race s] step_start by (simp_all add: tokens_def)
  ultimately show ?case
    by (cases spawned; cases posted) (simp_all add: data_defs)
next
  case (step_return s body)
  have "untouched s" using step_return by (simp add: ready_inv_def)
  moreover have "carriers (strand s) = 0" "jobs s = 0" "resuming s = 0" "outcomes s = []"
    using one_token [of race s] step_return by (simp_all add: tokens_def)
  ultimately show ?case
    by (cases body) (simp_all add: data_defs)
next
  case (step_abort s x)
  have "untouched s" using step_abort by (simp add: ready_inv_def)
  moreover have "carriers (strand s) = 0" "jobs s = 0" "resuming s = 0" "outcomes s = []"
    using one_token [of race s] step_abort by (simp_all add: tokens_def)
  ultimately show ?case
    by (simp_all add: data_defs)
next
  case (step_complete s e hs posted)
  have rest: "carriers hs = 0" "\<not> running s" "jobs s = 0" "resuming s = 0" "outcomes s = []"
    using one_token [of race s] step_complete by (simp_all add: tokens_def)
  consider "finished s" "ready s" "e = None" | "untouched s" "e = map_option Thrown (aborted s)"
    using step_complete by (auto simp: ready_inv_def)
  then show ?case
  proof cases
    case 1
    then show ?thesis using \<open>outcome_inv s\<close> rest by (cases posted) (simp_all add: data_defs)
  next
    case 2
    then show ?thesis using \<open>outcome_inv s\<close> rest
      by (cases posted; cases "aborted s") (simp_all add: data_defs)
  qed
next
  case (step_resume s hs answer)
  have "ready s" using step_resume by (simp add: ready_inv_def)
  moreover have "carriers hs = 0" "\<not> running s" "jobs s = 0" "resuming s = 0" "outcomes s = []"
    using one_token [of race s] step_resume by (simp_all add: tokens_def)
  ultimately show ?case using \<open>outcome_inv s\<close>
    by (cases answer) (auto simp: data_defs)
next
  case (step_job s n)
  have "ready s" using step_job by (simp add: ready_inv_def)
  moreover have "carriers (strand s) = 0" "\<not> running s" "n = 0" "resuming s = 0" "outcomes s = []"
    using one_token [of race s] step_job by (simp_all add: tokens_def)
  ultimately show ?case using \<open>outcome_inv s\<close>
    by (simp add: data_defs)
next
  case (step_handle s)
  have "ready s" using step_handle by (simp add: ready_inv_def)
  moreover have "carriers (strand s) = 0" "\<not> running s" "jobs s = 0" "resuming s = 1" "outcomes s = []"
    using one_token [of race s] step_handle by (auto simp: tokens_def)
  ultimately show ?case using \<open>outcome_inv s\<close> \<open>control_inv race s\<close>
    by (cases "exn_ptr s"; cases "result s")
      (auto simp: data_defs control_inv_def split: option.splits sum.splits)
next
  case (step_request s alive ty posted)
  then show ?case by (simp add: data_defs)
next
  case (step_cancel s ty hs)
  then show ?case by (simp add: ready_inv_def outcome_inv_def ready_def untouched_def)
next
  case (step_destroy s posted)
  then show ?case by (simp add: data_defs)
qed

lemma adapter_reachable_inv:
  assumes "adapter_reachable race all_types executor s"
  shows "control_inv race s \<and> ready_inv s \<and> outcome_inv s"
proof -
  have "control_inv race (coAwait executor (new_adapter False)) \<and>
    ready_inv (coAwait executor (new_adapter False)) \<and> outcome_inv (coAwait executor (new_adapter False))"
    by (simp add: coAwait_def new_adapter_def control_inv_def data_defs)
  with assms [unfolded adapter_reachable_def] show ?thesis
    by (induction rule: rtranclp_induct) (use control_step data_step in \<open>blast+\<close>)
qed

section \<open>Cancellation\<close>

definition cancel_inv :: "('a, 'e) adapter \<Rightarrow> bool" where
  "cancel_inv s \<longleftrightarrow> (running s \<longrightarrow> delivered s = pending_cancellation s) \<and>
     (parent s = Before \<or> Start \<in># strand s \<longrightarrow> delivered s = 0)"

lemma cancel_step:
  assumes "adapter_step race all_types s s'" "control_inv race s" "cancel_inv s"
  shows "cancel_inv s'"
  using assms
proof (induction rule: adapter_step.induct)
  case (step_suspend s posted)
  then show ?case by (cases posted) (simp_all add: adapter_ops cancel_inv_def control_inv_def tokens_def)
next
  case (step_start s hs spawned posted)
  have "carriers hs = 0" "\<not> running s"
    using one_token [of race s] step_start by (simp_all add: tokens_def)
  moreover have "parent s \<noteq> Before"
    using step_start by (auto simp: control_inv_def tokens_def)
  ultimately show ?case using step_start
    by (cases spawned; cases posted) (simp_all add: adapter_ops cancel_inv_def)
next
  case (step_return s body)
  then show ?case by (cases body) (auto simp: adapter_ops cancel_inv_def)
next
  case (step_abort s x)
  then show ?case by (auto simp: adapter_ops cancel_inv_def)
next
  case (step_complete s e hs posted)
  then show ?case by (cases posted; cases e) (simp_all add: adapter_ops cancel_inv_def)
next
  case (step_resume s hs answer)
  then show ?case by (cases answer) (simp_all add: adapter_ops cancel_inv_def)
next
  case (step_job s n)
  then show ?case by (simp add: adapter_ops cancel_inv_def)
next
  case (step_handle s)
  then show ?case
    by (cases "exn_ptr s"; cases "result s") (simp_all add: adapter_ops cancel_inv_def)
next
  case (step_request s alive ty posted)
  then show ?case by (simp add: adapter_ops cancel_inv_def)
next
  case (step_cancel s ty hs)
  have "running s \<Longrightarrow> carriers hs = 0 \<and> parent s \<noteq> Before"
    using one_token [of race s] step_cancel by (auto simp: tokens_def control_inv_def)
  then show ?case using step_cancel by (auto simp: adapter_ops cancel_inv_def)
next
  case (step_destroy s posted)
  then show ?case by (simp add: adapter_ops cancel_inv_def)
qed

text \<open>No cancellation is lost by coming before the operation has started: what was requested so far is what
  the running operation has been told.\<close>

lemma cancellation_delivered:
  assumes "adapter_reachable race all_types executor s" "running s"
  shows "delivered s = pending_cancellation s"
proof -
  have "control_inv race (coAwait executor (new_adapter False)) \<and> cancel_inv (coAwait executor (new_adapter False))"
    by (simp add: coAwait_def new_adapter_def control_inv_def cancel_inv_def data_defs)
  with assms(1) [unfolded adapter_reachable_def] have "control_inv race s \<and> cancel_inv s"
    by (induction rule: rtranclp_induct) (use control_step cancel_step in \<open>blast+\<close>)
  with assms(2) show ?thesis by (simp add: cancel_inv_def)
qed

section \<open>Progress\<close>

definition can_continue :: "bool \<Rightarrow> 32 word \<Rightarrow> ('a, 'e) adapter \<Rightarrow> bool" where
  "can_continue race all_types s \<longleftrightarrow>
     (\<exists>s'. (adapter_step race all_types)\<^sup>*\<^sup>* s s' \<and> parent s' = Continued \<and> outcomes s' \<noteq> [])"

lemma can_continue_step:
  "adapter_step race all_types s s' \<Longrightarrow> can_continue race all_types s' \<Longrightarrow> can_continue race all_types s"
  unfolding can_continue_def by (meson converse_rtranclp_into_rtranclp)

definition healthy :: "('a, 'e) adapter \<Rightarrow> bool" where
  "healthy s \<longleftrightarrow> \<not> crashed s \<and> \<not> dangling s \<and> parent s = Waiting \<and> should_resume s"

lemma resuming_continues:
  assumes "healthy s" "resuming s > 0"
  shows "can_continue race all_types s"
proof -
  have "adapter_step race all_types s (handle_resume s)"
    using assms by (intro step_handle) (auto simp: healthy_def)
  moreover have "parent (handle_resume s) = Continued \<and> outcomes (handle_resume s) \<noteq> []"
    using assms by (simp add: healthy_def handle_resume_def continue_parent_def Let_def split: prod.split)
  ultimately show ?thesis unfolding can_continue_def by blast
qed

lemma job_continues:
  assumes "healthy s" "jobs s > 0" "resuming s = 0"
  shows "can_continue race all_types s"
proof -
  obtain n where n: "jobs s = Suc n" using assms by (cases "jobs s") auto
  show ?thesis
    by (rule can_continue_step [OF step_job [OF _ n]], use assms in \<open>simp add: healthy_def may_step_def\<close>)
      (rule resuming_continues; use assms in \<open>simp add: healthy_def scheduled_resume_def about_to_resume_def should_resume_def\<close>)
qed

lemma resume_continues:
  assumes "healthy s" "Resume \<in># strand s" "resuming s = 0"
  shows "can_continue race all_types s"
proof -
  obtain hs where hs: "strand s = add_mset Resume hs" using assms by (meson multi_member_split)
  show ?thesis
    by (rule can_continue_step [OF step_resume [OF _ hs, where answer = Refused]], use assms in \<open>simp add: healthy_def may_step_def\<close>)
      (rule resuming_continues; use assms in \<open>simp add: healthy_def resume_parent_def about_to_resume_def should_resume_def\<close>)
qed

lemma complete_continues:
  assumes "healthy s" "Complete e \<in># strand s" "resuming s = 0"
  shows "can_continue race all_types s"
proof -
  obtain hs where hs: "strand s = add_mset (Complete e) hs" using assms by (meson multi_member_split)
  show ?thesis
    by (rule can_continue_step [OF step_complete [OF _ hs, where posted = True]], use assms in \<open>simp add: healthy_def may_step_def\<close>)
      (rule resume_continues; use assms in \<open>cases e; simp add: healthy_def complete_asio_def post_resume_def enqueue_def
          keep_exn_def should_resume_def Let_def\<close>)
qed

lemma running_continues:
  assumes "healthy s" "running s" "resuming s = 0"
  shows "can_continue race all_types s"
  by (rule can_continue_step [OF step_abort [where x = None]], use assms in \<open>simp_all add: healthy_def may_step_def\<close>)
    (rule complete_continues [where e = None]; use assms in \<open>simp add: healthy_def enqueue_def should_resume_def\<close>)

lemma start_continues:
  assumes "healthy s" "Start \<in># strand s" "resuming s = 0"
  shows "can_continue race all_types s"
proof -
  obtain hs where hs: "strand s = add_mset Start hs" using assms by (meson multi_member_split)
  show ?thesis
    by (rule can_continue_step [OF step_start [OF _ hs, where spawned = True]], use assms in \<open>simp add: healthy_def may_step_def\<close>)
      (rule running_continues; use assms in \<open>simp add: healthy_def start_asio_def emit_def should_resume_def Let_def\<close>)
qed

text \<open>A waiting parent is never stuck: from every state a run leads to its resumption.\<close>

lemma waiting_parent_continues:
  assumes "adapter_reachable race all_types executor s" "parent s = Waiting" "\<not> crashed s"
  shows "can_continue race all_types s"
proof -
  have inv: "control_inv race s" using adapter_reachable_inv [OF assms(1)] by blast
  then have h: "healthy s" and one: "carriers (strand s) + of_bool (running s) + jobs s + resuming s = 1"
    using assms(2,3) by (auto simp: control_inv_def healthy_def should_resume_def tokens_def)
  show ?thesis
  proof (cases "carriers (strand s) = 0")
    case True
    then show ?thesis
      using one resuming_continues [OF h] job_continues [OF h] running_continues [OF h]
      by (cases "resuming s") (auto simp: of_bool_def split: if_splits)
  next
    case False
    then obtain t where "t \<in># strand s" "carries t" "resuming s = 0"
      using one by (auto simp: carriers_def)
    then show ?thesis
      using start_continues [OF h] complete_continues [OF h] resume_continues [OF h] by (cases t) auto
  qed
qed

section \<open>Runs\<close>

text \<open>A short run in which nothing fails; one in which another thread destroys the parent between
  the test and the resume; and one in which posting the resume fails.\<close>

definition played :: "(nat, nat) adapter list" where
  "played =
     (let s0 = coAwait False (new_adapter False); s1 = suspend_parent True s0;
          s2 = start_asio True True (s1\<lparr>strand := {#}\<rparr>);
          s3 = enqueue (Complete None) (run_asio (Inr 7) (s2\<lparr>running := False, returned := Some (Inr 7)\<rparr>));
          s4 = complete_asio None True (s3\<lparr>strand := {#}\<rparr>);
          s5 = resume_parent Refused (s4\<lparr>strand := {#}\<rparr>)
      in [s0, s1, s2, s3, s4, s5, handle_resume s5])"

lemmas played_defs = played_def coAwait_def new_adapter_def adapter_ops

lemma played_steps:
  "(adapter_step race all_types)\<^sup>*\<^sup>* (coAwait False (new_adapter False)) (played ! 3)"
  "adapter_step race all_types (played ! 3) (played ! 4)"
  "adapter_step race all_types (played ! 4) (played ! 5)"
proof -
  have a: "adapter_step race all_types (played ! 0) (played ! 1)"
    using step_suspend [of race "played ! 0" all_types True] by (simp add: played_defs)
  have b: "adapter_step race all_types (played ! 1) (played ! 2)"
    using step_start [of race "played ! 1" "{#}" all_types True True] by (simp add: played_defs)
  have c: "adapter_step race all_types (played ! 2) (played ! 3)"
    using step_return [of race "played ! 2" all_types "Inr 7"] by (simp add: played_defs)
  have "coAwait False (new_adapter False) = played ! 0" by (simp add: played_defs)
  then show "(adapter_step race all_types)\<^sup>*\<^sup>* (coAwait False (new_adapter False)) (played ! 3)"
    using a b c by (metis (no_types, lifting) rtranclp.rtrancl_refl rtranclp.rtrancl_into_rtrancl)
  show "adapter_step race all_types (played ! 3) (played ! 4)"
    using step_complete [of race "played ! 3" None "{#}" all_types True] by (simp add: played_defs)
  show "adapter_step race all_types (played ! 4) (played ! 5)"
    using step_resume [of race "played ! 4" "{#}" all_types Refused] by (simp add: played_defs)
qed

lemma played_reachable:
  "adapter_reachable race all_types False (played ! 5)" "adapter_reachable race all_types False (played ! 6)"
proof -
  show five: "adapter_reachable race all_types False (played ! 5)"
    unfolding adapter_reachable_def using played_steps [of race all_types]
    by (meson rtranclp.rtrancl_into_rtrancl)
  have "adapter_step race all_types (played ! 5) (played ! 6)"
    using step_handle [of "played ! 5" race all_types] by (simp add: played_defs)
  with five show "adapter_reachable race all_types False (played ! 6)"
    unfolding adapter_reachable_def by (rule rtranclp.rtrancl_into_rtrancl)
qed

text \<open>The test and the resume are not one operation: a parent destroyed between them by another thread is
  resumed all the same.\<close>

lemma race_resumes_destroyed:
  "\<exists>s :: (nat, nat) adapter. adapter_reachable True all_types False s \<and> dangling s"
proof -
  let ?d = "abandon all_types False (played ! 5)\<lparr>parent := Destroyed\<rparr>"
  have "adapter_reachable True all_types False ?d"
    using played_reachable(1) [of True all_types] step_destroy [of True "played ! 5" all_types False]
    unfolding adapter_reachable_def
    by (rule rtranclp.rtrancl_into_rtrancl) (simp_all add: played_defs)
  moreover have "adapter_step True all_types ?d (handle_resume ?d)"
    by (rule step_handle) (simp_all add: played_defs)
  moreover have "dangling (handle_resume ?d)" by (simp add: played_defs)
  ultimately show ?thesis unfolding adapter_reachable_def
    by (meson rtranclp.rtrancl_into_rtrancl)
qed

text \<open>When posting the resume fails the program crashes although the operation has its result.\<close>

lemma failed_post_crashes:
  "\<exists>s :: (nat, nat) adapter. adapter_reachable race all_types False s \<and> crashed s \<and> result s \<noteq> None"
proof -
  let ?c = "complete_asio None False ((played ! 3)\<lparr>strand := {#}\<rparr>)"
  have "adapter_step race all_types (played ! 3) ?c"
    by (rule step_complete) (simp_all add: played_defs)
  moreover have "crashed ?c \<and> result ?c \<noteq> None" by (simp add: played_defs)
  ultimately show ?thesis using played_steps(1) [of race all_types] unfolding adapter_reachable_def
    by (meson rtranclp.rtrancl_into_rtrancl)
qed

section \<open>Properties\<close>

text \<open>C26: In every interleaving the parent gets at most one result, and it is resumed when it does not wait
  only if it was destroyed by another thread between the test and the \<^verbatim>\<open>resume\<close> - on one thread never.  As long as it
  waits and nothing crashed, exactly one thing is under way that will resume it: a posted
  handler, the running operation, a scheduled lambda or a thread about to resume.\<close>

theorem parent_resumed_once:
  assumes "adapter_reachable race all_types executor s"
  shows "length (outcomes s) \<le> 1 \<and> (dangling s \<longrightarrow> race \<and> parent s = Destroyed \<and> abandoned s) \<and>
    (parent s = Waiting \<and> \<not> crashed s \<longrightarrow> tokens s = 1)"
  using adapter_reachable_inv [OF assms] by (auto simp: control_inv_def split: parent_state.splits)

theorem parent_resumed_once_witness:
  "length (outcomes (played ! 5)) \<le> 1 \<and> tokens (played ! 5) = 1"
  using parent_resumed_once [OF played_reachable(1) [of False 0]] by (simp add: played_defs)

text \<open>C27: What the parent gets is what the operation did: a value is the one it returned; an exception is
  the one it threw or was aborted with, or tells that posting, spawning or finishing it failed -
  then it returned nothing - or that the parent's executor threw.  The parent never finds that the
  result is missing.\<close>

theorem parent_gets_outcome:
  assumes "adapter_reachable race all_types executor s" "r \<in> set (outcomes s)"
  shows "case r of
      Inr v \<Rightarrow> returned s = Some (Inr v)
    | Inl e \<Rightarrow> explained (returned s) (aborted s) (has_executor s) e \<and>
        ((\<exists>v. returned s = Some (Inr v)) \<longrightarrow> e = Schedule_failed)"
  using adapter_reachable_inv [OF assms(1)] assms(2) by (auto simp: outcome_inv_def split: sum.splits)

theorem parent_gets_outcome_witness:
  "outcomes (played ! 6) = [Inr 7] \<and> returned (played ! 6) = Some (Inr 7)"
  using parent_gets_outcome [OF played_reachable(2) [of False 0], of "Inr 7"] by (simp add: played_defs)

section \<open>The plain adapter\<close>

text \<open>\<^verbatim>\<open>AsioAwaitableAdapter\<close> has no shared state: the awaiter must live until it is resumed.  \<open>plain_posted\<close>
  counts the resumes posted and not yet run, \<open>plain_outcomes\<close> what \<^verbatim>\<open>await_resume\<close> gave.\<close>

record ('a, 'e) plain_adapter =
  plain_result :: "'a option"
  plain_exn :: "'e exn option"
  plain_posted :: nat
  plain_outcomes :: "('e exn + 'a) list"

definition plain_await_resume :: "('a, 'e) plain_adapter \<Rightarrow> 'e exn + 'a" where
  "plain_await_resume s =
     (case plain_exn s of
        Some e \<Rightarrow> Inl e
      | None \<Rightarrow> (case plain_result s of
            None \<Rightarrow> Inl (Runtime_error ''asio_async_simple_adapter: missing asio result'')
          | Some v \<Rightarrow> Inr v))"

definition plain_handle_resume :: "('a, 'e) plain_adapter \<Rightarrow> ('a, 'e) plain_adapter" where
  "plain_handle_resume s = s\<lparr>plain_outcomes := plain_await_resume s # plain_outcomes s\<rparr>"

definition plain_post_resume :: "bool \<Rightarrow> ('a, 'e) plain_adapter \<Rightarrow> ('a, 'e) plain_adapter" where
  "plain_post_resume posted s =
     (if posted then s\<lparr>plain_posted := Suc (plain_posted s)\<rparr>
      else plain_handle_resume (if plain_exn s = None then s\<lparr>plain_exn := Some Post_failed\<rparr> else s))"

definition plain_run_asio :: "bool \<Rightarrow> 'e + 'a \<Rightarrow> ('a, 'e) plain_adapter \<Rightarrow> ('a, 'e) plain_adapter" where
  "plain_run_asio posted body s =
     plain_post_resume posted
       (case body of
          Inr v \<Rightarrow> s\<lparr>plain_result := Some v\<rparr>
        | Inl e \<Rightarrow> s\<lparr>plain_exn := Some (Thrown e)\<rparr>)"

definition plain_start_asio :: "bool \<Rightarrow> bool \<Rightarrow> 'e + 'a \<Rightarrow> ('a, 'e) plain_adapter \<Rightarrow> ('a, 'e) plain_adapter" where
  "plain_start_asio spawned posted body s =
     (if spawned then plain_run_asio posted body s
      else plain_post_resume posted (s\<lparr>plain_exn := Some Spawn_failed\<rparr>))"

definition plain_await_suspend :: "bool \<Rightarrow> ('a, 'e) plain_adapter \<Rightarrow> bool \<times> ('a, 'e) plain_adapter" where
  "plain_await_suspend posted s = (if posted then (True, s) else (False, s\<lparr>plain_exn := Some Post_failed\<rparr>))"

text \<open>Awaiting: suspend, start the operation when the posted lambda runs, then run the posted resume.\<close>

definition plain_await :: "bool \<Rightarrow> bool \<Rightarrow> 'e + 'a \<Rightarrow> bool \<Rightarrow> ('e exn + 'a) list" where
  "plain_await posted spawned body resume_posted =
     (let s = \<lparr>plain_result = None, plain_exn = None, plain_posted = 0, plain_outcomes = []\<rparr>;
          (suspended, s) = plain_await_suspend posted s;
          s = (if \<not> suspended then plain_handle_resume s
               else let s = plain_start_asio spawned resume_posted body s
                    in (plain_handle_resume ^^ plain_posted s) s)
      in plain_outcomes s)"

text \<open>The parent is resumed once; when only the posting of the resume fails, the result the operation
  has returned is replaced by the exception.\<close>

lemma plain_adapter_outcome:
  "plain_await posted spawned body resume_posted =
     [if \<not> posted then Inl Post_failed
      else if \<not> spawned then Inl Spawn_failed
      else case body of
        Inl e \<Rightarrow> Inl (Thrown e)
      | Inr v \<Rightarrow> if resume_posted then Inr v else Inl Post_failed]"
  by (simp add: plain_await_def plain_await_suspend_def plain_start_asio_def plain_run_asio_def
      plain_post_resume_def plain_handle_resume_def plain_await_resume_def Let_def split: sum.split)

end
