(* ===== verification/Iguana_Numbers.thy ===== *)
theory Iguana_Numbers
  imports Ormpp_Prelude
begin

text \<open>
  Printing integers as \<^verbatim>\<open>iguana/detail/itoa.hpp\<close> does it: two digits at a time from a table, the division by a
  power of ten replaced by a multiplication and a shift on fixed-width words, leading zeros skipped
  by a case distinction on the size.  The functions return the characters they write; \<open>split2\<close> is
  \<^verbatim>\<open>split<2>\<close> on 16-bit words and so on.  \<open>xtoa\<close> is the plain loop used for 64-bit values.
\<close>

section \<open>The table of digit pairs\<close>

definition digits :: string where
  "digits = map (\<lambda>i. char_of (48 + (if i mod 2 = 1 then (i div 2) mod 10 else (i div 2) div 10))) [0 ..< 200]"

text \<open>\<^verbatim>\<open>dd(u)\<close> read as two characters; past the table there is nothing to read.\<close>

definition dd :: "byte \<Rightarrow> string" where
  "dd u = take 2 (drop (2 * unat u) digits)"

definition digit_of :: "byte \<Rightarrow> char" where
  "digit_of u = char_of_byte (48 + u)"

section \<open>Division by multiplication\<close>

definition split2 :: "u16 \<Rightarrow> u16 \<times> byte" where
  "split2 u =
     (let q = ucast (drop_bit 22 (41943 * (ucast u + 1 :: u32))) :: u16
      in (q, ucast (ucast u - ucast q * 100 :: u32)))"

definition split4 :: "u32 \<Rightarrow> u32 \<times> u16" where
  "split4 u =
     (let q = ucast (drop_bit 45 (3518437209 * (ucast u :: u64))) :: u32
      in (q, ucast (u - q * 10000)))"

section \<open>Digits with and without leading zeros\<close>

definition head1 :: "byte \<Rightarrow> string" where
  "head1 u = (if u < 10 then [digit_of u] else dd u)"

definition tail1 :: "byte \<Rightarrow> string" where
  "tail1 u = dd u"

definition tail2 :: "u16 \<Rightarrow> string" where
  "tail2 u = (let (q, r) = split2 u in tail1 (ucast q) @ tail1 r)"

definition head2_split :: "u16 \<times> byte \<Rightarrow> string" where
  "head2_split x = head1 (ucast (fst x)) @ tail1 (snd x)"

definition head2 :: "u16 \<Rightarrow> string" where
  "head2 u = (if u < 100 then head1 (ucast u) else head2_split (split2 u))"

definition head4_split :: "u32 \<times> u16 \<Rightarrow> string" where
  "head4_split x = head2 (ucast (fst x)) @ tail2 (snd x)"

definition large2 :: "u16 \<times> byte \<Rightarrow> string" where
  "large2 x = (let y = split2 (fst x) in head1 (ucast (fst y)) @ tail1 (snd y) @ tail1 (snd x))"

definition large4 :: "u32 \<times> u16 \<Rightarrow> string" where
  "large4 x = (let y = split4 (fst x) in head2 (ucast (fst y)) @ tail2 (snd y) @ tail2 (snd x))"

section \<open>The entry points\<close>

definition itoa2 :: "u16 \<Rightarrow> string" where
  "itoa2 u =
     (if u < 100 then head1 (ucast u)
      else let x = split2 u in if u < 10000 then head2_split x else large2 x)"

definition itoa4 :: "u32 \<Rightarrow> string" where
  "itoa4 u =
     (if u < 10000 then head2 (ucast u)
      else let x = split4 u in if u < 100000000 then head4_split x else large4 x)"

text \<open>The absolute value without a branch: \<open>2u\<close> masked by the sign, minus \<open>u\<close>.  The minus sign is always
  stored and overwritten when the value is not negative.\<close>

definition itoa_fwd2 :: "u16 \<Rightarrow> string" where
  "itoa_fwd2 i =
     (let mask = (if sint i < 0 then NOT 0 else 0);
          u = ((2 * i) AND NOT mask) - i
      in (if mask AND 1 = 1 then ''-'' else []) @ itoa2 u)"

definition itoa_fwd4 :: "u32 \<Rightarrow> string" where
  "itoa_fwd4 i =
     (let mask = (if sint i < 0 then NOT 0 else 0);
          u = ((2 * i) AND NOT mask) - i
      in (if mask AND 1 = 1 then ''-'' else []) @ itoa4 u)"

text \<open>The loop of \<^verbatim>\<open>xtoa\<close> stores the digits from the last to the first and reverses them in place.  The negation
  of the smallest \<^verbatim>\<open>long long\<close>, which C++ leaves undefined, wraps around here.\<close>

function xtoa_loop :: "u64 \<Rightarrow> string" where
  "xtoa_loop u =
     (let c = (if u mod 10 < 10 then char_of (48 + unat (u mod 10)) else char_of (65 + unat (u mod 10) - 10))
      in if 0 < u div 10 then c # xtoa_loop (u div 10) else [c])"
  by pat_completeness auto
termination
  by (relation "measure unat") (auto simp: unat_div word_less_nat_alt)

declare xtoa_loop.simps [simp del]

definition xtoa :: "u64 \<Rightarrow> bool \<Rightarrow> string" where
  "xtoa v signedp =
     (if signedp \<and> sint v < 0 then ''-'' @ rev (xtoa_loop (- v)) else rev (xtoa_loop v))"

section \<open>Correctness of the division\<close>

lemma mul_inverse_100:
  assumes "n < 65536"
  shows "41943 * (n + 1) div 4194304 = n div (100::nat)"
proof -
  define q r where "q = n div 100" and "r = n mod 100"
  have n: "n = 100 * q + r" "r < 100" "q \<le> 655"
    using assms by (auto simp: q_def r_def)
  have "41943 * (n + 1) div 4194304 = q"
    by (rule div_nat_eqI) (use n in simp_all)
  then show ?thesis by (simp add: q_def)
qed

lemma mul_inverse_10000:
  assumes "n < 4294967296"
  shows "3518437209 * n div 35184372088832 = n div (10000::nat)"
proof -
  define q r where "q = n div 10000" and "r = n mod 10000"
  have n: "n = 10000 * q + r" "r < 10000" "q \<le> 429496"
    using assms by (auto simp: q_def r_def)
  have "3518437209 * n div 35184372088832 = q"
    by (rule div_nat_eqI) (use n in simp_all)
  then show ?thesis by (simp add: q_def)
qed

lemma unat_lt: "unat (w :: byte) < 256" "unat (u :: u16) < 65536" "unat (v :: u32) < 4294967296"
  using unsigned_less [of w, where ?'a = nat] unsigned_less [of u, where ?'a = nat]
    unsigned_less [of v, where ?'a = nat] by simp_all

lemma ucast_small: "unat w < 2 ^ LENGTH('b) \<Longrightarrow> unat (ucast w :: 'b :: len word) = unat w"
  by (simp add: unsigned_ucast_eq take_bit_nat_eq_self)

lemmas word_evals = ucast_small unat_word_ariths unat_drop_bit_eq drop_bit_eq_div unat_of_nat take_bit_eq_mod

lemma split2_eq:
  "unat (fst (split2 u)) = unat u div 100" "unat (snd (split2 u)) = unat u mod 100"
proof -
  have le: "unat u < 65536" by (rule unat_lt)
  have m: "unat (41943 * (ucast u + 1) :: u32) = 41943 * (unat u + 1)"
    using le by (simp add: word_evals)
  have d: "unat (drop_bit 22 (41943 * (ucast u + 1) :: u32)) = unat u div 100"
    unfolding unat_drop_bit_eq m using mul_inverse_100 [OF le] by (simp add: drop_bit_eq_div)
  then have q: "unat (ucast (drop_bit 22 (41943 * (ucast u + 1) :: u32)) :: u16) = unat u div 100"
    using le by (subst ucast_small) simp_all
  then show "unat (fst (split2 u)) = unat u div 100" by (simp add: split2_def Let_def)
  define v where "v = (ucast (drop_bit 22 (41943 * (ucast u + 1) :: u32)) :: u16)"
  have v: "unat v = unat u div 100" using q by (simp add: v_def)
  have sub: "unat (ucast u - ucast v * 100 :: u32) = unat u mod 100"
  proof -
    have "unat (ucast v * 100 :: u32) = unat u div 100 * 100"
      using le v by (simp add: word_evals)
    moreover have "unat (ucast u :: u32) = unat u" using le by (simp add: ucast_small)
    moreover have "unat u div 100 * 100 \<le> unat u" by simp
    ultimately show ?thesis by (simp add: unat_sub word_le_nat_alt minus_mult_div_eq_mod mult.commute)
  qed
  have "snd (split2 u) = ucast (ucast u - ucast v * 100 :: u32)"
    by (simp only: split2_def Let_def v_def snd_conv)
  then show "unat (snd (split2 u)) = unat u mod 100"
    using sub by (simp add: ucast_small)
qed

lemma split4_eq:
  "unat (fst (split4 u)) = unat u div 10000" "unat (snd (split4 u)) = unat u mod 10000"
proof -
  have le: "unat u < 4294967296" by (rule unat_lt)
  have m: "unat (3518437209 * ucast u :: u64) = 3518437209 * unat u"
    using le by (simp add: word_evals)
  have d: "unat (drop_bit 45 (3518437209 * ucast u :: u64)) = unat u div 10000"
    unfolding unat_drop_bit_eq m using mul_inverse_10000 [OF le] by (simp add: drop_bit_eq_div)
  define v where "v = (ucast (drop_bit 45 (3518437209 * ucast u :: u64)) :: u32)"
  have v: "unat v = unat u div 10000"
    unfolding v_def using d le by (subst ucast_small) simp_all
  then show "unat (fst (split4 u)) = unat u div 10000" by (simp add: split4_def Let_def v_def)
  have sub: "unat (u - v * 10000) = unat u mod 10000"
  proof -
    have "unat (v * 10000) = unat u div 10000 * 10000"
      using le v by (simp add: word_evals)
    moreover have "unat u div 10000 * 10000 \<le> unat u" by simp
    ultimately show ?thesis by (simp add: unat_sub word_le_nat_alt minus_mult_div_eq_mod mult.commute)
  qed
  have "snd (split4 u) = ucast (u - v * 10000)"
    by (simp only: split4_def Let_def v_def snd_conv)
  then show "unat (snd (split4 u)) = unat u mod 10000"
    using sub by (simp add: ucast_small)
qed


section \<open>Correctness of the digits\<close>

text \<open>The last \<open>k\<close> digits of a number, leading zeros included.\<close>

fun padded_digits :: "nat \<Rightarrow> nat \<Rightarrow> string" where
  "padded_digits 0 n = []"
| "padded_digits (Suc k) n = padded_digits k (n div 10) @ [digit_char (n mod 10)]"

lemma padded_digits_add:
  "padded_digits (j + k) n = padded_digits j (n div 10 ^ k) @ padded_digits k n"
  by (induction k arbitrary: n) (simp_all add: div_mult2_eq)

lemma padded_two: "padded_digits 2 n = [digit_char (n div 10 mod 10), digit_char (n mod 10)]"
  by (simp add: numeral_2_eq_2)

lemma padded_digits_mod: "padded_digits k (n mod 10 ^ k) = padded_digits k n"
proof (induction k arbitrary: n)
  case (Suc k)
  have "n mod 10 ^ Suc k div 10 = n div 10 mod 10 ^ k" by (simp add: mod_mult2_eq)
  moreover have "n mod 10 ^ Suc k mod 10 = n mod 10" by (simp add: mod_mult2_eq)
  ultimately show ?case using Suc [of "n div 10"] by simp
qed simp

lemma nat_str_padded:
  "10 ^ k \<le> n \<Longrightarrow> nat_str n = nat_str (n div 10 ^ k) @ padded_digits k n"
proof (induction k arbitrary: n)
  case (Suc k)
  then have "10 ^ k \<le> n div 10" by (simp add: less_eq_div_iff_mult_less_eq)
  moreover have "\<not> n < 10"
  proof -
    have "(10::nat) \<le> 10 * 10 ^ k" by simp
    also have "\<dots> \<le> n" using Suc.prems by simp
    finally show ?thesis by simp
  qed
  ultimately show ?case
    using Suc.IH [of "n div 10"] by (simp add: nat_str.simps [of n] div_mult2_eq)
qed simp

lemma length_digits: "length digits = 200"
  by (simp add: digits_def)

lemma dd_eq:
  assumes "unat u < 100"
  shows "dd u = padded_digits 2 (unat u)"
proof -
  have "dd u = [digits ! (2 * unat u), digits ! Suc (2 * unat u)]"
    using assms by (simp add: dd_def length_digits drop_Suc Cons_nth_drop_Suc [symmetric] take_Suc_conv_app_nth nth_tl)
  moreover have "digits ! (2 * unat u) = digit_char (unat u div 10)"
    using assms by (simp add: digits_def digit_char_def)
  moreover have "digits ! Suc (2 * unat u) = digit_char (unat u mod 10)"
    using assms by (simp add: digits_def digit_char_def)
  ultimately show ?thesis using assms by (simp add: padded_two)
qed

lemma digit_of_eq: "unat u < 10 \<Longrightarrow> digit_of u = digit_char (unat u)"
  by (simp add: digit_of_def char_of_byte_def digit_char_def unat_word_ariths)

lemma head1_eq:
  assumes "unat u < 100"
  shows "head1 u = nat_str (unat u)"
proof (cases "unat u < 10")
  case True
  then show ?thesis by (simp add: head1_def word_less_nat_alt digit_of_eq nat_str.simps [of "unat u"])
next
  case False
  then show ?thesis using assms
    by (simp add: head1_def word_less_nat_alt dd_eq padded_two
        nat_str.simps [of "unat u"] nat_str.simps [of "unat u div 10"])
qed

lemma tail2_eq:
  assumes "unat u < 10000"
  shows "tail2 u = padded_digits 4 (unat u)"
proof -
  have q: "unat (ucast (fst (split2 u)) :: byte) = unat u div 100"
    using assms by (subst ucast_small) (simp_all add: split2_eq)
  have "tail2 u = padded_digits 2 (unat u div 100) @ padded_digits 2 (unat u mod 100)"
    using assms by (simp add: tail2_def tail1_def split_beta dd_eq q split2_eq)
  then show ?thesis
    using padded_digits_add [of 2 2 "unat u"] padded_digits_mod [of 2 "unat u"] by simp
qed

lemma head2_split_eq:
  assumes "100 \<le> unat u" "unat u < 10000"
  shows "head2_split (split2 u) = nat_str (unat u)"
proof -
  have q: "unat (ucast (fst (split2 u)) :: byte) = unat u div 100"
    using assms by (subst ucast_small) (simp_all add: split2_eq)
  show ?thesis
    using assms nat_str_padded [of 2 "unat u"] padded_digits_mod [of 2 "unat u"]
    by (simp add: head2_split_def tail1_def head1_eq dd_eq q split2_eq)
qed

lemma head2_eq:
  assumes "unat u < 10000"
  shows "head2 u = nat_str (unat u)"
proof (cases "unat u < 100")
  case True
  then have "unat (ucast u :: byte) = unat u" by (simp add: ucast_small)
  with True show ?thesis by (simp add: head2_def word_less_nat_alt head1_eq)
next
  case False
  with assms show ?thesis by (simp add: head2_def word_less_nat_alt head2_split_eq)
qed

lemma head4_split_eq:
  assumes "10000 \<le> unat u" "unat u < 100000000"
  shows "head4_split (split4 u) = nat_str (unat u)"
proof -
  have q: "unat (ucast (fst (split4 u)) :: u16) = unat u div 10000"
    using assms by (subst ucast_small) (simp_all add: split4_eq)
  show ?thesis
    using assms nat_str_padded [of 4 "unat u"] padded_digits_mod [of 4 "unat u"]
    by (simp add: head4_split_def head2_eq tail2_eq q split4_eq)
qed

lemma large2_eq:
  assumes "10000 \<le> unat u"
  shows "large2 (split2 u) = nat_str (unat u)"
proof -
  let ?y = "split2 (fst (split2 u))"
  have lt: "unat u < 65536" by (rule unat_lt)
  have y: "unat (fst ?y) = unat u div 10000" "unat (snd ?y) = unat u div 100 mod 100"
    by (simp_all add: split2_eq div_mult2_eq [symmetric])
  have q: "unat (ucast (fst ?y) :: byte) = unat u div 10000"
    using lt y by (subst ucast_small) simp_all
  have "large2 (split2 u) = nat_str (unat u div 10000) @ padded_digits 2 (unat u div 100) @ padded_digits 2 (unat u)"
    using lt y padded_digits_mod [of 2 "unat u div 100"] padded_digits_mod [of 2 "unat u"]
    by (simp add: large2_def Let_def tail1_def head1_eq dd_eq q split2_eq)
  then show ?thesis
    using assms nat_str_padded [of 4 "unat u"] padded_digits_add [of 2 2 "unat u"] by simp
qed

lemma large4_eq:
  assumes "100000000 \<le> unat u"
  shows "large4 (split4 u) = nat_str (unat u)"
proof -
  let ?y = "split4 (fst (split4 u))"
  have lt: "unat u < 4294967296" by (rule unat_lt)
  have y: "unat (fst ?y) = unat u div 100000000" "unat (snd ?y) = unat u div 10000 mod 10000"
    by (simp_all add: split4_eq div_mult2_eq [symmetric])
  have q: "unat (ucast (fst ?y) :: u16) = unat u div 100000000"
    using lt y by (subst ucast_small) simp_all
  have "large4 (split4 u) = nat_str (unat u div 100000000) @ padded_digits 4 (unat u div 10000) @ padded_digits 4 (unat u)"
    using lt y padded_digits_mod [of 4 "unat u div 10000"] padded_digits_mod [of 4 "unat u"]
    by (simp add: large4_def Let_def head2_eq tail2_eq q split4_eq)
  then show ?thesis
    using assms nat_str_padded [of 8 "unat u"] padded_digits_add [of 4 4 "unat u"] by simp
qed

lemma itoa2_eq: "itoa2 u = nat_str (unat u)"
proof (cases "unat u < 100")
  case True
  then have "unat (ucast u :: byte) = unat u" by (simp add: ucast_small)
  with True show ?thesis by (simp add: itoa2_def word_less_nat_alt head1_eq)
next
  case False
  then show ?thesis by (simp add: itoa2_def Let_def word_less_nat_alt head2_split_eq large2_eq)
qed

lemma itoa4_eq: "itoa4 u = nat_str (unat u)"
proof (cases "unat u < 10000")
  case True
  then have "unat (ucast u :: u16) = unat u" by (simp add: ucast_small)
  with True show ?thesis by (simp add: itoa4_def word_less_nat_alt head2_eq)
next
  case False
  then show ?thesis by (simp add: itoa4_def Let_def word_less_nat_alt head4_split_eq large4_eq)
qed


section \<open>Signed values and the plain loop\<close>

lemma sint_neg_unat:
  fixes w :: "'a :: len word"
  assumes "sint w < 0"
  shows "unat (- w) = nat (- sint w)"
proof -
  have "uint (- w) = - sint w"
  proof -
    have "uint (- w) = take_bit LENGTH('a) (- sint w)"
      using uint_word_of_int_eq [of "- sint w", where ?'a = 'a] by simp
    also have "\<dots> = - sint w"
      using assms sint_greater_eq [of w] by (intro take_bit_int_eq_self)
        (auto intro: order.strict_trans1 [where b = "2 ^ (LENGTH('a) - 1)"])
    finally show ?thesis .
  qed
  then show ?thesis by (simp flip: nat_uint_eq)
qed

lemma sint_nonneg_unat:
  fixes w :: "'a :: len word"
  assumes "0 \<le> sint w"
  shows "unat w = nat (sint w)"
proof -
  have "uint w = take_bit LENGTH('a) (sint w)"
    using uint_word_of_int_eq [of "sint w", where ?'a = 'a] by simp
  also have "\<dots> = sint w"
    using assms sint_less [of w] by (intro take_bit_int_eq_self)
      (auto intro: order.strict_trans2 [where b = "2 ^ (LENGTH('a) - 1)"])
  finally show ?thesis by (simp flip: nat_uint_eq)
qed

lemma masked_absolute:
  fixes i :: "'a :: len word"
  shows "((2 * i) AND NOT (if sint i < 0 then NOT 0 else 0)) - i = (if sint i < 0 then - i else i)"
  by simp

lemma xtoa_loop_eq: "rev (xtoa_loop u) = nat_str (unat u)"
proof (induction u rule: xtoa_loop.induct)
  case (1 u)
  have m: "unat (u mod 10) = unat u mod 10" "unat (u div 10) = unat u div 10"
    by (simp_all add: unat_mod unat_div)
  show ?case
  proof (cases "0 < u div 10")
    case True
    then have "\<not> unat u < 10" using m by (auto simp: word_less_nat_alt div_greater_zero_iff)
    with True 1 show ?thesis
      by (simp add: xtoa_loop.simps [of u] nat_str.simps [of "unat u"] word_less_nat_alt m digit_char_def)
  next
    case False
    then have "unat u < 10" using m by (auto simp: word_less_nat_alt div_greater_zero_iff)
    with False show ?thesis
      by (simp add: xtoa_loop.simps [of u] nat_str.simps [of "unat u"] word_less_nat_alt m digit_char_def)
  qed
qed

lemma itoa_fwd4_eq: "itoa_fwd4 j = int_str (sint j)"
  by (simp add: itoa_fwd4_def masked_absolute Let_def itoa4_eq int_str_def sint_neg_unat sint_nonneg_unat)


end
