(* ===== verification/Iguana_Scan.thy ===== *)
theory Iguana_Scan
  imports Ormpp_Prelude
begin

text \<open>
  Scanning JSON text as \<^verbatim>\<open>iguana/json_util.hpp\<close> and \<^verbatim>\<open>iguana/util.hpp\<close> do it.  An iterator is the text that is left; reading at
  the end of a \<^verbatim>\<open>std::string\<close> gives its terminating NUL.  The search for a quote or a backslash takes eight
  characters at a time, read as one little-endian 64-bit word.
\<close>

section \<open>Single characters\<close>

definition peek :: "string \<Rightarrow> char" where
  "peek s = (case s of [] \<Rightarrow> CHR 0x00 | c # _ \<Rightarrow> c)"

definition quote :: char where
  "quote = CHR 0x22"

definition backslash_c :: char where
  "backslash_c = CHR 0x5C"

definition expected_end :: exn where
  "expected_end = Runtime_error ''Unexpected end of buffer. Expected:''"

text \<open>\<^verbatim>\<open>match\<close> compares with the expected characters up to the first difference.\<close>

definition match_chars :: "string \<Rightarrow> string \<Rightarrow> string result" where
  "match_chars pat s =
     (if length s < length pat then Inl expected_end
      else if take (length pat) s \<noteq> pat then Inl (Runtime_error (''Expected these: '' @ pat))
      else Inr (drop (length pat) s))"

section \<open>White space and comments\<close>

fun skip_line_comment :: "string \<Rightarrow> string" where
  "skip_line_comment [] = []"
| "skip_line_comment (c # s) = (if c = CHR 0x0A then c # s else skip_line_comment s)"

text \<open>\<^verbatim>\<open>while (++it != end) if (*it == '*') if (++it == end) break; else if (*it == '/') ...\<close>: after a star the next
  character is skipped as well.\<close>

fun skip_block_comment :: "string \<Rightarrow> string" where
  "skip_block_comment [] = []"
| "skip_block_comment [c] = []"
| "skip_block_comment (c # d # s) =
     (if c = CHR ''*'' then if d = CHR ''/'' then s else skip_block_comment s
      else skip_block_comment (d # s))"

text \<open>Called at the slash.\<close>

definition skip_comment :: "string \<Rightarrow> string result" where
  "skip_comment s =
     (case tl s of
        [] \<Rightarrow> Inl (Runtime_error ''Unexpected end, expected comment'')
      | c # r \<Rightarrow>
          if c = CHR ''/'' then Inr (skip_line_comment r)
          else if c = CHR ''*'' then Inr (skip_block_comment r)
          else Inl (Runtime_error ''Expected / or * after /''))"

lemma skip_line_comment_shorter: "length (skip_line_comment s) \<le> length s"
  by (induction s) auto

lemma skip_block_comment_shorter: "length (skip_block_comment s) \<le> length s"
  by (induction s rule: skip_block_comment.induct) auto

lemma skip_comment_shorter: "skip_comment s = Inr r \<Longrightarrow> length r < length s"
proof (cases s)
  case (Cons a t)
  assume "skip_comment s = Inr r"
  then obtain c u where "t = c # u" "r = skip_line_comment u \<or> r = skip_block_comment u"
    using Cons by (auto simp: skip_comment_def split: list.splits if_splits)
  then show ?thesis
    using Cons skip_line_comment_shorter [of u] skip_block_comment_shorter [of u] by auto
qed (simp add: skip_comment_def)

function skip_ws :: "string \<Rightarrow> string result" where
  "skip_ws s =
     (case s of
        [] \<Rightarrow> Inr []
      | c # r \<Rightarrow>
          if (of_char c :: nat) < 33 then skip_ws r
          else if c = CHR ''/'' then (case skip_comment s of Inl e \<Rightarrow> Inl e | Inr r \<Rightarrow> skip_ws r)
          else Inr s)"
  by pat_completeness auto
termination
  by (relation "measure length") (auto dest: skip_comment_shorter)

declare skip_ws.simps [simp del]

section \<open>Eight characters at a time\<close>

fun chunk :: "string \<Rightarrow> u64" where
  "chunk [] = 0"
| "chunk (c # s) = ucast (byte_of_char c) OR push_bit 8 (chunk s)"

definition has_zero :: "u64 \<Rightarrow> u64" where
  "has_zero x = ((x - 0x0101010101010101) AND NOT x) AND 0x8080808080808080"

definition has_qoute :: "u64 \<Rightarrow> u64" where
  "has_qoute x = has_zero (x XOR 0b0010001000100010001000100010001000100010001000100010001000100010)"

definition has_escape :: "u64 \<Rightarrow> u64" where
  "has_escape x = has_zero (x XOR 0b0101110001011100010111000101110001011100010111000101110001011100)"

definition countr_zero :: "u64 \<Rightarrow> nat" where
  "countr_zero x = length (takeWhile (\<lambda>i. \<not> bit x i) [0 ..< 64])"

text \<open>The tail of less than eight characters.\<close>

fun scan_tail :: "(char \<Rightarrow> bool) \<Rightarrow> string \<Rightarrow> string result" where
  "scan_tail stop [] = Inl (Runtime_error ''Expected \"'')"
| "scan_tail stop (c # s) = (if stop c then Inr (c # s) else scan_tail stop s)"

fun skip_till :: "(u64 \<Rightarrow> u64) \<Rightarrow> (char \<Rightarrow> bool) \<Rightarrow> string \<Rightarrow> string result" where
  "skip_till test stop s =
     (case s of
        c0 # c1 # c2 # c3 # c4 # c5 # c6 # c7 # r \<Rightarrow>
          let t = test (chunk (take 8 s))
          in if t \<noteq> 0 then Inr (drop (countr_zero t div 8) s) else skip_till test stop r
      | _ \<Rightarrow> scan_tail stop s)"

declare skip_till.simps [simp del]

definition skip_till_escape_or_qoute :: "string \<Rightarrow> string result" where
  "skip_till_escape_or_qoute =
     skip_till (\<lambda>x. has_qoute x OR has_escape x) (\<lambda>c. c = backslash_c \<or> c = quote)"

definition skip_till_qoute :: "string \<Rightarrow> string result" where
  "skip_till_qoute = skip_till has_qoute (\<lambda>c. c = quote)"

section \<open>Correctness of the word tests\<close>

text \<open>Byte \<open>j\<close> of a number, and the number with a one in each of its \<open>n\<close> bytes.\<close>

definition byte_at :: "int \<Rightarrow> nat \<Rightarrow> int" where
  "byte_at x j = x div 256 ^ j mod 256"

fun ones :: "nat \<Rightarrow> int" where
  "ones 0 = 0"
| "ones (Suc n) = 1 + 256 * ones n"

text \<open>As long as the bytes below are not zero, subtracting a one from each of them does not borrow.\<close>

lemma no_borrow:
  "k \<le> n \<Longrightarrow> (\<And>j. j < k \<Longrightarrow> byte_at x j \<noteq> 0) \<Longrightarrow> (x - ones n) div 256 ^ k = x div 256 ^ k - ones (n - k)"
proof (induction k arbitrary: x n)
  case (Suc k)
  obtain m where n: "n = Suc m" using Suc.prems(1) by (cases n) auto
  have b: "x mod 256 \<noteq> 0" using Suc.prems(2) [of 0] by (simp add: byte_at_def)
  have "x - ones n = 256 * (x div 256 - ones m) + (x mod 256 - 1)"
    by (simp add: n algebra_simps mult_div_mod_eq)
  moreover have "0 \<le> x mod 256 - 1" "x mod 256 - 1 < 256"
    using b pos_mod_bound [of 256 x] pos_mod_sign [of 256 x] by linarith+
  ultimately have one: "(x - ones n) div 256 = x div 256 - ones m"
    by (metis add.commute div_mult_self4 div_pos_pos_trivial add_0 mult.commute zero_neq_numeral)
  have d: "y div 256 ^ Suc j = y div 256 div 256 ^ j" for y :: int and j
    unfolding power_Suc by (rule zdiv_zmult2_eq) simp
  have "byte_at (x div 256) j \<noteq> 0" if "j < k" for j
    using Suc.prems(2) [of "Suc j"] that by (simp only: byte_at_def d) simp
  then have "(x div 256 - ones m) div 256 ^ k = x div 256 div 256 ^ k - ones (m - k)"
    using Suc.IH [of m "x div 256"] Suc.prems(1) n by simp
  then show ?case unfolding d one by (simp add: n)
qed simp


lemma ones_8: "ones 8 = 0x0101010101010101"
  by (simp add: eval_nat_numeral)

lemma bit_7_iff: "bit (x :: int) 7 \<longleftrightarrow> 128 \<le> x mod 256"
proof -
  have "x mod (128 * 2) = 128 * (x div 128 mod 2) + x mod 128" by (rule zmod_zmult2_eq) simp
  moreover have "0 \<le> x mod 128" "x mod 128 < 128" "x div 128 mod 2 = 0 \<or> x div 128 mod 2 = 1" by auto
  ultimately have "128 \<le> x mod 256 \<longleftrightarrow> x div 128 mod 2 = 1" by auto
  then show ?thesis by (simp add: bit_iff_odd odd_iff_mod_2_eq_one)
qed

lemma minus_one_byte: "128 \<le> (y - 1) mod 256 \<and> \<not> 128 \<le> y mod 256 \<longleftrightarrow> y mod 256 = (0 :: int)"
proof -
  define r where "r = y mod 256"
  have "0 \<le> r" "r < 256" "(y - 1) mod 256 = (r - 1) mod 256" by (simp_all add: r_def mod_diff_left_eq)
  moreover have "(r - 1) mod 256 = (if r = 0 then 255 else r - 1)"
    using \<open>0 \<le> r\<close> \<open>r < 256\<close> by (auto intro: mod_pos_pos_trivial)
  ultimately show ?thesis by (auto simp: r_def [symmetric])
qed

lemma bit_byte_7: "bit (x :: int) (8 * k + 7) \<longleftrightarrow> 128 \<le> byte_at x k"
proof -
  have "bit x (8 * k + 7) \<longleftrightarrow> bit (x div 2 ^ (8 * k)) 7"
    by (simp add: bit_iff_odd power_add zdiv_zmult2_eq)
  also have "(2::int) ^ (8 * k) = 256 ^ k" by (simp add: power_mult)
  finally show ?thesis by (simp add: bit_7_iff byte_at_def)
qed

lemma zero_test_int:
  assumes "k < n" "\<And>j. j < k \<Longrightarrow> byte_at x j \<noteq> 0"
  shows "bit (x - ones n) (8 * k + 7) \<and> \<not> bit x (8 * k + 7) \<longleftrightarrow> byte_at x k = 0"
proof -
  obtain m where m: "n - k = Suc m" using assms(1) by (cases "n - k") auto
  have "byte_at (x - ones n) k = (x div 256 ^ k - 1) mod 256"
  proof -
    have "(x - ones n) div 256 ^ k = x div 256 ^ k - 1 - 256 * ones m" using no_borrow [of k n x] assms m by simp
    moreover have "(y - 256 * z) mod 256 = y mod 256" for y z :: int by (simp add: mod_diff_right_eq [symmetric])
    ultimately show ?thesis by (simp only: byte_at_def)
  qed
  then show ?thesis
    using minus_one_byte [of "x div 256 ^ k"] by (simp add: bit_byte_7) (simp add: byte_at_def)
qed


lemma high_bits: "bit (0x8080808080808080 :: u64) i \<longleftrightarrow> i < 64 \<and> i mod 8 = 7"
proof -
  have "\<forall>i \<in> set [0 ..< 64]. bit (0x8080808080808080 :: u64) i \<longleftrightarrow> i mod 8 = 7"
    by code_simp
  then show ?thesis using bit_imp_le_length [of "0x8080808080808080 :: u64" i]
    by (cases "i < 64") auto
qed

lemma has_zero_bits: "bit (has_zero x) i \<Longrightarrow> i < 64 \<and> i mod 8 = 7"
  by (simp only: has_zero_def bit_and_iff high_bits)

lemma has_zero_bit:
  assumes "k < 8" "\<And>j. j < k \<Longrightarrow> byte_at (uint x) j \<noteq> 0"
  shows "bit (has_zero x) (8 * k + 7) \<longleftrightarrow> byte_at (uint x) k = 0"
proof -
  have i: "8 * k + 7 < 64" "(8 * k + 7) mod 8 = 7" using assms(1) by simp_all
  have "x - 0x0101010101010101 = word_of_int (uint x - ones 8)" unfolding ones_8 by simp
  then have "bit (x - 0x0101010101010101) (8 * k + 7) \<longleftrightarrow> bit (uint x - ones 8) (8 * k + 7)"
    using i by (simp only: bit_word_of_int_iff) simp
  moreover have "bit x (8 * k + 7) \<longleftrightarrow> bit (uint x) (8 * k + 7)" by (simp add: bit_uint_iff i)
  ultimately show ?thesis
    using zero_test_int [of k 8 "uint x"] assms i
    by (simp only: has_zero_def bit_and_iff high_bits bit_not_iff) (auto simp: bit_imp_le_length possible_bit_def)
qed

section \<open>Bytes of a chunk\<close>

lemma chunk_bit:
  "bit (chunk s) i \<longleftrightarrow> i < 64 \<and> i div 8 < length s \<and> bit (byte_of_char (s ! (i div 8))) (i mod 8)"
proof (induction s arbitrary: i)
  case (Cons c s)
  show ?case
  proof (cases "i < 8")
    case True
    then show ?thesis by (simp add: bit_or_iff bit_push_bit_iff bit_ucast_iff)
  next
    case False
    then obtain k where k: "i = k + 8" by (metis add.commute le_Suc_ex not_le)
    have "\<not> bit (byte_of_char c) i" using False bit_imp_le_length [of "byte_of_char c" i] by auto
    have "(k + 8) div 8 = Suc (k div 8)" by simp
    then show ?thesis using Cons.IH [of k] \<open>\<not> bit (byte_of_char c) i\<close>
      by (auto simp: k bit_or_iff bit_push_bit_iff bit_ucast_iff)
  qed
qed simp

definition word_byte :: "u64 \<Rightarrow> nat \<Rightarrow> byte" where
  "word_byte w k = ucast (drop_bit (8 * k) w)"

lemma word_byte_chunk: "k < length s \<Longrightarrow> k < 8 \<Longrightarrow> word_byte (chunk s) k = byte_of_char (s ! k)"
  by (rule bit_word_eqI) (simp add: word_byte_def bit_ucast_iff bit_drop_bit_eq chunk_bit)

lemma word_byte_xor: "word_byte (v XOR w) k = word_byte v k XOR word_byte w k"
  by (rule bit_word_eqI) (simp add: word_byte_def bit_ucast_iff bit_drop_bit_eq bit_xor_iff)

lemma byte_at_word_byte: "byte_at (uint w) k = uint (word_byte w k)"
proof -
  have "(256 :: int) ^ k = 2 ^ (8 * k)" by (simp add: power_mult)
  moreover have "uint (word_byte w k) = take_bit 8 (drop_bit (8 * k) (uint w))"
    using take_bit_int_eq_self [OF uint_nonnegative uint_lt2p, of w]
    by (simp only: word_byte_def unsigned_ucast_eq unsigned_drop_bit_eq) simp
  ultimately show ?thesis
    by (simp add: byte_at_def drop_bit_eq_div take_bit_eq_mod)
qed

lemma xor_byte_zero: "byte_at (uint (w XOR m)) k = 0 \<longleftrightarrow> word_byte w k = word_byte m k"
proof -
  have "word_byte w k XOR word_byte m k = 0 \<longleftrightarrow> word_byte w k = word_byte m k"
    by (metis xor.assoc xor.right_neutral xor_self_eq)
  then show ?thesis by (simp add: byte_at_word_byte word_byte_xor uint_0_iff)
qed


section \<open>The scan is exact\<close>

text \<open>A test marks the first stopping character of a chunk: its bits are top bits of bytes, and up to the first
  such character they tell whether the byte is one.\<close>

definition marks :: "(u64 \<Rightarrow> u64) \<Rightarrow> (char \<Rightarrow> bool) \<Rightarrow> string \<Rightarrow> bool" where
  "marks test stop s \<longleftrightarrow>
     (\<forall>i. bit (test (chunk s)) i \<longrightarrow> i < 64 \<and> i mod 8 = 7) \<and>
     (\<forall>k < 8. (\<forall>j < k. \<not> stop (s ! j)) \<longrightarrow> (bit (test (chunk s)) (8 * k + 7) \<longleftrightarrow> stop (s ! k)))"

lemma byte_of_char_inject [simp]: "byte_of_char a = byte_of_char b \<longleftrightarrow> a = b"
  by (metis char_of_byte_of_char)

lemma marks_equal:
  assumes "length s = 8" "\<And>k. k < 8 \<Longrightarrow> word_byte m k = byte_of_char q"
  shows "marks (\<lambda>x. has_zero (x XOR m)) (\<lambda>c. c = q) s"
  using assms has_zero_bits
  by (auto simp: marks_def has_zero_bit xor_byte_zero word_byte_chunk)

lemma marks_or:
  assumes "marks f p s" "marks g q s"
  shows "marks (\<lambda>x. f x OR g x) (\<lambda>c. p c \<or> q c) s"
  using assms by (auto simp: marks_def bit_or_iff)

lemma all_8: "(\<And>k. k \<in> set [0 ..< 8] \<Longrightarrow> P k) \<Longrightarrow> k < 8 \<Longrightarrow> P k"
  by simp

lemma quote_bytes:
  "k < 8 \<Longrightarrow> word_byte 0b0010001000100010001000100010001000100010001000100010001000100010 k = byte_of_char quote"
  "k < 8 \<Longrightarrow> word_byte 0b0101110001011100010111000101110001011100010111000101110001011100 k = byte_of_char backslash_c"
proof -
  have "\<forall>k \<in> set [0 ..< 8]. word_byte 0b0010001000100010001000100010001000100010001000100010001000100010 k = byte_of_char quote \<and>
    word_byte 0b0101110001011100010111000101110001011100010111000101110001011100 k = byte_of_char backslash_c"
    by code_simp
  then show
    "k < 8 \<Longrightarrow> word_byte 0b0010001000100010001000100010001000100010001000100010001000100010 k = byte_of_char quote"
    "k < 8 \<Longrightarrow> word_byte 0b0101110001011100010111000101110001011100010111000101110001011100 k = byte_of_char backslash_c"
    by auto
qed

lemma qoute_marks: "length s = 8 \<Longrightarrow> marks has_qoute (\<lambda>c. c = quote) s"
  using marks_equal [OF _ quote_bytes(1)] by (simp add: has_qoute_def [abs_def])

lemma escape_marks: "length s = 8 \<Longrightarrow> marks has_escape (\<lambda>c. c = backslash_c) s"
  using marks_equal [OF _ quote_bytes(2)] by (simp add: has_escape_def [abs_def])

lemma countr_zero_eq:
  assumes "bit t n" "n < 64" "\<And>i. i < n \<Longrightarrow> \<not> bit t i"
  shows "countr_zero t = n"
proof -
  have "[0 ..< 64] = [0 ..< n] @ n # [Suc n ..< 64]"
    using assms(2) upt_add_eq_append [of 0 n "64 - n"] by (simp add: upt_conv_Cons)
  then show ?thesis using assms
    by (simp add: countr_zero_def takeWhile_append takeWhile_eq_all_conv)
qed

lemma marks_bit:
  assumes "marks test stop s" "bit (test (chunk s)) i"
  obtains k where "i = 8 * k + 7" "k < 8"
proof
  have i: "i < 64" "i mod 8 = 7" using assms by (auto simp: marks_def)
  show "i = 8 * (i div 8) + 7" using mult_div_mod_eq [of 8 i] i(2) by simp
  show "i div 8 < 8" using i(1) by simp
qed

lemma marks_at:
  "marks test stop s \<Longrightarrow> k < 8 \<Longrightarrow> (\<And>j. j < k \<Longrightarrow> \<not> stop (s ! j)) \<Longrightarrow>
    bit (test (chunk s)) (8 * k + 7) \<longleftrightarrow> stop (s ! k)"
  by (auto simp: marks_def)

lemma marks_none:
  assumes "marks test stop s" "length s = 8" "\<forall>c \<in> set s. \<not> stop c"
  shows "test (chunk s) = 0"
proof (rule bit_word_eqI)
  fix i
  have "\<not> bit (test (chunk s)) i"
  proof
    assume "bit (test (chunk s)) i"
    with assms(1) obtain k where "i = 8 * k + 7" "k < 8" "bit (test (chunk s)) i" by (auto elim: marks_bit)
    then show False using marks_at [OF assms(1), of k] assms(2,3) by auto
  qed
  then show "bit (test (chunk s)) i = bit (0 :: u64) i" by simp
qed

lemma marks_first:
  assumes "marks test stop s" "k < 8" "stop (s ! k)" "\<And>j. j < k \<Longrightarrow> \<not> stop (s ! j)"
  shows "test (chunk s) \<noteq> 0 \<and> countr_zero (test (chunk s)) div 8 = k"
proof -
  have set: "bit (test (chunk s)) (8 * k + 7)" using marks_at [OF assms(1,2,4)] assms(3) by simp
  have "\<not> bit (test (chunk s)) i" if "i < 8 * k + 7" for i
  proof
    assume "bit (test (chunk s)) i"
    with assms(1) obtain j where "i = 8 * j + 7" "j < 8" "bit (test (chunk s)) i" by (auto elim: marks_bit)
    then show False using marks_at [OF assms(1), of j] assms(4) that by auto
  qed
  then have "countr_zero (test (chunk s)) = 8 * k + 7"
    using set assms(2) by (intro countr_zero_eq) auto
  then show ?thesis using set by auto
qed

text \<open>The reference: everything up to the first stopping character, an exception when there is none.\<close>

definition scan_to :: "(char \<Rightarrow> bool) \<Rightarrow> string \<Rightarrow> string result" where
  "scan_to stop s =
     (case dropWhile (\<lambda>c. \<not> stop c) s of [] \<Rightarrow> Inl (Runtime_error ''Expected \"'') | c # r \<Rightarrow> Inr (c # r))"

lemma scan_tail_eq: "scan_tail stop s = scan_to stop s"
  by (induction s) (auto simp: scan_to_def)

lemma scan_to_skip: "\<forall>c \<in> set u. \<not> stop c \<Longrightarrow> scan_to stop (u @ s) = scan_to stop s"
  by (simp add: scan_to_def dropWhile_append2)

lemma scan_to_hit:
  assumes "k < length s" "stop (s ! k)" "\<And>j. j < k \<Longrightarrow> \<not> stop (s ! j)"
  shows "scan_to stop s = Inr (drop k s)"
proof -
  have "\<forall>c \<in> set (take k s). \<not> stop c" using assms by (auto simp: in_set_conv_nth)
  then have "scan_to stop s = scan_to stop (drop k s)"
    using scan_to_skip [of "take k s" stop "drop k s"] by simp
  then show ?thesis using assms(1,2) by (simp add: scan_to_def Cons_nth_drop_Suc [symmetric])
qed

lemma first_stop:
  assumes "\<not> (\<forall>c \<in> set s. \<not> stop c)"
  obtains k where "k < length s" "stop (s ! k)" "\<And>j. j < k \<Longrightarrow> \<not> stop (s ! j)"
proof -
  let ?P = "\<lambda>k. k < length s \<and> stop (s ! k)"
  have ex: "\<exists>k. ?P k" using assms by (auto simp: in_set_conv_nth)
  have "?P (LEAST k. ?P k)" using LeastI_ex [OF ex] .
  moreover have "j < (LEAST k. ?P k) \<Longrightarrow> \<not> stop (s ! j)" for j
    using not_less_Least [of j ?P] calculation by auto
  ultimately show ?thesis using that by blast
qed

lemma skip_till_exact:
  assumes "\<And>t. length t = 8 \<Longrightarrow> marks test stop t"
  shows "skip_till test stop s = scan_to stop s"
proof (induction s rule: length_induct)
  case (1 s)
  show ?case
  proof (cases "length s < 8")
    case True
    then show ?thesis
      by (subst skip_till.simps) (auto simp: scan_tail_eq split: list.split)
  next
    case False
    then obtain c0 c1 c2 c3 c4 c5 c6 c7 r where s: "s = c0 # c1 # c2 # c3 # c4 # c5 # c6 # c7 # r"
      by (simp add: not_less eval_nat_numeral Suc_le_length_iff) blast
    have long: "8 \<le> length s" and len: "length (take 8 s) = 8" by (simp_all add: s)
    note m = assms [OF len]
    show ?thesis
    proof (cases "\<forall>c \<in> set (take 8 s). \<not> stop c")
      case True
      then have "skip_till test stop s = skip_till test stop r"
        using marks_none [OF m len] by (subst skip_till.simps) (simp add: s Let_def)
      moreover have "scan_to stop s = scan_to stop r"
        using scan_to_skip [OF True, of r] by (simp add: s)
      ultimately show ?thesis using 1 by (simp add: s)
    next
      case False
      then obtain k where k: "k < 8" "stop (take 8 s ! k)" "\<And>j. j < k \<Longrightarrow> \<not> stop (take 8 s ! j)"
        using first_stop [of "take 8 s" stop] len by metis
      have "skip_till test stop s = Inr (drop k s)"
        using marks_first [OF m k] by (subst skip_till.simps) (simp add: s Let_def)
      moreover have "scan_to stop s = Inr (drop k s)"
        using k long by (intro scan_to_hit) auto
      ultimately show ?thesis by simp
    qed
  qed
qed

lemma skip_till_escape_eq:
  "skip_till_escape_or_qoute s = scan_to (\<lambda>c. c = quote \<or> c = backslash_c) s"
proof -
  have "skip_till_escape_or_qoute s = scan_to (\<lambda>c. c = backslash_c \<or> c = quote) s"
    unfolding skip_till_escape_or_qoute_def
    by (rule skip_till_exact) (use marks_or [OF qoute_marks escape_marks] in \<open>simp add: disj_commute\<close>)
  then show ?thesis by (simp add: disj_commute)
qed

lemma skip_till_qoute_eq: "skip_till_qoute s = scan_to (\<lambda>c. c = quote) s"
  unfolding skip_till_qoute_def by (rule skip_till_exact) (rule qoute_marks)

text \<open>C30: The search that takes eight characters at a time finds the same place as a search one by one: the first
  quote, or the first quote or backslash, at any alignment and any distance from the end - and when
  there is none it throws.\<close>

theorem chunked_scan_exact:
  "skip_till_escape_or_qoute s = scan_to (\<lambda>c. c = quote \<or> c = backslash_c) s \<and>
   skip_till_qoute s = scan_to (\<lambda>c. c = quote) s"
  by (simp add: skip_till_escape_eq skip_till_qoute_eq)

end
