(* ===== verification/Iguana_Text.thy ===== *)
theory Iguana_Text
  imports Iguana_Scan
begin

text \<open>
  Strings in JSON text: the UTF-8 coder of \<^verbatim>\<open>iguana/detail/utf.hpp\<close>, the escaping writer of
  \<^verbatim>\<open>iguana/util.hpp\<close> and the string reader of \<^verbatim>\<open>iguana/json_reader.hpp\<close>.  A code point is a natural number: no operation on
  it exceeds 32 bits.  \<^verbatim>\<open>decode_utf8\<close> does not test for the end of the text; what it reads behind it is NUL.
\<close>

section \<open>UTF-8\<close>

text \<open>The table of \<^verbatim>\<open>GetRange\<close> by its ranges.\<close>

definition get_range :: "nat \<Rightarrow> nat" where
  "get_range c =
     (if c < 0x80 then 0 else if c < 0x90 then 0x10 else if c < 0xA0 then 0x40 else if c < 0xC0 then 0x20
      else if c < 0xC2 then 8 else if c < 0xE0 then 2 else if c = 0xE0 then 10 else if c < 0xED then 3
      else if c = 0xED then 4 else if c < 0xF0 then 3 else if c = 0xF0 then 11 else if c < 0xF4 then 6
      else if c = 0xF4 then 5 else 8)"

text \<open>\<^verbatim>\<open>copy(); trans(mask);\<close> on the result so far, the code point and the text left.\<close>

definition copy_trans :: "nat \<Rightarrow> bool \<times> nat \<times> string \<Rightarrow> bool \<times> nat \<times> string" where
  "copy_trans allowed = (\<lambda>(result, cp, s).
     let c = of_char (peek s)
     in (result \<and> get_range c AND allowed \<noteq> 0, push_bit 6 cp OR (c AND 0x3F), tl s))"

definition utf8_tail :: "bool \<times> nat \<times> string \<Rightarrow> bool \<times> nat \<times> string" where
  "utf8_tail = copy_trans 0x70"

definition decode_utf8 :: "string \<Rightarrow> bool \<times> nat \<times> string" where
  "decode_utf8 s =
     (let c = of_char (peek s); s = tl s
      in if c < 0x80 then (True, c, s)
         else let type = get_range c;
                  st = (True, (if type \<ge> 32 then 0 else drop_bit type 0xFF AND c), s)
              in if type = 2 then utf8_tail st
                 else if type = 3 then utf8_tail (utf8_tail st)
                 else if type = 4 then utf8_tail (copy_trans 0x50 st)
                 else if type = 5 then utf8_tail (utf8_tail (copy_trans 0x10 st))
                 else if type = 6 then utf8_tail (utf8_tail (utf8_tail st))
                 else if type = 10 then utf8_tail (copy_trans 0x20 st)
                 else if type = 11 then utf8_tail (utf8_tail (copy_trans 0x60 st))
                 else (False, snd st))"

definition encode_utf8 :: "nat \<Rightarrow> string result" where
  "encode_utf8 cp =
     (if cp > 0x10FFFF then Inl (Runtime_error (''Invalid unicode codepoint:'' @ nat_str cp))
      else if cp \<le> 0x7F then Inr [char_of (cp AND 0xFF)]
      else if cp \<le> 0x7FF
      then Inr [char_of (0xC0 OR (drop_bit 6 cp AND 0xFF)), char_of (0x80 OR (cp AND 0x3F))]
      else if cp \<le> 0xFFFF
      then Inr [char_of (0xE0 OR (drop_bit 12 cp AND 0xFF)), char_of (0x80 OR (drop_bit 6 cp AND 0x3F)),
                char_of (0x80 OR (cp AND 0x3F))]
      else Inr [char_of (0xF0 OR (drop_bit 18 cp AND 0xFF)), char_of (0x80 OR (drop_bit 12 cp AND 0x3F)),
                char_of (0x80 OR (drop_bit 6 cp AND 0x3F)), char_of (0x80 OR (cp AND 0x3F))])"

section \<open>Writing\<close>

definition hex_digits :: string where
  "hex_digits = ''0123456789ABCDEF''"

definition hex4 :: "nat \<Rightarrow> string" where
  "hex4 cp =
     [hex_digits ! (drop_bit 12 cp AND 15), hex_digits ! (drop_bit 8 cp AND 15),
      hex_digits ! (drop_bit 4 cp AND 15), hex_digits ! (cp AND 15)]"

definition unicode_escape :: "nat \<Rightarrow> string" where
  "unicode_escape cp = backslash_c # CHR ''u'' # hex4 cp"

definition write_unicode_to_string :: "string \<Rightarrow> (string \<times> string) result" where
  "write_unicode_to_string s =
     (let (ok, cp, r) = decode_utf8 s
      in if \<not> ok then Inl (Runtime_error ''illegal unicode character'')
         else if cp \<le> 0xD7FF \<or> 0xE000 \<le> cp \<and> cp \<le> 0xFFFF then Inr (unicode_escape cp, r)
         else if cp < 0x10000 \<or> cp > 0x10FFFF then Inl (Runtime_error ''illegal codepoint'')
         else let t = cp - 0x10000
              in Inr (unicode_escape (drop_bit 10 t + 0xD800) @ unicode_escape ((t AND 0x3FF) + 0xDC00), r))"

text \<open>The table of escapes.\<close>

definition escape_of :: "char \<Rightarrow> char option" where
  "escape_of c =
     (let n = of_char c :: nat
      in if n = 8 then Some (CHR ''b'') else if n = 9 then Some (CHR ''t'') else if n = 10 then Some (CHR ''n'')
         else if n = 12 then Some (CHR ''f'') else if n = 13 then Some (CHR ''r'')
         else if n < 32 then Some (CHR ''u'')
         else if c = quote then Some quote else if c = backslash_c then Some backslash_c else None)"

definition write_plain :: "char \<Rightarrow> string" where
  "write_plain c =
     (case escape_of c of
        None \<Rightarrow> [c]
      | Some e \<Rightarrow> backslash_c # e #
          (if e = CHR ''u''
           then [CHR ''0'', CHR ''0'', hex_digits ! (drop_bit 4 (of_char c)), hex_digits ! (of_char c AND 0xF)]
           else []))"

lemma decode_utf8_shorter: "s \<noteq> [] \<Longrightarrow> length (snd (snd (decode_utf8 s))) < length s"
  by (cases s) (auto simp: decode_utf8_def Let_def utf8_tail_def copy_trans_def split_beta)

function write_string_with_escape :: "string \<Rightarrow> string result" where
  "write_string_with_escape [] = Inr []"
| "write_string_with_escape (c # s) =
     (if (of_char c :: nat) \<ge> 0x80
      then (case write_unicode_to_string (c # s) of
              Inl e \<Rightarrow> Inl e
            | Inr (out, r) \<Rightarrow> map_sum id (append out) (write_string_with_escape r))
      else map_sum id (append (write_plain c)) (write_string_with_escape s))"
  by pat_completeness auto
termination
proof (relation "measure length")
  fix c s p out r
  assume "write_unicode_to_string (c # s) = Inr p" "(out, r) = p"
  then have "r = snd (snd (decode_utf8 (c # s)))"
    by (auto simp: write_unicode_to_string_def Let_def split: prod.splits if_splits)
  then show "(r, c # s) \<in> measure length" using decode_utf8_shorter [of "c # s"] by simp
qed auto

section \<open>Reading\<close>

fun parse_hex_digits :: "nat \<Rightarrow> nat \<Rightarrow> string \<Rightarrow> (nat \<times> string) result" where
  "parse_hex_digits 0 cp s = Inr (cp, s)"
| "parse_hex_digits (Suc k) cp s =
     (let c = peek s; n = of_char c :: nat
      in if CHR ''0'' \<le> c \<and> c \<le> CHR ''9'' then parse_hex_digits k (push_bit 4 cp + n - 48) (tl s)
         else if CHR ''A'' \<le> c \<and> c \<le> CHR ''F'' then parse_hex_digits k (push_bit 4 cp + n - (65 - 10)) (tl s)
         else if CHR ''a'' \<le> c \<and> c \<le> CHR ''f'' then parse_hex_digits k (push_bit 4 cp + n - (97 - 10)) (tl s)
         else Inl (Runtime_error ''Invalid Unicode Escape Hex''))"

definition parse_unicode_hex4 :: "string \<Rightarrow> (nat \<times> string) result" where
  "parse_unicode_hex4 s = parse_hex_digits 4 0 s"

text \<open>Called behind the backslash: the characters to append and the text left.\<close>

definition parse_escape :: "string \<Rightarrow> (string \<times> string) result" where
  "parse_escape s =
     (case s of
        [] \<Rightarrow> Inl (Runtime_error ''Expected \"'')
      | c # r \<Rightarrow>
          if c = CHR ''u''
          then (if length r \<le> 4 then Inl (Runtime_error ''Expected 4 hexadecimal digits'')
                else rbind (parse_unicode_hex4 r) (\<lambda>(cp, r).
                       rbind (encode_utf8 cp) (\<lambda>t. Inr (t, r))))
          else if c = CHR ''n'' then Inr ([CHR 0x0A], r)
          else if c = CHR ''t'' then Inr ([CHR 0x09], r)
          else if c = CHR ''r'' then Inr ([CHR 0x0D], r)
          else if c = CHR ''b'' then Inr ([CHR 0x08], r)
          else if c = CHR ''f'' then Inr ([CHR 0x0C], r)
          else Inr ([c], r))"

lemma parse_hex_digits_shorter: "parse_hex_digits k cp s = Inr (v, r) \<Longrightarrow> length r \<le> length s"
  by (induction k arbitrary: cp s) (fastforce simp: Let_def split: if_splits)+

lemma parse_escape_shorter: "parse_escape s = Inr (t, r) \<Longrightarrow> length r < length s"
  by (auto simp: parse_escape_def parse_unicode_hex4_def rbind_Inr_conv split: list.splits if_splits
      dest!: parse_hex_digits_shorter)

lemma scan_to_suffix:
  assumes "scan_to stop s = Inr r"
  shows "suffix r s \<and> r \<noteq> [] \<and> stop (hd r)"
proof -
  obtain c t where d: "dropWhile (\<lambda>c. \<not> stop c) s = c # t" "r = c # t"
    using assms by (auto simp: scan_to_def split: list.splits)
  then have "stop c" by (metis dropWhile_eq_Cons_conv)
  then show ?thesis using d suffix_dropWhile [of "\<lambda>c. \<not> stop c" s] by simp
qed

lemma skip_till_escape_shorter:
  "skip_till_escape_or_qoute s = Inr r \<Longrightarrow> r \<noteq> [] \<and> length r \<le> length s"
  using scan_to_suffix by (metis skip_till_escape_eq suffix_length_le)

text \<open>The body of a string behind its opening quote.  The loop ends at the end of the text as well: a text whose
  last escape ends there is taken although its quote is missing.\<close>

function read_body :: "string \<Rightarrow> string \<Rightarrow> (string \<times> string) result" where
  "read_body acc s =
     (if s = [] then Inr (acc, [])
      else case skip_till_escape_or_qoute s of
        Inl e \<Rightarrow> Inl e
      | Inr r \<Rightarrow>
          let run = take (length s - length r) s
          in if hd r = quote then Inr (acc @ run, tl r)
             else (case parse_escape (tl r) of
                     Inl e \<Rightarrow> Inl e
                   | Inr (t, r) \<Rightarrow> read_body (acc @ run @ t) r))"
  by pat_completeness auto
termination
proof (relation "measure (length \<circ> snd)", goal_cases)
  case (2 acc s r run p t r')
  then have "length r' < length (tl r)" using parse_escape_shorter [of "tl r" t r'] by simp
  with 2 skip_till_escape_shorter [of s r] show ?case by (simp; linarith)
qed simp

declare read_body.simps [simp del]

text \<open>\<^verbatim>\<open>from_json_impl\<close> of a string; \<^verbatim>\<open>null\<close> gives the empty one.\<close>

definition read_string :: "string \<Rightarrow> (string \<times> string) result" where
  "read_string s =
     rbind (skip_ws s) (\<lambda>s.
       if s \<noteq> [] \<and> hd s = CHR ''n''
       then rbind (match_chars ''ull'' (tl s)) (\<lambda>r. Inr ([], r))
       else rbind (match_chars [quote] s) (\<lambda>r. read_body [] r))"

section \<open>Masks as arithmetic\<close>

lemma and_low_bits:
  "x AND 255 = x mod (256 :: nat)" "x AND 63 = x mod (64 :: nat)" "x AND 31 = x mod (32 :: nat)"
  "x AND 15 = x mod (16 :: nat)" "x AND 7 = x mod (8 :: nat)" "x AND 3 = x mod (4 :: nat)"
  "x AND 1023 = x mod (1024 :: nat)"
  using take_bit_eq_mask [of 8 x] take_bit_eq_mask [of 6 x] take_bit_eq_mask [of 5 x]
    take_bit_eq_mask [of 4 x] take_bit_eq_mask [of 3 x] take_bit_eq_mask [of 2 x] take_bit_eq_mask [of 10 x]
  by (simp_all add: take_bit_eq_mod mask_eq_exp_minus_1)

lemma or_low_bits:
  assumes "y < 2 ^ n"
  shows "k * 2 ^ n OR y = k * 2 ^ n + (y :: nat)"
proof -
  have "k * 2 ^ n = push_bit n k" by (simp add: push_bit_eq_mult)
  moreover have "push_bit n k AND y = 0"
  proof (rule bit_eqI)
    fix i
    have "bit y i \<Longrightarrow> i < n"
      using assms by (metis bit_take_bit_iff take_bit_nat_eq_self)
    then show "bit (push_bit n k AND y) i \<longleftrightarrow> bit (0 :: nat) i" by (auto simp: bit_and_iff bit_push_bit_iff)
  qed
  ultimately show ?thesis by (simp add: disjunctive_add_eq_or)
qed

lemma or_prefix:
  "y < 64 \<Longrightarrow> 0x80 OR y = 128 + (y :: nat)"
  "y < 32 \<Longrightarrow> 0xC0 OR y = 192 + (y :: nat)"
  "y < 16 \<Longrightarrow> 0xE0 OR y = 224 + (y :: nat)"
  "y < 8 \<Longrightarrow> 0xF0 OR y = 240 + (y :: nat)"
  "y < 64 \<Longrightarrow> 64 * x OR y = 64 * x + (y :: nat)"
  using or_low_bits [of y 6 2] or_low_bits [of y 5 6] or_low_bits [of y 4 14] or_low_bits [of y 3 30]
    or_low_bits [of y 6 x] by (simp_all add: mult.commute)

lemma of_char_of [simp]: "n < 256 \<Longrightarrow> (of_char (char_of n) :: nat) = n"
  by simp

section \<open>Coding and decoding\<close>

definition utf8 :: "nat \<Rightarrow> string" where
  "utf8 cp = (case encode_utf8 cp of Inl e \<Rightarrow> [] | Inr s \<Rightarrow> s)"

definition scalar :: "nat \<Rightarrow> bool" where
  "scalar cp \<longleftrightarrow> cp < 0xD800 \<or> 0xE000 \<le> cp \<and> cp \<le> 0x10FFFF"

lemma utf8_bytes:
  "cp < 128 \<Longrightarrow> utf8 cp = [char_of cp]"
  "128 \<le> cp \<Longrightarrow> cp < 2048 \<Longrightarrow> utf8 cp = [char_of (192 + cp div 64), char_of (128 + cp mod 64)]"
  "2048 \<le> cp \<Longrightarrow> cp < 65536 \<Longrightarrow>
    utf8 cp = [char_of (224 + cp div 4096), char_of (128 + cp div 64 mod 64), char_of (128 + cp mod 64)]"
  "65536 \<le> cp \<Longrightarrow> cp \<le> 0x10FFFF \<Longrightarrow>
    utf8 cp = [char_of (240 + cp div 262144), char_of (128 + cp div 4096 mod 64), char_of (128 + cp div 64 mod 64),
      char_of (128 + cp mod 64)]"
  by (auto simp: utf8_def encode_utf8_def and_low_bits or_prefix drop_bit_eq_div)

lemma tail_range [simp]:
  "b < 64 \<Longrightarrow> get_range (128 + b) AND 0x70 \<noteq> 0"
  "b < 64 \<Longrightarrow> 32 \<le> b \<Longrightarrow> get_range (128 + b) AND 0x20 \<noteq> 0"
  "b < 32 \<Longrightarrow> get_range (128 + b) AND 0x50 \<noteq> 0"
  "b < 64 \<Longrightarrow> 16 \<le> b \<Longrightarrow> get_range (128 + b) AND 0x60 \<noteq> 0"
  "b < 16 \<Longrightarrow> get_range (128 + b) AND 0x10 \<noteq> 0"
  by (auto simp: get_range_def)

lemma mod_bytes [simp]:
  "b < 64 \<Longrightarrow> (128 + b) mod 64 = (b :: nat)" "b < 64 \<Longrightarrow> (192 + b) mod 64 = (b :: nat)"
  "b < 32 \<Longrightarrow> (224 + b) mod 32 = (b :: nat)" "b < 4 \<Longrightarrow> (240 + b) mod 4 = (b :: nat)"
  using mod_mult_self3 [of 2 64 b] mod_mult_self3 [of 3 64 b] mod_mult_self3 [of 7 32 b] mod_mult_self3 [of 60 4 b]
  by simp_all

lemma middle_digits:
  "cp div 64 mod 64 = cp mod 4096 div (64 :: nat)" "cp div 4096 mod 64 = cp mod 262144 div (4096 :: nat)"
proof -
  have a: "cp mod (64 * 64) = 64 * (cp div 64 mod 64) + cp mod 64" by (rule mod_mult2_eq)
  show "cp div 64 mod 64 = cp mod 4096 div 64" using a by simp
  have "262144 = 4096 * (64 :: nat)" by simp
  then have b: "cp mod 262144 = 4096 * (cp div 4096 mod 64) + cp mod 4096" by (simp only: mod_mult2_eq)
  have "(4096 * (cp div 4096 mod 64) + cp mod 4096) div 4096 = cp div 4096 mod 64 + cp mod 4096 div 4096"
    by (rule div_mult_self4) simp
  then show "cp div 4096 mod 64 = cp mod 262144 div 4096" unfolding b by simp
qed

lemma copy_trans_tail [simp]:
  "b < 64 \<Longrightarrow> copy_trans m (ok, cp, char_of (128 + b) # s) =
    (ok \<and> get_range (128 + b) AND m \<noteq> 0, 64 * cp + b, s)"
proof -
  assume b: "b < 64"
  then show ?thesis
    using or_prefix(5) [of b cp]
    by (simp add: copy_trans_def peek_def and_low_bits push_bit_eq_mult mult.commute Let_def)
qed

lemma utf8_tail_byte [simp]:
  "b < 64 \<Longrightarrow> utf8_tail (ok, cp, char_of (128 + b) # s) = (ok, 64 * cp + b, s)"
  by (simp add: utf8_tail_def)

lemma decode_two:
  assumes "2 \<le> a" "a < 32" "b < 64"
  shows "decode_utf8 (char_of (192 + a) # char_of (128 + b) # s) = (True, 64 * a + b, s)"
proof -
  have "get_range (192 + a) = 2" "(192 + a) mod 64 = a" using assms by (auto simp: get_range_def)
  then show ?thesis using assms
    by (simp add: decode_utf8_def peek_def Let_def and_low_bits and.commute [of 63] drop_bit_eq_div)
qed

lemma decode_three:
  assumes "a < 16" "b < 64" "c < 64" "a = 0 \<Longrightarrow> 32 \<le> b" "a = 13 \<Longrightarrow> b < 32"
  shows "decode_utf8 (char_of (224 + a) # char_of (128 + b) # char_of (128 + c) # s) = (True, 64 * (64 * a + b) + c, s)"
proof -
  consider "a = 0" | "a = 13" | "a \<noteq> 0" "a \<noteq> 13" by blast
  then show ?thesis
  proof cases
    case 1
    then show ?thesis using assms by (simp add: decode_utf8_def peek_def Let_def get_range_def drop_bit_eq_div)
  next
    case 2
    have "(15 :: nat) AND 237 = 13" by (simp add: and_low_bits)
    with 2 show ?thesis using assms
      by (simp add: decode_utf8_def peek_def Let_def get_range_def drop_bit_eq_div)
  next
    case 3
    then have "get_range (224 + a) = 3" "(224 + a) mod 32 = a" using assms by (auto simp: get_range_def)
    then show ?thesis using assms
      by (simp add: decode_utf8_def peek_def Let_def and_low_bits and.commute [of 31] drop_bit_eq_div)
  qed
qed

lemma decode_four:
  assumes "a < 5" "b < 64" "c < 64" "d < 64" "a = 0 \<Longrightarrow> 16 \<le> b" "a = 4 \<Longrightarrow> b < 16"
  shows "decode_utf8 (char_of (240 + a) # char_of (128 + b) # char_of (128 + c) # char_of (128 + d) # s) =
    (True, 64 * (64 * (64 * a + b) + c) + d, s)"
proof -
  consider "a = 0" | "a = 4" | "a \<noteq> 0" "a \<noteq> 4" by blast
  then show ?thesis
  proof cases
    case 1
    then show ?thesis using assms by (simp add: decode_utf8_def peek_def Let_def get_range_def drop_bit_eq_div)
  next
    case 2
    have "(7 :: nat) AND 244 = 4" by (simp add: and_low_bits)
    with 2 show ?thesis using assms
      by (simp add: decode_utf8_def peek_def Let_def get_range_def drop_bit_eq_div)
  next
    case 3
    then have "get_range (240 + a) = 6" "(240 + a) mod 4 = a" using assms by (auto simp: get_range_def)
    then show ?thesis using assms
      by (simp add: decode_utf8_def peek_def Let_def and_low_bits and.commute [of 3] drop_bit_eq_div)
  qed
qed

lemma decode_encode:
  assumes "scalar cp" "128 \<le> cp"
  shows "decode_utf8 (utf8 cp @ s) = (True, cp, s)"
proof -
  consider "cp < 2048" | "2048 \<le> cp" "cp < 65536" | "65536 \<le> cp" "cp \<le> 0x10FFFF"
    using assms unfolding scalar_def by (cases "cp < 2048"; cases "cp < 65536") auto
  then show ?thesis
  proof cases
    case 1
    then show ?thesis
      using assms(2) decode_two [of "cp div 64" "cp mod 64" s] by (simp add: utf8_bytes)
  next
    case 2
    have "cp div 4096 = cp div 64 div 64" by (simp add: div_mult2_eq [symmetric])
    moreover have "cp div 4096 = 0 \<Longrightarrow> 32 \<le> cp div 64 mod 64"
      using 2 mult_div_mod_eq [of 4096 cp] unfolding middle_digits by (simp add: less_eq_div_iff_mult_less_eq)
    moreover have "cp div 4096 = 13 \<Longrightarrow> cp div 64 mod 64 < 32"
    proof -
      assume "cp div 4096 = 13"
      then have "cp mod 4096 < 2048"
        using 2 assms(1) mult_div_mod_eq [of 4096 cp] mod_less_divisor [of 4096 cp] unfolding scalar_def by auto
      then show "cp div 64 mod 64 < 32" unfolding middle_digits by (simp add: less_mult_imp_div_less)
    qed
    ultimately show ?thesis
      using 2 decode_three [of "cp div 4096" "cp div 64 mod 64" "cp mod 64" s] by (simp add: utf8_bytes)
  next
    case 3
    have "cp div 262144 = cp div 64 div 64 div 64" "cp div 4096 = cp div 64 div 64"
      by (simp_all add: div_mult2_eq [symmetric])
    moreover have "cp div 262144 < 5" using 3 by (simp add: less_mult_imp_div_less)
    moreover have "cp div 262144 = 0 \<Longrightarrow> 16 \<le> cp div 4096 mod 64"
      using 3 mult_div_mod_eq [of 262144 cp] unfolding middle_digits by (simp add: less_eq_div_iff_mult_less_eq)
    moreover have "cp div 262144 = 4 \<Longrightarrow> cp div 4096 mod 64 < 16"
      using 3 mult_div_mod_eq [of 262144 cp] unfolding middle_digits by (simp add: less_mult_imp_div_less)
    ultimately show ?thesis
      using 3 decode_four [of "cp div 262144" "cp div 4096 mod 64" "cp div 64 mod 64" "cp mod 64" s]
      by (simp add: utf8_bytes)
  qed
qed


section \<open>Hexadecimal\<close>

lemma hex_digit_read:
  assumes "n < 16"
  shows "parse_hex_digits (Suc k) cp (hex_digits ! n # s) = parse_hex_digits k (16 * cp + n) s"
proof -
  have "n = 0 \<or> n = 1 \<or> n = 2 \<or> n = 3 \<or> n = 4 \<or> n = 5 \<or> n = 6 \<or> n = 7 \<or>
    n = 8 \<or> n = 9 \<or> n = 10 \<or> n = 11 \<or> n = 12 \<or> n = 13 \<or> n = 14 \<or> n = 15"
    using assms by arith
  moreover have "16 * cp + n = n + cp * 16" by simp
  ultimately show ?thesis unfolding \<open>16 * cp + n = n + cp * 16\<close>
    by (elim disjE) (simp_all add: hex_digits_def peek_def push_bit_eq_mult less_eq_char_def Let_def)
qed

lemma hex4_read:
  assumes "cp < 65536"
  shows "parse_unicode_hex4 (hex4 cp @ s) = Inr (cp, s)"
proof -
  have "16 * (16 * (16 * (cp div 4096 mod 16) + cp div 256 mod 16) + cp div 16 mod 16) + cp mod 16 = cp"
  proof -
    have "cp div 4096 = cp div 16 div 16 div 16" "cp div 256 = cp div 16 div 16"
      by (simp_all add: div_mult2_eq [symmetric])
    moreover have "cp div 4096 < 16" using assms by (simp add: less_mult_imp_div_less)
    ultimately show ?thesis by simp
  qed
  moreover have "cp div 4096 < 16" using assms by (simp add: less_mult_imp_div_less)
  moreover have "4 = Suc (Suc (Suc (Suc 0)))" by simp
  ultimately show ?thesis
    by (simp only: parse_unicode_hex4_def hex4_def and_low_bits drop_bit_eq_div append.simps)
      (simp add: hex_digit_read del: parse_hex_digits.simps(2))
qed

lemma unicode_escape_read:
  assumes "cp < 65536" "s \<noteq> []"
  shows "parse_escape (tl (unicode_escape cp) @ s) = Inr (utf8 cp, s)"
  using assms hex4_read [OF assms(1), of s]
  by (cases s) (auto simp: parse_escape_def unicode_escape_def hex4_def utf8_def encode_utf8_def)

section \<open>Reading what was written\<close>

lemma read_body_quote: "read_body acc (quote # r) = Inr (acc, r)"
  by (subst read_body.simps) (simp add: skip_till_escape_eq scan_to_def)

lemma read_body_plain:
  assumes "c \<noteq> quote" "c \<noteq> backslash_c" "s \<noteq> []"
  shows "read_body acc (c # s) = read_body (acc @ [c]) s"
proof -
  have sc: "scan_to (\<lambda>c. c = quote \<or> c = backslash_c) (c # s) = scan_to (\<lambda>c. c = quote \<or> c = backslash_c) s"
    using scan_to_skip [of "[c]"] assms by simp
  show ?thesis
  proof (cases "scan_to (\<lambda>c. c = quote \<or> c = backslash_c) s")
    case (Inl e)
    then show ?thesis using sc assms(3)
      by (subst (1 2) read_body.simps) (simp add: skip_till_escape_eq)
  next
    case (Inr r)
    then have "length r \<le> length s" using scan_to_suffix suffix_length_le by blast
    then show ?thesis using sc assms(3) Inr
      by (subst (1 2) read_body.simps) (simp add: skip_till_escape_eq Suc_diff_le Let_def split: sum.split)
  qed
qed

lemma read_body_escape:
  "parse_escape x = Inr (t, r) \<Longrightarrow> read_body acc (backslash_c # x) = read_body (acc @ t) r"
  by (subst read_body.simps) (simp add: skip_till_escape_eq scan_to_def backslash_c_def quote_def)


text \<open>What is written for a code point, and what reading it back gives: behind the basic plane it is written as two
  surrogates, and each of them is read as a code point of its own.\<close>

definition lead :: "nat \<Rightarrow> nat" where
  "lead cp = 0xD800 + (cp - 0x10000) div 1024"

definition trail :: "nat \<Rightarrow> nat" where
  "trail cp = 0xDC00 + (cp - 0x10000) mod 1024"

definition written :: "nat \<Rightarrow> string" where
  "written cp =
     (if cp < 128 then write_plain (char_of cp)
      else if cp < 0x10000 then unicode_escape cp
      else unicode_escape (lead cp) @ unicode_escape (trail cp))"

definition reread :: "nat \<Rightarrow> string" where
  "reread cp = (if cp < 0x10000 then utf8 cp else utf8 (lead cp) @ utf8 (trail cp))"

lemma utf8_first:
  assumes "128 \<le> cp" "cp \<le> 0x10FFFF"
  obtains c t where "utf8 cp = c # t" "128 \<le> (of_char c :: nat)"
proof -
  consider "cp < 2048" | "2048 \<le> cp" "cp < 65536" | "65536 \<le> cp"
    by linarith
  then show ?thesis
  proof cases
    case 1
    then have "192 + cp div 64 < 256" by (simp add: less_mult_imp_div_less)
    with 1 that show ?thesis using assms by (simp add: utf8_bytes)
  next
    case 2
    then have "224 + cp div 4096 < 256" by (simp add: less_mult_imp_div_less)
    with 2 that show ?thesis by (simp add: utf8_bytes)
  next
    case 3
    then have "240 + cp div 262144 < 256" using assms by (simp add: less_mult_imp_div_less)
    with 3 that show ?thesis using assms by (simp add: utf8_bytes)
  qed
qed

lemma write_unicode:
  assumes "scalar cp" "128 \<le> cp"
  shows "write_unicode_to_string (utf8 cp @ s) = Inr (written cp, s)"
proof (cases "cp < 0x10000")
  case True
  then have "cp \<le> 0xD7FF \<or> 0xE000 \<le> cp \<and> cp \<le> 0xFFFF" using assms(1) by (auto simp: scalar_def)
  with True show ?thesis using assms(2)
    by (simp add: write_unicode_to_string_def decode_encode [OF assms] written_def)
next
  case False
  then have "\<not> (cp \<le> 0xD7FF \<or> 0xE000 \<le> cp \<and> cp \<le> 0xFFFF)" "\<not> cp > 0x10FFFF"
    using assms(1) by (auto simp: scalar_def)
  then have "write_unicode_to_string (utf8 cp @ s) =
    Inr (unicode_escape (drop_bit 10 (cp - 0x10000) + 0xD800) @
         unicode_escape (((cp - 0x10000) AND 0x3FF) + 0xDC00), s)"
    unfolding write_unicode_to_string_def decode_encode [OF assms] using False
    by (simp only: Let_def prod.case not_True_eq_False if_False de_Morgan_disj simp_thms)
  moreover have "drop_bit 10 (cp - 0x10000) + 0xD800 = lead cp"
    unfolding lead_def drop_bit_eq_div by simp
  moreover have "((cp - 0x10000) AND 0x3FF) + 0xDC00 = trail cp"
    unfolding trail_def and_low_bits by simp
  moreover have "written cp = unicode_escape (lead cp) @ unicode_escape (trail cp)"
    using False by (simp add: written_def)
  ultimately show ?thesis by (simp only:)
qed

lemma write_string_utf8:
  assumes "\<forall>cp \<in> set cps. scalar cp"
  shows "write_string_with_escape (concat (map utf8 cps)) = Inr (concat (map written cps))"
  using assms
proof (induction cps)
  case (Cons cp cps)
  show ?case
  proof (cases "cp < 128")
    case True
    then show ?thesis using Cons by (simp add: utf8_bytes written_def)
  next
    case False
    then have cp: "scalar cp" "128 \<le> cp" "cp \<le> 0x10FFFF" using Cons.prems by (auto simp: scalar_def)
    obtain c t where ct: "utf8 cp = c # t" "128 \<le> (of_char c :: nat)" using utf8_first cp by blast
    have "write_unicode_to_string (c # t @ concat (map utf8 cps)) = Inr (written cp, concat (map utf8 cps))"
      using write_unicode [OF cp(1,2)] ct by simp
    then show ?thesis using Cons ct by simp
  qed
qed simp

lemma unicode_escape_body:
  assumes "cp < 65536" "s \<noteq> []"
  shows "read_body acc (unicode_escape cp @ s) = read_body (acc @ utf8 cp) s"
  using read_body_escape [OF unicode_escape_read [OF assms]] by (simp add: unicode_escape_def)

lemma control_escape: "n < 32 \<Longrightarrow> hex4 n = CHR ''0'' # CHR ''0'' # [hex_digits ! (n div 16), hex_digits ! (n mod 16)]"
  by (simp add: hex4_def and_low_bits drop_bit_eq_div hex_digits_def)

lemma char_codes:
  "(of_char c :: nat) = 8 \<Longrightarrow> c = CHR 0x08" "(of_char c :: nat) = 9 \<Longrightarrow> c = CHR 0x09"
  "(of_char c :: nat) = 10 \<Longrightarrow> c = CHR 0x0A" "(of_char c :: nat) = 12 \<Longrightarrow> c = CHR 0x0C"
  "(of_char c :: nat) = 13 \<Longrightarrow> c = CHR 0x0D"
  using of_char_eq_iff [where 'a = nat, of c "CHR 0x08"] of_char_eq_iff [where 'a = nat, of c "CHR 0x09"]
    of_char_eq_iff [where 'a = nat, of c "CHR 0x0A"] of_char_eq_iff [where 'a = nat, of c "CHR 0x0C"]
    of_char_eq_iff [where 'a = nat, of c "CHR 0x0D"] by simp_all

lemma parse_simple_escape:
  assumes "escape_of c = Some e" "e \<noteq> CHR ''u''"
  shows "parse_escape (e # s) = Inr ([c], s)"
proof -
  consider "of_char c = (8 :: nat)" | "of_char c = (9 :: nat)" | "of_char c = (10 :: nat)"
    | "of_char c = (12 :: nat)" | "of_char c = (13 :: nat)" | "c = quote" | "c = backslash_c"
    using assms by (auto simp: escape_of_def Let_def split: if_splits)
  then show ?thesis
    using assms(1) by cases
      (auto simp: escape_of_def parse_escape_def quote_def backslash_c_def dest: char_codes)
qed

lemma write_plain_body:
  fixes n :: nat
  assumes "n < 128" "s \<noteq> []"
  shows "read_body acc (write_plain (char_of n) @ s) = read_body (acc @ [char_of n]) s"
proof (cases "escape_of (char_of n)")
  case None
  then have "char_of n \<noteq> quote" "char_of n \<noteq> backslash_c"
    by (auto simp: escape_of_def Let_def split: if_splits)
  with None show ?thesis using assms by (simp add: write_plain_def read_body_plain)
next
  case (Some e)
  show ?thesis
  proof (cases "e = CHR ''u''")
    case True
    with Some have "n < 32" using assms(1)
      by (auto simp: escape_of_def Let_def quote_def backslash_c_def split: if_splits)
    then have "write_plain (char_of n) = unicode_escape n"
      using Some True by (simp add: write_plain_def unicode_escape_def control_escape and_low_bits drop_bit_eq_div)
    then show ?thesis using assms by (simp add: unicode_escape_body utf8_bytes)
  next
    case False
    with Some have "parse_escape (e # s) = Inr ([char_of n], s)" by (rule parse_simple_escape)
    then show ?thesis using Some False read_body_escape [of "e # s"] by (simp add: write_plain_def)
  qed
qed

lemma written_body:
  assumes "scalar cp" "s \<noteq> []"
  shows "read_body acc (written cp @ s) = read_body (acc @ reread cp) s"
proof -
  have "lead cp < 65536" "trail cp < 65536" if "65536 \<le> cp"
    using assms(1) that by (simp_all add: lead_def trail_def scalar_def less_mult_imp_div_less)
  then show ?thesis using assms
    by (auto simp: written_def reread_def write_plain_body unicode_escape_body utf8_bytes)
qed

lemma written_bodies:
  assumes "\<forall>cp \<in> set cps. scalar cp" "s \<noteq> []"
  shows "read_body acc (concat (map written cps) @ s) = read_body (acc @ concat (map reread cps)) s"
  using assms by (induction cps arbitrary: acc) (simp_all add: written_body)


lemma length_utf8_surrogate: "0xD800 \<le> cp \<Longrightarrow> cp < 0xE000 \<Longrightarrow> length (utf8 cp) = 3"
  by (simp add: utf8_bytes)

lemma length_reread:
  assumes "scalar cp"
  shows "length (reread cp) = (if cp < 0x10000 then length (utf8 cp) else length (utf8 cp) + 2)"
proof (cases "cp < 0x10000")
  case False
  then have cp: "65536 \<le> cp" "cp \<le> 0x10FFFF" using assms by (auto simp: scalar_def)
  have "lead cp < 0xE000" using cp by (simp add: lead_def less_mult_imp_div_less)
  moreover have "trail cp < 0xE000" by (simp add: trail_def)
  ultimately have "length (utf8 (lead cp)) = 3" "length (utf8 (trail cp)) = 3"
    by (simp_all add: length_utf8_surrogate lead_def trail_def)
  then show ?thesis using False cp by (simp add: reread_def utf8_bytes)
qed (simp add: reread_def)

lemma length_rereads:
  assumes "\<forall>cp \<in> set cps. scalar cp"
  shows "length (concat (map reread cps)) = length (concat (map utf8 cps)) + 2 * length (filter (\<lambda>cp. 0x10000 \<le> cp) cps)"
  using assms by (induction cps) (simp_all add: length_reread)

lemma reread_same_iff:
  assumes "\<forall>cp \<in> set cps. scalar cp"
  shows "concat (map reread cps) = concat (map utf8 cps) \<longleftrightarrow> (\<forall>cp \<in> set cps. cp < 0x10000)"
proof
  assume "concat (map reread cps) = concat (map utf8 cps)"
  then have "filter (\<lambda>cp. 0x10000 \<le> cp) cps = []" using length_rereads [OF assms] by simp
  then show "\<forall>cp \<in> set cps. cp < 0x10000" by (auto simp: filter_empty_conv not_le)
next
  assume "\<forall>cp \<in> set cps. cp < 0x10000"
  then show "concat (map reread cps) = concat (map utf8 cps)" by (induction cps) (simp_all add: reread_def)
qed

lemma skip_ws_quote: "skip_ws (quote # s) = Inr (quote # s)"
  by (subst skip_ws.simps) (simp add: quote_def)

lemma read_string_written:
  assumes "\<forall>cp \<in> set cps. scalar cp"
  shows "read_string (quote # concat (map written cps) @ quote # rest) = Inr (concat (map reread cps), rest)"
proof -
  have "read_body [] (concat (map written cps) @ quote # rest) = Inr (concat (map reread cps), rest)"
    using written_bodies [OF assms, of "quote # rest" "[]"] by (simp add: read_body_quote)
  then show ?thesis
    by (simp add: read_string_def skip_ws_quote match_chars_def) (simp add: quote_def)
qed

text \<open>C29: A text in UTF-8 is written as a JSON string without an exception, and the string is read to its closing
  quote.  It is read as the same text exactly when it has no character beyond U+FFFF: such a character
  is written as two surrogates, and the reader encodes each of them by itself.\<close>

theorem json_text_roundtrip:
  assumes "\<forall>cp \<in> set cps. scalar cp" "t = concat (map utf8 cps)"
  shows "\<exists>w u. write_string_with_escape t = Inr w \<and> read_string (quote # w @ quote # rest) = Inr (u, rest) \<and>
    (u = t \<longleftrightarrow> (\<forall>cp \<in> set cps. cp < 0x10000))"
  using assms write_string_utf8 read_string_written reread_same_iff by blast

theorem json_text_roundtrip_witness:
  "\<exists>w u. write_string_with_escape (utf8 0x22 @ utf8 0xE9 @ utf8 0x1F600) = Inr w \<and>
    read_string (quote # w @ quote # [quote]) = Inr (u, [quote]) \<and> u \<noteq> utf8 0x22 @ utf8 0xE9 @ utf8 0x1F600"
  using json_text_roundtrip [of "[0x22, 0xE9, 0x1F600]" "utf8 0x22 @ utf8 0xE9 @ utf8 0x1F600" "[quote]"]
  by (simp add: scalar_def)

end
