(* ===== verification/Iguana_Json.thy ===== *)
theory Iguana_Json
  imports Iguana_Text Iguana_Numbers
begin

text \<open>
  Writing and reading a struct as a JSON object, \<^verbatim>\<open>iguana/json_writer.hpp\<close> and \<^verbatim>\<open>iguana/json_reader.hpp\<close>, for members of type
  \<^verbatim>\<open>std::string\<close> and \<^verbatim>\<open>int\<close>.  A struct is the list of its members' names and values in the order of their
  declaration.  The reader takes the members in any order, skips the values of names it does not
  know, and keeps what it has read when it throws - the caller does not see it then.
\<close>

datatype jvalue = JStr string | JInt int

type_synonym jstruct = "(string \<times> jvalue) list"

section \<open>Writing\<close>

fun to_json_impl :: "jvalue \<Rightarrow> string result" where
  "to_json_impl (JStr t) = map_sum id (\<lambda>w. quote # w @ [quote]) (write_string_with_escape t)"
| "to_json_impl (JInt i) = Inr (itoa_fwd4 (word_of_int i))"

definition write_json_key :: "string \<Rightarrow> string" where
  "write_json_key name = quote # name @ [quote]"

fun to_json_members :: "jstruct \<Rightarrow> string result" where
  "to_json_members [] = Inr []"
| "to_json_members ((n, v) # fs) =
     rbind (to_json_impl v) (\<lambda>w.
     rbind (to_json_members fs) (\<lambda>ws.
       Inr (write_json_key n @ '':'' @ w @ (if fs \<noteq> [] then '','' else []) @ ws)))"

definition to_json :: "jstruct \<Rightarrow> string result" where
  "to_json fs = rbind (to_json_members fs) (\<lambda>ws. Inr (''{'' @ ws @ ''}''))"

section \<open>Reading numbers\<close>

text \<open>\<^verbatim>\<open>std::from_chars\<close> of an \<^verbatim>\<open>int\<close>: the value and the text behind it.\<close>

definition from_chars_int :: "string \<Rightarrow> (int \<times> string) option" where
  "from_chars_int s =
     (let neg = (s \<noteq> [] \<and> hd s = CHR ''-''); u = (if neg then tl s else s);
          ds = takeWhile isdigit_c u; v = (if neg then - int (parse_digits ds) else int (parse_digits ds))
      in if ds = [] \<or> v < - 2147483648 \<or> 2147483647 < v then None else Some (v, drop (length ds) u))"

definition can_follow_number :: "char \<Rightarrow> bool" where
  "can_follow_number c \<longleftrightarrow>
     c \<in> {CHR 0x00, CHR 0x09, CHR 0x0A, CHR 0x0B, CHR 0x0C, CHR 0x0D, CHR '' '', CHR 0x22, CHR '','', CHR '']'', CHR ''}''}"

definition number_error :: exn where
  "number_error = Runtime_error ''Failed to parse number''"

text \<open>\<^verbatim>\<open>null\<close> leaves the value as it is.\<close>

definition read_int :: "int \<Rightarrow> string \<Rightarrow> (int \<times> string) result" where
  "read_int old s =
     rbind (skip_ws s) (\<lambda>s.
       if s \<noteq> [] \<and> hd s = CHR ''n''
       then rbind (match_chars ''ull'' (tl s)) (\<lambda>r. Inr (old, r))
       else if s = [] then Inl number_error
       else (case from_chars_int s of
               None \<Rightarrow> Inl number_error
             | Some (v, r) \<Rightarrow> if can_follow_number (peek r) then Inr (v, r) else Inl number_error))"

fun from_json_impl :: "jvalue \<Rightarrow> string \<Rightarrow> (jvalue \<times> string) result" where
  "from_json_impl (JStr _) s = rbind (read_string s) (\<lambda>(t, r). Inr (JStr t, r))"
| "from_json_impl (JInt i) s = rbind (read_int i s) (\<lambda>(v, r). Inr (JInt v, r))"

section \<open>Skipping the value of an unknown name\<close>

fun skip_string_body :: "string \<Rightarrow> string" where
  "skip_string_body [] = []"
| "skip_string_body [c] = []"
| "skip_string_body (c # d # s) =
     (if c = quote then d # s else if c = backslash_c then skip_string_body s else skip_string_body (d # s))"

definition skip_string :: "string \<Rightarrow> string" where
  "skip_string s = skip_string_body (tl s)"

lemma skip_string_body_shorter: "length (skip_string_body s) \<le> length s"
  by (induction s rule: skip_string_body.induct) (auto split: list.splits)

lemma skip_string_shorter: "s \<noteq> [] \<Longrightarrow> length (skip_string s) < length s"
  using skip_string_body_shorter [of "tl s"] by (cases s) (auto simp: skip_string_def)

lemma skip_string_less [simp]: "length (skip_string (c # s)) < Suc (length s)"
  using skip_string_shorter [of "c # s"] by simp

lemma skip_comment_less: "skip_comment (c # s) = Inr r \<Longrightarrow> length r < Suc (length s)"
  using skip_comment_shorter [of "c # s" r] by simp

text \<open>The loop of \<^verbatim>\<open>skip_until_closed\<close> with the brackets still open.\<close>

function closed_loop :: "char \<Rightarrow> char \<Rightarrow> nat \<Rightarrow> string \<Rightarrow> string result" where
  "closed_loop opening closing n s =
     (if n = 0 then Inr s
      else case s of
        [] \<Rightarrow> Inr []
      | c # r \<Rightarrow>
          if c = CHR ''/'' then (case skip_comment s of Inl e \<Rightarrow> Inl e | Inr r \<Rightarrow> closed_loop opening closing n r)
          else if c = quote then closed_loop opening closing n (skip_string s)
          else if c = opening then closed_loop opening closing (Suc n) r
          else if c = closing then closed_loop opening closing (n - 1) r
          else closed_loop opening closing n r)"
  by pat_completeness auto
termination
  by (relation "measure (\<lambda>(_, _, _, s). length s)") (auto dest: skip_comment_less)

declare closed_loop.simps [simp del]

definition skip_until_closed :: "char \<Rightarrow> char \<Rightarrow> string \<Rightarrow> string result" where
  "skip_until_closed opening closing s = closed_loop opening closing 1 (tl s)"

function skip_value_loop :: "string \<Rightarrow> string result" where
  "skip_value_loop s =
     (case s of
        [] \<Rightarrow> Inr []
      | c # r \<Rightarrow>
          if c = CHR ''{'' then skip_until_closed (CHR ''{'') (CHR ''}'') s
          else if c = CHR ''['' then skip_until_closed (CHR ''['') (CHR '']'') s
          else if c = quote then Inr (skip_string s)
          else if c = CHR ''/'' then (case skip_comment s of Inl e \<Rightarrow> Inl e | Inr r \<Rightarrow> skip_value_loop r)
          else if c = CHR '','' \<or> c = CHR ''}'' \<or> c = CHR '']'' then Inr s
          else skip_value_loop r)"
  by pat_completeness auto
termination
  by (relation "measure length") (auto dest: skip_comment_less)

declare skip_value_loop.simps [simp del]

definition skip_object_value :: "string \<Rightarrow> string result" where
  "skip_object_value s = rbind (skip_ws s) skip_value_loop"

section \<open>Reading an object\<close>

text \<open>A name without escapes is a view of the text, and a leading \<open>@\<close> of it is dropped; one with escapes is read as a string.\<close>

definition get_key :: "string \<Rightarrow> (string \<times> string) result" where
  "get_key s =
     rbind (skip_ws s) (\<lambda>s.
     rbind (match_chars [quote] s) (\<lambda>start.
     rbind (skip_till_escape_or_qoute start) (\<lambda>r.
       if peek r = backslash_c then read_body [] start
       else let key = take (length start - length r) start
            in Inr (if key \<noteq> [] \<and> hd key = CHR ''@'' then tl key else key, tl r))))"

lemma skip_ws_shorter: "skip_ws s = Inr r \<Longrightarrow> length r \<le> length s"
proof (induction s rule: skip_ws.induct)
  case (1 s)
  then show ?case
    by (subst (asm) (3) skip_ws.simps)
      (fastforce split: list.splits if_splits sum.splits dest: skip_comment_shorter)
qed

lemma match_shorter: "match_chars pat s = Inr r \<Longrightarrow> length r = length s - length pat \<and> length pat \<le> length s"
  by (auto simp: match_chars_def split: if_splits)

lemma read_body_shorter: "read_body acc s = Inr (t, r) \<Longrightarrow> length r \<le> length s"
proof (induction acc s arbitrary: t r rule: read_body.induct)
  case (1 acc s)
  show ?case
  proof (cases "s = []")
    case False
    with 1(2) obtain u where u: "skip_till_escape_or_qoute s = Inr u"
      by (subst (asm) read_body.simps) (auto split: sum.splits)
    then have le: "u \<noteq> []" "length u \<le> length s" using skip_till_escape_shorter by blast+
    show ?thesis
    proof (cases "hd u = quote")
      case True
      with 1(2) False u le show ?thesis
        by (subst (asm) read_body.simps) auto
    next
      case nq: False
      with 1(2) False u obtain p v where pv: "parse_escape (tl u) = Inr (p, v)"
        "read_body (acc @ take (length s - length u) s @ p) v = Inr (t, r)"
        by (subst (asm) read_body.simps) (auto simp: Let_def split: sum.splits prod.splits)
      then have "length r \<le> length v" using 1(1) [OF False u refl nq pv(1) refl] by simp
      moreover have "length v < length (tl u)" by (rule parse_escape_shorter [OF pv(1)])
      ultimately show ?thesis using le by simp
    qed
  qed (use 1(2) in \<open>subst (asm) read_body.simps, simp\<close>)
qed

lemma get_key_shorter: "get_key s = Inr (k, r) \<Longrightarrow> length r < length s"
  by (auto simp: get_key_def rbind_Inr_conv Let_def split: if_splits
      dest!: skip_ws_shorter match_shorter skip_till_escape_shorter read_body_shorter)

lemma closed_loop_shorter: "closed_loop opening closing n s = Inr r \<Longrightarrow> length r \<le> length s"
proof (induction "length s" arbitrary: n s rule: less_induct)
  case less
  have ih: "closed_loop opening closing m u = Inr r \<Longrightarrow> length u < length s \<Longrightarrow> length r \<le> length s" for m u
    using less.hyps [of u m] by simp
  show ?case
  proof (cases s)
    case Nil
    with less.prems show ?thesis by (subst (asm) closed_loop.simps) (auto split: if_splits)
  next
    case (Cons c t)
    have "length (skip_string s) < length s" "skip_comment s = Inr u \<Longrightarrow> length u < length s" for u
      using Cons by (auto dest: skip_comment_less)
    then show ?thesis using less.prems ih Cons
      by (subst (asm) closed_loop.simps) (auto split: if_splits sum.splits)
  qed
qed

lemma skip_value_loop_shorter: "skip_value_loop s = Inr r \<Longrightarrow> length r \<le> length s"
proof (induction "length s" arbitrary: s rule: less_induct)
  case less
  have ih: "skip_value_loop u = Inr r \<Longrightarrow> length u < length s \<Longrightarrow> length r \<le> length s" for u
    using less.hyps [of u] by simp
  show ?case
  proof (cases s)
    case Nil
    with less.prems show ?thesis by (subst (asm) skip_value_loop.simps) auto
  next
    case (Cons c t)
    have "length (skip_string s) < length s" "skip_comment s = Inr u \<Longrightarrow> length u < length s" for u
      using Cons by (auto dest: skip_comment_less)
    then show ?thesis using less.prems ih Cons
      by (subst (asm) skip_value_loop.simps)
        (auto simp: skip_until_closed_def split: if_splits sum.splits dest: closed_loop_shorter intro: less_imp_le)
  qed
qed

lemma skip_object_value_shorter: "skip_object_value s = Inr r \<Longrightarrow> length r \<le> length s"
  by (auto simp: skip_object_value_def rbind_Inr_conv dest!: skip_ws_shorter skip_value_loop_shorter)

lemma read_string_shorter: "read_string s = Inr (t, r) \<Longrightarrow> length r \<le> length s"
  by (auto simp: read_string_def rbind_Inr_conv split: if_splits
      dest!: skip_ws_shorter match_shorter read_body_shorter)

lemma from_chars_int_shorter: "from_chars_int s = Some (v, r) \<Longrightarrow> length r \<le> length s"
  by (cases s) (auto simp: from_chars_int_def Let_def split: if_splits)

lemma read_int_shorter: "read_int i s = Inr (v, r) \<Longrightarrow> length r \<le> length s"
  by (auto simp: read_int_def rbind_Inr_conv split: if_splits option.splits
      dest!: skip_ws_shorter match_shorter from_chars_int_shorter)

lemma from_json_impl_shorter: "from_json_impl v s = Inr (w, r) \<Longrightarrow> length r \<le> length s"
  by (cases v) (auto simp: rbind_Inr_conv dest: read_string_shorter read_int_shorter)

definition set_member :: "jstruct \<Rightarrow> string \<Rightarrow> jvalue \<Rightarrow> jstruct" where
  "set_member fs n v = map (\<lambda>(m, w). if m = n then (m, v) else (m, w)) fs"

text \<open>A member's value by its name, or the value of an unknown name skipped.\<close>

definition read_member :: "jstruct \<Rightarrow> string \<Rightarrow> string \<Rightarrow> (jstruct \<times> string) result" where
  "read_member fs key s =
     (case map_of fs key of
        Some v \<Rightarrow> rbind (from_json_impl v s) (\<lambda>(w, r). Inr (set_member fs key w, r))
      | None \<Rightarrow> rbind (skip_object_value s) (\<lambda>r. Inr (fs, r)))"

lemma read_member_shorter: "read_member fs key s = Inr (gs, r) \<Longrightarrow> length r \<le> length s"
  by (auto simp: read_member_def rbind_Inr_conv split: option.splits
      dest: from_json_impl_shorter skip_object_value_shorter)

text \<open>The loop stands behind a name.  A text that ends there is taken as a complete object.\<close>

function read_members :: "jstruct \<Rightarrow> string \<Rightarrow> string \<Rightarrow> (jstruct \<times> string) result" where
  "read_members fs key s =
     (if s = [] then Inr (fs, [])
      else case rbind (skip_ws s) (match_chars '':'') of
        Inl e \<Rightarrow> Inl e
      | Inr s1 \<Rightarrow>
          (case read_member fs key s1 of
             Inl e \<Rightarrow> Inl e
           | Inr (fs, s2) \<Rightarrow>
               (case skip_ws s2 of
                  Inl e \<Rightarrow> Inl e
                | Inr s3 \<Rightarrow>
                    if peek s3 = CHR ''}'' then Inr (fs, tl s3)
                    else (case rbind (match_chars '','' s3) get_key of
                            Inl e \<Rightarrow> Inl e
                          | Inr (key, s4) \<Rightarrow> read_members fs key s4))))"
  by pat_completeness auto
termination
proof (relation "measure (\<lambda>(_, _, s). length s)", goal_cases)
  case (2 fs key s s1 p fs' s2 s3 q key' s4)
  then have "length s2 \<le> length s1" "length s3 \<le> length s2" "length s1 < length s" "length s4 < length s3"
    by (auto simp: rbind_Inr_conv dest!: match_shorter skip_ws_shorter read_member_shorter get_key_shorter)
  then show ?case by simp
qed simp

declare read_members.simps [simp del]

definition from_json :: "jstruct \<Rightarrow> string \<Rightarrow> (jstruct \<times> string) result" where
  "from_json fs s =
     rbind (skip_ws s) (\<lambda>s.
     rbind (match_chars ''{'' s) (\<lambda>s.
     rbind (skip_ws s) (\<lambda>s.
       if peek s = CHR ''}'' then Inr (fs, tl s)
       else if fs = [] then Inr (fs, s)
       else rbind (get_key s) (\<lambda>(key, s). read_members fs key s))))"

section \<open>Reading what was written\<close>

text \<open>Values the writer and the reader agree on: texts of characters up to U+FFFF in UTF-8, and 32-bit integers.\<close>

definition basic_text :: "string \<Rightarrow> bool" where
  "basic_text t \<longleftrightarrow> (\<exists>cps. (\<forall>cp \<in> set cps. scalar cp \<and> cp < 0x10000) \<and> t = concat (map utf8 cps))"

fun json_safe :: "jvalue \<Rightarrow> bool" where
  "json_safe (JStr t) = basic_text t"
| "json_safe (JInt i) = (- 2147483648 \<le> i \<and> i \<le> 2147483647)"

fun same_kind :: "jvalue \<Rightarrow> jvalue \<Rightarrow> bool" where
  "same_kind (JStr _) (JStr _) = True"
| "same_kind (JInt _) (JInt _) = True"
| "same_kind _ _ = False"

lemma basic_text_written:
  assumes "basic_text t"
  obtains w where "write_string_with_escape t = Inr w"
    "\<And>rest. read_string (quote # w @ quote # rest) = Inr (t, rest)"
proof -
  obtain cps where cps: "\<forall>cp \<in> set cps. scalar cp \<and> cp < 0x10000" "t = concat (map utf8 cps)"
    using assms by (auto simp: basic_text_def)
  then have sc: "\<forall>cp \<in> set cps. scalar cp" by blast
  have "concat (map reread cps) = t" using reread_same_iff [OF sc] cps by blast
  then show thesis
    using that [of "concat (map written cps)"] write_string_utf8 [OF sc] read_string_written [OF sc] cps(2) by simp
qed

definition ends_value :: "string \<Rightarrow> bool" where
  "ends_value s \<longleftrightarrow> s \<noteq> [] \<and> (hd s = CHR '','' \<or> hd s = CHR ''}'')"

lemma sint_of_int32: "- 2147483648 \<le> i \<Longrightarrow> i \<le> 2147483647 \<Longrightarrow> sint (word_of_int i :: u32) = i"
proof -
  assume "- 2147483648 \<le> i" "i \<le> 2147483647"
  then have "signed_take_bit 31 i = i" by (intro signed_take_bit_int_eq_self) simp_all
  then show ?thesis by (simp add: sint_uint uint_word_of_int_eq signed_take_bit_take_bit)
qed

lemma isdigit_ends: "ends_value s \<Longrightarrow> \<not> isdigit_c (hd s)"
  by (auto simp: ends_value_def isdigit_c_def)

lemma take_digits:
  assumes "ends_value s"
  shows "takeWhile isdigit_c (nat_str n @ s) = nat_str n"
proof -
  have "takeWhile isdigit_c s = []" using assms isdigit_ends [OF assms] by (cases s) (auto simp: ends_value_def)
  then show ?thesis by (simp add: takeWhile_append nat_str_digits)
qed

lemma nat_str_hd: "isdigit_c (hd (nat_str n))"
  using nat_str_digits nat_str_nonempty hd_in_set by blast

lemma printed_int_read:
  assumes "- 2147483648 \<le> i" "i \<le> 2147483647" "ends_value s"
  shows "from_chars_int (int_str i @ s) = Some (i, s)"
proof (cases "i < 0")
  case True
  then show ?thesis using assms take_digits [OF assms(3), of "nat (- i)"]
    by (simp add: from_chars_int_def int_str_def Let_def)
next
  case False
  have "hd (nat_str (nat i)) \<noteq> CHR ''-''" using nat_str_hd [of "nat i"] by (auto simp: isdigit_c_def)
  then show ?thesis using assms False take_digits [OF assms(3), of "nat i"]
    by (simp add: from_chars_int_def int_str_def Let_def)
qed

lemma skip_ws_id:
  assumes "s \<noteq> []" "33 \<le> (of_char (hd s) :: nat)" "hd s \<noteq> CHR ''/''"
  shows "skip_ws s = Inr s"
  using assms by (subst skip_ws.simps) (auto split: list.split)

lemma int_str_hd: "hd (int_str i @ s) = CHR ''-'' \<or> isdigit_c (hd (int_str i @ s))"
  using nat_str_hd by (simp add: int_str_def)

lemma read_int_written:
  assumes "- 2147483648 \<le> i" "i \<le> 2147483647" "ends_value s"
  shows "read_int old (itoa_fwd4 (word_of_int i) @ s) = Inr (i, s)"
proof -
  have t: "itoa_fwd4 (word_of_int i) = int_str i"
    using assms by (simp add: itoa_fwd4_eq sint_of_int32)
  have h: "33 \<le> (of_char (hd (int_str i @ s)) :: nat)" "hd (int_str i @ s) \<noteq> CHR ''/''" "hd (int_str i @ s) \<noteq> CHR ''n''"
    using int_str_hd [of i s] by (auto simp: isdigit_c_def)
  have "skip_ws (int_str i @ s) = Inr (int_str i @ s)" using h by (intro skip_ws_id) simp_all
  moreover have "can_follow_number (peek s)"
    using assms(3) by (cases s) (auto simp: ends_value_def can_follow_number_def peek_def)
  ultimately show ?thesis
    using h printed_int_read [OF assms] by (simp add: t read_int_def)
qed

lemma value_written:
  assumes "json_safe v" "same_kind old v"
  obtains w where "to_json_impl v = Inr w" "\<And>s. ends_value s \<Longrightarrow> from_json_impl old (w @ s) = Inr (v, s)"
proof (cases v)
  case (JStr t)
  then obtain w where "write_string_with_escape t = Inr w" "\<And>rest. read_string (quote # w @ quote # rest) = Inr (t, rest)"
    using assms(1) by (auto elim: basic_text_written)
  then show thesis using JStr assms(2) by (intro that [of "quote # w @ [quote]"]) (cases old; simp)+
next
  case (JInt i)
  then show thesis using assms read_int_written
    by (intro that [of "itoa_fwd4 (word_of_int i)"]) (cases old; simp)+
qed

text \<open>Names written as they are and read back as they are.\<close>

definition plain_name :: "string \<Rightarrow> bool" where
  "plain_name n \<longleftrightarrow> quote \<notin> set n \<and> backslash_c \<notin> set n \<and> (n = [] \<or> hd n \<noteq> CHR ''@'')"

lemma quote_not_backslash: "quote \<noteq> backslash_c"
  by (simp add: quote_def backslash_c_def)

lemma get_key_written:
  assumes "plain_name n"
  shows "get_key (write_json_key n @ s) = Inr (n, s)"
proof -
  have "scan_to (\<lambda>c. c = quote \<or> c = backslash_c) (n @ quote # s) =
    scan_to (\<lambda>c. c = quote \<or> c = backslash_c) (quote # s)"
    using assms by (intro scan_to_skip) (auto simp: plain_name_def)
  then have "scan_to (\<lambda>c. c = quote \<or> c = backslash_c) (n @ quote # s) = Inr (quote # s)"
    by (simp add: scan_to_def)
  then show ?thesis using assms
    by (auto simp: get_key_def write_json_key_def skip_ws_quote match_chars_def skip_till_escape_eq peek_def
        plain_name_def quote_not_backslash)
qed

lemma map_fst_set_member [simp]: "map fst (set_member fs n v) = map fst fs"
  by (induction fs) (auto simp: set_member_def)

lemma map_of_set_member:
  "map_of (set_member fs n v) m = (if m = n \<and> n \<in> fst ` set fs then Some v else map_of fs m)"
proof (induction fs)
  case (Cons p fs)
  obtain a b where p: "p = (a, b)" by (cases p)
  have "set_member (p # fs) n v = (a, if a = n then v else b) # set_member fs n v"
    by (simp add: set_member_def p)
  then show ?case using Cons by (cases "m = n"; cases "a = n"; simp add: p)
qed (simp add: set_member_def)

lemma skip_ws_colon: "skip_ws (CHR '':'' # s) = Inr (CHR '':'' # s)"
  by (rule skip_ws_id) simp_all

lemma members_step:
  assumes "map_of fs n = Some old" "json_safe v" "same_kind old v" "to_json_impl v = Inr w" "ends_value s"
  shows "read_members fs n ('':'' @ w @ s) =
    (if hd s = CHR ''}'' then Inr (set_member fs n v, tl s)
     else rbind (get_key (tl s)) (\<lambda>(key, r). read_members (set_member fs n v) key r))"
proof -
  have r: "from_json_impl old (w @ s) = Inr (v, s)"
    using value_written [OF assms(2,3)] assms(4,5) by (metis Inr_inject)
  have e: "skip_ws s = Inr s" "peek s = hd s" "s \<noteq> []"
    using assms(5) by (auto simp: ends_value_def peek_def intro!: skip_ws_id split: list.split)
  show ?thesis
  proof (cases "hd s = CHR ''}''")
    case True
    then show ?thesis using r e assms(1)
      by (subst read_members.simps) (simp add: skip_ws_colon match_chars_def read_member_def)
  next
    case False
    then obtain t where t: "s = CHR '','' # t" using assms(5) by (cases s) (auto simp: ends_value_def)
    show ?thesis using r e assms(1) t
      by (subst read_members.simps)
        (simp add: skip_ws_colon match_chars_def read_member_def split: sum.split)
  qed
qed

lemma members_written:
  assumes "to_json_members ((n, v) # ms) = Inr W"
    "\<forall>(m, w) \<in> set ((n, v) # ms). plain_name m \<and> json_safe w \<and> (\<exists>old. map_of fs m = Some old \<and> same_kind old w)"
    "distinct (map fst ((n, v) # ms))"
  shows "rbind (get_key (W @ ''}'' @ rest)) (\<lambda>(key, r). read_members fs key r) =
    Inr (foldl (\<lambda>gs (m, w). set_member gs m w) fs ((n, v) # ms), rest)"
  using assms
proof (induction ms arbitrary: n v W fs)
  case Nil
  then obtain old w where w: "to_json_impl v = Inr w" "W = write_json_key n @ '':'' @ w"
    "map_of fs n = Some old" "same_kind old v" "json_safe v" "plain_name n"
    by (auto simp: rbind_Inr_conv)
  then show ?case
    using members_step [OF w(3,5,4,1), of "''}'' @ rest"] get_key_written [OF w(6), of "'':'' @ w @ ''}'' @ rest"]
    by (simp add: ends_value_def)
next
  case (Cons x ms)
  obtain m u where x: "x = (m, u)" by (cases x)
  obtain old w ws where w: "to_json_impl v = Inr w" "to_json_members (x # ms) = Inr ws"
    "W = write_json_key n @ '':'' @ w @ '','' @ ws"
    "map_of fs n = Some old" "same_kind old v" "json_safe v" "plain_name n"
  proof -
    have e: "to_json_members ((n, v) # x # ms) =
      rbind (to_json_impl v) (\<lambda>w. rbind (to_json_members (x # ms)) (\<lambda>ws.
        Inr (write_json_key n @ '':'' @ w @ '','' @ ws)))"
      by simp
    obtain w ws where "to_json_impl v = Inr w" "to_json_members (x # ms) = Inr ws"
      "W = write_json_key n @ '':'' @ w @ '','' @ ws"
      using Cons.prems(1) unfolding e rbind_Inr_conv by auto
    then show thesis using that Cons.prems(2) by auto
  qed
  have next_: "rbind (get_key (ws @ ''}'' @ rest)) (\<lambda>(key, r). read_members (set_member fs n v) key r) =
    Inr (foldl (\<lambda>gs (m, w). set_member gs m w) (set_member fs n v) (x # ms), rest)"
    unfolding x
  proof (rule Cons.IH)
    show "to_json_members ((m, u) # ms) = Inr ws" using w(2) by (simp only: x)
    show "distinct (map fst ((m, u) # ms))" using Cons.prems(3) by (simp add: x)
    show "\<forall>(k, w) \<in> set ((m, u) # ms). plain_name k \<and> json_safe w \<and>
      (\<exists>old. map_of (set_member fs n v) k = Some old \<and> same_kind old w)"
    proof (intro ballI, clarify)
      fix k u' assume k: "(k, u') \<in> set ((m, u) # ms)"
      then have "k \<in> set (map fst (x # ms))" by (auto simp: x rev_image_eqI)
      then have "k \<noteq> n" using Cons.prems(3) by auto
      moreover have "(k, u') \<in> set ((n, v) # x # ms)" using k by (simp add: x)
      ultimately show "plain_name k \<and> json_safe u' \<and>
        (\<exists>old. map_of (set_member fs n v) k = Some old \<and> same_kind old u')"
        using Cons.prems(2) by (auto simp: map_of_set_member)
    qed
  qed
  then show ?case
    using members_step [OF w(4,6,5,1), of "'','' @ ws @ ''}'' @ rest"]
      get_key_written [OF w(7), of "'':'' @ w @ '','' @ ws @ ''}'' @ rest"]
    by (simp add: w(3) ends_value_def)
qed

lemma list_of_map_of: "distinct (map fst xs) \<Longrightarrow> map (\<lambda>n. (n, the (map_of xs n))) (map fst xs) = xs"
  unfolding map_map by (rule map_idI) auto

lemma set_all_members:
  assumes "map fst fs = map fst ms" "distinct (map fst ms)"
  shows "foldl (\<lambda>gs (m, w). set_member gs m w) fs ms = ms"
proof -
  let ?r = "foldl (\<lambda>gs (m, w). set_member gs m w) fs ms"
  have names: "map fst (foldl (\<lambda>gs (m, w). set_member gs m w) gs xs) = map fst gs" for gs xs
    by (induction xs arbitrary: gs) auto
  have vals: "fst ` set xs \<subseteq> fst ` set gs \<Longrightarrow> distinct (map fst xs) \<Longrightarrow>
    map_of (foldl (\<lambda>gs (m, w). set_member gs m w) gs xs) n =
    (case map_of xs n of None \<Rightarrow> map_of gs n | Some v \<Rightarrow> Some v)" for gs xs n
  proof (induction xs arbitrary: gs)
    case (Cons x xs)
    obtain a b where x: "x = (a, b)" by (cases x)
    have "fst ` set (set_member gs a b) = fst ` set gs" by (metis map_fst_set_member list.set_map)
    moreover have "map_of xs a = None" using Cons.prems(2) x by (simp add: map_of_eq_None_iff)
    ultimately show ?case using Cons x
      by (auto simp: map_of_set_member split: option.splits)
  qed simp
  have sub: "fst ` set ms \<subseteq> fst ` set fs" using assms(1) by (metis list.set_map subset_refl)
  have "map_of ?r n = map_of ms n" for n
  proof (cases "map_of ms n")
    case None
    then have "map_of fs n = None" using assms(1) by (metis list.set_map map_of_eq_None_iff)
    with None show ?thesis using vals [OF sub assms(2)] by simp
  qed (simp add: vals [OF sub assms(2)])
  then have "map_of ?r = map_of ms" by blast
  moreover have "distinct (map fst ?r)" using names assms by simp
  ultimately show ?thesis using names [of fs ms] assms by (metis list_of_map_of)
qed

text \<open>What the writer wrote of a struct, read into any struct of the same members, gives the values written.\<close>

lemma written_struct_read:
  assumes "to_json ms = Inr W" "ms \<noteq> []" "distinct (map fst ms)" "map fst fs = map fst ms"
    "\<forall>(m, w) \<in> set ms. plain_name m \<and> json_safe w \<and> (\<exists>old. map_of fs m = Some old \<and> same_kind old w)"
  shows "from_json fs (W @ rest) = Inr (ms, rest)"
proof -
  obtain n v ns where ms: "ms = (n, v) # ns" using assms(2) by (metis list.exhaust surj_pair)
  obtain ws where ws: "to_json_members ((n, v) # ns) = Inr ws" "W = ''{'' @ ws @ ''}''"
    using assms(1) by (auto simp: to_json_def rbind_Inr_conv ms)
  have hd: "\<exists>u. ws = quote # u"
    using ws(1) by (auto simp: rbind_Inr_conv write_json_key_def)
  then obtain u where u: "ws = quote # u" by blast
  have fs: "fs \<noteq> []" using assms(2,4) by auto
  have "rbind (get_key (ws @ ''}'' @ rest)) (\<lambda>(key, r). read_members fs key r) =
    Inr (foldl (\<lambda>gs (m, w). set_member gs m w) fs ms, rest)"
    using members_written [OF ws(1), of fs rest] assms(3,5) by (simp add: ms)
  also have "foldl (\<lambda>gs (m, w). set_member gs m w) fs ms = ms"
    using set_all_members assms(3,4) by blast
  finally have r: "rbind (get_key (ws @ ''}'' @ rest)) (\<lambda>(key, r). read_members fs key r) = Inr (ms, rest)" .
  have "skip_ws (CHR ''{'' # ws @ ''}'' @ rest) = Inr (CHR ''{'' # ws @ ''}'' @ rest)"
    by (rule skip_ws_id) simp_all
  moreover have "skip_ws (ws @ ''}'' @ rest) = Inr (ws @ ''}'' @ rest)"
    by (simp add: u skip_ws_quote)
  moreover have "peek (ws @ ''}'' @ rest) \<noteq> CHR ''}''" by (simp add: u peek_def quote_def)
  ultimately show ?thesis using r fs
    by (simp add: from_json_def ws(2) match_chars_def)
qed

lemma to_json_total:
  assumes "\<forall>(n, v) \<in> set ms. json_safe v"
  obtains W where "to_json ms = Inr W"
proof -
  have "json_safe v \<Longrightarrow> \<exists>w. to_json_impl v = Inr w" for v
    by (cases v) (auto elim: basic_text_written)
  then have "\<exists>W. to_json_members ms = Inr W"
    using assms by (induction ms rule: to_json_members.induct) (fastforce simp: rbind_Inr_conv)+
  then show thesis using that by (auto simp: to_json_def)
qed

end
