(* ===== verification/Config_File.thy ===== *)
theory Config_File
  imports Iguana_Json
begin

text \<open>
  The configuration manager, \<^verbatim>\<open>ormpp/ormpp_cfg.hpp\<close>: a JSON file with the connection's settings, read
  and rewritten as a whole by every \<^verbatim>\<open>get\<close> and \<^verbatim>\<open>set\<close>.  The file system is a map from paths to texts with
  the paths that open for reading and for writing; what the stream operations do behind a
  successful open is taken to succeed, as the code takes it.  An exception of the JSON reader or
  writer leaves \<^verbatim>\<open>get\<close> or \<^verbatim>\<open>set\<close> as it is, before anything is written.
\<close>

section \<open>The settings\<close>

record ormpp_cfg =
  db_ip :: string
  user_name :: string
  pwd :: string
  db_name :: string
  timeout :: int
  db_conn_num :: int
  db_port :: int

definition empty_cfg :: ormpp_cfg where
  "empty_cfg = \<lparr>db_ip = [], user_name = [], pwd = [], db_name = [], timeout = 0, db_conn_num = 0, db_port = 0\<rparr>"

text \<open>The members with their names, as the reflection hands them out, and the record they make up.\<close>

definition cfg_members :: "ormpp_cfg \<Rightarrow> jstruct" where
  "cfg_members c =
     [(''db_ip'', JStr (db_ip c)), (''user_name'', JStr (user_name c)), (''pwd'', JStr (pwd c)),
      (''db_name'', JStr (db_name c)), (''timeout'', JInt (timeout c)), (''db_conn_num'', JInt (db_conn_num c)),
      (''db_port'', JInt (db_port c))]"

fun text_of :: "jvalue \<Rightarrow> string" where
  "text_of (JStr t) = t"
| "text_of (JInt _) = []"

fun int_of_jvalue :: "jvalue \<Rightarrow> int" where
  "int_of_jvalue (JInt i) = i"
| "int_of_jvalue (JStr _) = 0"

definition cfg_of_members :: "jstruct \<Rightarrow> ormpp_cfg" where
  "cfg_of_members ms =
     (let m = (\<lambda>n. the (map_of ms n))
      in \<lparr>db_ip = text_of (m ''db_ip''), user_name = text_of (m ''user_name''), pwd = text_of (m ''pwd''),
          db_name = text_of (m ''db_name''), timeout = int_of_jvalue (m ''timeout''),
          db_conn_num = int_of_jvalue (m ''db_conn_num''), db_port = int_of_jvalue (m ''db_port'')\<rparr>)"

lemma cfg_of_members [simp]: "cfg_of_members (cfg_members c) = c"
  by (simp add: cfg_of_members_def cfg_members_def)

section \<open>The file\<close>

record file_system =
  contents :: "string \<rightharpoonup> string"
  opens_in :: "string \<Rightarrow> bool"
  opens_out :: "string \<Rightarrow> bool"

text \<open>\<^verbatim>\<open>from_file\<close>: \<^term>\<open>None\<close> where it returns false.\<close>

definition from_file :: "file_system \<Rightarrow> string \<Rightarrow> ormpp_cfg \<Rightarrow> ormpp_cfg option result" where
  "from_file fs path t =
     (case contents fs path of
        Some str \<Rightarrow>
          if opens_in fs path
          then rbind (from_json (cfg_members t) str) (\<lambda>(ms, _). Inr (Some (cfg_of_members ms)))
          else Inr None
      | None \<Rightarrow> Inr None)"

definition to_file :: "file_system \<Rightarrow> string \<Rightarrow> ormpp_cfg \<Rightarrow> (bool \<times> file_system) result" where
  "to_file fs path t =
     rbind (to_json (cfg_members t)) (\<lambda>ss.
       Inr (if opens_out fs path then (True, fs\<lparr>contents := (contents fs)(path \<mapsto> ss)\<rparr>) else (False, fs)))"

section \<open>get and set\<close>

text \<open>\<^verbatim>\<open>assign\<close>: a value of another type is not assigned.\<close>

fun assign :: "jvalue \<Rightarrow> jvalue \<Rightarrow> jvalue" where
  "assign (JStr _) (JStr u) = JStr u"
| "assign (JInt _) (JInt u) = JInt u"
| "assign t _ = t"

text \<open>
  The loop of \<^verbatim>\<open>get\<close> over the members, with \<^verbatim>\<open>val\<close> and \<^verbatim>\<open>has_key\<close>, and that of \<^verbatim>\<open>set\<close>.  The type asked for
  is given by its \<^verbatim>\<open>T{}\<close>.  A value that is neither a \<^verbatim>\<open>std::string\<close> nor an \<^verbatim>\<open>int\<close> is \<^term>\<open>None\<close> in \<^verbatim>\<open>set\<close>.
\<close>

definition get_loop :: "string \<Rightarrow> jvalue \<Rightarrow> jstruct \<Rightarrow> jvalue \<times> bool" where
  "get_loop key val ms =
     foldl (\<lambda>(val, has_key) (name, field). if key = name then (assign val field, True) else (val, has_key))
       (val, False) ms"

definition get :: "jvalue \<Rightarrow> string \<Rightarrow> file_system \<Rightarrow> string \<Rightarrow> jvalue result" where
  "get dflt key fs path =
     rbind (from_file fs path empty_cfg) (\<lambda>r.
       case r of
         None \<Rightarrow> Inr dflt
       | Some cfg \<Rightarrow>
           (let (val, has_key) = get_loop key dflt (cfg_members cfg)
            in Inr (if \<not> has_key then dflt else val)))"

fun set_loop :: "string \<Rightarrow> jvalue option \<Rightarrow> jstruct \<Rightarrow> jstruct \<times> bool" where
  "set_loop key val [] = ([], False)"
| "set_loop key val ((name, field) # ms) =
     (let (ms, has_key) = set_loop key val ms
      in if key = name then ((name, case val of Some u \<Rightarrow> assign field u | None \<Rightarrow> field) # ms, True)
         else ((name, field) # ms, has_key))"

definition set_value :: "string \<Rightarrow> jvalue option \<Rightarrow> file_system \<Rightarrow> string \<Rightarrow> (bool \<times> file_system) result" where
  "set_value key val fs path =
     rbind (from_file fs path empty_cfg) (\<lambda>r.
       case r of
         None \<Rightarrow> Inr (False, fs)
       | Some cfg \<Rightarrow>
           (let (ms, has_key) = set_loop key val (cfg_members cfg)
            in if \<not> has_key then Inr (False, fs) else to_file fs path (cfg_of_members ms)))"

section \<open>A store of settings\<close>

text \<open>What a client of the manager relies on: an accepted value is found again, and no other key changes.\<close>

locale config_store =
  fixes ok :: "'s \<Rightarrow> bool" and valid :: "'k \<Rightarrow> 'v \<Rightarrow> bool"
    and store :: "'k \<Rightarrow> 'v \<Rightarrow> 's \<Rightarrow> 's" and lookup :: "'k \<Rightarrow> 's \<Rightarrow> 'v"
  assumes store_ok: "ok s \<Longrightarrow> valid k v \<Longrightarrow> ok (store k v s)"
    and lookup_same: "ok s \<Longrightarrow> valid k v \<Longrightarrow> lookup k (store k v s) = v"
    and lookup_other: "ok s \<Longrightarrow> valid k v \<Longrightarrow> l \<noteq> k \<Longrightarrow> lookup l (store k v s) = lookup l s"
begin

lemma stores_ok:
  "ok s \<Longrightarrow> \<forall>(k, v) \<in> set kvs. valid k v \<Longrightarrow> ok (foldl (\<lambda>s (k, v). store k v s) s kvs)"
  by (induction kvs arbitrary: s) (auto intro: store_ok)

lemma last_store_wins:
  "ok s \<Longrightarrow> \<forall>(k, v) \<in> set kvs. valid k v \<Longrightarrow>
    lookup l (foldl (\<lambda>s (k, v). store k v s) s kvs) =
    (case map_of (rev kvs) l of Some v \<Rightarrow> v | None \<Rightarrow> lookup l s)"
proof (induction kvs rule: rev_induct)
  case (snoc x kvs)
  obtain k v where x: "x = (k, v)" by (cases x)
  have "ok (foldl (\<lambda>s (k, v). store k v s) s kvs)" using snoc.prems by (auto intro: stores_ok)
  then show ?case using snoc by (auto simp: x lookup_same lookup_other)
qed simp

end

section \<open>The manager is one\<close>

definition safe_cfg :: "ormpp_cfg \<Rightarrow> bool" where
  "safe_cfg c \<longleftrightarrow> (\<forall>(n, v) \<in> set (cfg_members c). json_safe v)"

text \<open>A file that opens both ways and holds a configuration whose values the JSON text keeps.\<close>

definition config_ok :: "string \<Rightarrow> file_system \<Rightarrow> bool" where
  "config_ok path fs \<longleftrightarrow> opens_in fs path \<and> opens_out fs path \<and>
     (\<exists>c. from_file fs path empty_cfg = Inr (Some c) \<and> safe_cfg c)"

definition valid_setting :: "string \<Rightarrow> jvalue \<Rightarrow> bool" where
  "valid_setting k v \<longleftrightarrow> json_safe v \<and> (\<exists>d. map_of (cfg_members empty_cfg) k = Some d \<and> same_kind d v)"

lemma members_written_read:
  assumes "safe_cfg c"
  obtains ss where "to_json (cfg_members c) = Inr ss"
    "\<And>d. from_json (cfg_members d) ss = Inr (cfg_members c, [])"
proof -
  obtain ss where ss: "to_json (cfg_members c) = Inr ss"
    using to_json_total assms unfolding safe_cfg_def by blast
  have "from_json (cfg_members d) (ss @ []) = Inr (cfg_members c, [])" for d
    by (rule written_struct_read [OF ss])
      (use assms in \<open>auto simp: safe_cfg_def cfg_members_def plain_name_def quote_def backslash_c_def\<close>)
  then show thesis using that ss by simp
qed

lemma get_loop_unknown:
  "key \<notin> fst ` set ms \<Longrightarrow>
    foldl (\<lambda>(val, has_key) (name, field). if key = name then (assign val field, True) else (val, has_key)) st ms = st"
  by (induction ms arbitrary: st) auto

lemma get_loop_lookup:
  "distinct (map fst ms) \<Longrightarrow>
    get_loop key d ms = (case map_of ms key of None \<Rightarrow> (d, False) | Some f \<Rightarrow> (assign d f, True))"
  unfolding get_loop_def by (induction ms) (auto simp: get_loop_unknown split: prod.split)

lemma set_loop_lookup:
  "distinct (map fst ms) \<Longrightarrow>
    set_loop key val ms =
    (case map_of ms key of None \<Rightarrow> (ms, False)
     | Some f \<Rightarrow> (set_member ms key (case val of Some u \<Rightarrow> assign f u | None \<Rightarrow> f), True))"
proof (induction ms)
  case (Cons x ms)
  obtain a b where x: "x = (a, b)" by (cases x)
  have "a \<notin> fst ` set ms \<Longrightarrow> set_member ms a u = ms" for u
    unfolding set_member_def by (rule map_idI) force
  then show ?case using Cons by (auto simp: x set_member_def split: option.split)
qed (simp add: set_member_def)

lemma distinct_members [simp]: "distinct (map fst (cfg_members c))"
  by (simp add: cfg_members_def)

lemma get_value:
  assumes "from_file fs path empty_cfg = Inr (Some c)"
  shows "get d key fs path = Inr (case map_of (cfg_members c) key of None \<Rightarrow> d | Some f \<Rightarrow> assign d f)"
  using assms by (simp add: get_def get_loop_lookup split: option.split)

lemma assign_kind [simp]: "same_kind f u \<Longrightarrow> assign f u = u"
  by (cases f; cases u) simp_all

lemma members_of_update:
  assumes "map_of (cfg_members empty_cfg) k = Some d" "same_kind d v"
  shows "cfg_members (cfg_of_members (set_member (cfg_members c) k v)) = set_member (cfg_members c) k v"
  using assms by (cases v) (auto simp: cfg_members_def empty_cfg_def cfg_of_members_def set_member_def split: if_splits)

lemma set_member_safe:
  assumes "safe_cfg c" "json_safe v" "cfg_members c' = set_member (cfg_members c) k v"
  shows "safe_cfg c'"
  using assms by (auto simp: safe_cfg_def set_member_def split: if_splits)

lemma set_value_valid:
  assumes "from_file fs path empty_cfg = Inr (Some c)" "safe_cfg c" "opens_out fs path" "valid_setting k v"
  obtains ss c' where "set_value k (Some v) fs path = Inr (True, fs\<lparr>contents := (contents fs)(path \<mapsto> ss)\<rparr>)"
    "cfg_members c' = set_member (cfg_members c) k v" "safe_cfg c'" "\<And>d. from_json (cfg_members d) ss = Inr (cfg_members c', [])"
proof -
  obtain d where d: "map_of (cfg_members empty_cfg) k = Some d" "same_kind d v" and v: "json_safe v"
    using assms(4) by (auto simp: valid_setting_def)
  then obtain f where f: "map_of (cfg_members c) k = Some f" "same_kind f v"
    by (cases v) (auto simp: cfg_members_def empty_cfg_def split: if_splits)
  define c' where "c' = cfg_of_members (set_member (cfg_members c) k v)"
  have m: "cfg_members c' = set_member (cfg_members c) k v"
    unfolding c'_def by (rule members_of_update [OF d])
  have safe: "safe_cfg c'" using set_member_safe [OF assms(2) v m] .
  obtain ss where ss: "to_json (cfg_members c') = Inr ss" "\<And>d. from_json (cfg_members d) ss = Inr (cfg_members c', [])"
    using members_written_read [OF safe] by blast
  have "set_value k (Some v) fs path = to_file fs path c'"
    using assms(1) f by (simp add: set_value_def set_loop_lookup c'_def)
  then show thesis using that [of ss c'] m safe ss assms(3) by (simp add: to_file_def)
qed

lemma from_file_rewritten:
  assumes "opens_in fs path" "from_json (cfg_members empty_cfg) ss = Inr (cfg_members c', [])"
  shows "from_file (fs\<lparr>contents := (contents fs)(path \<mapsto> ss)\<rparr>) path empty_cfg = Inr (Some c')"
  using assms by (simp add: from_file_def)

text \<open>The states and operations of the contract: the value is asked for with the type of the member.\<close>

definition store_in :: "string \<Rightarrow> string \<Rightarrow> jvalue \<Rightarrow> file_system \<Rightarrow> file_system" where
  "store_in path k v fs = snd (projr (set_value k (Some v) fs path))"

definition lookup_in :: "string \<Rightarrow> string \<Rightarrow> file_system \<Rightarrow> jvalue result" where
  "lookup_in path k fs = get (the (map_of (cfg_members empty_cfg) k)) k fs path"

lemma store_in_valid:
  assumes "config_ok path fs" "valid_setting k v"
  shows "set_value k (Some v) fs path = Inr (True, store_in path k v fs)"
    and "config_ok path (store_in path k v fs)"
    and "lookup_in path k (store_in path k v fs) = Inr v"
    and "l \<noteq> k \<Longrightarrow> lookup_in path l (store_in path k v fs) = lookup_in path l fs"
    and "q \<noteq> path \<Longrightarrow> contents (store_in path k v fs) q = contents fs q"
proof -
  obtain c where c: "from_file fs path empty_cfg = Inr (Some c)" "safe_cfg c" "opens_in fs path" "opens_out fs path"
    using assms(1) by (auto simp: config_ok_def)
  obtain ss c' where s: "set_value k (Some v) fs path = Inr (True, fs\<lparr>contents := (contents fs)(path \<mapsto> ss)\<rparr>)"
    "cfg_members c' = set_member (cfg_members c) k v" "safe_cfg c'" "\<And>d. from_json (cfg_members d) ss = Inr (cfg_members c', [])"
    using set_value_valid [OF c(1,2,4) assms(2)] by blast
  show "set_value k (Some v) fs path = Inr (True, store_in path k v fs)" using s(1) by (simp add: store_in_def)
  have st: "store_in path k v fs = fs\<lparr>contents := (contents fs)(path \<mapsto> ss)\<rparr>" using s(1) by (simp add: store_in_def)
  have c': "from_file (store_in path k v fs) path empty_cfg = Inr (Some c')"
    unfolding st by (rule from_file_rewritten [OF c(3) s(4)])
  show "config_ok path (store_in path k v fs)" using c' c(3,4) s(3) by (auto simp: config_ok_def st)
  obtain d where d: "map_of (cfg_members empty_cfg) k = Some d" "same_kind d v"
    using assms(2) by (auto simp: valid_setting_def)
  have "k \<in> fst ` set (cfg_members c)" using d(1) by (auto simp: cfg_members_def split: if_splits)
  then show "lookup_in path k (store_in path k v fs) = Inr v"
    using d by (simp add: lookup_in_def get_value [OF c'] s(2) map_of_set_member)
  show "lookup_in path l (store_in path k v fs) = lookup_in path l fs" if "l \<noteq> k"
    using that by (simp add: lookup_in_def get_value [OF c'] get_value [OF c(1)] s(2) map_of_set_member)
  show "contents (store_in path k v fs) q = contents fs q" if "q \<noteq> path" using that by (simp add: st)
qed

interpretation settings: config_store "config_ok path" valid_setting "store_in path"
  "\<lambda>k fs. case lookup_in path k fs of Inr v \<Rightarrow> v | Inl e \<Rightarrow> JInt 0" for path
  by unfold_locales (simp_all add: store_in_valid)

section \<open>Sequences of settings\<close>

text \<open>A client that sets one value after the other, and whether every call said that it had.\<close>

fun run_sets :: "(string \<times> jvalue) list \<Rightarrow> string \<Rightarrow> file_system \<Rightarrow> (bool \<times> file_system) result" where
  "run_sets [] path fs = Inr (True, fs)"
| "run_sets ((k, v) # kvs) path fs =
     rbind (set_value k (Some v) fs path) (\<lambda>(b, fs).
       map_sum id (\<lambda>(bs, fs). (b \<and> bs, fs)) (run_sets kvs path fs))"

lemma run_sets_stores:
  "config_ok path fs \<Longrightarrow> \<forall>(k, v) \<in> set kvs. valid_setting k v \<Longrightarrow>
    run_sets kvs path fs = Inr (True, foldl (\<lambda>fs (k, v). store_in path k v fs) fs kvs)"
  by (induction kvs arbitrary: fs) (auto simp: store_in_valid(1,2))

lemma lookup_in_ok:
  assumes "config_ok path fs"
  obtains v where "lookup_in path k fs = Inr v"
  using assms by (auto simp: config_ok_def lookup_in_def dest: get_value)

lemma other_files_kept:
  "config_ok path fs \<Longrightarrow> \<forall>(k, v) \<in> set kvs. valid_setting k v \<Longrightarrow> q \<noteq> path \<Longrightarrow>
    contents (foldl (\<lambda>fs (k, v). store_in path k v fs) fs kvs) q = contents fs q"
  by (induction kvs arbitrary: fs) (auto simp: store_in_valid(2,5))

lemma settings_kept:
  assumes "config_ok path fs" "\<forall>(k, v) \<in> set kvs. valid_setting k v"
  shows "lookup_in path l (foldl (\<lambda>fs (k, v). store_in path k v fs) fs kvs) =
    (case map_of (rev kvs) l of Some v \<Rightarrow> Inr v | None \<Rightarrow> lookup_in path l fs)"
proof -
  obtain u where u: "lookup_in path l (foldl (\<lambda>fs (k, v). store_in path k v fs) fs kvs) = Inr u"
    using settings.stores_ok [OF assms] lookup_in_ok by blast
  obtain w where w: "lookup_in path l fs = Inr w" using lookup_in_ok [OF assms(1)] .
  show ?thesis using settings.last_store_wins [OF assms, of l] u w by (auto split: option.splits)
qed

text \<open>C28: On a configuration file in order, a sequence of sets with values of the members' types, texts in UTF-8 up to U+FFFF and 32-bit integers, succeeds call by call and leaves the file in order; every get afterwards returns the last value set for its key, or the old one where the key was not set, and no other file has changed.\<close>

theorem config_sets_then_gets:
  assumes "config_ok path fs" "\<forall>(k, v) \<in> set kvs. valid_setting k v"
  shows "\<exists>fs'. run_sets kvs path fs = Inr (True, fs') \<and> config_ok path fs' \<and>
    (\<forall>key d. map_of (cfg_members empty_cfg) key = Some d \<longrightarrow>
      get d key fs' path = (case map_of (rev kvs) key of Some v \<Rightarrow> Inr v | None \<Rightarrow> get d key fs path)) \<and>
    (\<forall>q. q \<noteq> path \<longrightarrow> contents fs' q = contents fs q)"
proof (intro exI conjI allI impI)
  let ?fs = "foldl (\<lambda>fs (k, v). store_in path k v fs) fs kvs"
  show "run_sets kvs path fs = Inr (True, ?fs)" by (rule run_sets_stores [OF assms])
  show "config_ok path ?fs" by (rule settings.stores_ok [OF assms])
  show "get d key ?fs path = (case map_of (rev kvs) key of Some v \<Rightarrow> Inr v | None \<Rightarrow> get d key fs path)"
    if "map_of (cfg_members empty_cfg) key = Some d" for key d
    using settings_kept [OF assms, of key] that by (simp only: lookup_in_def option.sel)
  show "contents ?fs q = contents fs q" if "q \<noteq> path" for q
    by (rule other_files_kept [OF assms that])
qed

lemma written_config_ok:
  assumes "safe_cfg c" "opens_in fs path" "opens_out fs path"
    "contents fs path = Some (projr (to_json (cfg_members c)))"
  shows "config_ok path fs"
proof -
  obtain ss where "to_json (cfg_members c) = Inr ss" "\<And>d. from_json (cfg_members d) ss = Inr (cfg_members c, [])"
    using members_written_read [OF assms(1)] by blast
  then show ?thesis using assms by (simp add: config_ok_def from_file_def)
qed

theorem config_sets_then_gets_witness:
  "\<exists>fs'. run_sets [(''db_port'', JInt 3306), (''db_port'', JInt 0)] ''c''
      \<lparr>contents = [''c'' \<mapsto> projr (to_json (cfg_members empty_cfg))], opens_in = (\<lambda>_. True), opens_out = (\<lambda>_. True)\<rparr>
    = Inr (True, fs') \<and> get (JInt 0) ''db_port'' fs' ''c'' = Inr (JInt 0)"
proof -
  let ?fs = "\<lparr>contents = [''c'' \<mapsto> projr (to_json (cfg_members empty_cfg))], opens_in = (\<lambda>_. True), opens_out = (\<lambda>_. True)\<rparr>"
  have "safe_cfg empty_cfg"
    by (auto simp: safe_cfg_def cfg_members_def empty_cfg_def basic_text_def intro: exI [of _ "[]"])
  then have "config_ok ''c'' ?fs" by (rule written_config_ok) simp_all
  moreover have "\<forall>(k, v) \<in> set [(''db_port'', JInt 3306), (''db_port'', JInt 0)]. valid_setting k v"
    by (simp add: valid_setting_def cfg_members_def empty_cfg_def)
  moreover have "map_of (cfg_members empty_cfg) ''db_port'' = Some (JInt 0)"
    by (simp add: cfg_members_def empty_cfg_def)
  ultimately show ?thesis
    using config_sets_then_gets [of "''c''" ?fs "[(''db_port'', JInt 3306), (''db_port'', JInt 0)]"]
    by (fastforce dest!: spec [of _ "''db_port''"])
qed

section \<open>What the manager refuses or ignores\<close>

text \<open>Keys that are no members, as those of the comment in the code: get gives \<^verbatim>\<open>T{}\<close>, set gives false and writes nothing.\<close>

lemma unknown_key:
  assumes "from_file fs path empty_cfg = Inr (Some c)" "map_of (cfg_members empty_cfg) key = None"
  shows "get d key fs path = Inr d" "set_value key val fs path = Inr (False, fs)"
proof -
  have "map_of (cfg_members c) key = None"
    using assms(2) by (auto simp: cfg_members_def empty_cfg_def split: if_splits)
  then show "get d key fs path = Inr d" "set_value key val fs path = Inr (False, fs)"
    using assms(1) by (simp_all add: get_value set_value_def set_loop_lookup)
qed

text \<open>A value of another type, a string literal for instance, is not stored, and set returns true.\<close>

lemma set_other_type:
  assumes "config_ok path fs" "map_of (cfg_members empty_cfg) key = Some d"
  shows "\<exists>fs'. set_value key None fs path = Inr (True, fs') \<and> lookup_in path key fs' = lookup_in path key fs"
proof -
  obtain c where c: "from_file fs path empty_cfg = Inr (Some c)" "safe_cfg c" "opens_in fs path" "opens_out fs path"
    using assms(1) by (auto simp: config_ok_def)
  obtain f where f: "map_of (cfg_members c) key = Some f"
    using assms(2) by (auto simp: cfg_members_def empty_cfg_def split: if_splits)
  obtain ss where ss: "to_json (cfg_members c) = Inr ss" "\<And>d. from_json (cfg_members d) ss = Inr (cfg_members c, [])"
    using members_written_read [OF c(2)] by blast
  have "set_member (cfg_members c) key f = cfg_members c"
    using f by (auto simp: set_member_def cfg_members_def split: if_splits)
  then have "set_value key None fs path = Inr (True, fs\<lparr>contents := (contents fs)(path \<mapsto> ss)\<rparr>)"
    using c(1,4) f ss(1) by (simp add: set_value_def set_loop_lookup to_file_def)
  moreover have "from_file (fs\<lparr>contents := (contents fs)(path \<mapsto> ss)\<rparr>) path empty_cfg = Inr (Some c)"
    by (rule from_file_rewritten [OF c(3) ss(2)])
  ultimately show ?thesis using c(1) by (simp add: lookup_in_def get_value)
qed

end
