(* ===== verification/Iguana_Json_Types.thy ===== *)
theory Iguana_Json_Types
  imports Iguana_Json
begin

text \<open>
  JSON text of a value of any C++ type that iguana knows, \<^verbatim>\<open>iguana/json_writer.hpp\<close>.  The overloads of \<^verbatim>\<open>to_json_impl\<close>
  are selected by the type, which is an argument here.  Printing and parsing of floating-point numbers, and the
  members of the structs, are parameters: the record \<^verbatim>\<open>json_env\<close>.
\<close>

section \<open>Types and values\<close>

text \<open>
  Integers carry their size in bytes and their sign.  An enum has the names of its values when \<^verbatim>\<open>enum_value\<close> is
  specialized for it, and is its underlying integer otherwise.  \<^verbatim>\<open>J_chars\<close> is an array of \<^verbatim>\<open>char\<close>, \<^verbatim>\<open>J_ptr\<close> a smart
  pointer, \<^verbatim>\<open>J_map\<close> a map from strings.
\<close>

datatype json_type =
    J_bool
  | J_char
  | J_int nat bool
  | J_double
  | J_numeric_str
  | J_string
  | J_view
  | J_enum "(string \<times> int) list option" nat bool
  | J_chars nat
  | J_array nat json_type
  | J_sequence json_type
  | J_map json_type
  | J_tuple "json_type list"
  | J_optional json_type
  | J_ptr json_type
  | J_variant "json_type list"
  | J_struct string

datatype 'd json_value =
    JV_bool bool
  | JV_char char
  | JV_int int
  | JV_double 'd
  | JV_text string
  | JV_list "'d json_value list"
  | JV_map "(string \<times> 'd json_value) list"
  | JV_pointer "'d json_value option"
  | JV_variant nat "'d json_value"
  | JV_struct "'d json_value list"

text \<open>The members of a struct with their types, and the values of an object that was just constructed.\<close>

record 'd json_env =
  struct_members :: "string \<Rightarrow> (string \<times> json_type) list"
  constructed :: "string \<Rightarrow> 'd json_value list"
  zero_double :: 'd
  print_double :: "'d \<Rightarrow> string"
  scan_double :: "string \<Rightarrow> ('d \<times> string) option"

section \<open>Writing\<close>

text \<open>\<^verbatim>\<open>detail::to_chars\<close>: the printer for the size; one byte is printed as an \<^verbatim>\<open>int\<close>.\<close>

definition to_chars :: "nat \<Rightarrow> bool \<Rightarrow> int \<Rightarrow> string" where
  "to_chars bytes sg i =
     (if bytes \<ge> 8 then xtoa (word_of_int i) sg
      else if bytes = 4 then (if sg then itoa_fwd4 (word_of_int i) else itoa4 (word_of_int i))
      else if bytes = 2 then (if sg then itoa_fwd2 (word_of_int i) else itoa2 (word_of_int i))
      else itoa_fwd4 (word_of_int i))"

fun join :: "char \<Rightarrow> string list \<Rightarrow> string" where
  "join delim [] = []"
| "join delim [w] = w"
| "join delim (w # ws) = w @ delim # join delim ws"

definition string_json :: "bool \<Rightarrow> string \<Rightarrow> string result" where
  "string_json escape t =
     (if escape then map_sum id (\<lambda>w. quote # w @ [quote]) (write_string_with_escape t)
      else Inr (quote # t @ [quote]))"

definition enum_json :: "bool \<Rightarrow> (string \<times> int) list option \<Rightarrow> nat \<Rightarrow> bool \<Rightarrow> int \<Rightarrow> string result" where
  "enum_json escape enum_to_str bytes sg val =
     (case enum_to_str of
        None \<Rightarrow> Inr (to_chars bytes sg val)
      | Some names \<Rightarrow>
          (case List.find (\<lambda>(name, v). v = val) names of
             Some (name, _) \<Rightarrow> string_json escape name
           | None \<Rightarrow> Inl (Runtime_error (int_str val @ '' is a missing value in enum_value''))))"

text \<open>The characters up to the first NUL, as they are.\<close>

definition chars_json :: "string \<Rightarrow> string" where
  "chars_json t = quote # takeWhile (\<lambda>c. c \<noteq> CHR 0x00) t @ [quote]"

text \<open>
  \<^verbatim>\<open>escape\<close> is \<^verbatim>\<open>Is_writing_escape\<close>; the overload for structs calls \<^verbatim>\<open>to_json\<close> without it, so that the default \<^verbatim>\<open>true\<close> holds
  inside.
\<close>

function (sequential) to_json_any :: "'d json_env \<Rightarrow> bool \<Rightarrow> json_type \<Rightarrow> 'd json_value \<Rightarrow> string result"
  and to_json_items :: "'d json_env \<Rightarrow> bool \<Rightarrow> json_type list \<Rightarrow> 'd json_value list \<Rightarrow> string list result"
  and to_json_pairs :: "'d json_env \<Rightarrow> bool \<Rightarrow> json_type \<Rightarrow> (string \<times> 'd json_value) list \<Rightarrow> string list result"
  and to_json_fields :: "'d json_env \<Rightarrow> bool \<Rightarrow> (string \<times> json_type) list \<Rightarrow> 'd json_value list \<Rightarrow> string list result"
where
  "to_json_any E escape ty (JV_bool b) = Inr (if b then ''true'' else ''false'')"
| "to_json_any E escape ty (JV_char c) = Inr [quote, c, quote]"
| "to_json_any E escape ty (JV_int i) =
     (case ty of
        J_int bytes sg \<Rightarrow> Inr (to_chars bytes sg i)
      | J_enum names bytes sg \<Rightarrow> enum_json escape names bytes sg i
      | _ \<Rightarrow> Inr [])"
| "to_json_any E escape ty (JV_double d) = Inr (print_double E d)"
| "to_json_any E escape ty (JV_text t) =
     (case ty of
        J_numeric_str \<Rightarrow> Inr t
      | J_chars n \<Rightarrow> Inr (chars_json t)
      | _ \<Rightarrow> string_json escape t)"
| "to_json_any E escape ty (JV_list vs) =
     (case ty of
        J_array n t \<Rightarrow> rbind (to_json_items E escape (replicate (length vs) t) vs) (\<lambda>ws. Inr (''['' @ join CHR '','' ws @ '']''))
      | J_sequence t \<Rightarrow> rbind (to_json_items E escape (replicate (length vs) t) vs) (\<lambda>ws. Inr (''['' @ join CHR '','' ws @ '']''))
      | J_tuple ts \<Rightarrow> rbind (to_json_items E escape ts vs) (\<lambda>ws. Inr (''['' @ join CHR '','' ws @ '']''))
      | _ \<Rightarrow> Inr [])"
| "to_json_any E escape ty (JV_map kvs) =
     (case ty of
        J_map t \<Rightarrow> rbind (to_json_pairs E escape t kvs) (\<lambda>ws. Inr (''{'' @ join CHR '','' ws @ ''}''))
      | _ \<Rightarrow> Inr [])"
| "to_json_any E escape ty (JV_pointer None) = Inr ''null''"
| "to_json_any E escape ty (JV_pointer (Some v)) =
     (case ty of
        J_optional t \<Rightarrow> to_json_any E escape t v
      | J_ptr t \<Rightarrow> to_json_any E escape t v
      | _ \<Rightarrow> Inr [])"
| "to_json_any E escape ty (JV_variant i v) =
     (case ty of J_variant ts \<Rightarrow> to_json_any E escape (ts ! i) v | _ \<Rightarrow> Inr [])"
| "to_json_any E escape ty (JV_struct vs) =
     (case ty of
        J_struct m \<Rightarrow> rbind (to_json_fields E True (struct_members E m) vs) (\<lambda>ws. Inr (''{'' @ join CHR '','' ws @ ''}''))
      | _ \<Rightarrow> Inr [])"
| "to_json_items E escape (t # ts) (v # vs) =
     rbind (to_json_any E escape t v) (\<lambda>w. rbind (to_json_items E escape ts vs) (\<lambda>ws. Inr (w # ws)))"
| "to_json_items E escape _ _ = Inr []"
| "to_json_pairs E escape t [] = Inr []"
| "to_json_pairs E escape t (kv # kvs) =
     (case kv of (k, v) \<Rightarrow>
        rbind (string_json escape k) (\<lambda>key. rbind (to_json_any E escape t v) (\<lambda>w.
          rbind (to_json_pairs E escape t kvs) (\<lambda>ws. Inr ((key @ '':'' @ w) # ws)))))"
| "to_json_fields E escape ((name, t) # ms) (v # vs) =
     rbind (to_json_any E escape t v) (\<lambda>w.
       rbind (to_json_fields E escape ms vs) (\<lambda>ws. Inr ((write_json_key name @ '':'' @ w) # ws)))"
| "to_json_fields E escape _ _ = Inr []"
  by pat_completeness auto
termination
  by (relation "measure (\<lambda>x. case x of
      Inl (Inl (_, _, _, v)) \<Rightarrow> size_json_value (\<lambda>_. 0) v
    | Inl (Inr (_, _, _, vs)) \<Rightarrow> size_list (size_json_value (\<lambda>_. 0)) vs
    | Inr (Inl (_, _, _, kvs)) \<Rightarrow> size_list (size_prod (\<lambda>_. 0) (size_json_value (\<lambda>_. 0))) kvs
    | Inr (Inr (_, _, _, vs)) \<Rightarrow> size_list (size_json_value (\<lambda>_. 0)) vs)") auto

text \<open>\<^verbatim>\<open>to_json\<close> of a struct passes the flag to the members.\<close>

definition to_json_struct :: "'d json_env \<Rightarrow> bool \<Rightarrow> string \<Rightarrow> 'd json_value list \<Rightarrow> string result" where
  "to_json_struct E escape m vs =
     rbind (to_json_fields E escape (struct_members E m) vs) (\<lambda>ws. Inr (''{'' @ join CHR '','' ws @ ''}''))"

end
