(* ===== verification/Iguana_Json_Reader.thy ===== *)
theory Iguana_Json_Reader
  imports Iguana_Json_Types
begin

text \<open>
  Reading JSON text into a value of any C++ type that iguana knows, \<^verbatim>\<open>iguana/json_reader.hpp\<close>.  A reader takes the
  value there was, which it may keep (\<^verbatim>\<open>null\<close>, members that are absent), and gives the new value and the text that
  is left.  The loops run for any reader of an item and go on only when text was consumed, which the last theorem
  proves they always do, so that \<^verbatim>\<open>stuck\<close> is never the result.
\<close>

type_synonym 'v json_reader = "'v \<Rightarrow> string \<Rightarrow> ('v \<times> string) result"

definition stuck :: exn where
  "stuck = Runtime_error ''''"

section \<open>Single values\<close>

text \<open>\<^verbatim>\<open>std::from_chars\<close>: decimal digits, with a minus sign only for a signed type, in the range of the type.\<close>

definition in_int_range :: "nat \<Rightarrow> bool \<Rightarrow> int \<Rightarrow> bool" where
  "in_int_range bytes sg v \<longleftrightarrow>
     (if sg then - (2 ^ (8 * bytes - 1)) \<le> v \<and> v < 2 ^ (8 * bytes - 1) else 0 \<le> v \<and> v < 2 ^ (8 * bytes))"

definition from_chars :: "nat \<Rightarrow> bool \<Rightarrow> string \<Rightarrow> (int \<times> string) option" where
  "from_chars bytes sg s =
     (let neg = (sg \<and> s \<noteq> [] \<and> hd s = CHR ''-''); u = (if neg then tl s else s);
          ds = takeWhile isdigit_c u; v = (if neg then - int (parse_digits ds) else int (parse_digits ds))
      in if ds = [] \<or> \<not> in_int_range bytes sg v then None else Some (v, drop (length ds) u))"

definition read_number :: "(string \<Rightarrow> ('n \<times> string) option) \<Rightarrow> ('n \<Rightarrow> 'v) \<Rightarrow> 'v json_reader" where
  "read_number scan mk old s =
     rbind (skip_ws s) (\<lambda>s.
       if s \<noteq> [] \<and> hd s = CHR ''n''
       then rbind (match_chars ''ull'' (tl s)) (\<lambda>r. Inr (old, r))
       else if s = [] then Inl number_error
       else (case scan s of
               None \<Rightarrow> Inl number_error
             | Some (v, r) \<Rightarrow> if can_follow_number (peek r) then Inr (mk v, r) else Inl number_error))"

definition is_numeric :: "char \<Rightarrow> bool" where
  "is_numeric c \<longleftrightarrow> isdigit_c c \<or> c \<in> {CHR ''+'', CHR ''-'', CHR ''.'', CHR ''E'', CHR ''e''}"

definition read_numeric_str :: "string \<Rightarrow> (string \<times> string) result" where
  "read_numeric_str s =
     rbind (skip_ws s) (\<lambda>s. Inr (takeWhile is_numeric s, dropWhile is_numeric s))"

definition end_of_buffer :: exn where
  "end_of_buffer = Runtime_error ''Unxpected end of buffer''"

text \<open>A character without the quotes around it.\<close>

definition read_char_body :: "string \<Rightarrow> (char \<times> string) result" where
  "read_char_body s =
     (case s of
        [] \<Rightarrow> Inl end_of_buffer
      | c # r \<Rightarrow>
          if c = backslash_c
          then (case r of
                  [] \<Rightarrow> Inl end_of_buffer
                | d # r \<Rightarrow> Inr (if d = CHR ''n'' then CHR 0x0A else if d = CHR ''t'' then CHR 0x09
                    else if d = CHR ''r'' then CHR 0x0D else if d = CHR ''b'' then CHR 0x08
                    else if d = CHR ''f'' then CHR 0x0C else d, r))
          else Inr (c, r))"

definition read_char :: "string \<Rightarrow> (char \<times> string) result" where
  "read_char s =
     rbind (skip_ws s) (\<lambda>s. rbind (match_chars [quote] s) (\<lambda>s.
       rbind (read_char_body s) (\<lambda>(c, s). rbind (match_chars [quote] s) (\<lambda>s. Inr (c, s)))))"

definition bool_error :: exn where
  "bool_error = Runtime_error ''Expected true or false''"

definition read_bool :: "'d json_value json_reader" where
  "read_bool old s =
     rbind (skip_ws s) (\<lambda>s.
       case s of
         [] \<Rightarrow> Inl bool_error
       | c # r \<Rightarrow>
           if c = CHR ''t'' then rbind (match_chars ''rue'' r) (\<lambda>r. Inr (JV_bool True, r))
           else if c = CHR ''f'' then rbind (match_chars ''alse'' r) (\<lambda>r. Inr (JV_bool False, r))
           else if c = CHR ''n'' then rbind (match_chars ''ull'' r) (\<lambda>r. Inr (old, r))
           else Inl bool_error)"

text \<open>
  A view ends at the first quote that does not stand behind a backslash.  \<^verbatim>\<open>acc\<close> is the text of the view so far; before
  the first character there is the opening quote.
\<close>

function view_loop :: "string \<Rightarrow> string \<Rightarrow> (string \<times> string) result" where
  "view_loop acc s =
     (if s = [] then Inl (Runtime_error ''Expected \"'')
      else case skip_till_qoute s of
        Inl e \<Rightarrow> Inl e
      | Inr r \<Rightarrow>
          let acc' = acc @ take (length s - length r) s
          in if acc' = [] \<or> last acc' \<noteq> backslash_c then Inr (acc', tl r)
             else if length (tl r) < length s then view_loop (acc' @ [quote]) (tl r) else Inl stuck)"
  by pat_completeness auto
termination by (relation "measure (\<lambda>(_, s). length s)") auto

declare view_loop.simps [simp del]

definition read_view :: "string \<Rightarrow> (string \<times> string) result" where
  "read_view s = rbind (skip_ws s) (\<lambda>s. rbind (match_chars [quote] s) (view_loop []))"

definition read_enum :: "(string \<times> int) list option \<Rightarrow> nat \<Rightarrow> bool \<Rightarrow> 'd json_value json_reader" where
  "read_enum str_to_enum bytes sg old s =
     (case str_to_enum of
        None \<Rightarrow> read_number (from_chars bytes sg) JV_int old s
      | Some names \<Rightarrow> rbind (read_view s) (\<lambda>(name, r).
          case map_of names name of
            Some v \<Rightarrow> Inr (JV_int v, r)
          | None \<Rightarrow> Inl (Runtime_error (name @ '' missing corresponding value in enum_value''))))"

section \<open>Arrays\<close>

definition unexpected_end :: exn where
  "unexpected_end = Runtime_error ''Unexpected end''"

definition expected_bracket :: exn where
  "expected_bracket = Runtime_error ''Expected ]''"

text \<open>
  The elements of a fixed array.  The loop ends at the closing bracket, or when every element was read: what follows
  then is left, the bracket or a comma and more.
\<close>

fun array_loop :: "'v json_reader \<Rightarrow> 'v list \<Rightarrow> string \<Rightarrow> ('v list \<times> string) result" where
  "array_loop read [] s = Inr ([], s)"
| "array_loop read (v # vs) s =
     rbind (read v s) (\<lambda>(v, s). rbind (skip_ws s) (\<lambda>s.
       if s = [] then Inl unexpected_end
       else if hd s = CHR '','' then rbind (skip_ws (tl s)) (\<lambda>s.
         rbind (array_loop read vs s) (\<lambda>(vs, s). Inr (v # vs, s)))
       else if hd s = CHR '']'' then Inr (v # vs, tl s)
       else Inl expected_bracket))"

definition read_array :: "'v json_reader \<Rightarrow> 'v list \<Rightarrow> string \<Rightarrow> ('v list \<times> string) result" where
  "read_array read vs s =
     rbind (match_chars ''['' s) (\<lambda>s. rbind (skip_ws s) (\<lambda>s.
       if s = [] then Inl unexpected_end
       else if hd s = CHR '']'' then Inr (vs, tl s)
       else array_loop read vs s))"

text \<open>The characters of a \<^verbatim>\<open>char\<close> array from a string; the elements behind its end keep their values.\<close>

fun chars_loop :: "string \<Rightarrow> string \<Rightarrow> (string \<times> string) result" where
  "chars_loop [] s = Inr ([], s)"
| "chars_loop (v # vs) s =
     (if peek s = quote then rbind (chars_loop vs s) (\<lambda>(vs, s). Inr (v # vs, s))
      else rbind (read_char_body s) (\<lambda>(c, s). rbind (chars_loop vs s) (\<lambda>(vs, s). Inr (c # vs, s))))"

text \<open>The loop does not move its target on when it stands at the quote, which it does not leave any more.\<close>

definition read_chars :: "string \<Rightarrow> string \<Rightarrow> (string \<times> string) result" where
  "read_chars old s =
     rbind (skip_ws s) (\<lambda>s.
       if peek s = quote
       then rbind (match_chars [quote] s) (\<lambda>s. rbind (chars_loop old s) (\<lambda>(t, s).
         rbind (match_chars [quote] s) (\<lambda>s. Inr (t, s))))
       else read_array (\<lambda>_. read_char) old s)"

text \<open>A sequence: an item may be read without consuming text only as the first one, behind every other is a comma.\<close>

function items_loop :: "'v json_reader \<Rightarrow> 'v \<Rightarrow> bool \<Rightarrow> 'v list \<Rightarrow> string \<Rightarrow> ('v list \<times> string) result" where
  "items_loop read new first val s =
     (if s = [] then Inl expected_bracket
      else if hd s = CHR '']'' then Inr (val, tl s)
      else rbind (if first then Inr s else match_chars '','' s) (\<lambda>u.
        rbind (read new u) (\<lambda>(item, r). rbind (skip_ws r) (\<lambda>r.
          if length r < length s \<or> first \<and> length r \<le> length s
          then items_loop read new False (val @ [item]) r else Inl stuck))))"
  by pat_completeness auto
termination by (relation "measure (\<lambda>(_, _, first, _, s). 2 * length s + (if first then 1 else 0))") auto

declare items_loop.simps [simp del]

definition read_sequence :: "'v json_reader \<Rightarrow> 'v \<Rightarrow> string \<Rightarrow> ('v list \<times> string) result" where
  "read_sequence read new s =
     rbind (skip_ws s) (\<lambda>s. rbind (match_chars ''['' s) (\<lambda>s. rbind (skip_ws s) (items_loop read new True [])))"

text \<open>The elements of a tuple: those behind the end of the array keep their values.\<close>

fun tuple_loop :: "'v json_reader list \<Rightarrow> bool \<Rightarrow> 'v list \<Rightarrow> string \<Rightarrow> ('v list \<times> string) result" where
  "tuple_loop (read # reads) first (v # vs) s =
     (if s = [] \<or> hd s = CHR '']'' then rbind (tuple_loop reads False vs s) (\<lambda>(vs, s). Inr (v # vs, s))
      else rbind (if first then Inr s else rbind (match_chars '','' s) skip_ws) (\<lambda>s.
        rbind (read v s) (\<lambda>(v, s). rbind (skip_ws s) (\<lambda>s.
          rbind (tuple_loop reads False vs s) (\<lambda>(vs, s). Inr (v # vs, s))))))"
| "tuple_loop _ first vs s = Inr (vs, s)"

definition read_tuple :: "'v json_reader list \<Rightarrow> 'v list \<Rightarrow> string \<Rightarrow> ('v list \<times> string) result" where
  "read_tuple reads vs s =
     rbind (skip_ws s) (\<lambda>s. rbind (match_chars ''['' s) (\<lambda>s. rbind (skip_ws s) (\<lambda>s.
       rbind (tuple_loop reads True vs s) (\<lambda>(vs, s). rbind (match_chars '']'' s) (\<lambda>s. Inr (vs, s))))))"

section \<open>Maps\<close>

text \<open>\<^verbatim>\<open>value[key]\<close>: the value of the key, a new one when it is absent.\<close>

fun map_assign :: "string \<Rightarrow> 'v \<Rightarrow> (string \<times> 'v) list \<Rightarrow> (string \<times> 'v) list" where
  "map_assign k v [] = [(k, v)]"
| "map_assign k v ((k', v') # kvs) = (if k = k' then (k, v) # kvs else (k', v') # map_assign k v kvs)"

text \<open>The loop ends at the end of the text as well as at the closing brace.\<close>

function map_loop :: "'v json_reader \<Rightarrow> 'v \<Rightarrow> bool \<Rightarrow> (string \<times> 'v) list \<Rightarrow> string
    \<Rightarrow> ((string \<times> 'v) list \<times> string) result" where
  "map_loop read new first val s =
     (if s = [] then Inr (val, s)
      else if hd s = CHR ''}'' then Inr (val, tl s)
      else rbind (if first then Inr s else match_chars '','' s) (\<lambda>u.
        rbind (get_key u) (\<lambda>(key, u). rbind (skip_ws u) (\<lambda>u. rbind (match_chars '':'' u) (\<lambda>u.
          rbind (read (case map_of val key of Some v \<Rightarrow> v | None \<Rightarrow> new) u) (\<lambda>(v, r). rbind (skip_ws r) (\<lambda>r.
            if length r < length s then map_loop read new False (map_assign key v val) r else Inl stuck)))))))"
  by pat_completeness auto
termination by (relation "measure (\<lambda>(_, _, _, _, s). length s)") auto

declare map_loop.simps [simp del]

definition read_map :: "'v json_reader \<Rightarrow> 'v \<Rightarrow> (string \<times> 'v) list \<Rightarrow> string \<Rightarrow> ((string \<times> 'v) list \<times> string) result" where
  "read_map read new val s =
     rbind (skip_ws s) (\<lambda>s. rbind (match_chars ''{'' s) (\<lambda>s. rbind (skip_ws s) (map_loop read new True val)))"

section \<open>Optional values, pointers and variants\<close>

definition unexpected_eof :: exn where
  "unexpected_eof = Runtime_error ''Unexexpected eof''"

text \<open>An optional: behind \<^verbatim>\<open>null\<close> a quote is skipped, and a string needs no opening quote.\<close>

definition read_optional :: "json_type \<Rightarrow> 'd json_value json_reader \<Rightarrow> 'd json_value \<Rightarrow> string
    \<Rightarrow> ('d json_value \<times> string) result" where
  "read_optional t read new s =
     rbind (skip_ws s) (\<lambda>s.
       if s = [] then Inl unexpected_eof
       else if hd s = CHR ''n''
       then rbind (match_chars ''ull'' (tl s)) (\<lambda>r.
         Inr (JV_pointer None, if r \<noteq> [] \<and> hd r = quote then tl r else r))
       else rbind
         (let u = (if hd s = quote then tl s else s)
          in case t of
               J_string \<Rightarrow> rbind (read_body [] u) (\<lambda>(t, r). Inr (JV_text t, r))
             | J_view \<Rightarrow> rbind (view_loop [] u) (\<lambda>(t, r). Inr (JV_text t, r))
             | _ \<Rightarrow> read new s)
         (\<lambda>(v, r). Inr (JV_pointer (Some v), r)))"

text \<open>A smart pointer keeps its value at \<^verbatim>\<open>null\<close>.\<close>

definition read_ptr :: "'d json_value json_reader \<Rightarrow> 'd json_value \<Rightarrow> 'd json_value json_reader" where
  "read_ptr read new old s =
     rbind (skip_ws s) (\<lambda>s.
       if s = [] then Inl unexpected_eof
       else if hd s = CHR ''n'' then rbind (match_chars ''ull'' (tl s)) (\<lambda>r. Inr (old, r))
       else rbind (read new s) (\<lambda>(v, r). Inr (JV_pointer (Some v), r)))"

text \<open>
  The alternatives of a variant are tried in their order, and the exceptions of those that fail are caught.  When all
  fail the variant keeps its value and no text is consumed.
\<close>

fun variant_loop :: "nat \<Rightarrow> ('d json_value json_reader \<times> 'd json_value) list \<Rightarrow> 'd json_value json_reader" where
  "variant_loop i [] old s = Inr (old, s)"
| "variant_loop i ((read, new) # alts) old s =
     (case read new s of
        Inr (v, r) \<Rightarrow> Inr (JV_variant i v, r)
      | Inl _ \<Rightarrow> variant_loop (Suc i) alts old s)"

section \<open>Values of any type\<close>

text \<open>An object of the type that was just constructed.\<close>

fun default_json :: "'d json_env \<Rightarrow> json_type \<Rightarrow> 'd json_value" where
  "default_json E J_bool = JV_bool False"
| "default_json E J_char = JV_char CHR 0x00"
| "default_json E (J_int _ _) = JV_int 0"
| "default_json E (J_enum _ _ _) = JV_int 0"
| "default_json E J_double = JV_double (zero_double E)"
| "default_json E J_numeric_str = JV_text []"
| "default_json E J_string = JV_text []"
| "default_json E J_view = JV_text []"
| "default_json E (J_chars n) = JV_text (replicate n CHR 0x00)"
| "default_json E (J_array n t) = JV_list (replicate n (default_json E t))"
| "default_json E (J_sequence t) = JV_list []"
| "default_json E (J_map t) = JV_map []"
| "default_json E (J_tuple ts) = JV_list (map (default_json E) ts)"
| "default_json E (J_optional t) = JV_pointer None"
| "default_json E (J_ptr t) = JV_pointer None"
| "default_json E (J_variant ts) = (case ts of [] \<Rightarrow> JV_list [] | t # _ \<Rightarrow> JV_variant 0 (default_json E t))"
| "default_json E (J_struct m) = JV_struct (constructed E m)"

fun text_of :: "'d json_value \<Rightarrow> string" where
  "text_of (JV_text t) = t"
| "text_of _ = []"

fun list_of :: "'d json_value \<Rightarrow> 'd json_value list" where
  "list_of (JV_list vs) = vs"
| "list_of _ = []"

fun pairs_of :: "'d json_value \<Rightarrow> (string \<times> 'd json_value) list" where
  "pairs_of (JV_map kvs) = kvs"
| "pairs_of _ = []"

fun members_of :: "'d json_value \<Rightarrow> 'd json_value list" where
  "members_of (JV_struct vs) = vs"
| "members_of _ = []"

definition fst_map :: "('a \<Rightarrow> 'b) \<Rightarrow> ('a \<times> string) result \<Rightarrow> ('b \<times> string) result" where
  "fst_map f r = rbind r (\<lambda>(v, s). Inr (f v, s))"

text \<open>\<^verbatim>\<open>from_json_impl\<close>; \<^verbatim>\<open>rd\<close> reads a struct.\<close>

primrec from_json_any :: "'d json_env \<Rightarrow> (string \<Rightarrow> 'd json_value json_reader) \<Rightarrow> json_type \<Rightarrow> 'd json_value json_reader" where
  "from_json_any E rd J_bool = read_bool"
| "from_json_any E rd J_char = (\<lambda>old s. fst_map JV_char (read_char s))"
| "from_json_any E rd (J_int bytes sg) = read_number (from_chars bytes sg) JV_int"
| "from_json_any E rd J_double = read_number (scan_double E) JV_double"
| "from_json_any E rd J_numeric_str = (\<lambda>old s. fst_map JV_text (read_numeric_str s))"
| "from_json_any E rd J_string = (\<lambda>old s. fst_map JV_text (read_string s))"
| "from_json_any E rd J_view = (\<lambda>old s. fst_map JV_text (read_view s))"
| "from_json_any E rd (J_enum names bytes sg) = read_enum names bytes sg"
| "from_json_any E rd (J_chars n) = (\<lambda>old s. fst_map JV_text (read_chars (text_of old) s))"
| "from_json_any E rd (J_array n t) = (\<lambda>old s.
     rbind (skip_ws s) (\<lambda>s. fst_map JV_list (read_array (from_json_any E rd t) (list_of old) s)))"
| "from_json_any E rd (J_sequence t) = (\<lambda>old s.
     fst_map JV_list (read_sequence (from_json_any E rd t) (default_json E t) s))"
| "from_json_any E rd (J_map t) = (\<lambda>old s.
     fst_map JV_map (read_map (from_json_any E rd t) (default_json E t) (pairs_of old) s))"
| "from_json_any E rd (J_tuple ts) = (\<lambda>old s.
     fst_map JV_list (read_tuple (map (from_json_any E rd) ts) (list_of old) s))"
| "from_json_any E rd (J_optional t) = (\<lambda>old.
     read_optional t (from_json_any E rd t) (default_json E t))"
| "from_json_any E rd (J_ptr t) = read_ptr (from_json_any E rd t) (default_json E t)"
| "from_json_any E rd (J_variant ts) =
     variant_loop 0 (zip (map (from_json_any E rd) ts) (map (default_json E) ts))"
| "from_json_any E rd (J_struct m) = rd m"

section \<open>Structs\<close>

fun find_member :: "string \<Rightarrow> (string \<times> json_type) list \<Rightarrow> (nat \<times> json_type) option" where
  "find_member key [] = None"
| "find_member key ((name, t) # ms) =
     (if key = name then Some (0, t) else map_option (\<lambda>(i, t). (Suc i, t)) (find_member key ms))"

text \<open>The value of a member by its name, or the value of an unknown name skipped.\<close>

definition read_field :: "'d json_env \<Rightarrow> (string \<Rightarrow> 'd json_value json_reader) \<Rightarrow> (string \<times> json_type) list
    \<Rightarrow> string \<Rightarrow> 'd json_value list json_reader" where
  "read_field E rd ms key vs s =
     (case find_member key ms of
        Some (i, t) \<Rightarrow> fst_map (\<lambda>v. vs[i := v]) (from_json_any E rd t (vs ! i) s)
      | None \<Rightarrow> rbind (skip_object_value s) (\<lambda>r. Inr (vs, r)))"

text \<open>The loop stands behind a name; a text that ends there is taken as a complete object.\<close>

function fields_loop :: "'d json_env \<Rightarrow> (string \<Rightarrow> 'd json_value json_reader) \<Rightarrow> (string \<times> json_type) list
    \<Rightarrow> string \<Rightarrow> 'd json_value list json_reader" where
  "fields_loop E rd ms key vs s =
     (if s = [] then Inr (vs, s)
      else rbind (skip_ws s) (\<lambda>u. rbind (match_chars '':'' u) (\<lambda>u. rbind (read_field E rd ms key vs u) (\<lambda>(vs, u).
        rbind (skip_ws u) (\<lambda>u.
          if peek u = CHR ''}'' then Inr (vs, tl u)
          else rbind (match_chars '','' u) (\<lambda>u. rbind (get_key u) (\<lambda>(key, r).
            if length r < length s then fields_loop E rd ms key vs r else Inl stuck)))))))"
  by pat_completeness auto
termination by (relation "measure (\<lambda>(_, _, _, _, _, s). length s)") auto

declare fields_loop.simps [simp del]

definition read_struct :: "'d json_env \<Rightarrow> (string \<Rightarrow> 'd json_value json_reader) \<Rightarrow> string \<Rightarrow> 'd json_value json_reader" where
  "read_struct E rd m old s =
     rbind (skip_ws s) (\<lambda>s. rbind (match_chars ''{'' s) (\<lambda>s. rbind (skip_ws s) (\<lambda>s.
       if peek s = CHR ''}'' then Inr (old, tl s)
       else if struct_members E m = [] then Inr (old, s)
       else rbind (get_key s) (\<lambda>(key, s).
         fst_map JV_struct (fields_loop E rd (struct_members E m) key (members_of old) s)))))"

text \<open>
  Structs may contain themselves; the first argument bounds how deep they are nested.  Every struct consumes its opening
  brace, so that a text cannot hold more than its length.
\<close>

primrec from_json_depth :: "nat \<Rightarrow> 'd json_env \<Rightarrow> string \<Rightarrow> 'd json_value json_reader" where
  "from_json_depth 0 E m old s = Inl stuck"
| "from_json_depth (Suc n) E m old s = read_struct E (from_json_depth n E) m old s"

definition from_json_struct :: "'d json_env \<Rightarrow> string \<Rightarrow> 'd json_value json_reader" where
  "from_json_struct E m old s = from_json_depth (Suc (length s)) E m old s"

text \<open>\<^verbatim>\<open>from_json\<close> of a value of any type.\<close>

definition from_json_value :: "'d json_env \<Rightarrow> json_type \<Rightarrow> 'd json_value json_reader" where
  "from_json_value E t old s = from_json_any E (from_json_depth (Suc (length s)) E) t old s"


section \<open>Reading goes forward\<close>

definition keeps :: "string \<Rightarrow> ('a \<times> string) result \<Rightarrow> bool" where
  "keeps s r \<longleftrightarrow> r \<noteq> Inl stuck \<and> (\<forall>v rest. r = Inr (v, rest) \<longrightarrow> length rest \<le> length s)"

definition reader_ok :: "nat \<Rightarrow> 'v json_reader \<Rightarrow> bool" where
  "reader_ok k read \<longleftrightarrow> (\<forall>v s. length s < k \<longrightarrow> keeps s (read v s))"

lemma keeps_step:
  "m \<noteq> Inl stuck \<Longrightarrow> (\<And>x. m = Inr x \<Longrightarrow> keeps s (f x)) \<Longrightarrow> keeps s (rbind m f)"
  by (cases m) (auto simp: keeps_def)

lemma keeps_pair:
  "keeps s m \<Longrightarrow> (\<And>v r. m = Inr (v, r) \<Longrightarrow> length r \<le> length s \<Longrightarrow> keeps s (f (v, r))) \<Longrightarrow> keeps s (rbind m f)"
  by (cases m) (auto simp: keeps_def)

lemma keeps_mono: "keeps r m \<Longrightarrow> length r \<le> length s \<Longrightarrow> keeps s m"
  unfolding keeps_def by fastforce

lemma keeps_Inr [simp]: "keeps s (Inr (v, r)) \<longleftrightarrow> length r \<le> length s"
  by (auto simp: keeps_def)

lemma keeps_Inl: "e \<noteq> stuck \<Longrightarrow> keeps s (Inl e)"
  by (auto simp: keeps_def)

lemma keeps_fst_map: "keeps s m \<Longrightarrow> keeps s (fst_map f m)"
  unfolding fst_map_def by (rule keeps_pair) auto

lemma match_not_stuck [simp]: "match_chars pat s \<noteq> Inl stuck"
  by (auto simp: match_chars_def stuck_def expected_end_def)

lemma skip_comment_not_stuck [simp]: "skip_comment s \<noteq> Inl stuck"
  unfolding skip_comment_def stuck_def
  by (simp only: sum.inject exn.inject list.distinct sum.distinct not_False_eq_True simp_thms
      split: list.split if_split)

lemma skip_comment_Inl: "skip_comment s = Inl e \<Longrightarrow> e \<noteq> stuck"
  using skip_comment_not_stuck by metis

lemma skip_ws_not_stuck [simp]: "skip_ws s \<noteq> Inl stuck"
proof (induction "length s" arbitrary: s rule: less_induct)
  case less
  show ?case
  proof (cases s)
    case (Cons c r)
    have "skip_ws r \<noteq> Inl stuck" "skip_comment s = Inr u \<Longrightarrow> skip_ws u \<noteq> Inl stuck" for u
      using less Cons by (auto dest: skip_comment_shorter)
    then show ?thesis using Cons
      by (subst skip_ws.simps) (auto dest: skip_comment_Inl split: sum.split)
  qed (subst skip_ws.simps, simp)
qed

lemma scan_to_not_stuck: "scan_to P s \<noteq> Inl stuck"
  unfolding scan_to_def stuck_def by (simp split: list.split)

lemma skip_till_not_stuck [simp]: "skip_till_qoute s \<noteq> Inl stuck" "skip_till_escape_or_qoute s \<noteq> Inl stuck"
  by (simp_all add: skip_till_qoute_eq skip_till_escape_eq scan_to_not_stuck)

lemma hex_not_stuck: "parse_hex_digits n cp s \<noteq> Inl stuck"
  by (induction n arbitrary: cp s) (auto simp: Let_def stuck_def)

lemma encode_not_stuck: "encode_utf8 cp \<noteq> Inl stuck"
  by (auto simp: encode_utf8_def stuck_def)

lemma parse_escape_not_stuck: "parse_escape s \<noteq> Inl stuck"
proof (cases s)
  case (Cons c r)
  have "parse_unicode_hex4 r \<noteq> Inl stuck" by (simp add: parse_unicode_hex4_def hex_not_stuck)
  then have "rbind (parse_unicode_hex4 r) (\<lambda>(cp, r). rbind (encode_utf8 cp) (\<lambda>t. Inr (t, r))) \<noteq> Inl stuck"
    by (auto simp: rbind_Inl_conv encode_not_stuck)
  then show ?thesis using Cons by (auto simp: parse_escape_def stuck_def)
qed (simp add: parse_escape_def stuck_def)

lemma parse_escape_Inl: "parse_escape s = Inl e \<Longrightarrow> e \<noteq> stuck"
  using parse_escape_not_stuck by metis

lemma read_body_not_stuck [simp]: "read_body acc s \<noteq> Inl stuck"
proof (induction "length s" arbitrary: acc s rule: less_induct)
  case less
  show ?case
  proof (cases "skip_till_escape_or_qoute s")
    case (Inl e)
    then show ?thesis using skip_till_not_stuck(2) [of s] by (subst read_body.simps) simp
  next
    case (Inr r)
    have "read_body a u \<noteq> Inl stuck" if "parse_escape (tl r) = Inr (t, u)" for a t u
    proof -
      have "length u < length s"
        using parse_escape_shorter [OF that] skip_till_escape_shorter [OF Inr] by auto
      then show ?thesis using less by blast
    qed
    then show ?thesis using Inr
      by (subst read_body.simps) (auto simp: Let_def dest: parse_escape_Inl split: sum.split prod.split)
  qed
qed

lemma keeps_read_body: "keeps s (read_body acc s)"
  by (auto simp: keeps_def dest: read_body_shorter)

lemma get_key_keeps: "get_key s \<noteq> Inl stuck"
  by (auto simp: get_key_def rbind_Inl_conv Let_def)

lemma closed_loop_not_stuck [simp]: "closed_loop a b n s \<noteq> Inl stuck"
proof (induction "length s" arbitrary: n s rule: less_induct)
  case less
  show ?case
  proof (cases s)
    case (Cons c r)
    have "closed_loop a b m u \<noteq> Inl stuck" if "length u < length s" for m u
      using less that by blast
    moreover have "length r < length s" "length (skip_string s) < length s"
      "skip_comment s = Inr u \<Longrightarrow> length u < length s" for u
      using Cons by (auto dest: skip_comment_less)
    ultimately show ?thesis using Cons
      by (subst closed_loop.simps) (auto dest: skip_comment_Inl split: sum.split)
  qed (subst closed_loop.simps, simp)
qed

lemma skip_value_loop_not_stuck: "skip_value_loop s \<noteq> Inl stuck"
proof (induction "length s" arbitrary: s rule: less_induct)
  case less
  show ?case
  proof (cases s)
    case (Cons c r)
    have "skip_value_loop u \<noteq> Inl stuck" if "length u < length s" for u
      using less that by blast
    moreover have "length r < length s" "skip_comment s = Inr u \<Longrightarrow> length u < length s" for u
      using Cons by (auto dest: skip_comment_less)
    ultimately show ?thesis using Cons
      by (subst skip_value_loop.simps) (auto simp: skip_until_closed_def dest: skip_comment_Inl split: sum.split)
  qed (subst skip_value_loop.simps, simp)
qed

lemma skip_object_not_stuck: "skip_object_value s \<noteq> Inl stuck"
  by (auto simp: skip_object_value_def rbind_Inl_conv skip_value_loop_not_stuck)


lemma number_error_stuck: "number_error \<noteq> stuck" "expected_end \<noteq> stuck" "end_of_buffer \<noteq> stuck" "bool_error \<noteq> stuck"
  "unexpected_end \<noteq> stuck" "expected_bracket \<noteq> stuck" "unexpected_eof \<noteq> stuck"
  by (simp_all add: number_error_def expected_end_def end_of_buffer_def bool_error_def unexpected_end_def
      expected_bracket_def unexpected_eof_def stuck_def)

lemma keeps_ws:
  "length u \<le> length s \<Longrightarrow>
    (\<And>r. length r \<le> length u \<Longrightarrow> length r \<le> length s \<Longrightarrow> skip_ws u = Inr r \<Longrightarrow> keeps s (f r)) \<Longrightarrow>
    keeps s (rbind (skip_ws u) f)"
  by (rule keeps_step) (auto dest: skip_ws_shorter)

lemmas keeps_skip_ws = keeps_ws [OF order_refl]

lemma keeps_match:
  "length u \<le> length s \<Longrightarrow>
    (\<And>r. length r + length pat = length u \<Longrightarrow> length r \<le> length s \<Longrightarrow> match_chars pat u = Inr r \<Longrightarrow> keeps s (f r)) \<Longrightarrow>
    keeps s (rbind (match_chars pat u) f)"
  by (rule keeps_step) (auto dest: match_shorter)

lemma keeps_read:
  "keeps u m \<Longrightarrow> length u \<le> length s \<Longrightarrow>
    (\<And>v r. length r \<le> length u \<Longrightarrow> length r \<le> length s \<Longrightarrow> m = Inr (v, r) \<Longrightarrow> keeps s (f (v, r))) \<Longrightarrow>
    keeps s (rbind m f)"
  by (cases m) (auto simp: keeps_def)

lemma keeps_if: "(c \<Longrightarrow> keeps s a) \<Longrightarrow> (\<not> c \<Longrightarrow> keeps s b) \<Longrightarrow> keeps s (if c then a else b)"
  by simp

definition forward :: "(string \<Rightarrow> ('n \<times> string) option) \<Rightarrow> bool" where
  "forward scan \<longleftrightarrow> (\<forall>s v r. scan s = Some (v, r) \<longrightarrow> length r \<le> length s)"

lemma forwardD: "forward scan \<Longrightarrow> scan s = Some (v, r) \<Longrightarrow> length r \<le> length s"
  by (simp add: forward_def)

lemma forward_from_chars: "forward (from_chars bytes sg)"
proof -
  have "length (drop n (tl s)) \<le> length s" for n and s :: string by (cases s) auto
  then show ?thesis by (auto simp: forward_def from_chars_def Let_def split: if_splits)
qed

lemma length_tl_le: "length u \<le> n \<Longrightarrow> length (tl u) \<le> n"
  by simp

lemma keeps_read_number:
  assumes "forward scan"
  shows "keeps s (read_number scan mk old s)"
proof -
  have "length b \<le> length s" if "scan r = Some (a, b)" "length r \<le> length s" for a b r
    using forwardD [OF assms that(1)] that(2) by simp
  then show ?thesis unfolding read_number_def
    by (intro keeps_skip_ws)
      (auto intro!: keeps_match keeps_Inl number_error_stuck length_tl_le simp del: length_tl split: option.split)
qed

lemma keeps_numeric_str: "keeps s (read_numeric_str s)"
  unfolding read_numeric_str_def
  by (intro keeps_skip_ws) (auto intro: order_trans [OF length_dropWhile_le])

lemma keeps_char_body: "keeps s (read_char_body s)"
  unfolding read_char_body_def by (auto intro!: keeps_Inl number_error_stuck split: list.split)

lemma keeps_read_char: "keeps s (read_char s)"
  unfolding read_char_def
  by (intro keeps_skip_ws keeps_match) (auto intro!: keeps_read [OF keeps_char_body] keeps_match)

lemma keeps_read_bool: "keeps s (read_bool old s)"
  unfolding read_bool_def
  by (intro keeps_skip_ws) (auto intro!: keeps_match keeps_Inl number_error_stuck split: list.split)

lemma keeps_read_string: "keeps s (read_string s)"
  unfolding read_string_def
  by (intro keeps_skip_ws) (auto intro!: keeps_match keeps_mono [OF keeps_read_body])


lemma skip_till_qoute_shorter: "skip_till_qoute s = Inr r \<Longrightarrow> r \<noteq> [] \<and> length r \<le> length s"
  using scan_to_suffix by (metis skip_till_qoute_eq suffix_length_le)

lemma keeps_view_loop: "keeps s (view_loop acc s)"
proof (induction "length s" arbitrary: acc s rule: less_induct)
  case less
  show ?case
  proof (cases "skip_till_qoute s")
    case (Inl e)
    then have "e \<noteq> stuck" using skip_till_not_stuck(1) by metis
    then show ?thesis using Inl by (subst view_loop.simps) (auto intro!: keeps_Inl simp: stuck_def)
  next
    case (Inr r)
    then have r: "length (tl r) < length s" using skip_till_qoute_shorter [OF Inr] by (cases r) auto
    then have "keeps s (view_loop a (tl r))" for a
      by (intro keeps_mono [OF less(1)]) auto
    then show ?thesis using Inr r
      by (subst view_loop.simps) (auto simp: Let_def stuck_def intro!: keeps_Inl)
  qed
qed

lemma keeps_read_view: "keeps s (read_view s)"
  unfolding read_view_def
  by (intro keeps_skip_ws keeps_match) (auto intro!: keeps_mono [OF keeps_view_loop])

lemma keeps_read_enum: "keeps s (read_enum names bytes sg old s)"
  unfolding read_enum_def
  by (auto intro!: keeps_read_number forward_from_chars keeps_read [OF keeps_read_view] keeps_Inl
      simp: stuck_def split: option.split)

lemma reader_okD: "reader_ok k read \<Longrightarrow> length s < k \<Longrightarrow> keeps s (read v s)"
  by (simp add: reader_ok_def)

lemma keeps_array_loop: "reader_ok k read \<Longrightarrow> length s < k \<Longrightarrow> keeps s (array_loop read vs s)"
proof (induction vs arbitrary: s)
  case (Cons v vs)
  have "keeps s (rbind (array_loop read vs u) (\<lambda>(vs, s). Inr (w # vs, s)))" if "length u \<le> length s" for u w
    using that Cons by (intro keeps_read [OF Cons.IH]) auto
  note tail = this
  show ?case unfolding array_loop.simps
  proof (rule keeps_read [OF reader_okD [OF Cons.prems]])
    fix w and r :: string assume "length r \<le> length s"
    then show "keeps s (case (w, r) of (v, s) \<Rightarrow> rbind (skip_ws s) (\<lambda>s.
       if s = [] then Inl unexpected_end
       else if hd s = CHR '','' then rbind (skip_ws (tl s)) (\<lambda>s.
         rbind (array_loop read vs s) (\<lambda>(vs, s). Inr (v # vs, s)))
       else if hd s = CHR '']'' then Inr (v # vs, tl s)
       else Inl expected_bracket))"
      by (auto intro!: keeps_ws keeps_Inl number_error_stuck tail length_tl_le simp del: length_tl)
  qed simp
qed simp

lemma keeps_read_array: "reader_ok k read \<Longrightarrow> length s < k \<Longrightarrow> keeps s (read_array read vs s)"
  unfolding read_array_def
  by (auto intro!: keeps_match keeps_ws keeps_Inl number_error_stuck keeps_mono [OF keeps_array_loop])

lemma keeps_chars_loop: "keeps s (chars_loop vs s)"
proof (induction vs arbitrary: s)
  case (Cons v vs)
  have "keeps s (rbind (chars_loop vs u) (\<lambda>(vs, s). Inr (w # vs, s)))" if "length u \<le> length s" for u w
    using that by (intro keeps_read [OF Cons.IH]) auto
  then show ?case by (auto intro!: keeps_read [OF keeps_char_body])
qed simp

lemma keeps_read_chars: "keeps s (read_chars vs s)"
proof -
  have "reader_ok (Suc (length s)) (\<lambda>_. read_char)" by (simp add: reader_ok_def keeps_read_char)
  then show ?thesis unfolding read_chars_def
    by (auto intro!: keeps_skip_ws keeps_match keeps_read [OF keeps_chars_loop] keeps_mono [OF keeps_read_array])
qed

lemma keeps_items_loop: "reader_ok k read \<Longrightarrow> length s < k \<Longrightarrow> keeps s (items_loop read new first val s)"
proof (induction "2 * length s + (if first then 1 else 0)" arbitrary: first val s rule: less_induct)
  case less
  have step: "keeps s (items_loop read new False w r)" if "length r < length s \<or> first \<and> length r \<le> length s" for w r
    using that less(2,3) by (intro keeps_mono [OF less(1)]) auto
  have comma: "(if first then Inr s else match_chars '','' s) = Inr u \<Longrightarrow>
      length u \<le> length s \<and> (\<not> first \<longrightarrow> length u < length s)" for u
    by (auto dest: match_shorter split: if_splits)
  have item: "keeps s (rbind (read new u) (\<lambda>(item, r). rbind (skip_ws r) (\<lambda>r.
      if length r < length s \<or> first \<and> length r \<le> length s
      then items_loop read new False (val @ [item]) r else Inl stuck)))"
    if "length u \<le> length s \<and> (\<not> first \<longrightarrow> length u < length s)" for u
    using that less(2,3) by (intro keeps_read [OF reader_okD]) (auto intro!: keeps_ws step)
  have "keeps s (rbind (if first then Inr s else match_chars '','' s) (\<lambda>u. rbind (read new u) (\<lambda>(item, r). rbind (skip_ws r) (\<lambda>r.
      if length r < length s \<or> first \<and> length r \<le> length s
      then items_loop read new False (val @ [item]) r else Inl stuck))))"
    by (rule keeps_step) (use comma item in auto)
  then show ?case
    by (subst items_loop.simps) (intro keeps_if keeps_Inl number_error_stuck; simp)
qed


lemma keeps_read_sequence: "reader_ok k read \<Longrightarrow> length s < k \<Longrightarrow> keeps s (read_sequence read new s)"
  unfolding read_sequence_def
  by (auto intro!: keeps_ws keeps_match elim!: keeps_mono [OF keeps_items_loop, rotated 2])

lemma keeps_tuple_loop:
  "\<forall>read \<in> set reads. reader_ok k read \<Longrightarrow> length s < k \<Longrightarrow> keeps s (tuple_loop reads first vs s)"
proof (induction reads arbitrary: first vs s)
  case (Cons read reads)
  have tail: "keeps s (rbind (tuple_loop reads False ws u) (\<lambda>(vs, s). Inr (w # vs, s)))"
    if "length u \<le> length s" for u w ws
    using that Cons by (intro keeps_read [OF Cons.IH]) auto
  have item: "keeps s (rbind (read v u) (\<lambda>(v, s). rbind (skip_ws s) (\<lambda>s.
      rbind (tuple_loop reads False ws s) (\<lambda>(vs, s). Inr (v # vs, s)))))" if "length u \<le> length s" for u v ws
    using that Cons.prems by (intro keeps_read [OF reader_okD]) (auto intro!: keeps_ws tail)
  have "(if first then Inr s else rbind (match_chars '','' s) skip_ws) \<noteq> Inl stuck"
    by (auto simp: rbind_Inl_conv)
  moreover have "(if first then Inr s else rbind (match_chars '','' s) skip_ws) = Inr u \<Longrightarrow> length u \<le> length s" for u
    by (auto simp: rbind_Inr_conv dest!: match_shorter skip_ws_shorter split: if_splits)
  ultimately show ?case
    by (cases vs) (auto intro!: tail keeps_step [of "if first then _ else _"] item simp del: rbind.simps split del: if_split
        intro: keeps_if)
qed simp


lemma keeps_read_tuple:
  "\<forall>read \<in> set reads. reader_ok k read \<Longrightarrow> length s < k \<Longrightarrow> keeps s (read_tuple reads vs s)"
  unfolding read_tuple_def
  by (auto intro!: keeps_ws keeps_match keeps_read [OF keeps_tuple_loop])

lemma comma_not_stuck: "(if first then Inr s else match_chars pat s) \<noteq> Inl stuck"
  by simp

lemma keeps_map_loop: "reader_ok k read \<Longrightarrow> length s < k \<Longrightarrow> keeps s (map_loop read new first val s)"
proof (induction "length s" arbitrary: first val s rule: less_induct)
  case less
  have step: "keeps s (map_loop read new False w r)" if "length r < length s" for w r
    using that less(2,3) by (intro keeps_mono [OF less(1)]) auto
  have "(if first then Inr s else match_chars '','' s) = Inr u \<Longrightarrow> length u \<le> length s" for u
    by (auto dest: match_shorter split: if_splits)
  moreover have "keeps s (rbind (get_key u) (\<lambda>(key, u). rbind (skip_ws u) (\<lambda>u. rbind (match_chars '':'' u) (\<lambda>u.
      rbind (read (case map_of val key of Some v \<Rightarrow> v | None \<Rightarrow> new) u) (\<lambda>(v, r). rbind (skip_ws r) (\<lambda>r.
        if length r < length s then map_loop read new False (map_assign key v val) r else Inl stuck))))))"
    if u: "length u \<le> length s" for u
  proof (rule keeps_step [OF get_key_keeps])
    fix x assume "get_key u = Inr x"
    then obtain key r where x: "x = (key, r)" "length r < length s"
      using u get_key_shorter by (cases x) fastforce
    then show "keeps s (case x of (key, u) \<Rightarrow> rbind (skip_ws u) (\<lambda>u. rbind (match_chars '':'' u) (\<lambda>u.
      rbind (read (case map_of val key of Some v \<Rightarrow> v | None \<Rightarrow> new) u) (\<lambda>(v, r). rbind (skip_ws r) (\<lambda>r.
        if length r < length s then map_loop read new False (map_assign key v val) r else Inl stuck)))))"
      using less(2,3) by (auto intro!: keeps_ws keeps_match keeps_read [OF reader_okD] step)
  qed
  ultimately show ?case
    by (subst map_loop.simps)
      (intro keeps_if keeps_Inl number_error_stuck; auto intro!: keeps_step [OF comma_not_stuck] split del: if_split)
qed

lemma keeps_read_map: "reader_ok k read \<Longrightarrow> length s < k \<Longrightarrow> keeps s (read_map read new val s)"
  unfolding read_map_def
  by (auto intro!: keeps_ws keeps_match elim!: keeps_mono [OF keeps_map_loop, rotated 2])

lemma keeps_read_optional:
  assumes "reader_ok k read" "length s < k"
  shows "keeps s (read_optional t read new s)"
proof -
  have val: "keeps s (rbind m (\<lambda>(v, r). Inr (JV_pointer (Some v), r)))" if "keeps s m" for m
    using that by (intro keeps_read [of s]) auto
  have words: "keeps s (rbind m (\<lambda>(t, r). Inr (JV_text t, r)))" if "keeps u m" "length u \<le> length s" for m u
    using that by (intro keeps_read [of u]) auto
  have other: "keeps s (read new r)" if "length r \<le> length s" for r
    using that assms by (intro keeps_mono [OF reader_okD]) auto
  show ?thesis unfolding read_optional_def Let_def
    by (intro keeps_ws keeps_if keeps_Inl number_error_stuck keeps_match val)
      (auto intro!: length_tl_le words [OF keeps_read_body] words [OF keeps_view_loop] other
        simp del: length_tl split: json_type.split)
qed

lemma keeps_read_ptr:
  assumes "reader_ok k read" "length s < k"
  shows "keeps s (read_ptr read new old s)"
  unfolding read_ptr_def using assms
  by (intro keeps_ws keeps_if keeps_Inl number_error_stuck keeps_match)
    (auto intro!: keeps_read [OF reader_okD [OF assms(1)]] length_tl_le simp del: length_tl)

lemma keeps_variant_loop:
  "\<forall>(read, new) \<in> set alts. reader_ok k read \<Longrightarrow> length s < k \<Longrightarrow> keeps s (variant_loop i alts old s)"
proof (induction alts arbitrary: i)
  case (Cons alt alts)
  obtain read new where alt: "alt = (read, new)" by (cases alt)
  have "keeps s (read new s)" using Cons.prems alt by (auto intro: reader_okD)
  then show ?case using Cons alt by (auto simp: keeps_def split: sum.split)
qed simp

lemma reader_ok_any:
  assumes "forward (scan_double E)" "\<And>m. reader_ok k (rd m)"
  shows "reader_ok k (from_json_any E rd t)"
proof (induction t)
  case (J_array n t)
  then show ?case by (auto simp: reader_ok_def intro!: keeps_ws keeps_fst_map keeps_mono [OF keeps_read_array])
next
  case (J_tuple ts)
  then have "\<forall>read \<in> set (map (from_json_any E rd) ts). reader_ok k read" by auto
  from keeps_read_tuple [OF this] show ?case unfolding from_json_any.simps reader_ok_def
    by (intro allI impI keeps_fst_map) blast
next
  case (J_variant ts)
  then have "\<forall>(read, new) \<in> set (zip (map (from_json_any E rd) ts) (map (default_json E) ts)). reader_ok k read"
    by (auto dest!: set_zip_leftD)
  from keeps_variant_loop [OF this] show ?case unfolding from_json_any.simps reader_ok_def by blast
next
  case (J_struct m)
  then show ?case using assms(2) by simp
qed (auto simp: reader_ok_def assms(1) intro!: keeps_fst_map keeps_read_bool keeps_read_char keeps_read_number
  forward_from_chars keeps_numeric_str keeps_read_string keeps_read_view keeps_read_enum keeps_read_chars
  keeps_read_sequence keeps_read_map keeps_read_optional keeps_read_ptr)

lemma keeps_read_field:
  assumes "forward (scan_double E)" "\<And>m. reader_ok k (rd m)" "length s < k"
  shows "keeps s (read_field E rd ms key vs s)"
  unfolding read_field_def using skip_object_not_stuck [of s]
  by (auto intro!: keeps_fst_map reader_okD [OF reader_ok_any [OF assms(1,2)] assms(3)] keeps_step
      dest: skip_object_value_shorter split: option.split)

lemma keeps_fields_loop:
  assumes "forward (scan_double E)" "\<And>m. reader_ok k (rd m)"
  shows "length s < k \<Longrightarrow> keeps s (fields_loop E rd ms key vs s)"
proof (induction "length s" arbitrary: key vs s rule: less_induct)
  case less
  have step: "keeps s (fields_loop E rd ms key w r)" if "length r < length s" for key w r
    using that less(2) by (intro keeps_mono [OF less(1)]) auto
  have next_key: "keeps s (rbind (get_key u) (\<lambda>(key, r).
      if length r < length s then fields_loop E rd ms key w r else Inl stuck))" if "length u \<le> length s" for u w
  proof (rule keeps_step [OF get_key_keeps])
    fix x assume "get_key u = Inr x"
    then show "keeps s (case x of (key, r) \<Rightarrow> if length r < length s then fields_loop E rd ms key w r else Inl stuck)"
      using that get_key_shorter by (cases x) (fastforce intro: step)
  qed
  show ?case using less(2)
    by (subst fields_loop.simps)
      (auto intro!: keeps_ws keeps_match keeps_read [OF keeps_read_field [OF assms]] next_key length_tl_le simp del: length_tl)
qed

lemma keeps_read_struct:
  assumes "forward (scan_double E)" "\<And>m. reader_ok k (rd m)" "length s \<le> k"
  shows "keeps s (read_struct E rd m old s)"
proof -
  have "keeps s (rbind (get_key u) (\<lambda>(key, s). fst_map JV_struct (fields_loop E rd (struct_members E m) key vs s)))"
    if "length u < length s" for u vs
  proof (rule keeps_step [OF get_key_keeps])
    fix x assume "get_key u = Inr x"
    then show "keeps s (case x of (key, s) \<Rightarrow> fst_map JV_struct (fields_loop E rd (struct_members E m) key vs s))"
      using that assms(3) get_key_shorter [of u]
      by (cases x) (auto intro!: keeps_fst_map keeps_mono [OF keeps_fields_loop [OF assms(1,2)]])
  qed
  then show ?thesis unfolding read_struct_def
    by (auto intro!: keeps_ws keeps_match length_tl_le simp del: length_tl)
qed

lemma reader_ok_depth:
  assumes "forward (scan_double E)"
  shows "reader_ok n (from_json_depth n E m)"
proof (induction n arbitrary: m)
  case (Suc n)
  then show ?case by (auto simp: reader_ok_def [of "Suc n"] intro!: keeps_read_struct [OF assms])
qed (simp add: reader_ok_def)

section \<open>A sample\<close>

text \<open>Tasks that may point to another task; the numbers of type \<^verbatim>\<open>double\<close> are whole ones.\<close>

definition sample_members :: "string \<Rightarrow> (string \<times> json_type) list" where
  "sample_members m = (if m = ''task'' then
     [(''id'', J_int 8 False), (''name'', J_string), (''tags'', J_sequence J_string), (''limits'', J_map J_double),
      (''state'', J_enum (Some [(''open'', 0), (''done'', 1)]) 4 True), (''ok'', J_optional J_bool),
      (''value'', J_variant [J_int 4 True, J_string, J_array 2 J_bool]), (''next'', J_ptr (J_struct ''task''))] else [])"

definition sample_env :: "int json_env" where
  "sample_env =
     \<lparr>struct_members = sample_members,
      constructed = (\<lambda>m. if m = ''task'' then
        [JV_int 0, JV_text [], JV_list [], JV_map [], JV_int 0, JV_pointer None, JV_variant 0 (JV_int 0), JV_pointer None] else []),
      zero_double = 0, print_double = int_str, scan_double = from_chars 8 True\<rparr>"

section \<open>Reading ends\<close>

text \<open>C36: Reading ends for every text and every type, recursive structs included: a text cannot nest structs deeper than its
  length, each loop consumes text in every round (an item of a sequence may be empty only once), and the result is a
  value or an error that the code throws.\<close>

theorem from_json_not_stuck:
  assumes "forward (scan_double E)"
  shows "from_json_value E t old s \<noteq> Inl stuck"
proof -
  have "reader_ok (Suc (length s)) (from_json_any E (from_json_depth (Suc (length s)) E) t)"
    using assms by (intro reader_ok_any reader_ok_depth)
  then show ?thesis by (simp add: from_json_value_def reader_ok_def keeps_def)
qed

lemma sample_forward: "forward (scan_double sample_env)"
  by (simp add: sample_env_def forward_from_chars)

text \<open>A text that breaks off inside three tasks.\<close>

theorem from_json_not_stuck_witness:
  "from_json_value sample_env (J_struct ''task'') (default_json sample_env (J_struct ''task''))
     ''{\"next\":{\"next\":{\"id\"'' \<noteq> Inl stuck"
  by (rule from_json_not_stuck [OF sample_forward])

end
