(* ===== verification/Iguana_Json_Values.thy ===== *)
theory Iguana_Json_Values
  imports Iguana_Json_Reader
begin

text \<open>
  The values that the writer and the reader of \<^verbatim>\<open>iguana/json_writer.hpp\<close> and \<^verbatim>\<open>iguana/json_reader.hpp\<close> agree on, \<^verbatim>\<open>json_ok\<close>, and
  that the text of every scalar value is read back (\<^verbatim>\<open>text_for\<close>).
\<close>

section \<open>Values that are read back\<close>

definition plain_text :: "string \<Rightarrow> bool" where
  "plain_text t \<longleftrightarrow> (\<forall>c \<in> set t. 32 \<le> (of_char c :: nat) \<and> (of_char c :: nat) < 128 \<and> c \<noteq> quote \<and> c \<noteq> backslash_c)"

definition plain_key :: "string \<Rightarrow> bool" where
  "plain_key k \<longleftrightarrow> plain_text k \<and> (k = [] \<or> hd k \<noteq> CHR ''@'')"

definition digit_chars :: string where
  "digit_chars = ''-0123456789''"

text \<open>The characters with which the text of a value may begin.\<close>

fun start_chars :: "json_type \<Rightarrow> string" where
  "start_chars J_bool = ''tf''"
| "start_chars (J_int _ _) = digit_chars"
| "start_chars J_double = digit_chars"
| "start_chars J_numeric_str = ''+.Ee'' @ digit_chars"
| "start_chars (J_enum names _ _) = (if names = None then digit_chars else [quote])"
| "start_chars (J_array _ _) = ''[''"
| "start_chars (J_sequence _) = ''[''"
| "start_chars (J_tuple _) = ''[''"
| "start_chars (J_map _) = ''{''"
| "start_chars (J_struct _) = ''{''"
| "start_chars (J_optional t) = CHR ''n'' # start_chars t"
| "start_chars (J_ptr t) = CHR ''n'' # start_chars t"
| "start_chars (J_variant ts) = concat (map start_chars ts)"
| "start_chars J_char = [quote]"
| "start_chars J_string = [quote]"
| "start_chars J_view = [quote]"
| "start_chars (J_chars _) = [quote]"

text \<open>A type whose reader throws at a text that begins with the character.\<close>

fun refuses :: "json_type \<Rightarrow> char \<Rightarrow> bool" where
  "refuses J_bool c \<longleftrightarrow> c \<notin> set ''tfn''"
| "refuses J_char c \<longleftrightarrow> c \<noteq> quote"
| "refuses (J_int _ _) c \<longleftrightarrow> c \<noteq> CHR ''n'' \<and> c \<notin> set digit_chars"
| "refuses J_string c \<longleftrightarrow> c \<noteq> CHR ''n'' \<and> c \<noteq> quote"
| "refuses J_view c \<longleftrightarrow> c \<noteq> quote"
| "refuses (J_enum names _ _) c \<longleftrightarrow> (if names = None then c \<noteq> CHR ''n'' \<and> c \<notin> set digit_chars else c \<noteq> quote)"
| "refuses (J_chars _) c \<longleftrightarrow> c \<noteq> quote \<and> c \<noteq> CHR ''[''"
| "refuses (J_array _ _) c \<longleftrightarrow> c \<noteq> CHR ''[''"
| "refuses (J_sequence _) c \<longleftrightarrow> c \<noteq> CHR ''[''"
| "refuses (J_tuple _) c \<longleftrightarrow> c \<noteq> CHR ''[''"
| "refuses (J_map _) c \<longleftrightarrow> c \<noteq> CHR ''{''"
| "refuses (J_struct _) c \<longleftrightarrow> c \<noteq> CHR ''{''"
| "refuses (J_ptr t) c \<longleftrightarrow> c \<noteq> CHR ''n'' \<and> refuses t c"
| "refuses (J_optional t) c \<longleftrightarrow> c \<noteq> CHR ''n'' \<and> t \<noteq> J_string \<and> t \<noteq> J_view \<and> refuses t c"
| "refuses _ c \<longleftrightarrow> False"

text \<open>A value whose text is \<^verbatim>\<open>null\<close>.\<close>

fun null_text :: "'d json_value \<Rightarrow> bool" where
  "null_text (JV_pointer None) \<longleftrightarrow> True"
| "null_text (JV_pointer (Some v)) \<longleftrightarrow> null_text v"
| "null_text (JV_variant i v) \<longleftrightarrow> null_text v"
| "null_text _ \<longleftrightarrow> False"

definition int_ok :: "nat \<Rightarrow> bool \<Rightarrow> int \<Rightarrow> bool" where
  "int_ok bytes sg i \<longleftrightarrow> bytes \<in> {1, 2, 4, 8} \<and> in_int_range bytes sg i"

fun text_ok :: "json_type \<Rightarrow> string \<Rightarrow> bool" where
  "text_ok J_string t \<longleftrightarrow> basic_text t"
| "text_ok J_view t \<longleftrightarrow> plain_text t"
| "text_ok J_numeric_str t \<longleftrightarrow> t \<noteq> [] \<and> list_all is_numeric t"
| "text_ok (J_chars n) t \<longleftrightarrow>
     length t = n \<and> list_all (\<lambda>c. c = CHR 0x00) (dropWhile (\<lambda>c. c \<noteq> CHR 0x00) t) \<and> quote \<notin> set t \<and> backslash_c \<notin> set t"
| "text_ok _ t \<longleftrightarrow> False"

definition enum_ok :: "(string \<times> int) list \<Rightarrow> int \<Rightarrow> bool" where
  "enum_ok names i \<longleftrightarrow>
     (case List.find (\<lambda>(name, v). v = i) names of
        Some (name, _) \<Rightarrow> plain_text name \<and> map_of names name = Some i
      | None \<Rightarrow> False)"

lemma value_size:
  "v \<in> set vs \<Longrightarrow> size_json_value (\<lambda>_. 0) v < Suc (size_list (size_json_value (\<lambda>_. 0)) vs)"
  using size_list_estimation' [where f = "size_json_value (\<lambda>_. 0)", OF _ order_refl] by (simp add: less_Suc_eq_le)

lemma pair_size:
  "(k, v) \<in> set kvs \<Longrightarrow> size_json_value (\<lambda>_. 0) v < Suc (size_list (size_prod (\<lambda>_. 0) (size_json_value (\<lambda>_. 0))) kvs)"
  using size_list_estimation' [where f = "size_prod (\<lambda>_. 0) (size_json_value (\<lambda>_. 0))", OF _ order_refl, of "(k, v)" kvs]
  by simp

text \<open>
  \<^verbatim>\<open>printable\<close> are the numbers whose text is read back.  An optional must not hold what is itself written as \<^verbatim>\<open>null\<close>, and
  no alternative of a variant before the one it holds may accept the text.
\<close>

function json_ok :: "'d json_env \<Rightarrow> ('d \<Rightarrow> bool) \<Rightarrow> json_type \<Rightarrow> 'd json_value \<Rightarrow> bool" where
  "json_ok E printable ty (JV_bool b) \<longleftrightarrow> ty = J_bool"
| "json_ok E printable ty (JV_char c) \<longleftrightarrow> ty = J_char \<and> c \<noteq> backslash_c"
| "json_ok E printable ty (JV_int i) \<longleftrightarrow>
     (case ty of
        J_int bytes sg \<Rightarrow> int_ok bytes sg i
      | J_enum None bytes sg \<Rightarrow> int_ok bytes sg i
      | J_enum (Some names) _ _ \<Rightarrow> enum_ok names i
      | _ \<Rightarrow> False)"
| "json_ok E printable ty (JV_double d) \<longleftrightarrow> ty = J_double \<and> printable d"
| "json_ok E printable ty (JV_text t) \<longleftrightarrow> text_ok ty t"
| "json_ok E printable ty (JV_list vs) \<longleftrightarrow>
     (case ty of
        J_array n t \<Rightarrow> length vs = n \<and> n > 0 \<and> list_all (json_ok E printable t) vs
      | J_sequence t \<Rightarrow> list_all (json_ok E printable t) vs
      | J_tuple ts \<Rightarrow> length ts = length vs \<and> list_all (\<lambda>(t, v). json_ok E printable t v) (zip ts vs)
      | _ \<Rightarrow> False)"
| "json_ok E printable ty (JV_map kvs) \<longleftrightarrow>
     (case ty of
        J_map t \<Rightarrow> distinct (map fst kvs) \<and> list_all (\<lambda>(k, v). plain_key k \<and> json_ok E printable t v) kvs
      | _ \<Rightarrow> False)"
| "json_ok E printable ty (JV_pointer p) \<longleftrightarrow>
     (case (ty, p) of
        (J_optional t, Some v) \<Rightarrow> json_ok E printable t v \<and> \<not> null_text v
      | (J_ptr t, Some v) \<Rightarrow> json_ok E printable t v \<and> \<not> null_text v
      | (J_optional t, None) \<Rightarrow> True
      | (J_ptr t, None) \<Rightarrow> True
      | _ \<Rightarrow> False)"
| "json_ok E printable ty (JV_variant i v) \<longleftrightarrow>
     (case ty of
        J_variant ts \<Rightarrow> i < length ts \<and> json_ok E printable (ts ! i) v
          \<and> list_all (\<lambda>c. list_all (\<lambda>t. refuses t c) (take i ts)) (start_chars (ts ! i))
      | _ \<Rightarrow> False)"
| "json_ok E printable ty (JV_struct vs) \<longleftrightarrow>
     (case ty of
        J_struct m \<Rightarrow> length (struct_members E m) = length vs
          \<and> list_all (\<lambda>(t, v). json_ok E printable t v) (zip (map snd (struct_members E m)) vs)
      | _ \<Rightarrow> False)"
  by pat_completeness auto
termination
  by (relation "measure (\<lambda>(_, _, _, v). size_json_value (\<lambda>_. 0) v)")
    (auto dest!: set_zip_rightD intro: value_size pair_size)

definition env_ok :: "'d json_env \<Rightarrow> bool" where
  "env_ok E \<longleftrightarrow> (\<forall>m. constructed E m = map (\<lambda>(_, t). default_json E t) (struct_members E m)
     \<and> distinct (map fst (struct_members E m)) \<and> list_all (\<lambda>(name, _). plain_key name) (struct_members E m))"

definition follows :: "string \<Rightarrow> bool" where
  "follows s \<longleftrightarrow> s = [] \<or> hd s \<in> set '',]}''"

text \<open>Printing and parsing of floating-point numbers fit together.\<close>

definition doubles_ok :: "'d json_env \<Rightarrow> ('d \<Rightarrow> bool) \<Rightarrow> bool" where
  "doubles_ok E printable \<longleftrightarrow> (\<forall>d s. printable d \<and> follows s \<longrightarrow>
     print_double E d \<noteq> [] \<and> hd (print_double E d) \<in> set digit_chars
     \<and> scan_double E (print_double E d @ s) = Some (d, s))"


declare json_ok.simps [simp del]

section \<open>Scalars\<close>

text \<open>Characters that are neither white space nor the beginning of a comment.\<close>

definition visible :: "char \<Rightarrow> bool" where
  "visible c \<longleftrightarrow> 33 \<le> (of_char c :: nat) \<and> c \<noteq> CHR ''/''"

lemma skip_ws_visible: "visible c \<Longrightarrow> skip_ws (c # s) = Inr (c # s)"
  by (rule skip_ws_id) (simp_all add: visible_def)

lemma visible_hd: "w \<noteq> [] \<Longrightarrow> visible (hd w) \<Longrightarrow> skip_ws (w @ s) = Inr (w @ s)"
  by (cases w) (simp_all add: skip_ws_visible)

lemma visible_chars:
  "list_all visible ''tfn[]{},:+.Ee-0123456789''" "visible quote"
  by (simp_all add: visible_def quote_def)

lemma visible_start: "c \<in> set (start_chars t) \<Longrightarrow> visible c"
proof (induction t)
  case (J_enum names bytes sg)
  then show ?case using visible_chars by (auto simp: digit_chars_def split: if_splits)
qed (use visible_chars in \<open>auto simp: digit_chars_def\<close>)

lemma follows_visible: "follows s \<Longrightarrow> skip_ws s = Inr s"
proof (cases s)
  case Nil
  then show ?thesis by (subst skip_ws.simps) simp
next
  case (Cons c t)
  assume "follows s"
  then show ?thesis using visible_chars by (auto simp: Cons follows_def intro!: skip_ws_visible)
qed

lemma follows_number: "follows s \<Longrightarrow> can_follow_number (peek s)"
  by (cases s) (auto simp: follows_def can_follow_number_def peek_def)

lemma follows_digit: "follows s \<Longrightarrow> s = [] \<or> \<not> isdigit_c (hd s)"
  by (auto simp: follows_def isdigit_c_def)

lemma follows_simps [simp]:
  "follows []" "follows (CHR '','' # s)" "follows (CHR '']'' # s)" "follows (CHR ''}'' # s)"
  by (simp_all add: follows_def)

lemma digit_in:
  assumes "isdigit_c c"
  shows "c \<in> set digit_chars"
proof -
  have "of_char c \<in> set [48 ..< 58 :: nat]" using assms
    unfolding isdigit_c_def set_upt atLeastLessThan_iff by linarith
  then have "char_of (of_char c :: nat) \<in> set (map char_of [48 ..< 58 :: nat])" by (metis image_eqI list.set_map)
  moreover have "set (map char_of [48 ..< 58 :: nat]) \<subseteq> set digit_chars" by code_simp
  ultimately show ?thesis by auto
qed

lemma sint_range: "sint (word_of_int i :: 'a :: len word) = i"
  if "- (2 ^ (LENGTH('a) - 1)) \<le> i" "i < 2 ^ (LENGTH('a) - 1)"
  using that by (simp add: sint_uint uint_word_of_int_eq signed_take_bit_take_bit signed_take_bit_int_eq_self)

lemma unat_range: "unat (word_of_int i :: 'a :: len word) = nat i" if "0 \<le> i" "i < 2 ^ LENGTH('a)"
  using that by (simp add: unsigned_of_int take_bit_int_eq_self)

lemma xtoa_eq: "xtoa k True = int_str (sint k)" "xtoa k False = nat_str (unat k)"
  by (simp_all add: xtoa_def xtoa_loop_eq int_str_def sint_neg_unat sint_nonneg_unat)

lemma itoa_fwd2_eq: "itoa_fwd2 i = int_str (sint i)"
  by (simp add: itoa_fwd2_def masked_absolute Let_def itoa2_eq int_str_def sint_neg_unat sint_nonneg_unat)

lemma to_chars_eq: "int_ok bytes sg i \<Longrightarrow> to_chars bytes sg i = int_str i"
proof -
  assume "int_ok bytes sg i"
  then consider "bytes = 1" "- 128 \<le> i" "i < 256" | "bytes = 2" "in_int_range 2 sg i" | "bytes = 4" "in_int_range 4 sg i"
    | "bytes = 8" "in_int_range 8 sg i"
    by (auto simp: int_ok_def in_int_range_def split: if_splits)
  then show ?thesis
  proof cases
    case 1
    then show ?thesis using sint_range [of i, where ?'a = 32] by (simp add: to_chars_def itoa_fwd4_eq)
  next
    case 2
    then show ?thesis using sint_range [of i, where ?'a = 16] unat_range [of i, where ?'a = 16]
      by (simp add: to_chars_def in_int_range_def itoa_fwd2_eq itoa2_eq int_str_def split: if_splits)
  next
    case 3
    then show ?thesis using sint_range [of i, where ?'a = 32] unat_range [of i, where ?'a = 32]
      by (simp add: to_chars_def in_int_range_def itoa_fwd4_eq itoa4_eq int_str_def split: if_splits)
  next
    case 4
    then show ?thesis using sint_range [of i, where ?'a = 64] unat_range [of i, where ?'a = 64]
      by (cases sg) (simp_all add: to_chars_def in_int_range_def xtoa_eq int_str_def split: if_splits)
  qed
qed

lemma take_digits_follows: "follows s \<Longrightarrow> takeWhile isdigit_c (nat_str n @ s) = nat_str n"
  using follows_digit [of s] by (cases s) (auto simp: takeWhile_append nat_str_digits)

lemma from_chars_printed:
  assumes "in_int_range bytes sg i" "follows s"
  shows "from_chars bytes sg (int_str i @ s) = Some (i, s)"
proof (cases "i < 0")
  case True
  then have "sg" using assms(1) by (simp add: in_int_range_def split: if_splits)
  then show ?thesis using True assms take_digits_follows [OF assms(2), of "nat (- i)"]
    by (simp add: from_chars_def int_str_def Let_def)
next
  case False
  have "hd (nat_str (nat i)) \<noteq> CHR ''-''" using nat_str_hd [of "nat i"] by (auto simp: isdigit_c_def)
  then show ?thesis using False assms take_digits_follows [OF assms(2), of "nat i"]
    by (simp add: from_chars_def int_str_def Let_def)
qed

lemma int_str_start: "int_str i \<noteq> []" "hd (int_str i) \<in> set digit_chars"
  using digit_in [OF nat_str_hd] by (simp_all add: int_str_def) (simp add: digit_chars_def)

lemma digit_not_n: "c \<in> set digit_chars \<Longrightarrow> c \<noteq> CHR ''n'' \<and> visible c"
  using visible_chars by (auto simp: digit_chars_def)

lemma read_number_printed:
  assumes "w \<noteq> []" "hd w \<in> set digit_chars" "scan (w @ s) = Some (v, s)" "follows s"
  shows "read_number scan mk old (w @ s) = Inr (mk v, s)"
  using assms digit_not_n [OF assms(2)] visible_hd [OF assms(1)] follows_number [OF assms(4)]
  by (simp add: read_number_def)

definition reads :: "'v json_reader \<Rightarrow> 'v \<Rightarrow> 'v \<Rightarrow> nat \<Rightarrow> string \<Rightarrow> bool" where
  "reads read new v n w \<longleftrightarrow> (\<forall>rest. follows rest \<and> length (w @ rest) < n \<longrightarrow> read new (w @ rest) = Inr (v, rest))"

text \<open>A text that begins as the type says and that the reader of the type turns into the value.\<close>

definition text_for :: "'d json_env \<Rightarrow> json_type \<Rightarrow> 'd json_value \<Rightarrow> string \<Rightarrow> bool" where
  "text_for E t v w \<longleftrightarrow> w \<noteq> [] \<and> hd w \<in> set (start_chars t) \<and> (hd w = CHR ''n'' \<longrightarrow> null_text v)
     \<and> (\<forall>n. reads (from_json_any E (from_json_depth n E) t) (default_json E t) v n w)"

lemma text_forI:
  assumes "w \<noteq> []" "hd w \<in> set (start_chars t)" "hd w = CHR ''n'' \<longrightarrow> null_text v"
    "\<And>n rest. follows rest \<Longrightarrow> length (w @ rest) < n \<Longrightarrow>
      from_json_any E (from_json_depth n E) t (default_json E t) (w @ rest) = Inr (v, rest)"
  shows "text_for E t v w"
  using assms by (simp add: text_for_def reads_def)

lemma quote_not_n: "quote \<noteq> CHR ''n''" by (simp add: quote_def)

lemma bool_text: "text_for E J_bool (JV_bool b) (if b then ''true'' else ''false'')"
  by (rule text_forI)
    (cases b; simp add: read_bool_def match_chars_def skip_ws_visible visible_def)+

lemma match_first [simp]: "match_chars [c] (c # s) = Inr s"
  by (simp add: match_chars_def)

lemma skip_ws_quote_any [simp]: "skip_ws (quote # s) = Inr (quote # s)"
  by (rule skip_ws_visible) (rule visible_chars)

lemma char_text: "c \<noteq> backslash_c \<Longrightarrow> text_for E J_char (JV_char c) [quote, c, quote]"
  by (rule text_forI) (simp_all add: quote_not_n fst_map_def read_char_def read_char_body_def)

lemma number_text:
  assumes "int_ok bytes sg i"
  shows "text_for E (J_int bytes sg) (JV_int i) (to_chars bytes sg i)"
proof (rule text_forI)
  have r: "in_int_range bytes sg i" using assms by (simp add: int_ok_def)
  show "to_chars bytes sg i \<noteq> []" "hd (to_chars bytes sg i) \<in> set (start_chars (J_int bytes sg))"
    "hd (to_chars bytes sg i) = CHR ''n'' \<longrightarrow> null_text (JV_int i)"
    using int_str_start [of i] digit_not_n by (auto simp: to_chars_eq [OF assms])
  show "from_json_any E (from_json_depth n E) (J_int bytes sg) (default_json E (J_int bytes sg)) (to_chars bytes sg i @ rest)
    = Inr (JV_int i, rest)" if "follows rest" for n rest
    using read_number_printed [where mk = JV_int and scan = "from_chars bytes sg", OF int_str_start from_chars_printed [OF r that] that]
    by (simp add: to_chars_eq [OF assms])
qed

lemma double_text:
  assumes "doubles_ok E printable" "printable d"
  shows "text_for E J_double (JV_double d) (print_double E d)"
proof (rule text_forI)
  have d: "print_double E d \<noteq> []" "hd (print_double E d) \<in> set digit_chars"
    using assms follows_simps(1) unfolding doubles_ok_def by blast+
  then show "print_double E d \<noteq> []" "hd (print_double E d) \<in> set (start_chars J_double)"
    "hd (print_double E d) = CHR ''n'' \<longrightarrow> null_text (JV_double d)"
    using digit_not_n by auto
  fix n and rest :: string assume "follows rest"
  moreover from this have "scan_double E (print_double E d @ rest) = Some (d, rest)"
    using assms by (auto simp: doubles_ok_def)
  ultimately show "from_json_any E (from_json_depth n E) J_double (default_json E J_double) (print_double E d @ rest)
    = Inr (JV_double d, rest)"
    using read_number_printed [where mk = JV_double, OF d] by simp
qed

lemma read_string_body: "read_string (quote # s) = read_body [] s"
  by (simp add: read_string_def quote_not_n)

lemma string_text:
  assumes "basic_text t"
  obtains w where "string_json True t = Inr (quote # w @ [quote])" "text_for E J_string (JV_text t) (quote # w @ [quote])"
    "\<And>rest. read_body [] (w @ quote # rest) = Inr (t, rest)"
proof -
  obtain w where w: "write_string_with_escape t = Inr w" "\<And>rest. read_string (quote # w @ quote # rest) = Inr (t, rest)"
    using assms by (auto elim: basic_text_written)
  have "text_for E J_string (JV_text t) (quote # w @ [quote])"
    by (rule text_forI) (simp_all add: quote_not_n fst_map_def w(2))
  moreover have "read_body [] (w @ quote # rest) = Inr (t, rest)" for rest
    using w(2) [of rest] by (simp add: read_string_body)
  ultimately show thesis using that [of w] w(1) by (simp add: string_json_def)
qed

lemma write_plain_char:
  "32 \<le> (of_char c :: nat) \<Longrightarrow> c \<noteq> quote \<Longrightarrow> c \<noteq> backslash_c \<Longrightarrow> write_plain c = [c]"
  by (simp add: write_plain_def escape_of_def)

lemma write_plain_text: "plain_text t \<Longrightarrow> write_string_with_escape t = Inr t"
  by (induction t) (auto simp: plain_text_def write_plain_char)

lemma plain_string_json: "plain_text t \<Longrightarrow> string_json True t = Inr (quote # t @ [quote])"
  by (simp add: string_json_def write_plain_text)

lemma view_loop_plain: "plain_text t \<Longrightarrow> view_loop [] (t @ quote # rest) = Inr (t, rest)"
proof -
  assume t: "plain_text t"
  have "scan_to (\<lambda>c. c = quote) (t @ quote # rest) = scan_to (\<lambda>c. c = quote) (quote # rest)"
    using t by (intro scan_to_skip) (auto simp: plain_text_def)
  moreover have "t = [] \<or> last t \<noteq> backslash_c" using t by (auto simp: plain_text_def)
  ultimately show ?thesis
    by (subst view_loop.simps) (simp add: skip_till_qoute_eq scan_to_def)
qed

lemma read_view_plain: "plain_text t \<Longrightarrow> read_view (quote # t @ quote # rest) = Inr (t, rest)"
  by (simp add: read_view_def view_loop_plain)

lemma view_text: "plain_text t \<Longrightarrow> text_for E J_view (JV_text t) (quote # t @ [quote])"
  by (rule text_forI) (simp_all add: quote_not_n fst_map_def read_view_plain)

lemma enum_text:
  assumes "enum_ok names i"
  obtains w where "enum_json True (Some names) bytes sg i = Inr w" "text_for E (J_enum (Some names) bytes sg) (JV_int i) w"
proof -
  obtain name j where n: "List.find (\<lambda>(name, v). v = i) names = Some (name, j)" "plain_text name" "map_of names name = Some i"
    using assms by (auto simp: enum_ok_def split: option.splits)
  have "text_for E (J_enum (Some names) bytes sg) (JV_int i) (quote # name @ [quote])"
    by (rule text_forI) (simp_all add: quote_not_n read_enum_def read_view_plain n)
  then show thesis using that n by (simp add: enum_json_def plain_string_json)
qed

lemma numeric_visible: "is_numeric c \<Longrightarrow> c \<in> set (start_chars J_numeric_str)"
proof (cases "isdigit_c c")
  case True
  then show ?thesis using digit_in [of c] by simp
next
  case False
  assume "is_numeric c"
  then show ?thesis using False by (auto simp: is_numeric_def digit_chars_def)
qed

lemma follows_not_numeric: "follows s \<Longrightarrow> s = [] \<or> \<not> is_numeric (hd s)"
  by (auto simp: follows_def is_numeric_def isdigit_c_def)

lemma numeric_text:
  assumes "t \<noteq> []" "list_all is_numeric t"
  shows "text_for E J_numeric_str (JV_text t) t"
proof (rule text_forI)
  have h: "is_numeric (hd t)" using assms by (cases t) auto
  then show "hd t \<in> set (start_chars J_numeric_str)" by (rule numeric_visible)
  show "hd t = CHR ''n'' \<longrightarrow> null_text (JV_text t)" using h by (auto simp: is_numeric_def isdigit_c_def)
  fix n and rest :: string assume r: "follows rest"
  have "takeWhile is_numeric (t @ rest) = t" "dropWhile is_numeric (t @ rest) = rest"
    using assms(2) follows_not_numeric [OF r]
    by (cases rest; simp add: list_all_iff takeWhile_append dropWhile_append)+
  then show "from_json_any E (from_json_depth n E) J_numeric_str (default_json E J_numeric_str) (t @ rest) = Inr (JV_text t, rest)"
    using visible_hd [OF assms(1) visible_start [OF numeric_visible [OF h]]]
    by (simp add: fst_map_def read_numeric_str_def)
qed (rule assms(1))

lemma chars_loop_written:
  "length u \<le> k \<Longrightarrow> quote \<notin> set u \<Longrightarrow> backslash_c \<notin> set u \<Longrightarrow>
    chars_loop (replicate k CHR 0x00) (u @ quote # rest) = Inr (u @ replicate (k - length u) CHR 0x00, quote # rest)"
proof (induction u arbitrary: k)
  case Nil
  show ?case by (induction k) (simp_all add: peek_def)
next
  case (Cons c u)
  then obtain j where "k = Suc j" "length u \<le> j" by (cases k) auto
  moreover have "c \<noteq> quote" "c \<noteq> backslash_c" using Cons.prems by auto
  ultimately show ?case using Cons by (simp add: peek_def read_char_body_def)
qed

lemma chars_text:
  assumes "text_ok (J_chars n) t"
  shows "text_for E (J_chars n) (JV_text t) (chars_json t)"
proof (rule text_forI)
  let ?u = "takeWhile (\<lambda>c. c \<noteq> CHR 0x00) t" and ?z = "dropWhile (\<lambda>c. c \<noteq> CHR 0x00) t"
  have z: "?z = replicate (n - length ?u) CHR 0x00"
  proof (rule replicate_eqI)
    show "length ?z = n - length ?u"
      using assms length_append [of ?u ?z] by (simp only: takeWhile_dropWhile_id text_ok.simps)
    show "c = CHR 0x00" if "c \<in> set ?z" for c using that assms unfolding text_ok.simps list_all_iff by blast
  qed
  have "length ?u \<le> n" "quote \<notin> set ?u" "backslash_c \<notin> set ?u"
    using assms length_takeWhile_le [of _ t] by (auto dest: set_takeWhileD)
  then have "chars_loop (replicate n CHR 0x00) (?u @ quote # rest) = Inr (t, quote # rest)" for rest
    using chars_loop_written [of ?u n rest] z takeWhile_dropWhile_id [of "\<lambda>c. c \<noteq> CHR 0x00" t] by simp
  then show "from_json_any E (from_json_depth k E) (J_chars n) (default_json E (J_chars n)) (chars_json t @ rest) = Inr (JV_text t, rest)" for k rest
    by (simp add: fst_map_def read_chars_def chars_json_def peek_def)
qed (simp_all add: chars_json_def quote_not_n)

end
