(* ===== verification/Iguana_Json_Roundtrip.thy ===== *)
theory Iguana_Json_Roundtrip
  imports Iguana_Json_Values
begin

text \<open>
  The text that iguana writes for a value of any type is read back as the value, \<^verbatim>\<open>iguana/json_writer.hpp\<close> and
  \<^verbatim>\<open>iguana/json_reader.hpp\<close>: one lemma for each kind of composed type, and the induction on the value.
\<close>

section \<open>Arrays, maps and structs\<close>

abbreviation reader :: "'d json_env \<Rightarrow> nat \<Rightarrow> json_type \<Rightarrow> 'd json_value json_reader" where
  "reader E n t \<equiv> from_json_any E (from_json_depth n E) t"

lemma text_read:
  "text_for E t v w \<Longrightarrow> follows rest \<Longrightarrow> length w + length rest < n \<Longrightarrow> reader E n t (default_json E t) (w @ rest) = Inr (v, rest)"
  by (simp add: text_for_def reads_def)

lemma text_hd: "text_for E t v w \<Longrightarrow> hd w \<in> set (start_chars t) \<and> w \<noteq> []"
  by (simp add: text_for_def)

lemma text_ws: "text_for E t v w \<Longrightarrow> skip_ws (w @ s) = Inr (w @ s)"
  using text_hd [of E t v w] by (intro visible_hd) (auto intro: visible_start)

lemma start_not_close: "c \<in> set (start_chars t) \<Longrightarrow> c \<notin> set '']},:''"
  by (induction t) (auto simp: digit_chars_def quote_def split: if_splits)

lemma text_not_close: "text_for E t v w \<Longrightarrow> hd w \<noteq> CHR '']'' \<and> hd w \<noteq> CHR ''}'' \<and> w \<noteq> []"
  using text_hd [of E t v w] start_not_close [of "hd w" t] by auto

lemma join_Cons: "join d (w # ws) = w @ concat (map ((#) d) ws)"
  by (induction ws arbitrary: w) auto

lemma skip_ws_bracket [simp]:
  "skip_ws (CHR '']'' # s) = Inr (CHR '']'' # s)" "skip_ws (CHR '','' # s) = Inr (CHR '','' # s)"
  "skip_ws (CHR ''['' # s) = Inr (CHR ''['' # s)" "skip_ws (CHR ''{'' # s) = Inr (CHR ''{'' # s)"
  "skip_ws (CHR ''}'' # s) = Inr (CHR ''}'' # s)" "skip_ws (CHR '':'' # s) = Inr (CHR '':'' # s)"
  by (rule skip_ws_visible, simp add: visible_def)+

abbreviation more :: "string list \<Rightarrow> string" where
  "more ws \<equiv> concat (map ((#) CHR '','') ws)"

lemma more_follows [simp]: "c \<in> set '']}'' \<Longrightarrow> follows (more ws @ c # rest)"
  by (cases ws) (auto simp: follows_def)

lemma more_ws [simp]: "c \<in> set '']}'' \<Longrightarrow> skip_ws (more ws @ c # rest) = Inr (more ws @ c # rest)"
  by (rule follows_visible) simp

lemma items_written:
  "list_all2 (text_for E t) vs ws \<Longrightarrow> length (more ws @ CHR '']'' # rest) < n \<Longrightarrow>
    items_loop (reader E n t) (default_json E t) False val (more ws @ CHR '']'' # rest) = Inr (val @ vs, rest)"
proof (induction vs arbitrary: ws val)
  case Nil
  then show ?case by (subst items_loop.simps) simp
next
  case (Cons v vs)
  then obtain w us where ws: "ws = w # us" "text_for E t v w" "list_all2 (text_for E t) vs us"
    by (auto simp: list_all2_Cons1)
  have "reader E n t (default_json E t) (w @ more us @ CHR '']'' # rest) = Inr (v, more us @ CHR '']'' # rest)"
    using Cons.prems(2) ws by (intro text_read) auto
  then show ?case using Cons ws by (subst items_loop.simps) simp
qed

lemma sequence_text:
  assumes "list_all2 (text_for E t) vs ws"
  shows "text_for E (J_sequence t) (JV_list vs) (''['' @ join CHR '','' ws @ '']'')"
proof (rule text_forI)
  fix n and rest :: string
  assume n: "length ((''['' @ join CHR '','' ws @ '']'') @ rest) < n" and r: "follows rest"
  have "items_loop (reader E n t) (default_json E t) True [] (join CHR '','' ws @ CHR '']'' # rest) = Inr (vs, rest)"
  proof (cases vs)
    case Nil
    then show ?thesis using assms by (subst items_loop.simps) simp
  next
    case (Cons v us)
    then obtain w xs where ws: "ws = w # xs" "text_for E t v w" "list_all2 (text_for E t) us xs"
      using assms by (auto simp: list_all2_Cons1)
    have "reader E n t (default_json E t) (w @ more xs @ CHR '']'' # rest) = Inr (v, more xs @ CHR '']'' # rest)"
      using n ws by (intro text_read) (auto simp: join_Cons)
    then show ?thesis
      using Cons ws n items_written [OF ws(3), of rest n "[v]"] text_not_close [OF ws(2)]
      by (subst items_loop.simps) (simp add: join_Cons)
  qed
  moreover have "skip_ws (join CHR '','' ws @ CHR '']'' # rest) = Inr (join CHR '','' ws @ CHR '']'' # rest)"
    using assms by (cases ws) (auto simp: join_Cons list_all2_Cons2 text_ws)
  ultimately show "reader E n (J_sequence t) (default_json E (J_sequence t)) ((''['' @ join CHR '','' ws @ '']'') @ rest)
    = Inr (JV_list vs, rest)"
    by (simp add: fst_map_def read_sequence_def)
qed simp_all


lemma array_loop_written:
  "list_all2 (text_for E t) vs ws \<Longrightarrow> vs \<noteq> [] \<Longrightarrow> length (join CHR '','' ws @ CHR '']'' # rest) < n \<Longrightarrow>
    array_loop (reader E n t) (replicate (length vs) (default_json E t)) (join CHR '','' ws @ CHR '']'' # rest) = Inr (vs, rest)"
proof (induction vs arbitrary: ws)
  case (Cons v vs)
  then obtain w us where ws: "ws = w # us" "text_for E t v w" "list_all2 (text_for E t) vs us"
    by (auto simp: list_all2_Cons1)
  have r: "reader E n t (default_json E t) (w @ more us @ CHR '']'' # rest) = Inr (v, more us @ CHR '']'' # rest)"
    using Cons.prems(3) ws by (intro text_read) (auto simp: join_Cons)
  show ?case
  proof (cases us)
    case Nil
    then show ?thesis using r ws by simp
  next
    case us: (Cons x xs)
    then have j: "more us = CHR '','' # join CHR '','' us" by (simp add: join_Cons)
    obtain v' vs' where vs: "vs = v' # vs'" "text_for E t v' x" using ws(3) us by (auto simp: list_all2_Cons2)
    have "skip_ws (join CHR '','' us @ CHR '']'' # rest) = Inr (join CHR '','' us @ CHR '']'' # rest)"
      using us text_ws [OF vs(2)] by (simp add: join_Cons)
    moreover have "array_loop (reader E n t) (replicate (length vs) (default_json E t)) (join CHR '','' us @ CHR '']'' # rest) = Inr (vs, rest)"
    proof (rule Cons.IH [OF ws(3)])
      show "vs \<noteq> []" using vs by simp
      show "length (join CHR '','' us @ CHR '']'' # rest) < n"
        using Cons.prems(3) unfolding ws(1) join_Cons j by simp
    qed
    ultimately show ?thesis using r ws j us by (simp add: join_Cons)
  qed
qed simp

lemma array_text:
  assumes "list_all2 (text_for E t) vs ws" "vs \<noteq> []" "length vs = k"
  shows "text_for E (J_array k t) (JV_list vs) (''['' @ join CHR '','' ws @ '']'')"
proof (rule text_forI)
  fix n and rest :: string
  assume n: "length ((''['' @ join CHR '','' ws @ '']'') @ rest) < n"
  obtain v us w xs where ws: "vs = v # us" "ws = w # xs" "text_for E t v w"
    using assms(1,2) by (cases vs) (auto simp: list_all2_Cons1)
  have "hd (join CHR '','' ws @ CHR '']'' # rest) \<noteq> CHR '']''"
    "skip_ws (join CHR '','' ws @ CHR '']'' # rest) = Inr (join CHR '','' ws @ CHR '']'' # rest)"
    using text_not_close [OF ws(3)] text_ws [OF ws(3)] ws(2) by (simp_all add: join_Cons)
  then show "reader E n (J_array k t) (default_json E (J_array k t)) ((''['' @ join CHR '','' ws @ '']'') @ rest)
    = Inr (JV_list vs, rest)"
    using array_loop_written [OF assms(1,2), of rest n] n assms(3) by (simp add: fst_map_def read_array_def)
qed simp_all

lemma tuple_loop_written:
  "list_all2 (\<lambda>(t, v) w. text_for E t v w) (zip ts vs) ws \<Longrightarrow> length ts = length vs \<Longrightarrow>
    length (more ws @ CHR '']'' # rest) < n \<Longrightarrow>
    tuple_loop (map (reader E n) ts) False (map (default_json E) ts) (more ws @ CHR '']'' # rest) = Inr (vs, CHR '']'' # rest)"
proof (induction ts arbitrary: vs ws)
  case (Cons t ts)
  then obtain v us where vs: "vs = v # us" by (cases vs) auto
  with Cons.prems obtain w xs where ws: "ws = w # xs" "text_for E t v w" "list_all2 (\<lambda>(t, v) w. text_for E t v w) (zip ts us) xs"
    by (auto simp: list_all2_Cons1)
  have "reader E n t (default_json E t) (w @ more xs @ CHR '']'' # rest) = Inr (v, more xs @ CHR '']'' # rest)"
    using Cons.prems(3) ws by (intro text_read) auto
  then show ?case using Cons ws vs text_ws [OF ws(2)] by simp
qed simp

lemma tuple_text:
  assumes "list_all2 (\<lambda>(t, v) w. text_for E t v w) (zip ts vs) ws" "length ts = length vs"
  shows "text_for E (J_tuple ts) (JV_list vs) (''['' @ join CHR '','' ws @ '']'')"
proof (rule text_forI)
  fix n and rest :: string
  assume n: "length ((''['' @ join CHR '','' ws @ '']'') @ rest) < n"
  have "tuple_loop (map (reader E n) ts) True (map (default_json E) ts) (join CHR '','' ws @ CHR '']'' # rest) = Inr (vs, CHR '']'' # rest)
    \<and> skip_ws (join CHR '','' ws @ CHR '']'' # rest) = Inr (join CHR '','' ws @ CHR '']'' # rest)"
  proof (cases ts)
    case Nil
    then show ?thesis using assms by simp
  next
    case (Cons t us)
    with assms(2) obtain v zs where vs: "vs = v # zs" by (cases vs) auto
    with Cons assms obtain w xs where ws: "ws = w # xs" "text_for E t v w"
        "list_all2 (\<lambda>(t, v) w. text_for E t v w) (zip us zs) xs" "length us = length zs"
      by (auto simp: list_all2_Cons1)
    have "reader E n t (default_json E t) (w @ more xs @ CHR '']'' # rest) = Inr (v, more xs @ CHR '']'' # rest)"
      using n ws by (intro text_read) (auto simp: join_Cons)
    then show ?thesis
      using Cons ws vs n tuple_loop_written [OF ws(3,4), of rest n] text_not_close [OF ws(2)] text_ws [OF ws(2)]
      by (simp add: join_Cons)
  qed
  then show "reader E n (J_tuple ts) (default_json E (J_tuple ts)) ((''['' @ join CHR '','' ws @ '']'') @ rest)
    = Inr (JV_list vs, rest)"
    by (simp add: fst_map_def read_tuple_def)
qed simp_all


definition entry_for :: "'d json_env \<Rightarrow> json_type \<Rightarrow> string \<Rightarrow> 'd json_value \<Rightarrow> string \<Rightarrow> bool" where
  "entry_for E t k v e \<longleftrightarrow> plain_key k \<and> (\<exists>w. e = write_json_key k @ '':'' @ w \<and> text_for E t v w)"

lemma plain_key_name: "plain_key k \<Longrightarrow> plain_name k"
  by (auto simp: plain_key_def plain_text_def plain_name_def)

lemma get_key_entry: "plain_key k \<Longrightarrow> get_key (write_json_key k @ s) = Inr (k, s)"
  by (rule get_key_written [OF plain_key_name])

lemma entry_visible [simp]: "skip_ws (write_json_key k @ s) = Inr (write_json_key k @ s)"
  by (simp add: write_json_key_def)

lemma entry_hd: "hd (write_json_key k @ s) = quote" "write_json_key k \<noteq> []"
  by (simp_all add: write_json_key_def)

lemma quote_not_brace: "quote \<noteq> CHR ''}''" by (simp add: quote_def)

lemma map_assign_new: "k \<notin> fst ` set val \<Longrightarrow> map_assign k v val = val @ [(k, v)]"
  by (induction val) auto

lemma map_entry_step:
  assumes "entry_for E t k v e" "k \<notin> fst ` set val" "follows s" "length e + length s < n" "(if first then Inr u else match_chars '','' u) = Inr (e @ s)"
    "u \<noteq> []" "hd u \<noteq> CHR ''}''" "length s < length u"
  shows "map_loop (reader E n t) (default_json E t) first val u = map_loop (reader E n t) (default_json E t) False (val @ [(k, v)]) s"
proof -
  obtain w where w: "e = write_json_key k @ '':'' @ w" "text_for E t v w" and k: "plain_key k"
    using assms(1) by (auto simp: entry_for_def)
  have "reader E n t (default_json E t) (w @ s) = Inr (v, s)"
    using assms(4) w by (intro text_read [OF w(2) assms(3)]) simp
  moreover have "map_of val k = None" using assms(2) by (simp add: map_of_eq_None_iff)
  moreover have "get_key (e @ s) = Inr (k, CHR '':'' # w @ s)" using get_key_entry [OF k] w(1) by simp
  ultimately show ?thesis using assms(2,5-8) follows_visible [OF assms(3)]
    by (subst map_loop.simps) (simp add: map_assign_new)
qed

lemma map_loop_written:
  "list_all2 (\<lambda>(k, v). entry_for E t k v) kvs es \<Longrightarrow> distinct (map fst (val @ kvs)) \<Longrightarrow> length (more es @ CHR ''}'' # rest) < n \<Longrightarrow>
    map_loop (reader E n t) (default_json E t) False val (more es @ CHR ''}'' # rest) = Inr (val @ kvs, rest)"
proof (induction kvs arbitrary: es val)
  case Nil
  then show ?case by (subst map_loop.simps) simp
next
  case (Cons kv kvs)
  then obtain k v e us where es: "kv = (k, v)" "es = e # us" "entry_for E t k v e" "list_all2 (\<lambda>(k, v). entry_for E t k v) kvs us"
    by (cases kv) (auto simp: list_all2_Cons1)
  have "map_loop (reader E n t) (default_json E t) False val (more es @ CHR ''}'' # rest)
    = map_loop (reader E n t) (default_json E t) False (val @ [(k, v)]) (more us @ CHR ''}'' # rest)"
    using Cons.prems(2,3) es by (intro map_entry_step [OF es(3)]) auto
  then show ?case using Cons.IH [OF es(4), of "val @ [(k, v)]"] Cons.prems(2,3) es by simp
qed

lemma map_text:
  assumes "list_all2 (\<lambda>(k, v). entry_for E t k v) kvs es" "distinct (map fst kvs)"
  shows "text_for E (J_map t) (JV_map kvs) (''{'' @ join CHR '','' es @ ''}'')"
proof (rule text_forI)
  fix n and rest :: string
  assume n: "length ((''{'' @ join CHR '','' es @ ''}'') @ rest) < n" and r: "follows rest"
  have "map_loop (reader E n t) (default_json E t) True [] (join CHR '','' es @ CHR ''}'' # rest) = Inr (kvs, rest)
    \<and> skip_ws (join CHR '','' es @ CHR ''}'' # rest) = Inr (join CHR '','' es @ CHR ''}'' # rest)"
  proof (cases kvs)
    case Nil
    then show ?thesis using assms by (subst map_loop.simps) simp
  next
    case (Cons kv us)
    then obtain k v e xs where es: "kv = (k, v)" "es = e # xs" "entry_for E t k v e" "list_all2 (\<lambda>(k, v). entry_for E t k v) us xs"
      using assms(1) by (cases kv) (auto simp: list_all2_Cons1)
    then have e: "hd e = quote" "e \<noteq> []" "skip_ws (e @ s) = Inr (e @ s)" for s
      by (auto simp: entry_for_def entry_hd)
    have "map_loop (reader E n t) (default_json E t) True [] (join CHR '','' es @ CHR ''}'' # rest)
      = map_loop (reader E n t) (default_json E t) False ([] @ [(k, v)]) (more xs @ CHR ''}'' # rest)"
      using n es e quote_not_brace by (intro map_entry_step [OF es(3)]) (auto simp: join_Cons)
    then show ?thesis using map_loop_written [OF es(4), of "[(k, v)]" rest n] assms(2) n e es Cons by (simp add: join_Cons)
  qed
  then show "reader E n (J_map t) (default_json E (J_map t)) ((''{'' @ join CHR '','' es @ ''}'') @ rest)
    = Inr (JV_map kvs, rest)"
    by (simp add: fst_map_def read_map_def)
qed simp_all

lemma find_member_split:
  "name \<notin> fst ` set pre \<Longrightarrow> find_member name (pre @ (name, t) # post) = Some (length pre, t)"
  by (induction pre) auto

lemma fields_written:
  "text_for E t v w \<Longrightarrow> list_all2 (\<lambda>((k, t), v). entry_for E t k v) (zip post us) es \<Longrightarrow> length post = length us \<Longrightarrow>
    distinct (map fst (pre @ (name, t) # post)) \<Longrightarrow> length done = length pre \<Longrightarrow>
    length ('':'' @ w @ more es @ CHR ''}'' # rest) < n \<Longrightarrow>
    fields_loop E (from_json_depth n E) (pre @ (name, t) # post) name
      (done @ default_json E t # map (\<lambda>(_, t). default_json E t) post) ('':'' @ w @ more es @ CHR ''}'' # rest)
    = Inr (done @ v # us, rest)"
proof (induction post arbitrary: t v w us es pre name "done")
  case Nil
  then have "reader E n t (default_json E t) (w @ CHR ''}'' # rest) = Inr (v, CHR ''}'' # rest)"
    by (intro text_read) auto
  then show ?case using Nil find_member_split [of name pre t "[]"]
    by (subst fields_loop.simps) (simp add: read_field_def nth_append fst_map_def peek_def list_update_append)
next
  case (Cons m post)
  obtain k u where m: "m = (k, u)" by (cases m)
  with Cons.prems obtain x xs e ds where us: "us = x # xs" "es = e # ds" "entry_for E u k x e"
      "list_all2 (\<lambda>((k, t), v). entry_for E t k v) (zip post xs) ds" "length post = length xs"
    by (cases us) (auto simp: list_all2_Cons1)
  then obtain w' where w': "e = write_json_key k @ '':'' @ w'" "text_for E u x w'" "plain_key k"
    by (auto simp: entry_for_def)
  have r: "reader E n t (default_json E t) (w @ more es @ CHR ''}'' # rest) = Inr (v, more es @ CHR ''}'' # rest)"
    using Cons.prems by (intro text_read) auto
  have "fields_loop E (from_json_depth n E) ((pre @ [(name, t)]) @ (k, u) # post) k
      ((done @ [v]) @ default_json E u # map (\<lambda>(_, t). default_json E t) post) ('':'' @ w' @ more ds @ CHR ''}'' # rest)
    = Inr ((done @ [v]) @ x # xs, rest)"
    using Cons.prems us w' m by (intro Cons.IH) auto
  then show ?case using r Cons.prems find_member_split [of name pre t "m # post"] us w' m
    by (subst fields_loop.simps) (simp add: read_field_def nth_append fst_map_def peek_def get_key_entry list_update_append)
qed


lemma struct_text:
  assumes "env_ok E" "list_all2 (\<lambda>((k, t), v). entry_for E t k v) (zip (struct_members E m) vs) es"
    "length (struct_members E m) = length vs"
  shows "text_for E (J_struct m) (JV_struct vs) (''{'' @ join CHR '','' es @ ''}'')"
proof (rule text_forI)
  have c: "constructed E m = map (\<lambda>(_, t). default_json E t) (struct_members E m)" "distinct (map fst (struct_members E m))"
    using assms(1) by (auto simp: env_ok_def)
  fix n and rest :: string
  assume n: "length ((''{'' @ join CHR '','' es @ ''}'') @ rest) < n"
  then obtain k where k: "n = Suc k" by (cases n) auto
  show "reader E n (J_struct m) (default_json E (J_struct m)) ((''{'' @ join CHR '','' es @ ''}'') @ rest) = Inr (JV_struct vs, rest)"
  proof (cases "struct_members E m")
    case Nil
    then show ?thesis using assms(2,3) c(1) k by (simp add: read_struct_def peek_def)
  next
    case (Cons nt ms)
    obtain name t where nt: "nt = (name, t)" by (cases nt)
    with Cons assms(3) obtain v us where vs: "vs = v # us" by (cases vs) auto
    with Cons nt assms(2,3) obtain e ds where es: "es = e # ds" "entry_for E t name v e"
        "list_all2 (\<lambda>((k, t), v). entry_for E t k v) (zip ms us) ds" "length ms = length us"
      by (auto simp: list_all2_Cons1)
    then obtain w where w: "e = write_json_key name @ '':'' @ w" "text_for E t v w" "plain_key name"
      by (auto simp: entry_for_def)
    have "fields_loop E (from_json_depth k E) ([] @ (name, t) # ms) name ([] @ default_json E t # map (\<lambda>(_, t). default_json E t) ms)
        ('':'' @ w @ more ds @ CHR ''}'' # rest) = Inr ([] @ v # us, rest)"
      using n c(2) Cons nt es w k by (intro fields_written) (auto simp: join_Cons)
    moreover have "get_key (join CHR '','' es @ CHR ''}'' # rest) = Inr (name, '':'' @ w @ more ds @ CHR ''}'' # rest)"
      using es w get_key_entry [OF w(3)] by (simp add: join_Cons)
    moreover have "skip_ws (join CHR '','' es @ CHR ''}'' # rest) = Inr (join CHR '','' es @ CHR ''}'' # rest)"
      "peek (join CHR '','' es @ CHR ''}'' # rest) = quote"
      using es w by (simp_all add: join_Cons peek_def write_json_key_def)
    ultimately show ?thesis using c(1) Cons nt vs k quote_not_brace
      by (simp add: read_struct_def fst_map_def)
  qed
qed simp_all

section \<open>Pointers and variants\<close>

lemma null_text_for: "text_for E (J_optional t) (JV_pointer None) ''null''" "text_for E (J_ptr t) (JV_pointer None) ''null''"
proof -
  have "follows rest \<Longrightarrow> rest = [] \<or> hd rest \<noteq> quote" for rest by (auto simp: follows_def quote_def)
  then show "text_for E (J_optional t) (JV_pointer None) ''null''" "text_for E (J_ptr t) (JV_pointer None) ''null''"
    by (intro text_forI; auto simp: read_optional_def read_ptr_def match_chars_def skip_ws_visible visible_def)+
qed

lemma ptr_text:
  assumes "text_for E t v w" "\<not> null_text v"
  shows "text_for E (J_ptr t) (JV_pointer (Some v)) w"
proof (rule text_forI)
  show "w \<noteq> []" "hd w \<in> set (start_chars (J_ptr t))" "hd w = CHR ''n'' \<longrightarrow> null_text (JV_pointer (Some v))"
    using assms(1) by (simp_all add: text_for_def)
  fix n and rest :: string assume "follows rest" "length (w @ rest) < n"
  then have "reader E n t (default_json E t) (w @ rest) = Inr (v, rest)" by (intro text_read [OF assms(1)]) auto
  then show "reader E n (J_ptr t) (default_json E (J_ptr t)) (w @ rest) = Inr (JV_pointer (Some v), rest)"
    using assms text_ws [OF assms(1)] by (auto simp: read_ptr_def text_for_def)
qed

lemma optional_other:
  "t \<noteq> J_string \<Longrightarrow> t \<noteq> J_view \<Longrightarrow> (case t of J_string \<Rightarrow> a | J_view \<Rightarrow> b | _ \<Rightarrow> c) = c"
  by (cases t) simp_all

lemma optional_text:
  assumes "text_for E t v w" "\<not> null_text v" "t \<noteq> J_string" "t \<noteq> J_view"
  shows "text_for E (J_optional t) (JV_pointer (Some v)) w"
proof (rule text_forI)
  show "w \<noteq> []" "hd w \<in> set (start_chars (J_optional t))" "hd w = CHR ''n'' \<longrightarrow> null_text (JV_pointer (Some v))"
    using assms(1) by (simp_all add: text_for_def)
  fix n and rest :: string assume "follows rest" "length (w @ rest) < n"
  then have "reader E n t (default_json E t) (w @ rest) = Inr (v, rest)" by (intro text_read [OF assms(1)]) auto
  then show "reader E n (J_optional t) (default_json E (J_optional t)) (w @ rest) = Inr (JV_pointer (Some v), rest)"
    using assms(1,2) text_ws [OF assms(1)]
    by (auto simp: read_optional_def text_for_def Let_def optional_other [OF assms(3,4)])
qed

lemma optional_words:
  assumes "\<And>rest. read_body [] (w @ quote # rest) = Inr (t, rest)"
  shows "text_for E (J_optional J_string) (JV_pointer (Some (JV_text t))) (quote # w @ [quote])"
  by (rule text_forI) (simp_all add: quote_not_n read_optional_def assms)

lemma optional_view:
  "plain_text t \<Longrightarrow> text_for E (J_optional J_view) (JV_pointer (Some (JV_text t))) (quote # t @ [quote])"
  by (rule text_forI) (simp_all add: quote_not_n read_optional_def view_loop_plain)

lemma take_digits_none: "c \<notin> set digit_chars \<Longrightarrow> from_chars bytes sg (c # s) = None"
  using digit_in [of c] by (auto simp: from_chars_def Let_def digit_chars_def)

lemma read_number_refused:
  "visible c \<Longrightarrow> c \<noteq> CHR ''n'' \<Longrightarrow> scan (c # s) = None \<Longrightarrow> isl (read_number scan mk old (c # s))"
  by (simp add: read_number_def skip_ws_visible)

lemma match_refused: "visible c \<Longrightarrow> c \<noteq> d \<Longrightarrow> isl (rbind (match_chars [d] (c # s)) f)"
  by (simp add: match_chars_def)

lemma isl_fst_map [simp]: "isl (fst_map f r) \<longleftrightarrow> isl r"
  by (cases r) (auto simp: fst_map_def)

lemma isl_rbind: "isl r \<Longrightarrow> isl (rbind r f)"
  by (cases r) simp_all

lemma read_view_refused: "visible c \<Longrightarrow> c \<noteq> quote \<Longrightarrow> isl (read_view (c # s))"
  by (simp add: read_view_def skip_ws_visible match_refused)

lemma refused_read:
  "refuses t c \<Longrightarrow> visible c \<Longrightarrow> isl (reader E n t old (c # s))"
proof (induction t arbitrary: old)
  case (J_int bytes sg)
  then show ?case by (simp add: read_number_refused take_digits_none)
next
  case J_bool
  then show ?case by (simp add: read_bool_def skip_ws_visible)
next
  case J_char
  then show ?case by (simp add: read_char_def skip_ws_visible match_refused)
next
  case J_string
  then show ?case by (simp add: read_string_def skip_ws_visible match_refused)
next
  case J_view
  then show ?case by (simp add: read_view_refused)
next
  case (J_enum names bytes sg)
  then show ?case
    by (cases names) (simp_all add: read_enum_def read_view_refused isl_rbind read_number_refused take_digits_none)
next
  case (J_chars n)
  then show ?case by (simp add: read_chars_def read_array_def peek_def skip_ws_visible match_refused)
next
  case (J_array n t)
  then show ?case by (simp add: read_array_def skip_ws_visible match_refused)
next
  case (J_sequence t)
  then show ?case by (simp add: read_sequence_def skip_ws_visible match_refused)
next
  case (J_map t)
  then show ?case by (simp add: read_map_def skip_ws_visible match_refused)
next
  case (J_tuple ts)
  then show ?case by (simp add: read_tuple_def skip_ws_visible match_refused)
next
  case (J_optional t)
  then have "isl (reader E n t (default_json E t) (c # s))" "c \<noteq> CHR ''n''" "t \<noteq> J_string" "t \<noteq> J_view" by simp_all
  then show ?case using J_optional.prems
    by (simp add: read_optional_def skip_ws_visible Let_def optional_other isl_rbind)
next
  case (J_ptr t)
  then have "isl (reader E n t (default_json E t) (c # s))" "c \<noteq> CHR ''n''" by simp_all
  then show ?case using J_ptr.prems by (simp add: read_ptr_def skip_ws_visible isl_rbind)
next
  case (J_struct m)
  then show ?case
    by (cases n) (simp_all add: read_struct_def skip_ws_visible match_refused)
qed simp_all

lemma variant_text:
  assumes "text_for E (ts ! i) v w" "i < length ts" "\<forall>t \<in> set (take i ts). refuses t (hd w)"
  shows "text_for E (J_variant ts) (JV_variant i v) w"
proof (rule text_forI)
  show "w \<noteq> []" "hd w = CHR ''n'' \<longrightarrow> null_text (JV_variant i v)" using assms(1) by (simp_all add: text_for_def)
  show "hd w \<in> set (start_chars (J_variant ts))"
    using assms(1,2) by (auto simp: text_for_def intro!: bexI [of _ "ts ! i"])
  fix n and rest :: string assume "follows rest" "length (w @ rest) < n"
  then have r: "reader E n (ts ! i) (default_json E (ts ! i)) (w @ rest) = Inr (v, rest)"
    by (intro text_read [OF assms(1)]) auto
  have "visible (hd w)" "w @ rest = hd w # (tl w @ rest)"
    using assms(1) visible_start [of "hd w" "ts ! i"] by (auto simp: text_for_def)
  then have no: "isl (reader E n t old (w @ rest))" if "t \<in> set (take i ts)" for t old
    using refused_read assms(3) that by metis
  have "variant_loop j (zip (map (reader E n) us) (map (default_json E) us)) old (w @ rest) = Inr (JV_variant (j + k) v, rest)"
    if "k < length us" "us ! k = ts ! i" "set (take k us) \<subseteq> set (take i ts)" for j k us old
    using that
  proof (induction us arbitrary: j k)
    case (Cons u us)
    show ?case
    proof (cases k)
      case 0
      then show ?thesis using Cons.prems r by simp
    next
      case (Suc l)
      then have "isl (reader E n u (default_json E u) (w @ rest))" using Cons.prems no by simp
      then show ?thesis using Cons.IH [of l "Suc j"] Cons.prems Suc by (auto simp: isl_def)
    qed
  qed simp
  from this [of i ts 0] assms(2)
  show "reader E n (J_variant ts) (default_json E (J_variant ts)) (w @ rest) = Inr (JV_variant i v, rest)" by simp
qed

section \<open>Written and read back\<close>

definition returns :: "'d json_env \<Rightarrow> json_type \<Rightarrow> 'd json_value \<Rightarrow> bool" where
  "returns E t v \<longleftrightarrow> (\<exists>w. to_json_any E True t v = Inr w \<and> text_for E t v w)"

lemma returnsI: "to_json_any E True t v = Inr w \<Longrightarrow> text_for E t v w \<Longrightarrow> returns E t v"
  by (auto simp: returns_def)

lemmas brackets = array_text [simplified] sequence_text [simplified] tuple_text [simplified] map_text [simplified]
  struct_text [simplified]

lemma items_round:
  "list_all (\<lambda>(t, v). returns E t v) (zip ts vs) \<Longrightarrow>
    \<exists>ws. to_json_items E True ts vs = Inr ws \<and> list_all2 (\<lambda>(t, v) w. text_for E t v w) (zip ts vs) ws"
proof (induction ts arbitrary: vs)
  case (Cons t ts)
  show ?case
  proof (cases vs)
    case v: (Cons v us)
    then obtain w ws where "to_json_any E True t v = Inr w" "text_for E t v w"
        "to_json_items E True ts us = Inr ws" "list_all2 (\<lambda>(t, v) w. text_for E t v w) (zip ts us) ws"
      using Cons.IH [of us] Cons.prems by (auto simp: returns_def)
    then show ?thesis using v by auto
  qed simp
qed simp

lemma zip_same: "list_all2 (\<lambda>(t, v) w. P t v w) (zip (replicate (length vs) t) vs) ws \<longleftrightarrow> list_all2 (P t) vs ws"
  by (induction vs arbitrary: ws) (auto simp: list_all2_Cons1)

lemma same_round:
  assumes "list_all (returns E t) vs"
  obtains ws where "to_json_items E True (replicate (length vs) t) vs = Inr ws" "list_all2 (text_for E t) vs ws"
proof -
  have "list_all (\<lambda>(t, v). returns E t v) (zip (replicate (length vs) t) vs)"
    using assms by (induction vs) simp_all
  from items_round [OF this] show thesis using that by (auto simp: zip_same)
qed

lemma pairs_round:
  "list_all (\<lambda>(k, v). plain_key k \<and> returns E t v) kvs \<Longrightarrow>
    \<exists>es. to_json_pairs E True t kvs = Inr es \<and> list_all2 (\<lambda>(k, v). entry_for E t k v) kvs es"
proof (induction kvs)
  case (Cons kv kvs)
  obtain k v where kv: "kv = (k, v)" by (cases kv)
  then obtain w es where "plain_key k" "to_json_any E True t v = Inr w" "text_for E t v w"
      "to_json_pairs E True t kvs = Inr es" "list_all2 (\<lambda>(k, v). entry_for E t k v) kvs es"
    using Cons by (auto simp: returns_def)
  moreover from this have "entry_for E t k v (write_json_key k @ '':'' @ w)" by (auto simp: entry_for_def)
  ultimately show ?case using kv by (simp add: plain_string_json plain_key_def write_json_key_def)
qed simp

lemma fields_round:
  "list_all (\<lambda>(t, v). returns E t v) (zip (map snd ms) vs) \<Longrightarrow> list_all (\<lambda>(name, _). plain_key name) ms \<Longrightarrow>
    length ms = length vs \<Longrightarrow>
    \<exists>es. to_json_fields E True ms vs = Inr es \<and> list_all2 (\<lambda>((k, t), v). entry_for E t k v) (zip ms vs) es"
proof (induction ms arbitrary: vs)
  case (Cons m ms)
  obtain k t where m: "m = (k, t)" by (cases m)
  obtain v us where vs: "vs = v # us" using Cons.prems by (cases vs) auto
  then obtain w es where "plain_key k" "to_json_any E True t v = Inr w" "text_for E t v w"
      "to_json_fields E True ms us = Inr es" "list_all2 (\<lambda>((k, t), v). entry_for E t k v) (zip ms us) es"
    using Cons.IH [of us] Cons.prems m by (auto simp: returns_def)
  moreover from this have "entry_for E t k v (write_json_key k @ '':'' @ w)" by (auto simp: entry_for_def)
  ultimately show ?case using vs m by simp
qed simp

lemma zipped_round:
  assumes "list_all (\<lambda>(t, v). json_ok E printable t v) (zip ts vs)"
    and "\<And>v t. v \<in> set vs \<Longrightarrow> json_ok E printable t v \<Longrightarrow> returns E t v"
  shows "list_all (\<lambda>(t, v). returns E t v) (zip ts vs)"
  unfolding list_all_iff
proof safe
  fix t v assume "(t, v) \<in> set (zip ts vs)"
  then have "v \<in> set vs" "json_ok E printable t v" using assms(1) by (auto simp: list_all_iff dest: set_zip_rightD)
  then show "returns E t v" by (rule assms(2))
qed

lemma text_round:
  assumes "text_ok t x"
  shows "returns E t (JV_text x)"
proof (cases t)
  case J_string
  then show ?thesis using assms by (auto intro: returnsI elim!: string_text [of x])
next
  case J_view
  then show ?thesis using assms by (auto intro!: returnsI view_text simp: plain_string_json)
next
  case J_numeric_str
  then show ?thesis using assms by (auto intro!: returnsI numeric_text)
next
  case (J_chars n)
  then show ?thesis using assms by (auto intro!: returnsI chars_text)
qed (use assms in simp_all)

lemma optional_text_round:
  assumes "text_ok u x" "u = J_string \<or> u = J_view"
  shows "returns E (J_optional u) (JV_pointer (Some (JV_text x)))"
  using assms(2)
proof
  assume u: "u = J_string"
  with assms(1) have "basic_text x" by simp
  then show ?thesis
  proof (rule string_text [where E = E])
    fix w assume "string_json True x = Inr (quote # w @ [quote])" "\<And>rest. read_body [] (w @ quote # rest) = Inr (x, rest)"
    then show ?thesis unfolding u by (intro returnsI [OF _ optional_words]) simp_all
  qed
next
  assume u: "u = J_view"
  with assms(1) have "plain_text x" by simp
  then show ?thesis unfolding u by (intro returnsI [OF _ optional_view]) (simp_all add: plain_string_json)
qed

lemma int_round:
  "json_ok E printable t (JV_int i) \<Longrightarrow> returns E t (JV_int i)"
proof (cases t)
  case (J_int bytes sg)
  assume "json_ok E printable t (JV_int i)"
  then show ?thesis using J_int by (auto simp: json_ok.simps intro!: returnsI number_text)
next
  case (J_enum names bytes sg)
  assume ok: "json_ok E printable t (JV_int i)"
  show ?thesis
  proof (cases names)
    case None
    have "text_for E t (JV_int i) (to_chars bytes sg i)"
      using number_text [of bytes sg i E] ok None J_enum
      by (simp add: json_ok.simps text_for_def read_enum_def [abs_def])
    then show ?thesis using None J_enum by (auto intro!: returnsI simp: enum_json_def)
  next
    case (Some ns)
    then show ?thesis using ok J_enum by (auto simp: json_ok.simps intro: returnsI elim!: enum_text [of ns i bytes sg E])
  qed
qed (simp_all add: json_ok.simps)

theorem json_round:
  assumes "env_ok E" "doubles_ok E printable"
  shows "json_ok E printable t v \<Longrightarrow> returns E t v"
proof (induction v arbitrary: t)
  case (JV_bool b)
  then show ?case using bool_text [of E b] by (auto simp: json_ok.simps intro!: returnsI)
next
  case (JV_char c)
  then show ?case by (auto simp: json_ok.simps intro!: returnsI char_text)
next
  case (JV_int i)
  then show ?case by (rule int_round)
next
  case (JV_double d)
  then show ?case using assms(2) by (auto simp: json_ok.simps intro!: returnsI double_text)
next
  case (JV_text x)
  then show ?case by (simp add: json_ok.simps text_round)
next
  case (JV_list vs)
  have same: "list_all (json_ok E printable u) vs \<Longrightarrow> list_all (returns E u) vs" for u
    using JV_list.IH by (simp add: list_all_iff)
  show ?case
  proof (cases t)
    case (J_array n u)
    with JV_list.prems same have "list_all (returns E u) vs" "length vs = n" "vs \<noteq> []" by (auto simp: json_ok.simps)
    then show ?thesis using J_array by (auto intro!: returnsI brackets elim!: same_round [of E u vs])
  next
    case (J_sequence u)
    with JV_list.prems same have "list_all (returns E u) vs" by (simp add: json_ok.simps)
    then show ?thesis using J_sequence by (auto intro!: returnsI brackets elim!: same_round [of E u vs])
  next
    case (J_tuple ts)
    with JV_list.prems have l: "length ts = length vs" "list_all (\<lambda>(t, v). returns E t v) (zip ts vs)"
      by (auto simp: json_ok.simps intro: zipped_round [OF _ JV_list.IH])
    from items_round [OF l(2)] show ?thesis using J_tuple l(1) by (auto intro!: returnsI brackets)
  qed (use JV_list.prems in \<open>simp_all add: json_ok.simps\<close>)
next
  case (JV_map kvs)
  then obtain u where t: "t = J_map u" by (cases t) (simp_all add: json_ok.simps)
  with JV_map have "list_all (\<lambda>(k, v). plain_key k \<and> returns E u v) kvs" "distinct (map fst kvs)"
    by (fastforce simp: json_ok.simps list_all_iff)+
  with pairs_round [of E u kvs] show ?case using t by (auto intro!: returnsI brackets)
next
  case (JV_pointer p)
  show ?case
  proof (cases p)
    case None
    then show ?thesis using JV_pointer.prems
      by (cases t) (auto simp: json_ok.simps intro!: returnsI null_text_for)
  next
    case (Some v)
    consider u where "t = J_ptr u" | u where "t = J_optional u"
      using JV_pointer.prems Some by (cases t) (simp_all add: json_ok.simps)
    then show ?thesis
    proof cases
      case 1
      then have "returns E u v" "\<not> null_text v" using JV_pointer Some by (auto simp: json_ok.simps)
      then show ?thesis using 1 Some by (auto simp: returns_def intro: ptr_text)
    next
      case 2
      then have r: "returns E u v" "\<not> null_text v" "json_ok E printable u v" using JV_pointer Some by (auto simp: json_ok.simps)
      show ?thesis
      proof (cases "u = J_string \<or> u = J_view")
        case True
        then obtain x where "v = JV_text x" "text_ok u x" using r(3) by (cases v) (auto simp: json_ok.simps)
        then show ?thesis using True 2 Some optional_text_round by simp
      next
        case False
        then show ?thesis using r(1,2) 2 Some by (auto simp: returns_def intro: optional_text)
      qed
    qed
  qed
next
  case (JV_variant i v)
  then obtain ts where t: "t = J_variant ts" "i < length ts" "returns E (ts ! i) v"
      "\<forall>c \<in> set (start_chars (ts ! i)). \<forall>t \<in> set (take i ts). refuses t c"
    by (cases t) (auto simp: json_ok.simps list_all_iff)
  then show ?case by (auto simp: returns_def intro!: variant_text dest: text_hd)
next
  case (JV_struct vs)
  then obtain m where t: "t = J_struct m" by (cases t) (simp_all add: json_ok.simps)
  with JV_struct.prems have l: "length (struct_members E m) = length vs"
      "list_all (\<lambda>(t, v). returns E t v) (zip (map snd (struct_members E m)) vs)"
    by (auto simp: json_ok.simps intro: zipped_round [OF _ JV_struct.IH])
  have "list_all (\<lambda>(name, _). plain_key name) (struct_members E m)" using assms(1) by (simp add: env_ok_def)
  from fields_round [OF l(2) this l(1)] show ?case using t l(1) assms(1) by (auto intro!: returnsI brackets)
qed



section \<open>A sample\<close>

lemma plain_basic: "plain_text t \<Longrightarrow> basic_text t"
proof -
  assume t: "plain_text t"
  have "utf8 (of_char c) = [c]" if "c \<in> set t" for c
    using utf8_bytes(1) [of "of_char c"] t that by (simp add: plain_text_def)
  then have "concat (map utf8 (map of_char t)) = t" by (induction t) simp_all
  moreover have "scalar (of_char c) \<and> (of_char c :: nat) < 0x10000" if "c \<in> set t" for c
    using t that unfolding plain_text_def scalar_def by fastforce
  ultimately show ?thesis unfolding basic_text_def
    by (intro exI [of _ "map of_char t"]) auto
qed

definition sample_task :: "int json_value" where
  "sample_task = JV_struct
     [JV_int 18446744073709551615, JV_text ''first'', JV_list [JV_text ''a'', JV_text ''b''],
      JV_map [(''low'', JV_double (- 3)), (''high'', JV_double 12)], JV_int 1, JV_pointer (Some (JV_bool True)),
      JV_variant 2 (JV_list [JV_bool True, JV_bool False]),
      JV_pointer (Some (JV_struct [JV_int 7, JV_text [], JV_list [], JV_map [], JV_int 0, JV_pointer None,
        JV_variant 1 (JV_text ''x''), JV_pointer None]))]"

lemma sample_env_ok: "env_ok sample_env"
  by (simp add: env_ok_def sample_env_def sample_members_def plain_key_def plain_text_def quote_def backslash_c_def)

lemma sample_doubles_ok: "doubles_ok sample_env (in_int_range 8 True)"
  using int_str_start from_chars_printed [of 8 True] by (auto simp: doubles_ok_def sample_env_def)

lemma plain_sample: "list_all plain_text [''first'', ''a'', ''b'', ''x'', [], ''open'', ''done'', ''low'', ''high'']"
  by (simp add: plain_text_def quote_def backslash_c_def)

lemma sample_task_ok: "json_ok sample_env (in_int_range 8 True) (J_struct ''task'') sample_task"
  using plain_sample plain_basic
  by (simp add: json_ok.simps sample_task_def sample_env_def sample_members_def int_ok_def in_int_range_def enum_ok_def
      plain_key_def digit_chars_def quote_def)


end
