(* ===== verification/Iguana_Json_Flat.thy ===== *)
theory Iguana_Json_Flat
  imports Iguana_Json_Reader
begin

text \<open>
  The structs of texts and integers of the theory \<open>Iguana_Json\<close>, with which the configuration manager works, are the
  structs of the general writer and reader with members of these two types.
\<close>

lemma rbind_assoc: "rbind (rbind r f) g = rbind r (\<lambda>x. rbind (f x) g)"
  by (cases r) simp_all

fun flat_type :: "jvalue \<Rightarrow> json_type" where
  "flat_type (JStr _) = J_string"
| "flat_type (JInt _) = J_int 4 True"

fun flat_value :: "jvalue \<Rightarrow> 'd json_value" where
  "flat_value (JStr t) = JV_text t"
| "flat_value (JInt i) = JV_int i"

definition flat_members :: "jstruct \<Rightarrow> (string \<times> json_type) list" where
  "flat_members fs = map (\<lambda>(n, v). (n, flat_type v)) fs"

definition flat_values :: "jstruct \<Rightarrow> 'd json_value list" where
  "flat_values fs = map (\<lambda>(_, v). flat_value v) fs"

lemma flat_simps [simp]:
  "flat_members [] = []" "flat_members ((n, v) # fs) = (n, flat_type v) # flat_members fs"
  "flat_values [] = []" "flat_values ((n, v) # fs) = flat_value v # flat_values fs"
  by (simp_all add: flat_members_def flat_values_def)

section \<open>Writing\<close>

lemma flat_member_json: "to_json_any E True (flat_type v) (flat_value v) = to_json_impl v"
  by (cases v) (simp_all add: string_json_def to_chars_def)

lemma flat_fields_json:
  "rbind (to_json_fields E True (flat_members fs) (flat_values fs)) (\<lambda>ws. Inr (join CHR '','' ws)) = to_json_members fs"
proof (induction fs)
  case (Cons f fs)
  obtain n v where f: "f = (n, v)" by (cases f)
  show ?case
  proof (cases "to_json_impl v")
    case (Inr w)
    show ?thesis
    proof (cases "to_json_fields E True (flat_members fs) (flat_values fs)")
      case (Inl e)
      then have "to_json_members fs = Inl e" using Cons by simp
      then show ?thesis using Inl Inr f by (simp add: flat_member_json)
    next
      case ws: (Inr ws)
      then have "to_json_members fs = Inr (join CHR '','' ws)" using Cons by simp
      moreover have "ws = [] \<longleftrightarrow> fs = []" using ws by (cases fs) (auto simp: rbind_Inr_conv)
      ultimately show ?thesis using ws Inr f by (cases ws) (auto simp: flat_member_json)
    qed
  qed (simp add: f flat_member_json)
qed simp

lemma flat_struct_json:
  "struct_members E m = flat_members fs \<Longrightarrow> to_json_struct E True m (flat_values fs) = to_json fs"
  unfolding to_json_struct_def to_json_def flat_fields_json [of E, symmetric]
  by (simp add: rbind_assoc)

section \<open>Reading\<close>

definition flat_result :: "(jstruct \<times> string) result \<Rightarrow> ('d json_value list \<times> string) result" where
  "flat_result r = rbind r (\<lambda>(fs, s). Inr (flat_values fs, s))"

lemma from_chars_flat: "from_chars 4 True s = from_chars_int s"
  by (simp add: from_chars_def from_chars_int_def in_int_range_def Let_def not_le not_less)

lemma flat_read_value:
  "from_json_any E rd (flat_type v) (flat_value v) s = rbind (from_json_impl v s) (\<lambda>(w, r). Inr (flat_value w, r))"
proof (cases v)
  case (JStr t)
  then show ?thesis by (cases "read_string s") (auto simp: fst_map_def)
next
  case (JInt i)
  show ?thesis
  proof (cases "skip_ws s")
    case (Inr u)
    then show ?thesis using JInt
      by (cases "match_chars ''ull'' (tl u)"; cases "from_chars_int u")
        (auto simp: read_number_def read_int_def from_chars_flat)
  qed (simp add: JInt read_number_def read_int_def)
qed

lemma from_json_impl_kind: "from_json_impl v s = Inr (w, r) \<Longrightarrow> flat_type w = flat_type v"
  by (cases v) (auto simp: rbind_Inr_conv)

lemma flat_find:
  "distinct (map fst fs) \<Longrightarrow>
    (case find_member key (flat_members fs) of
       None \<Rightarrow> map_of fs key = None
     | Some (i, t) \<Rightarrow> \<exists>v. map_of fs key = Some v \<and> t = flat_type v \<and> flat_values fs ! i = flat_value v
         \<and> (\<forall>w. flat_values (set_member fs key w) = (flat_values fs)[i := flat_value w]))"
proof (induction fs)
  case (Cons f fs)
  obtain n v where f: "f = (n, v)" by (cases f)
  have "n \<notin> fst ` set fs" using Cons.prems f by simp
  then have other: "set_member fs n w = fs" for w
    by (auto simp: set_member_def image_iff intro!: map_idI)
  have "set_member ((n, v) # fs) key w = (n, if n = key then w else v) # set_member fs key w" for w
    by (simp add: set_member_def)
  then show ?case using Cons f other
    by (cases "find_member key (flat_members fs)") auto
qed (simp add: set_member_def)

lemma flat_field:
  fixes E :: "'d json_env"
  assumes "distinct (map fst fs)"
  shows "read_field E rd (flat_members fs) key (flat_values fs) s = flat_result (read_member fs key s)"
proof (cases "find_member key (flat_members fs)")
  case None
  then show ?thesis using flat_find [OF assms, of key]
    by (auto simp: read_field_def read_member_def flat_result_def rbind_assoc)
next
  case (Some it)
  then obtain i v where "it = (i, flat_type v)" "map_of fs key = Some v" "flat_values fs ! i = (flat_value v :: 'd json_value)"
      "\<And>w. flat_values (set_member fs key w) = ((flat_values fs)[i := flat_value w] :: 'd json_value list)"
    using flat_find [OF assms, of key] by (cases it) auto
  then show ?thesis using Some
    by (cases "from_json_impl v s") (auto simp: read_field_def read_member_def flat_result_def fst_map_def flat_read_value)
qed

lemma read_member_kind:
  assumes "read_member fs key s = Inr (gs, r)" "distinct (map fst fs)"
  shows "flat_members gs = flat_members fs \<and> distinct (map fst gs)"
proof (cases "map_of fs key")
  case None
  then show ?thesis using assms by (auto simp: read_member_def rbind_Inr_conv)
next
  case (Some v)
  then obtain w where w: "gs = set_member fs key w" "flat_type w = flat_type v"
    using assms(1) from_json_impl_kind by (auto simp: read_member_def rbind_Inr_conv)
  have "flat_members (set_member fs key w) = flat_members fs"
    using Some assms(2) w(2)
  proof (induction fs)
    case (Cons f fs)
    obtain n u where f: "f = (n, u)" by (cases f)
    have "n \<notin> fst ` set fs" using Cons.prems(2) f by simp
    then have "set_member fs n w = fs" by (auto simp: set_member_def image_iff intro!: map_idI)
    moreover have "set_member ((n, u) # fs) key w = (n, if n = key then w else u) # set_member fs key w"
      by (simp add: set_member_def)
    ultimately show ?case using Cons f by (cases "n = key") auto
  qed simp
  then show ?thesis using w(1) assms(2) by simp
qed

lemma flat_loop:
  fixes E :: "'d json_env"
  shows "distinct (map fst fs) \<Longrightarrow>
    fields_loop E rd (flat_members fs) key (flat_values fs) s = flat_result (read_members fs key s)"
proof (induction "length s" arbitrary: fs key s rule: less_induct)
  case less
  show ?case
  proof (cases "s = []")
    case True
    then show ?thesis by (subst fields_loop.simps, subst read_members.simps) (simp add: flat_result_def)
  next
    case s: False
    show ?thesis
    proof (cases "rbind (skip_ws s) (match_chars '':'')")
      case (Inl e)
      then have "rbind (skip_ws s) (\<lambda>u. rbind (match_chars '':'' u) f) = Inl e" for f :: "string \<Rightarrow> ('d json_value list \<times> string) result"
        by (simp flip: rbind_assoc)
      then show ?thesis using Inl s by (subst fields_loop.simps, subst read_members.simps) (simp add: flat_result_def)
    next
      case u: (Inr u)
      then have first: "rbind (skip_ws s) (\<lambda>u. rbind (match_chars '':'' u) f) = f u" for f :: "string \<Rightarrow> ('d json_value list \<times> string) result"
        by (simp flip: rbind_assoc)
      have lu: "length u < length s" using u by (auto simp: rbind_Inr_conv dest!: match_shorter skip_ws_shorter)
      show ?thesis
      proof (cases "read_member fs key u")
        case (Inl e)
        then show ?thesis using u s less.prems
          by (subst fields_loop.simps, subst read_members.simps) (simp add: first flat_field flat_result_def)
      next
        case (Inr p)
        obtain gs r where p: "p = (gs, r)" by (cases p)
        have gs: "flat_members gs = flat_members fs" "distinct (map fst gs)"
          using read_member_kind less.prems Inr p by blast+
        have lr: "length r \<le> length u" using read_member_shorter Inr p by blast
        have field: "read_field E rd (flat_members fs) key (flat_values fs) u = Inr (flat_values gs, r)"
          using flat_field [OF less.prems, of E rd key u] Inr p by (simp add: flat_result_def)
        show ?thesis
        proof (cases "skip_ws r")
          case (Inl e)
          then show ?thesis using u s field \<open>read_member fs key u = Inr p\<close> p
            by (subst fields_loop.simps, subst read_members.simps) (simp add: first flat_result_def)
        next
          case t: (Inr t)
          then have lt: "length t \<le> length r" by (rule skip_ws_shorter)
          show ?thesis
          proof (cases "peek t = CHR ''}'' \<or> isl (rbind (match_chars '','' t) get_key)")
            case True
            then show ?thesis using u s field \<open>read_member fs key u = Inr p\<close> p t
              by (cases "match_chars '','' t"; subst fields_loop.simps, subst read_members.simps)
                (auto simp: first flat_result_def isl_def)
          next
            case False
            then obtain x k v where k: "match_chars '','' t = Inr x" "get_key x = Inr (k, v)"
              by (cases "match_chars '','' t"; cases "rbind (match_chars '','' t) get_key") auto
            then have "length v < length s" using lu lr lt by (auto dest!: match_shorter get_key_shorter)
            then have "fields_loop E rd (flat_members gs) k (flat_values gs) v = flat_result (read_members gs k v)"
              using less.hyps gs(2) by blast
            then show ?thesis using u s field \<open>read_member fs key u = Inr p\<close> p t k False gs(1) \<open>length v < length s\<close>
              by (subst fields_loop.simps, subst read_members.simps) (simp add: first)
          qed
        qed
      qed
    qed
  qed
qed

lemma flat_read:
  assumes "struct_members E m = flat_members fs" "distinct (map fst fs)"
  shows "from_json_struct E m (JV_struct (flat_values fs)) s
    = rbind (from_json fs s) (\<lambda>(gs, r). Inr (JV_struct (flat_values gs), r))"
proof -
  have e: "flat_members fs = [] \<longleftrightarrow> fs = []" by (simp add: flat_members_def)
  have "rbind (get_key u) (\<lambda>(key, s). fst_map JV_struct (fields_loop E rd (flat_members fs) key (flat_values fs) s))
    = rbind (rbind (get_key u) (\<lambda>(key, s). read_members fs key s)) (\<lambda>(gs, r). Inr (JV_struct (flat_values gs), r))"
    for u rd
  proof (cases "get_key u")
    case (Inr p)
    then show ?thesis
      by (cases p; cases "read_members fs (fst p) (snd p)")
        (auto simp: flat_loop [OF assms(2)] flat_result_def fst_map_def)
  qed simp
  then show ?thesis
    unfolding from_json_struct_def from_json_depth.simps read_struct_def from_json_def assms(1) rbind_assoc
    by (intro arg_cong [where f = "rbind _"] ext) (simp add: e rbind_assoc)
qed

text \<open>
  The objects of the configuration manager are written and read as the general functions write and read a struct with
  these members, on every text and with the same errors.
\<close>

theorem flat_codec_is_typed:
  assumes "struct_members E m = flat_members fs" "distinct (map fst fs)"
  shows "to_json_struct E True m (flat_values fs) = to_json fs
    \<and> from_json_struct E m (JV_struct (flat_values fs)) s
      = rbind (from_json fs s) (\<lambda>(gs, r). Inr (JV_struct (flat_values gs), r))"
  using flat_struct_json [of E m fs] flat_read [OF assms] assms(1) by simp

end
