(* ===== verification/Iguana_Pb_Wire.thy ===== *)
theory Iguana_Pb_Wire
  imports Mysql_Wire
begin

text \<open>
  The wire format of protobuf messages, \<^verbatim>\<open>iguana/pb_util.hpp\<close> and the skipping of unknown fields in
  \<^verbatim>\<open>iguana/pb_reader.hpp\<close>: variable-length integers, their sizes, zigzag numbers, field keys and lengths.
  A \<^verbatim>\<open>std::string_view\<close> is the list of the bytes left; a decoder returns the rest instead of a position.
\<close>

section \<open>Signed numbers in zigzag order\<close>

definition encode_zigzag32 :: "u32 \<Rightarrow> u32" where
  "encode_zigzag32 v = push_bit 1 v XOR (- drop_bit 31 v)"

definition encode_zigzag64 :: "u64 \<Rightarrow> u64" where
  "encode_zigzag64 v = push_bit 1 v XOR (- drop_bit 63 v)"

definition decode_zigzag64 :: "u64 \<Rightarrow> u64" where
  "decode_zigzag64 u = drop_bit 1 u XOR (- (u AND 1))"

text \<open>The result for 32 bits is computed with 64 and cut when it is assigned.\<close>

definition decode_zigzag32 :: "u32 \<Rightarrow> u32" where
  "decode_zigzag32 u = ucast ((ucast (drop_bit 1 u) :: u64) XOR (- ucast (u AND 1)))"

section \<open>Variable-length integers\<close>

definition varint_error :: "string \<Rightarrow> exn" where
  "varint_error what = Invalid_argument (''Invalid varint value: '' @ what)"

text \<open>The loop over the bytes, at index \<open>i\<close> with the bytes from there on.\<close>

fun decode_loop :: "nat \<Rightarrow> u64 \<Rightarrow> byte list \<Rightarrow> (u64 \<times> byte list) result" where
  "decode_loop i val bs =
     (if i \<ge> 10 then Inl (varint_error ''too many bytes.'')
      else case bs of
        [] \<Rightarrow> Inl (varint_error ''too few bytes.'')
      | b # bs \<Rightarrow>
          if i = 9 \<and> b AND 0xFE \<noteq> 0 then Inl (varint_error ''too many bytes.'')
          else let val = val OR push_bit (7 * i) (ucast (b AND 0x7F))
               in if b AND 0x80 = 0 then Inr (val, bs) else decode_loop (Suc i) val bs)"

declare decode_loop.simps [simp del]

definition decode_varint :: "byte list \<Rightarrow> (u64 \<times> byte list) result" where
  "decode_varint data = (if data = [] then Inl (varint_error ''too few bytes.'') else decode_loop 0 0 data)"

lemma unat_drop7: "unat (drop_bit 7 v :: u64) = unat v div 128"
  by (simp add: unat_drop_bit_eq drop_bit_eq_div [where ?'a = nat])

text \<open>The \<^verbatim>\<open>do\<close> loop of \<^verbatim>\<open>serialize_varint\<close> with the byte behind it.\<close>

function varint_loop :: "u64 \<Rightarrow> byte list" where
  "varint_loop v =
     ucast (v OR 0x80) # (let v = drop_bit 7 v in if v \<ge> 0x80 then varint_loop v else [ucast v])"
  by pat_completeness auto
termination
proof (relation "measure unat")
  fix v x :: u64
  assume "x = drop_bit 7 v" "0x80 \<le> x"
  then have "unat x = unat v div 128" "128 \<le> unat x"
    by (simp_all add: unat_drop7 word_le_nat_alt)
  then show "(x, v) \<in> measure unat" by simp
qed simp

declare varint_loop.simps [simp del]

definition serialize_varint :: "u64 \<Rightarrow> byte list" where
  "serialize_varint v =
     (if v < 0x80 then [ucast v]
      else ucast (v OR 0x80) # (let v = drop_bit 7 v in if v < 0x80 then [ucast v] else varint_loop v))"

text \<open>A key is known at compile time: its bytes are written without a loop.\<close>

fun log_loop :: "nat \<Rightarrow> nat \<Rightarrow> nat" where
  "log_loop value log = (let v = value div 2 in if v = 0 then log else log_loop v (Suc log))"

declare log_loop.simps [simp del]

definition variant_uint32_size_constexpr :: "nat \<Rightarrow> nat" where
  "variant_uint32_size_constexpr value = (if value = 0 then 1 else log_loop value 0 div 7 + 1)"

definition serialize_varint_u32 :: "u32 \<Rightarrow> byte list" where
  "serialize_varint_u32 v =
     (let size = variant_uint32_size_constexpr (unat v)
      in map (\<lambda>i. ucast (drop_bit (7 * i) v OR 0x80)) [0 ..< size - 1] @ [ucast (drop_bit (7 * (size - 1)) v)])"

section \<open>Sizes\<close>

text \<open>\<^verbatim>\<open>__builtin_clz\<close>: the number of leading zero bits.\<close>

definition clz :: "'a::len word \<Rightarrow> nat" where
  "clz n = length (takeWhile (\<lambda>i. \<not> bit n i) (rev [0 ..< LENGTH('a)]))"

definition log2_floor_uint32 :: "u32 \<Rightarrow> u32" where
  "log2_floor_uint32 n = 31 XOR word_of_nat (clz n)"

definition variant_uint32_size :: "u32 \<Rightarrow> nat" where
  "variant_uint32_size value = unat ((log2_floor_uint32 (value OR 1) * 9 + 73) div 64)"

definition log2_floor_uint64 :: "u64 \<Rightarrow> u32" where
  "log2_floor_uint64 n = 63 XOR word_of_nat (clz n)"

definition variant_uint64_size :: "u64 \<Rightarrow> nat" where
  "variant_uint64_size value = unat ((log2_floor_uint64 (value OR 1) * 9 + 73) div 64)"

section \<open>Keys and lengths\<close>

datatype wire_type = Varint | Fixed64 | Length_delimited | Start_group | End_group | Fixed32

fun wire_code :: "wire_type \<Rightarrow> nat" where
  "wire_code Varint = 0"
| "wire_code Fixed64 = 1"
| "wire_code Length_delimited = 2"
| "wire_code Start_group = 3"
| "wire_code End_group = 4"
| "wire_code Fixed32 = 5"

definition wire_of :: "nat \<Rightarrow> wire_type" where
  "wire_of n = [Varint, Fixed64, Length_delimited, Start_group, End_group, Fixed32] ! n"

definition decode_key :: "bool \<Rightarrow> byte list \<Rightarrow> ((nat \<times> wire_type) \<times> byte list) result" where
  "decode_key allow_end_group data =
     rbind (decode_varint data) (\<lambda>(raw_key, rest).
       if raw_key > 0xFFFFFFFF then Inl (Invalid_argument ''Invalid protobuf tag: too large.'')
       else let key = ucast raw_key :: u32; wire = unat (key AND 7); field_number = unat (drop_bit 3 key)
            in if field_number = 0
               then Inl (Invalid_argument ''Invalid protobuf tag: field number must be positive.'')
               else if wire > 5 then Inl (Invalid_argument ''Invalid protobuf tag: unknown wire type.'')
               else if wire_of wire = End_group \<and> \<not> allow_end_group
               then Inl (Invalid_argument ''unexpected end group in protobuf stream'')
               else Inr ((field_number, wire_of wire), rest))"

definition decode_length_delimited :: "string \<Rightarrow> byte list \<Rightarrow> (nat \<times> byte list) result" where
  "decode_length_delimited error pb_str =
     rbind (decode_varint pb_str) (\<lambda>(size, pb_str).
       if unat size > length pb_str then Inl (Invalid_argument error) else Inr (unat size, pb_str))"

section \<open>Variable-length integers as digits\<close>

fun varint :: "nat \<Rightarrow> byte list" where
  "varint n = (if n < 128 then [word_of_nat n] else word_of_nat (n mod 128 + 128) # varint (n div 128))"

declare varint.simps [simp del]

lemma bit_0x80: "bit (0x80 :: 'a::len word) i \<longleftrightarrow> i = 7 \<and> 7 < LENGTH('a)"
proof -
  have "bit (0x80 :: 'a word) i \<longleftrightarrow> bit (push_bit 7 1 :: 'a word) i" by simp
  also have "\<dots> \<longleftrightarrow> 7 \<le> i \<and> i < LENGTH('a) \<and> i - 7 = 0"
    by (simp only: bit_push_bit_iff possible_bit_word bit_1_iff)
  finally show ?thesis by auto
qed

lemma or_high_bit:
  assumes "8 \<le> LENGTH('a :: len)"
  shows "(ucast (v OR 0x80 :: 'a word) :: byte) = word_of_nat (unat v mod 128 + 128)"
proof (rule bit_word_eqI)
  fix i assume i: "i < LENGTH(8)"
  have l: "bit (ucast (v OR 0x80 :: 'a word) :: byte) i \<longleftrightarrow> bit v i \<or> i = 7"
    unfolding bit_ucast_iff bit_or_iff bit_0x80 possible_bit_word using i assms by auto
  have disj: "take_bit 7 (unat v) AND push_bit 7 1 = 0"
    by (rule bit_eqI) (simp only: bit_and_iff bit_take_bit_iff bit_push_bit_iff bit_0, auto)
  have "unat v mod 128 + 128 = take_bit 7 (unat v) + push_bit 7 1" by (simp add: take_bit_eq_mod)
  also have "\<dots> = take_bit 7 (unat v) OR push_bit 7 1" by (rule disjunctive_add_eq_or [OF disj])
  finally have "unat v mod 128 + 128 = take_bit 7 (unat v) OR push_bit 7 1" .
  then have "bit (unat v mod 128 + 128) i \<longleftrightarrow> i < 7 \<and> bit (unat v) i \<or> i = 7"
    by (simp only: bit_or_iff bit_take_bit_iff bit_push_bit_iff bit_1_iff) auto
  moreover have "bit (word_of_nat (unat v mod 128 + 128) :: byte) i \<longleftrightarrow> bit (unat v mod 128 + 128) i"
    unfolding bit_of_nat_iff possible_bit_word using i by blast
  moreover have "bit (unat v) i \<longleftrightarrow> bit v i" by (simp add: bit_unsigned_iff)
  ultimately show "bit (ucast (v OR 0x80 :: 'a word) :: byte) i
      \<longleftrightarrow> bit (word_of_nat (unat v mod 128 + 128) :: byte) i"
    using l i by auto
qed

lemma varint_loop_eq: "0x80 \<le> v \<Longrightarrow> varint_loop v = varint (unat v)"
proof (induction v rule: varint_loop.induct)
  case (1 v)
  have n: "128 \<le> unat v" using 1(2) by (simp add: word_le_nat_alt)
  show ?case
  proof (cases "drop_bit 7 v \<ge> (0x80 :: u64)")
    case True
    then show ?thesis using 1(1) [OF refl True] n
      by (subst varint_loop.simps, subst varint.simps) (simp add: or_high_bit unat_drop7 Let_def)
  next
    case False
    then have s: "unat v div 128 < 128" by (simp add: word_le_nat_alt unat_drop7)
    have "(ucast (drop_bit 7 v) :: byte) = word_of_nat (unat v div 128)"
      by (simp add: unsigned_ucast_eq unat_drop7 [symmetric])
    then show ?thesis using False n s
      by (subst varint_loop.simps, subst varint.simps, subst varint.simps) (simp add: or_high_bit Let_def)
  qed
qed

lemma serialize_varint_eq: "serialize_varint v = varint (unat v)"
proof -
  show ?thesis
  proof (cases "v < 0x80")
    case True
    then show ?thesis by (subst varint.simps) (simp add: serialize_varint_def word_less_nat_alt)
  next
    case False
    then have n: "128 \<le> unat v" by (simp add: word_less_nat_alt)
    show ?thesis
    proof (cases "drop_bit 7 v < (0x80 :: u64)")
      case True
      then have s: "unat v div 128 < 128" by (simp add: word_less_nat_alt unat_drop7)
      have "(ucast (drop_bit 7 v) :: byte) = word_of_nat (unat v div 128)" by (simp add: unat_drop7 [symmetric])
      then show ?thesis using False True n s
        by (subst varint.simps, subst varint.simps) (simp add: serialize_varint_def or_high_bit Let_def)
    next
      case less: False
      then have "varint_loop (drop_bit 7 v) = varint (unat v div 128)"
        using varint_loop_eq [of "drop_bit 7 v"] by (simp add: unat_drop7 not_less)
      then show ?thesis using False less n
        by (subst varint.simps) (simp add: serialize_varint_def or_high_bit Let_def)
    qed
  qed
qed

lemma byte_low7: "(ucast (b AND 0x7F :: byte) :: u64) = word_of_nat (unat b mod 128)"
proof -
  have "b AND 0x7F = take_bit 7 b" by (simp add: take_bit_eq_mask mask_eq_exp_minus_1)
  then have "unat (b AND 0x7F) = take_bit 7 (unat b)" by (simp only: unsigned_take_bit_eq)
  then have "unat (b AND 0x7F) = unat b mod 128" by (simp add: take_bit_eq_mod)
  then show ?thesis by (metis of_nat_unat)
qed

lemma byte_high_bit: "(b :: byte) AND 0x80 = 0 \<longleftrightarrow> unat b < 128"
proof -
  have "b AND 0x80 = 0 \<longleftrightarrow> (\<forall>i. \<not> bit (b AND 0x80) i)" by (metis bit_0_eq bot_apply bot_bool_def bit_eqI)
  also have "\<dots> \<longleftrightarrow> \<not> bit (unat b) 7" 
    unfolding bit_and_iff bit_0x80 bit_unsigned_iff by auto
  also have "\<dots> \<longleftrightarrow> even (unat b div 128)" by (simp add: bit_iff_odd)
  also have "\<dots> \<longleftrightarrow> unat b < 128"
  proof -
    have "unat b < 256" using unsigned_less [of b, where ?'a = nat] by simp
    then have "unat b div 128 < 2" by simp
    then show ?thesis by (auto simp: less_2_cases_iff)
  qed
  finally show ?thesis .
qed

lemma word_digits:
  "push_bit k (word_of_nat (n mod 128)) OR push_bit (k + 7) (word_of_nat (n div 128)) = (push_bit k (word_of_nat n) :: u64)"
proof (rule bit_word_eqI)
  fix j assume j: "j < LENGTH(64)"
  have m: "bit (n mod 128) i \<longleftrightarrow> i < 7 \<and> bit n i" for i
    using bit_take_bit_iff [of 7 n i] by (simp add: take_bit_eq_mod)
  have d: "bit (n div 128) i \<longleftrightarrow> bit n (7 + i)" for i
    using bit_drop_bit_eq [of 7 n] by (simp add: drop_bit_eq_div fun_eq_iff)
  show "bit (push_bit k (word_of_nat (n mod 128)) OR push_bit (k + 7) (word_of_nat (n div 128)) :: u64) j
    \<longleftrightarrow> bit (push_bit k (word_of_nat n) :: u64) j"
    unfolding bit_or_iff bit_push_bit_iff bit_of_nat_iff possible_bit_word m d
    using j by (cases "j < k + 7") (auto simp: less_diff_conv2)
qed

lemma decode_loop_varint:
  assumes "n * 2 ^ (7 * i) < 2 ^ 64" "0 < n \<or> i = 0"
  shows "decode_loop i val (varint n @ rest) = Inr (val OR push_bit (7 * i) (word_of_nat n), rest)"
  using assms
proof (induction n arbitrary: i val rule: varint.induct)
  case (1 n)
  have small: "2 ^ (7 * i) < (2 ^ 64 :: nat)" if "0 < n"
    using 1(2) that by (metis Suc_leI le_less_trans mult.commute mult_le_mono2 mult_1_right One_nat_def)
  then have "7 * i < 64" if "0 < n" using small [OF that] power_strict_increasing_iff [of "2 :: nat" "7 * i" 64] by linarith
  then have i: "i < 10" using 1(3) by (cases "0 < n") auto
  have nine: "n < 2" if "i = 9" using 1(2) that by simp
  show ?case
  proof (cases "n < 128")
    case True
    have v: "unat (word_of_nat n :: byte) = n" using True by (simp add: unat_of_nat)
    have "\<not> (i = 9 \<and> (word_of_nat n :: byte) AND 0xFE \<noteq> 0)" using nine by (auto simp: less_2_cases_iff)
    moreover have "(word_of_nat n :: byte) AND 0x80 = 0" using True by (simp only: byte_high_bit v)
    moreover have "(ucast ((word_of_nat n :: byte) AND 0x7F) :: u64) = word_of_nat n"
      using True by (simp only: byte_low7 v) simp
    ultimately show ?thesis using True i
      by (subst varint.simps, subst decode_loop.simps) (simp only: Let_def, simp)
  next
    case False
    let ?b = "word_of_nat (n mod 128 + 128) :: byte"
    have v: "unat ?b = n mod 128 + 128" by (simp only: unat_of_nat) simp
    have i9: "i < 9"
    proof (rule ccontr)
      assume "\<not> i < 9"
      then have "i = 9" using i by simp
      then show False using nine False by simp
    qed
    have "n div 128 * 2 ^ (7 * Suc i) = n div 128 * 128 * 2 ^ (7 * i)"
      unfolding mult_Suc_right power_add by simp
    also have "\<dots> \<le> n * 2 ^ (7 * i)" by (rule mult_le_mono1) simp
    finally have le: "n div 128 * 2 ^ (7 * Suc i) \<le> n * 2 ^ (7 * i)" .
    have pos: "0 < n div 128" using False by (simp add: div_greater_zero_iff)
    have IH: "decode_loop (Suc i) w (varint (n div 128) @ rest)
        = Inr (w OR push_bit (7 * Suc i) (word_of_nat (n div 128)), rest)" for w
      using 1(1) [OF False le_less_trans [OF le 1(2)], of w] pos by blast
    have "\<not> ?b AND 0x80 = 0" by (simp only: byte_high_bit v)
    moreover have "(ucast (?b AND 0x7F) :: u64) = word_of_nat (n mod 128)"
      by (simp only: byte_low7 v) simp
    moreover have "push_bit (7 * i) (word_of_nat (n mod 128)) OR push_bit (7 * Suc i) (word_of_nat (n div 128))
        = (push_bit (7 * i) (word_of_nat n) :: u64)"
      using word_digits [of "7 * i" n] by (simp add: add.commute)
    ultimately show ?thesis using False i i9 IH
      by (subst varint.simps, subst decode_loop.simps) (simp only: Let_def, simp add: or.assoc)
  qed
qed

lemma varint_not_Nil [simp]: "varint n \<noteq> []"
  by (subst varint.simps) simp

lemma decode_serialize_varint: "decode_varint (serialize_varint v @ rest) = Inr (v, rest)"
  using decode_loop_varint [of "unat v" 0 0 rest] unsigned_less [of v, where ?'a = nat]
  by (simp add: serialize_varint_eq decode_varint_def)

section \<open>The length of an encoded number\<close>

lemma log_loop_shift: "log_loop n k = k + log_loop n 0"
proof (induction n arbitrary: k rule: less_induct)
  case (less n)
  show ?case
  proof (cases "n div 2 = 0")
    case True
    then show ?thesis by (subst (1 2) log_loop.simps) simp
  next
    case False
    then have "n div 2 < n" by simp
    from less [OF this, of "Suc k"] less [OF this, of "Suc 0"] show ?thesis
      using False by (subst (1 2) log_loop.simps) (simp add: Let_def)
  qed
qed

lemma log_loop_bounds: "0 < n \<Longrightarrow> 2 ^ log_loop n 0 \<le> n \<and> n < 2 * 2 ^ log_loop n 0"
proof (induction n rule: less_induct)
  case (less n)
  show ?case
  proof (cases "n div 2 = 0")
    case True
    then have "n = 1" using less(2) by simp
    then show ?thesis by (simp add: log_loop.simps)
  next
    case False
    then have "n div 2 < n" "0 < n div 2" by auto
    from less(1) [OF this] have IH: "2 ^ log_loop (n div 2) 0 \<le> n div 2" "n div 2 < 2 * 2 ^ log_loop (n div 2) 0"
      by auto
    have "log_loop n 0 = Suc (log_loop (n div 2) 0)"
      using False log_loop_shift [of "n div 2" 1] by (subst log_loop.simps) (simp add: Let_def)
    moreover have "2 * (n div 2) \<le> n" "n < 2 * (n div 2) + 2" by presburger+
    ultimately show ?thesis using IH unfolding power_Suc by simp
  qed
qed

lemma log_loop_unique:
  assumes "2 ^ k \<le> n" "n < 2 * 2 ^ k"
  shows "log_loop n 0 = k"
proof -
  have "0 < n" using assms(1) by (metis gr0I not_one_le_zero one_le_numeral one_le_power le_trans)
  note b = log_loop_bounds [OF this]
  have "(2 :: nat) ^ k < 2 ^ Suc (log_loop n 0)" "(2 :: nat) ^ log_loop n 0 < 2 ^ Suc k"
    using assms b by auto
  then have "k < Suc (log_loop n 0)" "log_loop n 0 < Suc k"
    by (simp_all only: power_strict_increasing_iff [of "2 :: nat"])
  then show ?thesis by simp
qed

lemma length_varint: "length (varint n) = log_loop n 0 div 7 + 1"
proof (induction n rule: varint.induct)
  case (1 n)
  show ?case
  proof (cases "n < 128")
    case True
    have "log_loop n 0 < 7"
    proof (cases "n = 0")
      case False
      then have "(2 :: nat) ^ log_loop n 0 < 2 ^ 7" using log_loop_bounds [of n] True by simp
      then show ?thesis by (simp only: power_strict_increasing_iff [of "2 :: nat"])
    qed (simp add: log_loop.simps)
    then show ?thesis using True by (subst varint.simps) simp
  next
    case False
    let ?k = "log_loop (n div 128) 0"
    have "2 ^ ?k \<le> n div 128" "n div 128 < 2 * 2 ^ ?k"
      using log_loop_bounds [of "n div 128"] False by (auto simp: div_greater_zero_iff)
    then have "2 ^ (?k + 7) \<le> n" "n < 2 * 2 ^ (?k + 7)"
      by (simp_all add: power_add)
    then have "log_loop n 0 = ?k + 7" by (rule log_loop_unique)
    then show ?thesis using False 1 by (subst varint.simps) simp
  qed
qed

lemma variant_uint32_size_constexpr_eq: "variant_uint32_size_constexpr n = length (varint n)"
  by (simp add: variant_uint32_size_constexpr_def length_varint log_loop.simps)

lemma varint_digits:
  "varint n = map (\<lambda>i. word_of_nat (n div 2 ^ (7 * i) mod 128 + 128)) [0 ..< length (varint n) - 1]
     @ [word_of_nat (n div 2 ^ (7 * (length (varint n) - 1)))]"
proof (induction n rule: varint.induct)
  case (1 n)
  show ?case
  proof (cases "n < 128")
    case True
    then show ?thesis by (simp add: varint.simps)
  next
    case False
    define m where "m = length (varint (n div 128)) - 1"
    have "length (varint (n div 128)) = Suc m" by (simp add: m_def)
    then have l: "length (varint n) - 1 = Suc m" using False by (subst varint.simps) simp
    have d: "n div 128 div 2 ^ (7 * i) = n div 2 ^ (7 * Suc i)" for i
      unfolding mult_Suc_right power_add by (simp add: div_mult2_eq)
    have "varint n = word_of_nat (n mod 128 + 128) # varint (n div 128)"
      using False by (subst varint.simps) simp
    also have "\<dots> = word_of_nat (n mod 128 + 128)
        # map (\<lambda>i. word_of_nat (n div 2 ^ (7 * Suc i) mod 128 + 128)) [0 ..< m] @ [word_of_nat (n div 2 ^ (7 * Suc m))]"
      using 1 [OF False] by (simp only: m_def [symmetric] d)
    also have "\<dots> = map (\<lambda>i. word_of_nat (n div 2 ^ (7 * i) mod 128 + 128)) [0 ..< Suc m]
        @ [word_of_nat (n div 2 ^ (7 * Suc m))]"
      by (simp only: map_upt_Suc) simp
    finally show ?thesis unfolding l .
  qed
qed

lemma serialize_varint_u32_eq: "serialize_varint_u32 v = varint (unat v)"
proof -
  have d: "unat (drop_bit (7 * i) v) = unat v div 2 ^ (7 * i)" for i
    by (simp only: unat_drop_bit_eq drop_bit_eq_div [where ?'a = nat])
  have h: "(ucast (drop_bit (7 * i) v OR 0x80) :: byte) = word_of_nat (unat v div 2 ^ (7 * i) mod 128 + 128)" for i
    using or_high_bit [of "drop_bit (7 * i) v"] by (simp add: d)
  have l: "(ucast (drop_bit (7 * i) v) :: byte) = word_of_nat (unat v div 2 ^ (7 * i))" for i
    by (simp only: d [symmetric] of_nat_unat)
  show ?thesis
    unfolding serialize_varint_u32_def variant_uint32_size_constexpr_eq Let_def h l
    by (rule varint_digits [symmetric])
qed

lemma length_serialize_varint_u32: "length (serialize_varint_u32 v) = variant_uint32_size_constexpr (unat v)"
  by (simp add: serialize_varint_u32_eq variant_uint32_size_constexpr_eq)

lemma clz_top:
  fixes n :: "'a::len word"
  assumes "2 ^ k \<le> unat n" "unat n < 2 * 2 ^ k"
  shows "k < LENGTH('a)" "clz n = LENGTH('a) - Suc k"
proof -
  have "(2 :: nat) ^ k < 2 ^ LENGTH('a)"
    using assms(1) unsigned_less [of n, where ?'a = nat] by (rule le_less_trans)
  then show k: "k < LENGTH('a)" by (simp only: power_strict_increasing_iff [of "2 :: nat"])
  have "unat n div 2 ^ k = 1" using assms by (intro div_nat_eqI) auto
  then have "bit (unat n) k" by (simp add: bit_iff_odd [where ?'a = nat])
  then have top: "bit n k" by (simp add: bit_unsigned_iff)
  have above: "\<not> bit n i" if "k < i" for i
  proof -
    have "unat n < 2 ^ i"
      using assms(2) that by (metis Suc_leI le_less_trans less_le_trans one_le_numeral power_Suc power_increasing)
    then have "\<not> bit (unat n) i" by (simp add: bit_iff_odd)
    then show ?thesis by (simp add: bit_unsigned_iff)
  qed
  have "[0 ..< LENGTH('a)] = [0 ..< k] @ k # [Suc k ..< LENGTH('a)]"
    using k upt_add_eq_append [of 0 k "LENGTH('a) - k"] by (simp add: upt_conv_Cons)
  then have "takeWhile (\<lambda>i. \<not> bit n i) (rev [0 ..< LENGTH('a)]) = rev [Suc k ..< LENGTH('a)]"
    using above top by (simp add: takeWhile_append)
  then show "clz n = LENGTH('a) - Suc k" by (simp add: clz_def)
qed

lemma or_one_size: "length (varint (unat (v OR 1 :: 'a::len word))) = length (varint (unat v))"
proof -
  have u: "unat (v OR 1) = unat v OR 1" by (simp add: unsigned_or_eq)
  also have "\<dots> = unat v + of_bool (even (unat v))" by (simp only: or_one_eq)
  finally have n: "unat (v OR 1) div 128 = unat v div 128" "unat (v OR 1) < 128 \<longleftrightarrow> unat v < 128" by auto
  then show ?thesis by (subst (1 2) varint.simps) simp
qed

lemma ninth: "k < 64 \<Longrightarrow> (k * 9 + 73) div 64 = k div 7 + 1" for k :: nat
proof -
  assume "k < 64"
  moreover have "\<forall>k \<in> set [0 ..< 64]. (k * 9 + 73) div 64 = k div 7 + 1" by code_simp
  ultimately show ?thesis by simp
qed

lemma xor_minus: "k < 64 \<Longrightarrow> 63 XOR (word_of_nat (63 - k) :: u32) = word_of_nat k"
  and xor_minus32: "k < 32 \<Longrightarrow> 31 XOR (word_of_nat (31 - k) :: u32) = word_of_nat k"
proof -
  have "\<forall>k \<in> set [0 ..< 64]. 63 XOR (word_of_nat (63 - k) :: u32) = word_of_nat k" by code_simp
  then show "k < 64 \<Longrightarrow> 63 XOR (word_of_nat (63 - k) :: u32) = word_of_nat k" by simp
  have "\<forall>k \<in> set [0 ..< 32]. 31 XOR (word_of_nat (31 - k) :: u32) = word_of_nat k" by code_simp
  then show "k < 32 \<Longrightarrow> 31 XOR (word_of_nat (31 - k) :: u32) = word_of_nat k" by simp
qed

lemma nine_seventy_three: "k < 64 \<Longrightarrow> unat ((word_of_nat k * 9 + 73 :: u32) div 64) = k div 7 + 1"
proof -
  assume "k < 64"
  moreover have "\<forall>k \<in> set [0 ..< 64]. unat ((word_of_nat k * 9 + 73 :: u32) div 64) = k div 7 + 1" by code_simp
  ultimately show ?thesis by simp
qed

lemma variant_uint64_size_eq: "variant_uint64_size v = length (varint (unat v))"
proof -
  let ?n = "v OR 1" and ?k = "log_loop (unat (v OR 1)) 0"
  have "bit ?n 0" by (simp add: bit_or_iff)
  then have "?n \<noteq> 0" by (metis bit_0_eq bot_apply bot_bool_def)
  then have b: "2 ^ ?k \<le> unat ?n" "unat ?n < 2 * 2 ^ ?k"
    using log_loop_bounds [of "unat ?n"] by (auto simp: unat_gt_0)
  then have k: "?k < 64" "clz ?n = 63 - ?k" using clz_top [OF b] by simp_all
  have "variant_uint64_size v = ?k div 7 + 1"
    unfolding variant_uint64_size_def log2_floor_uint64_def k(2) xor_minus [OF k(1)]
    by (rule nine_seventy_three [OF k(1)])
  then show ?thesis by (simp only: length_varint [symmetric] or_one_size)
qed

lemma variant_uint32_size_eq: "variant_uint32_size v = length (varint (unat v))"
proof -
  let ?n = "v OR 1" and ?k = "log_loop (unat (v OR 1)) 0"
  have "bit ?n 0" by (simp add: bit_or_iff)
  then have "?n \<noteq> 0" by (metis bit_0_eq bot_apply bot_bool_def)
  then have b: "2 ^ ?k \<le> unat ?n" "unat ?n < 2 * 2 ^ ?k"
    using log_loop_bounds [of "unat ?n"] by (auto simp: unat_gt_0)
  then have k: "?k < 32" "clz ?n = 31 - ?k" using clz_top [OF b] by simp_all
  then have "?k < 64" by simp
  then have "variant_uint32_size v = ?k div 7 + 1"
    unfolding variant_uint32_size_def log2_floor_uint32_def k(2) xor_minus32 [OF k(1)]
    by (rule nine_seventy_three)
  then show ?thesis by (simp only: length_varint [symmetric] or_one_size)
qed

section \<open>Zigzag numbers and keys\<close>

lemma bit_minus_of_bool: "bit (- of_bool s :: 'a::len word) i \<longleftrightarrow> s \<and> i < LENGTH('a)"
  by (cases s) (auto simp: bit_minus_1_iff)

lemma and_one_of_bool: "w AND 1 = (of_bool (bit w 0) :: 'a::len word)"
  by (simp add: and_one_eq mod_2_eq_odd bit_0)

lemma drop_top_bit: "drop_bit (LENGTH('a) - 1) w = (of_bool (bit w (LENGTH('a) - 1)) :: 'a::len word)"
proof (rule bit_word_eqI)
  fix i assume "i < LENGTH('a)"
  have "\<not> bit w (LENGTH('a) - 1 + i)" if "0 < i" using bit_imp_le_length [of w "LENGTH('a) - 1 + i"] that by auto
  then show "bit (drop_bit (LENGTH('a) - 1) w) i \<longleftrightarrow> bit (of_bool (bit w (LENGTH('a) - 1)) :: 'a word) i"
    by (cases i) (auto simp: bit_drop_bit_eq bit_of_bool_iff)
qed

lemma bit_encode_zigzag64:
  "bit (encode_zigzag64 v) i \<longleftrightarrow> (if i = 0 then bit v 63 else i < 64 \<and> bit v (i - 1) \<noteq> bit v 63)"
  using drop_top_bit [of v] bit_imp_le_length [of v "i - 1"]
  unfolding encode_zigzag64_def bit_xor_iff bit_push_bit_iff possible_bit_word
  by (simp add: bit_minus_of_bool) auto

lemma bit_decode_zigzag64:
  "bit (decode_zigzag64 u) i \<longleftrightarrow> i < 64 \<and> bit u (Suc i) \<noteq> bit u 0"
  using bit_imp_le_length [of u "Suc i"]
  unfolding decode_zigzag64_def bit_xor_iff and_one_of_bool bit_minus_of_bool bit_drop_bit_eq by auto

lemma zigzag64: "decode_zigzag64 (encode_zigzag64 v) = v"
proof (rule bit_word_eqI)
  fix i assume "i < LENGTH(64)"
  then show "bit (decode_zigzag64 (encode_zigzag64 v)) i \<longleftrightarrow> bit v i"
    by (cases "i = 63") (auto simp: bit_decode_zigzag64 bit_encode_zigzag64)
qed

lemma bit_encode_zigzag32:
  "bit (encode_zigzag32 v) i \<longleftrightarrow> (if i = 0 then bit v 31 else i < 32 \<and> bit v (i - 1) \<noteq> bit v 31)"
  using drop_top_bit [of v] bit_imp_le_length [of v "i - 1"]
  unfolding encode_zigzag32_def bit_xor_iff bit_push_bit_iff possible_bit_word
  by (simp add: bit_minus_of_bool) auto

lemma bit_decode_zigzag32:
  "bit (decode_zigzag32 u) i \<longleftrightarrow> i < 32 \<and> bit u (Suc i) \<noteq> bit u 0"
proof -
  have "(ucast (of_bool b :: u32) :: u64) = of_bool b" for b by (cases b) simp_all
  then show ?thesis
    using bit_imp_le_length [of u "Suc i"]
    unfolding decode_zigzag32_def bit_ucast_iff bit_xor_iff and_one_of_bool possible_bit_word
    by (auto simp: bit_minus_of_bool bit_ucast_iff bit_drop_bit_eq)
qed

lemma zigzag32: "decode_zigzag32 (encode_zigzag32 v) = v"
proof (rule bit_word_eqI)
  fix i assume "i < LENGTH(32)"
  then show "bit (decode_zigzag32 (encode_zigzag32 v)) i \<longleftrightarrow> bit v i"
    by (cases "i = 31") (auto simp: bit_decode_zigzag32 bit_encode_zigzag32)
qed

text \<open>The tag of a field, known when the program is compiled.\<close>

definition make_tag :: "nat \<Rightarrow> wire_type \<Rightarrow> u32" where
  "make_tag field_no wire = push_bit 3 (word_of_nat field_no) OR word_of_nat (wire_code wire)"

lemma wire_code_less: "wire_code w < 6"
  by (cases w) simp_all

lemma wire_of_code [simp]: "wire_of (wire_code w) = w"
  by (cases w) (simp_all add: wire_of_def)

lemma make_tag_parts:
  assumes "f < 2 ^ 29"
  shows "unat (make_tag f w AND 7) = wire_code w" "unat (drop_bit 3 (make_tag f w)) = f"
proof -
  let ?c = "word_of_nat (wire_code w) :: u32"
  have c: "\<not> bit (wire_code w) i" if "3 \<le> i" for i
  proof -
    have "wire_code w < 8" using wire_code_less [of w] by simp
    also have "8 = (2 :: nat) ^ 3" by simp
    also have "\<dots> \<le> 2 ^ i" using that by (rule power_increasing) simp
    finally show ?thesis by (simp add: bit_iff_odd)
  qed
  have f: "\<not> bit f i" if "29 \<le> i" for i
  proof -
    have "(2 :: nat) ^ 29 \<le> 2 ^ i" using that by (rule power_increasing) simp
    then have "f < 2 ^ i" using assms by (rule less_le_trans [rotated])
    then show ?thesis by (simp add: bit_iff_odd)
  qed
  have seven: "(7 :: u32) = mask 3" by (simp add: mask_eq_exp_minus_1)
  have "make_tag f w AND 7 = ?c"
  proof (rule bit_word_eqI)
    fix i assume "i < LENGTH(32)"
    then show "bit (make_tag f w AND 7) i \<longleftrightarrow> bit ?c i"
      unfolding make_tag_def seven bit_and_iff bit_or_iff bit_push_bit_iff bit_mask_iff bit_of_nat_iff possible_bit_word
      using c [of i] by (cases "3 \<le> i") auto
  qed
  then show "unat (make_tag f w AND 7) = wire_code w"
    using wire_code_less [of w] by (simp add: unat_of_nat)
  have "drop_bit 3 (make_tag f w) = word_of_nat f"
  proof (rule bit_word_eqI)
    fix i assume "i < LENGTH(32)"
    then show "bit (drop_bit 3 (make_tag f w)) i \<longleftrightarrow> bit (word_of_nat f :: u32) i"
      unfolding make_tag_def bit_drop_bit_eq comp_def bit_or_iff bit_push_bit_iff bit_of_nat_iff possible_bit_word
      using c [of "3 + i"] f [of i] by (cases "i < 29") auto
  qed
  then show "unat (drop_bit 3 (make_tag f w)) = f" using assms by (simp add: unat_of_nat)
qed

lemma decode_key_tag:
  assumes "0 < f" "f < 2 ^ 29" "w \<noteq> End_group \<or> allow"
  shows "decode_key allow (serialize_varint_u32 (make_tag f w) @ rest) = Inr ((f, w), rest)"
proof -
  let ?k = "ucast (make_tag f w) :: u64"
  have "unat (make_tag f w) < 2 ^ 64"
    using unsigned_less [of "make_tag f w", where ?'a = nat] by simp
  then have u: "unat ?k = unat (make_tag f w)" by (simp add: unsigned_ucast_eq take_bit_nat_eq_self)
  have "serialize_varint_u32 (make_tag f w) = serialize_varint ?k"
    by (simp only: serialize_varint_u32_eq serialize_varint_eq u)
  then have d: "decode_varint (serialize_varint_u32 (make_tag f w) @ rest) = Inr (?k, rest)"
    by (simp only: decode_serialize_varint)
  have "\<not> ?k > 0xFFFFFFFF"
    using unsigned_less [of "make_tag f w", where ?'a = nat] by (simp add: word_less_nat_alt u)
  moreover have "(ucast ?k :: u32) = make_tag f w"
    by (intro bit_word_eqI) (simp add: bit_ucast_iff)
  ultimately show ?thesis using assms wire_code_less [of w]
    by (simp add: decode_key_def d make_tag_parts [OF assms(2)] Let_def)
qed

end
