(* ===== verification/Iguana_Pb_Types.thy ===== *)
theory Iguana_Pb_Types
  imports Iguana_Pb_Wire
begin

text \<open>
  The types and values of protobuf messages and their scalar fields, \<^verbatim>\<open>iguana/common.hpp\<close>,
  \<^verbatim>\<open>iguana/pb_util.hpp\<close>, \<^verbatim>\<open>iguana/pb_writer.hpp\<close> and \<^verbatim>\<open>iguana/pb_reader.hpp\<close>: the numbering of the members,
  the wire type of a member, and the size, writing and reading of numbers and strings.  The templates of
  the source are selected by the type; here the type is an argument.  Numbers are the integers they stand
  for, \<^verbatim>\<open>float\<close> and \<^verbatim>\<open>double\<close> are the numbers of their bits.
\<close>

section \<open>Types and values\<close>

text \<open>\<^verbatim>\<open>S_integral\<close> and \<^verbatim>\<open>S_enum\<close> carry the number of bytes and whether the type is signed.\<close>

datatype pb_scalar =
    S_bool
  | S_integral nat bool
  | S_sint32 | S_sint64
  | S_fixed32 | S_fixed64 | S_sfixed32 | S_sfixed64
  | S_float | S_double
  | S_enum nat bool
  | S_string

text \<open>A message type is known by its name, as a message may contain itself.\<close>

datatype pb_type =
    T_scalar pb_scalar
  | T_message string
  | T_sequence pb_type
  | T_map pb_scalar pb_type
  | T_optional pb_type

datatype pb_value =
    V_num int
  | V_bytes "byte list"
  | V_message "pb_value list" "byte list"
  | V_sequence "pb_value list"
  | V_map "(pb_value \<times> pb_value) list"
  | V_optional "pb_value option"
  | V_oneof "(nat \<times> pb_value) option"

text \<open>
  A member with its number and the flag of \<^verbatim>\<open>optional_schema\<close>, or a \<^verbatim>\<open>std::variant\<close> with the numbers of its
  cases; the flag says that its first alternative is \<^verbatim>\<open>std::monostate\<close>, which has no number.
\<close>

datatype pb_member =
    Member nat bool pb_type
  | Oneof bool "(nat \<times> pb_type) list"

text \<open>
  A message type: its members, their values in a default-constructed object (a member may have an initializer),
  and whether it has a member for the unknown fields.
\<close>

record pb_message =
  pb_members :: "pb_member list"
  initial :: "pb_value list"
  keeps_unknown :: bool

type_synonym pb_schema = "string \<Rightarrow> pb_message"

fun field_numbers :: "pb_member list \<Rightarrow> nat list" where
  "field_numbers [] = []"
| "field_numbers (Member no _ _ # ms) = no # field_numbers ms"
| "field_numbers (Oneof _ cs # ms) = map fst cs @ field_numbers ms"

text \<open>The members as they are declared; a variant takes as many numbers as it has cases.\<close>

datatype pb_decl =
    Plain pb_type
  | Variant bool "pb_type list"

fun count_variant_size :: "pb_decl \<Rightarrow> nat" where
  "count_variant_size (Plain _) = 1"
| "count_variant_size (Variant _ ts) = length ts"

fun get_field_no :: "nat \<Rightarrow> pb_decl list \<Rightarrow> nat list" where
  "get_field_no index [] = []"
| "get_field_no index (d # ds) = index # get_field_no (index + count_variant_size d) ds"

fun build_pb_fields_impl :: "nat \<Rightarrow> pb_decl \<Rightarrow> pb_member" where
  "build_pb_fields_impl field_no (Plain t) = Member (field_no + 1) False t"
| "build_pb_fields_impl field_no (Variant monostate ts) =
     Oneof monostate (map (\<lambda>i. (field_no + i + 1, ts ! i)) [0 ..< length ts])"

definition build_pb_fields :: "pb_decl list \<Rightarrow> pb_member list" where
  "build_pb_fields ds = map2 build_pb_fields_impl (get_field_no 0 ds) ds"

definition is_valid_pb_field_no :: "nat \<Rightarrow> bool" where
  "is_valid_pb_field_no no \<longleftrightarrow> no > 0 \<and> no \<le> 2 ^ 29 - 1 \<and> (no < 19000 \<or> no > 19999)"

definition has_invalid_field_nos :: "nat list \<Rightarrow> bool" where
  "has_invalid_field_nos nos \<longleftrightarrow> (\<exists>no \<in> set nos. \<not> is_valid_pb_field_no no)"

definition has_duplicate_field_nos :: "nat list \<Rightarrow> bool" where
  "has_duplicate_field_nos nos \<longleftrightarrow>
     (\<exists>i \<in> set [0 ..< length nos]. \<exists>j \<in> set [i + 1 ..< length nos]. nos ! i = nos ! j)"

definition validate_pb_members :: "pb_member list \<Rightarrow> bool" where
  "validate_pb_members ms \<longleftrightarrow>
     \<not> has_invalid_field_nos (field_numbers ms) \<and> \<not> has_duplicate_field_nos (field_numbers ms)"

fun scalar_wire_type :: "pb_scalar \<Rightarrow> wire_type" where
  "scalar_wire_type S_fixed32 = Fixed32"
| "scalar_wire_type S_sfixed32 = Fixed32"
| "scalar_wire_type S_float = Fixed32"
| "scalar_wire_type S_fixed64 = Fixed64"
| "scalar_wire_type S_sfixed64 = Fixed64"
| "scalar_wire_type S_double = Fixed64"
| "scalar_wire_type S_string = Length_delimited"
| "scalar_wire_type _ = Varint"

fun get_wire_type :: "pb_type \<Rightarrow> wire_type" where
  "get_wire_type (T_scalar s) = scalar_wire_type s"
| "get_wire_type (T_message _) = Length_delimited"
| "get_wire_type (T_sequence _) = Length_delimited"
| "get_wire_type (T_map _ _) = Length_delimited"
| "get_wire_type (T_optional t) = get_wire_type t"

definition is_lenprefix :: "pb_type \<Rightarrow> bool" where
  "is_lenprefix t \<longleftrightarrow> get_wire_type t = Length_delimited"

section \<open>Scalars\<close>

definition variant_intergal_size :: "nat \<Rightarrow> bool \<Rightarrow> int \<Rightarrow> nat" where
  "variant_intergal_size bytes sg value =
     (if bytes = 8 then variant_uint64_size (word_of_int value)
      else if sg \<and> value < 0 then 10
      else variant_uint32_size (word_of_int value))"

text \<open>\<^verbatim>\<open>t == static_cast<T>(0)\<close>: both zeros of a floating-point type.\<close>

fun is_zero :: "pb_scalar \<Rightarrow> int \<Rightarrow> bool" where
  "is_zero S_float n \<longleftrightarrow> n = 0 \<or> n = 2 ^ 31"
| "is_zero S_double n \<longleftrightarrow> n = 0 \<or> n = 2 ^ 63"
| "is_zero _ n \<longleftrightarrow> n = 0"

fun numeric_size :: "pb_scalar \<Rightarrow> int \<Rightarrow> nat" where
  "numeric_size S_bool n = 1"
| "numeric_size (S_integral bytes sg) n = variant_intergal_size bytes sg n"
| "numeric_size S_sint32 n = variant_intergal_size 4 False (uint (encode_zigzag32 (word_of_int n)))"
| "numeric_size S_sint64 n = variant_intergal_size 8 False (uint (encode_zigzag64 (word_of_int n)))"
| "numeric_size S_fixed32 n = 4"
| "numeric_size S_fixed64 n = 8"
| "numeric_size S_sfixed32 n = 4"
| "numeric_size S_sfixed64 n = 8"
| "numeric_size S_float n = 4"
| "numeric_size S_double n = 8"
| "numeric_size (S_enum bytes sg) n = variant_intergal_size bytes sg n"
| "numeric_size S_string n = 0"

fun str_numeric_size :: "nat \<Rightarrow> bool \<Rightarrow> pb_scalar \<Rightarrow> pb_value \<Rightarrow> nat" where
  "str_numeric_size key_size omit s (V_bytes t) =
     (if omit \<and> length t = 0 then 0
      else if key_size = 0 then length t
      else key_size + variant_uint32_size (word_of_nat (length t)) + length t)"
| "str_numeric_size key_size omit s (V_num n) =
     (if omit \<and> is_zero s n then 0 else key_size + numeric_size s n)"
| "str_numeric_size key_size omit s _ = 0"

definition key_bytes :: "u32 \<Rightarrow> byte list" where
  "key_bytes key = (if key \<noteq> 0 then serialize_varint_u32 key else [])"

definition encode_varint_field :: "u32 \<Rightarrow> u64 \<Rightarrow> byte list" where
  "encode_varint_field key val = key_bytes key @ serialize_varint val"

definition encode_fixed_field :: "u32 \<Rightarrow> nat \<Rightarrow> u64 \<Rightarrow> byte list" where
  "encode_fixed_field key len val = key_bytes key @ le_bytes len val"

fun encode_numeric_field :: "u32 \<Rightarrow> bool \<Rightarrow> pb_scalar \<Rightarrow> int \<Rightarrow> byte list" where
  "encode_numeric_field key omit s n =
     (if omit \<and> is_zero s n then []
      else case s of
        S_sint32 \<Rightarrow> encode_varint_field key (ucast (encode_zigzag32 (word_of_int n)))
      | S_sint64 \<Rightarrow> encode_varint_field key (encode_zigzag64 (word_of_int n))
      | S_fixed32 \<Rightarrow> encode_fixed_field key 4 (word_of_int n)
      | S_fixed64 \<Rightarrow> encode_fixed_field key 8 (word_of_int n)
      | S_sfixed32 \<Rightarrow> encode_fixed_field key 4 (word_of_int n)
      | S_sfixed64 \<Rightarrow> encode_fixed_field key 8 (word_of_int n)
      | S_float \<Rightarrow> encode_fixed_field key 4 (word_of_int n)
      | S_double \<Rightarrow> encode_fixed_field key 8 (word_of_int n)
      | _ \<Rightarrow> encode_varint_field key (word_of_int n))"

text \<open>The branches of \<^verbatim>\<open>to_pb_impl\<close> for strings and numbers.\<close>

fun write_scalar :: "u32 \<Rightarrow> bool \<Rightarrow> pb_scalar \<Rightarrow> pb_value \<Rightarrow> byte list" where
  "write_scalar key omit s (V_bytes t) =
     (if omit \<and> length t = 0 then []
      else serialize_varint_u32 key @ serialize_varint (word_of_nat (length t)) @ t)"
| "write_scalar key omit s (V_num n) = encode_numeric_field key omit s n"
| "write_scalar key omit s _ = []"

text \<open>\<^verbatim>\<open>static_cast<T>\<close> of 64 bits to an integral type of the given size.\<close>

definition cast_integral :: "nat \<Rightarrow> bool \<Rightarrow> u64 \<Rightarrow> int" where
  "cast_integral bytes sg w =
     (if sg then signed_take_bit (8 * bytes - 1) (uint w) else take_bit (8 * bytes) (uint w))"

definition read_fixed :: "nat \<Rightarrow> bool \<Rightarrow> byte list \<Rightarrow> (pb_value \<times> byte list) result" where
  "read_fixed len sg pb_str =
     (if length pb_str < len then Inl (Invalid_argument ''Invalid fixed int value: too few bytes.'')
      else Inr (V_num (cast_integral len sg (le_read len pb_str)), drop len pb_str))"

text \<open>The branches of \<^verbatim>\<open>from_pb_impl\<close> for numbers and strings; the bytes after the value remain.\<close>

fun read_scalar :: "pb_scalar \<Rightarrow> byte list \<Rightarrow> (pb_value \<times> byte list) result" where
  "read_scalar S_bool pb_str =
     rbind (decode_varint pb_str) (\<lambda>(u, rest). Inr (V_num (if u = 0 then 0 else 1), rest))"
| "read_scalar (S_integral bytes sg) pb_str =
     rbind (decode_varint pb_str) (\<lambda>(u, rest). Inr (V_num (cast_integral bytes sg u), rest))"
| "read_scalar (S_enum bytes sg) pb_str =
     rbind (decode_varint pb_str) (\<lambda>(u, rest). Inr (V_num (cast_integral bytes sg u), rest))"
| "read_scalar S_sint64 pb_str =
     rbind (decode_varint pb_str) (\<lambda>(temp, rest). Inr (V_num (sint (decode_zigzag64 temp)), rest))"
| "read_scalar S_sint32 pb_str =
     rbind (decode_varint pb_str) (\<lambda>(temp, rest). Inr (V_num (sint (decode_zigzag32 (ucast temp))), rest))"
| "read_scalar S_fixed32 pb_str = read_fixed 4 False pb_str"
| "read_scalar S_fixed64 pb_str = read_fixed 8 False pb_str"
| "read_scalar S_sfixed32 pb_str = read_fixed 4 True pb_str"
| "read_scalar S_sfixed64 pb_str = read_fixed 8 True pb_str"
| "read_scalar S_float pb_str = read_fixed 4 False pb_str"
| "read_scalar S_double pb_str = read_fixed 8 False pb_str"
| "read_scalar S_string pb_str =
     rbind (decode_length_delimited ''Invalid string value: too few bytes.'' pb_str)
       (\<lambda>(size, pb_str). Inr (V_bytes (take size pb_str), drop size pb_str))"

text \<open>The values a member of the type can hold.\<close>

fun int_range :: "nat \<Rightarrow> bool \<Rightarrow> int \<Rightarrow> bool" where
  "int_range bytes sg n \<longleftrightarrow>
     (if sg then - (2 ^ (8 * bytes - 1)) \<le> n \<and> n < 2 ^ (8 * bytes - 1) else 0 \<le> n \<and> n < 2 ^ (8 * bytes))"

fun scalar_ok :: "pb_scalar \<Rightarrow> pb_value \<Rightarrow> bool" where
  "scalar_ok S_string (V_bytes t) \<longleftrightarrow> True"
| "scalar_ok S_bool (V_num n) \<longleftrightarrow> n = 0 \<or> n = 1"
| "scalar_ok (S_integral bytes sg) (V_num n) \<longleftrightarrow> bytes \<in> {1, 2, 4, 8} \<and> int_range bytes sg n"
| "scalar_ok (S_enum bytes sg) (V_num n) \<longleftrightarrow> bytes \<in> {1, 2, 4, 8} \<and> int_range bytes sg n"
| "scalar_ok S_sint32 (V_num n) \<longleftrightarrow> int_range 4 True n"
| "scalar_ok S_sint64 (V_num n) \<longleftrightarrow> int_range 8 True n"
| "scalar_ok S_fixed32 (V_num n) \<longleftrightarrow> int_range 4 False n"
| "scalar_ok S_fixed64 (V_num n) \<longleftrightarrow> int_range 8 False n"
| "scalar_ok S_sfixed32 (V_num n) \<longleftrightarrow> int_range 4 True n"
| "scalar_ok S_sfixed64 (V_num n) \<longleftrightarrow> int_range 8 True n"
| "scalar_ok S_float (V_num n) \<longleftrightarrow> int_range 4 False n"
| "scalar_ok S_double (V_num n) \<longleftrightarrow> int_range 8 False n"
| "scalar_ok _ _ \<longleftrightarrow> False"

section \<open>Numbers keep their size and value\<close>

text \<open>What a number is written as, after the key.\<close>

definition payload :: "pb_scalar \<Rightarrow> int \<Rightarrow> byte list" where
  "payload s n = encode_numeric_field 0 False s n"

lemma encode_numeric_field_eq:
  "encode_numeric_field key omit s n = (if omit \<and> is_zero s n then [] else key_bytes key @ payload s n)"
  by (cases "omit \<and> is_zero s n"; cases s)
    (simp_all only: payload_def encode_numeric_field.simps encode_varint_field_def encode_fixed_field_def key_bytes_def, simp_all)

declare encode_numeric_field.simps [simp del]

lemma payload_simps:
  "payload S_bool n = serialize_varint (word_of_int n)"
  "payload (S_integral b sg) n = serialize_varint (word_of_int n)"
  "payload (S_enum b sg) n = serialize_varint (word_of_int n)"
  "payload S_sint32 n = serialize_varint (ucast (encode_zigzag32 (word_of_int n)))"
  "payload S_sint64 n = serialize_varint (encode_zigzag64 (word_of_int n))"
  "payload S_fixed32 n = le_bytes 4 (word_of_int n :: u64)"
  "payload S_fixed64 n = le_bytes 8 (word_of_int n :: u64)"
  "payload S_sfixed32 n = le_bytes 4 (word_of_int n :: u64)"
  "payload S_sfixed64 n = le_bytes 8 (word_of_int n :: u64)"
  "payload S_float n = le_bytes 4 (word_of_int n :: u64)"
  "payload S_double n = le_bytes 8 (word_of_int n :: u64)"
  by (simp_all add: payload_def encode_numeric_field.simps encode_varint_field_def encode_fixed_field_def key_bytes_def)

lemma int_range_bounds:
  assumes "int_range b sg n" "b \<in> {1, 2, 4, 8}"
  shows "- (2 ^ 63) \<le> n" "n < 2 ^ 64" "b \<noteq> 8 \<Longrightarrow> - (2 ^ 31) \<le> n" "b \<noteq> 8 \<Longrightarrow> n < 2 ^ 32"
    "n < 0 \<Longrightarrow> sg"
  using assms by (auto split: if_splits)

lemma unat_word_of_int64:
  assumes "- (2 ^ 63) \<le> n" "n < 2 ^ 64"
  shows "unat (word_of_int n :: u64) = (if n < 0 then nat (2 ^ 64 + n) else nat n)"
proof -
  have "n mod 2 ^ 64 = (if n < 0 then 2 ^ 64 + n else n)"
  proof (cases "n < 0")
    case True
    have "(n + 2 ^ 64) mod 2 ^ 64 = n + 2 ^ 64" using assms True by (intro mod_pos_pos_trivial) auto
    then show ?thesis using True by simp
  qed (use assms in simp)
  then show ?thesis by (simp add: unat_eq_nat_uint uint_word_of_int)
qed

lemma length_varint_neg:
  assumes "- (2 ^ 63) \<le> n" "n < 0"
  shows "length (varint (unat (word_of_int n :: u64))) = 10"
proof -
  have "(2 :: nat) ^ 63 \<le> nat (2 ^ 64 + n)" "nat (2 ^ 64 + n) < 2 * 2 ^ 63" using assms by auto
  then have "log_loop (nat (2 ^ 64 + n)) 0 = 63" by (rule log_loop_unique)
  then show ?thesis using assms unat_word_of_int64 [of n] by (simp add: length_varint)
qed

lemma variant_intergal_size_eq:
  assumes "int_range b sg n" "b \<in> {1, 2, 4, 8}"
  shows "variant_intergal_size b sg n = length (serialize_varint (word_of_int n))"
proof (cases "n < 0 \<and> b \<noteq> 8")
  case True
  then show ?thesis using int_range_bounds [OF assms] length_varint_neg [of n]
    by (simp add: variant_intergal_size_def serialize_varint_eq)
next
  case False
  show ?thesis
  proof (cases "b = 8")
    case True
    then show ?thesis by (simp add: variant_intergal_size_def serialize_varint_eq variant_uint64_size_eq)
  next
    case b: False
    then have n: "0 \<le> n" "n < 2 ^ 32" using False int_range_bounds [OF assms] by auto
    then have "unat (word_of_int n :: u32) = nat n" by (simp add: unat_eq_nat_uint uint_word_of_int)
    then show ?thesis using b n unat_word_of_int64 [of n]
      by (simp add: variant_intergal_size_def serialize_varint_eq variant_uint32_size_eq)
  qed
qed

lemma numeric_size_eq:
  assumes "scalar_ok s (V_num n)"
  shows "numeric_size s n = length (payload s n)"
proof -
  have z: "variant_intergal_size 4 False (uint w) = length (serialize_varint (ucast w))" for w :: u32
    using unsigned_less [of w, where ?'a = int]
    by (subst variant_intergal_size_eq) (simp_all add: of_int_uint)
  have z8: "variant_intergal_size 8 False (uint w) = length (serialize_varint w)" for w :: u64
    using unsigned_less [of w, where ?'a = int]
    by (subst variant_intergal_size_eq) simp_all
  show ?thesis
  proof (cases s)
    case S_bool
    then have "n = 0 \<or> n = 1" using assms by simp
    then show ?thesis using S_bool by (auto simp: payload_simps serialize_varint_def)
  qed (use assms in \<open>simp_all add: payload_simps variant_intergal_size_eq z z8 del: int_range.simps insert_iff\<close>)
qed

lemma cast_integral_id:
  assumes "int_range b sg n" "b \<in> {1, 2, 4, 8}"
  shows "cast_integral b sg (word_of_int n) = n"
proof -
  have b: "0 < b" "8 * b \<le> 64" "8 * b - 1 < 64" using assms(2) by auto
  have u: "uint (word_of_int n :: u64) = take_bit 64 n" by (simp add: uint_word_of_int take_bit_eq_mod)
  show ?thesis
  proof (cases sg)
    case True
    then have "signed_take_bit (8 * b - 1) n = n" using assms(1) by (intro signed_take_bit_int_eq_self) auto
    then show ?thesis using True b by (simp add: cast_integral_def u signed_take_bit_take_bit)
  next
    case False
    then have "take_bit (8 * b) n = n" using assms(1) by (intro take_bit_int_eq_self) auto
    then show ?thesis using False b by (simp add: cast_integral_def u min_def)
  qed
qed

lemma read_fixed_bytes:
  assumes "int_range b sg n" "b = 4 \<or> b = 8"
  shows "read_fixed b sg (le_bytes b (word_of_int n :: u64) @ rest) = Inr (V_num n, rest)"
proof -
  have b: "0 < b" "8 * b \<le> 64" "8 * b - 1 < 8 * b" using assms(2) by auto
  have "cast_integral b sg (take_bit (8 * b) w) = cast_integral b sg w" for w :: u64
    using b by (simp add: cast_integral_def unsigned_take_bit_eq signed_take_bit_take_bit)
  then show ?thesis using cast_integral_id [OF assms(1)] assms(2) by (auto simp: read_fixed_def le_roundtrip)
qed

lemma sint_word_of_int_range: "int_range 4 True n \<Longrightarrow> sint (word_of_int n :: u32) = n"
  "int_range 8 True n \<Longrightarrow> sint (word_of_int n :: u64) = n"
  by (simp_all add: signed_of_int signed_take_bit_int_eq_self)

text \<open>A number that was written is read back.\<close>

lemma read_payload:
  assumes "scalar_ok s (V_num n)"
  shows "read_scalar s (payload s n @ rest) = Inr (V_num n, rest)"
proof (cases s)
  case S_bool
  then have "n = 0 \<or> n = 1" using assms by simp
  then show ?thesis using S_bool by (auto simp: payload_simps decode_serialize_varint)
next
  case S_sint32
  have "(ucast (ucast w :: u64) :: u32) = w" for w :: u32 by (intro bit_word_eqI) (simp add: bit_ucast_iff)
  then show ?thesis using S_sint32 assms
    by (simp add: payload_simps decode_serialize_varint zigzag32 sint_word_of_int_range del: int_range.simps)
qed (use assms in \<open>simp_all add: payload_simps decode_serialize_varint cast_integral_id zigzag64
  sint_word_of_int_range read_fixed_bytes del: int_range.simps insert_iff\<close>)

end
