(* ===== verification/Iguana_Pb_Writer.thy ===== *)
theory Iguana_Pb_Writer
  imports Iguana_Pb_Types
begin

text \<open>
  Writing protobuf messages, \<^verbatim>\<open>iguana/pb_writer.hpp\<close> with the size pass of \<^verbatim>\<open>iguana/pb_util.hpp\<close>.
  \<^verbatim>\<open>to_pb\<close> walks the message twice: the first pass computes the number of bytes and leaves the sizes of the
  nested messages in \<^verbatim>\<open>size_arr\<close>, in the order in which they are met; the second writes, and takes the sizes
  through \<^verbatim>\<open>sz_ptr\<close>.  The array a pass has filled so far and the part of it that is still to be read are
  lists that are passed along; reading behind the end of the array is \<^const>\<open>None\<close>.
\<close>

section \<open>The first pass: sizes\<close>

fun obind :: "'a option \<Rightarrow> ('a \<Rightarrow> 'b option) \<Rightarrow> 'b option" where
  "obind None f = None"
| "obind (Some x) f = f x"

lemma obind_cong [fundef_cong]: "x = x' \<Longrightarrow> (\<And>a. x' = Some a \<Longrightarrow> f a = f' a) \<Longrightarrow> obind x f = obind x' f'"
  by (cases x') auto

definition sub_key :: "nat \<Rightarrow> pb_type \<Rightarrow> u32" where
  "sub_key field_no t = make_tag field_no (get_wire_type t)"

definition sub_keysize :: "nat \<Rightarrow> pb_type \<Rightarrow> nat" where
  "sub_keysize field_no t = variant_uint32_size_constexpr (unat (sub_key field_no t))"

definition pb_unknown_fields_size :: "pb_message \<Rightarrow> byte list \<Rightarrow> nat" where
  "pb_unknown_fields_size m unknown = (if keeps_unknown m then length unknown else 0)"

text \<open>The numbers of a packed sequence; the items of other types do not compile.\<close>

fun packed_size :: "pb_type \<Rightarrow> pb_value list \<Rightarrow> nat" where
  "packed_size (T_scalar s) vs = (\<Sum>v\<leftarrow>vs. str_numeric_size 0 False s v)"
| "packed_size _ vs = 0"

text \<open>
  What a member writes: its number, whether the default value is omitted, the type and the value.  A variant has
  an entry for each case, and the entry of the case it holds is the one that writes; \<^verbatim>\<open>std::monostate\<close> has none.
\<close>

fun member_field :: "pb_member \<Rightarrow> pb_value \<Rightarrow> (nat \<times> bool \<times> pb_type \<times> pb_value) option" where
  "member_field (Member field_no optional_schema t) v = Some (field_no, \<not> optional_schema, t, v)"
| "member_field (Oneof monostate cases) v =
     (case v of
        V_oneof (Some (i, v)) \<Rightarrow> (case cases ! i of (field_no, t) \<Rightarrow> Some (field_no, False, t, v))
      | _ \<Rightarrow> None)"

lemma member_field_size: "member_field m v = Some (no, omit, t, v') \<Longrightarrow> size v' \<le> size v"
  by (cases m) (auto split: pb_value.splits option.splits prod.splits)

function (sequential) pb_key_value_size :: "pb_schema \<Rightarrow> nat \<Rightarrow> bool \<Rightarrow> pb_type \<Rightarrow> pb_value \<Rightarrow> u32 list \<Rightarrow> nat \<times> u32 list"
  and pb_members_size :: "pb_schema \<Rightarrow> pb_member list \<Rightarrow> pb_value list \<Rightarrow> u32 list \<Rightarrow> nat \<times> u32 list"
  and pb_items_size :: "pb_schema \<Rightarrow> nat \<Rightarrow> pb_type \<Rightarrow> pb_value list \<Rightarrow> u32 list \<Rightarrow> nat \<times> u32 list"
  and pb_pairs_size :: "pb_schema \<Rightarrow> nat \<Rightarrow> pb_scalar \<Rightarrow> pb_type \<Rightarrow> (pb_value \<times> pb_value) list \<Rightarrow> u32 list
    \<Rightarrow> nat \<times> u32 list"
where
  "pb_key_value_size S key_size omit ty (V_message vs unknown) size_arr =
     (case ty of
        T_message m \<Rightarrow>
          (let pre_index = length size_arr;
               size_arr = (if key_size \<noteq> 0 then size_arr @ [0] else size_arr);
               (len, size_arr) = pb_members_size S (pb_members (S m)) vs size_arr;
               len = len + pb_unknown_fields_size (S m) unknown;
               size_arr = (if key_size \<noteq> 0 then size_arr[pre_index := word_of_nat len] else size_arr)
           in if key_size = 0 then (len, size_arr)
              else if len = 0 then (key_size + 1, size_arr)
              else (key_size + variant_uint32_size (word_of_nat len) + len, size_arr))
      | _ \<Rightarrow> (0, size_arr))"
| "pb_key_value_size S key_size omit ty (V_sequence vs) size_arr =
     (case ty of
        T_sequence t \<Rightarrow>
          (if is_lenprefix t then pb_items_size S key_size t vs size_arr
           else let len = packed_size t vs
                in if len = 0 then (0, size_arr)
                   else (key_size + variant_uint32_size (word_of_nat len) + len, size_arr))
      | _ \<Rightarrow> (0, size_arr))"
| "pb_key_value_size S key_size omit ty (V_map kvs) size_arr =
     (case ty of
        T_map kt vt \<Rightarrow> pb_pairs_size S key_size kt vt kvs size_arr
      | _ \<Rightarrow> (0, size_arr))"
| "pb_key_value_size S key_size omit ty (V_optional t) size_arr =
     (case (ty, t) of
        (T_optional ty, Some t) \<Rightarrow> pb_key_value_size S key_size omit ty t size_arr
      | _ \<Rightarrow> (0, size_arr))"
| "pb_key_value_size S key_size omit ty (V_num n) size_arr =
     (case ty of T_scalar s \<Rightarrow> (str_numeric_size key_size omit s (V_num n), size_arr) | _ \<Rightarrow> (0, size_arr))"
| "pb_key_value_size S key_size omit ty (V_bytes b) size_arr =
     (case ty of T_scalar s \<Rightarrow> (str_numeric_size key_size omit s (V_bytes b), size_arr) | _ \<Rightarrow> (0, size_arr))"
| "pb_key_value_size S key_size omit ty (V_oneof c) size_arr = (0, size_arr)"
| "pb_members_size S ms [] size_arr = (0, size_arr)"
| "pb_members_size S ms (v # vs) size_arr =
     (case ms of
        [] \<Rightarrow> (0, size_arr)
      | m # ms \<Rightarrow>
          (case member_field m v of
             None \<Rightarrow> pb_members_size S ms vs size_arr
           | Some (field_no, omit, t, v) \<Rightarrow>
               (let (len, size_arr) = pb_key_value_size S (sub_keysize field_no t) omit t v size_arr;
                    (len', size_arr) = pb_members_size S ms vs size_arr
                in (len + len', size_arr))))"
| "pb_items_size S key_size t [] size_arr = (0, size_arr)"
| "pb_items_size S key_size t (v # vs) size_arr =
     (let (len, size_arr) = pb_key_value_size S key_size False t v size_arr;
          (len', size_arr) = pb_items_size S key_size t vs size_arr
      in (len + len', size_arr))"
| "pb_pairs_size S key_size kt vt [] size_arr = (0, size_arr)"
| "pb_pairs_size S key_size kt vt (kv # kvs) size_arr =
     (case kv of (k, v) \<Rightarrow>
       (let (k_len, size_arr) = pb_key_value_size S 1 False (T_scalar kt) k size_arr;
            (v_len, size_arr) = pb_key_value_size S 1 False vt v size_arr;
            kv_len = k_len + v_len;
            (len', size_arr) = pb_pairs_size S key_size kt vt kvs size_arr
        in (key_size + variant_uint32_size (word_of_nat kv_len) + kv_len + len', size_arr)))"

  by pat_completeness auto
termination
  by (relation "measure (\<lambda>x. case x of
      Inl (Inl (_, _, _, _, v, _)) \<Rightarrow> size v
    | Inl (Inr (_, _, vs, _)) \<Rightarrow> size_list size vs
    | Inr (Inl (_, _, _, vs, _)) \<Rightarrow> size_list size vs
    | Inr (Inr (_, _, _, _, kvs, _)) \<Rightarrow> size_list (size_prod size size) kvs)")
    (auto dest!: member_field_size)

section \<open>The second pass: bytes\<close>

fun pb_value_size :: "bool \<Rightarrow> pb_type \<Rightarrow> pb_value \<Rightarrow> u32 list \<Rightarrow> (nat \<times> u32 list) option" where
  "pb_value_size skip_next (T_message m) v sz_ptr =
     (case sz_ptr of [] \<Rightarrow> None | n # sz_ptr' \<Rightarrow> Some (unat n, if skip_next then sz_ptr' else sz_ptr))"
| "pb_value_size skip_next (T_sequence t) v sz_ptr =
     Some (case v of V_sequence vs \<Rightarrow> packed_size t vs | _ \<Rightarrow> 0, sz_ptr)"
| "pb_value_size skip_next (T_optional t) v sz_ptr =
     (case v of V_optional (Some v) \<Rightarrow> pb_value_size True t v sz_ptr | _ \<Rightarrow> Some (0, sz_ptr))"
| "pb_value_size skip_next (T_scalar s) v sz_ptr = Some (str_numeric_size 0 False s v, sz_ptr)"
| "pb_value_size skip_next (T_map _ _) v sz_ptr = Some (0, sz_ptr)"

definition write_pb_unknown_fields :: "pb_message \<Rightarrow> byte list \<Rightarrow> byte list" where
  "write_pb_unknown_fields m unknown = (if keeps_unknown m then unknown else [])"

text \<open>\<^verbatim>\<open>packed\<close>: the numbers of a sequence one after the other, without keys.\<close>

fun write_packed :: "pb_type \<Rightarrow> pb_value list \<Rightarrow> byte list" where
  "write_packed (T_scalar s) vs =
     concat (map (\<lambda>v. case v of V_num n \<Rightarrow> encode_numeric_field 0 False s n | _ \<Rightarrow> []) vs)"
| "write_packed _ vs = []"

text \<open>The value of a map entry, and what writing it gives when its size is not 0.\<close>

definition encode_pair_value :: "u32 \<Rightarrow> nat \<Rightarrow> u32 list \<Rightarrow> (byte list \<times> u32 list) option
    \<Rightarrow> (byte list \<times> u32 list) option" where
  "encode_pair_value key sz sz_ptr written =
     (if sz = 0 then Some (serialize_varint_u32 key @ serialize_varint 0, sz_ptr) else written)"

function (sequential) to_pb_impl :: "pb_schema \<Rightarrow> u32 \<Rightarrow> bool \<Rightarrow> pb_type \<Rightarrow> pb_value \<Rightarrow> u32 list \<Rightarrow> (byte list \<times> u32 list) option"
  and to_pb_members :: "pb_schema \<Rightarrow> pb_member list \<Rightarrow> pb_value list \<Rightarrow> u32 list \<Rightarrow> (byte list \<times> u32 list) option"
  and to_pb_items :: "pb_schema \<Rightarrow> u32 \<Rightarrow> pb_type \<Rightarrow> pb_value list \<Rightarrow> u32 list \<Rightarrow> (byte list \<times> u32 list) option"
  and to_pb_pairs :: "pb_schema \<Rightarrow> u32 \<Rightarrow> pb_scalar \<Rightarrow> pb_type \<Rightarrow> (pb_value \<times> pb_value) list \<Rightarrow> u32 list
    \<Rightarrow> (byte list \<times> u32 list) option"
where
  "to_pb_impl S key omit ty (V_message vs unknown) sz_ptr =
     (case ty of
        T_message m \<Rightarrow>
          obind (if key \<noteq> 0 then pb_value_size True ty (V_message vs unknown) sz_ptr else Some (0, sz_ptr))
            (\<lambda>(len, sz_ptr).
              let head = (if key \<noteq> 0 then serialize_varint_u32 key @ serialize_varint (word_of_nat len) else [])
              in if key \<noteq> 0 \<and> len = 0 then Some (head, sz_ptr)
                 else obind (to_pb_members S (pb_members (S m)) vs sz_ptr)
                   (\<lambda>(bytes, sz_ptr). Some (head @ bytes @ write_pb_unknown_fields (S m) unknown, sz_ptr)))
      | _ \<Rightarrow> Some ([], sz_ptr))"
| "to_pb_impl S key omit ty (V_sequence vs) sz_ptr =
     (case ty of
        T_sequence t \<Rightarrow>
          (if is_lenprefix t then to_pb_items S key t vs sz_ptr
           else if vs = [] then Some ([], sz_ptr)
           else obind (pb_value_size True ty (V_sequence vs) sz_ptr) (\<lambda>(len, sz_ptr).
             Some (serialize_varint_u32 key @ serialize_varint (word_of_nat len) @ write_packed t vs, sz_ptr)))
      | _ \<Rightarrow> Some ([], sz_ptr))"
| "to_pb_impl S key omit ty (V_map kvs) sz_ptr =
     (case ty of
        T_map kt vt \<Rightarrow> to_pb_pairs S key kt vt kvs sz_ptr
      | _ \<Rightarrow> Some ([], sz_ptr))"
| "to_pb_impl S key omit ty (V_optional t) sz_ptr =
     (case (ty, t) of
        (T_optional ty, Some t) \<Rightarrow> to_pb_impl S key omit ty t sz_ptr
      | _ \<Rightarrow> Some ([], sz_ptr))"
| "to_pb_impl S key omit ty (V_num n) sz_ptr =
     Some (case ty of T_scalar s \<Rightarrow> write_scalar key omit s (V_num n) | _ \<Rightarrow> [], sz_ptr)"
| "to_pb_impl S key omit ty (V_bytes b) sz_ptr =
     Some (case ty of T_scalar s \<Rightarrow> write_scalar key omit s (V_bytes b) | _ \<Rightarrow> [], sz_ptr)"
| "to_pb_impl S key omit ty (V_oneof c) sz_ptr = Some ([], sz_ptr)"
| "to_pb_members S ms [] sz_ptr = Some ([], sz_ptr)"
| "to_pb_members S ms (v # vs) sz_ptr =
     (case ms of
        [] \<Rightarrow> Some ([], sz_ptr)
      | m # ms \<Rightarrow>
          (case member_field m v of
             None \<Rightarrow> to_pb_members S ms vs sz_ptr
           | Some (field_no, omit, t, v) \<Rightarrow>
               obind (to_pb_impl S (sub_key field_no t) omit t v sz_ptr) (\<lambda>(bytes, sz_ptr).
                 obind (to_pb_members S ms vs sz_ptr) (\<lambda>(bytes', sz_ptr). Some (bytes @ bytes', sz_ptr)))))"
| "to_pb_items S key t [] sz_ptr = Some ([], sz_ptr)"
| "to_pb_items S key t (v # vs) sz_ptr =
     obind (to_pb_impl S key False t v sz_ptr) (\<lambda>(bytes, sz_ptr).
       obind (to_pb_items S key t vs sz_ptr) (\<lambda>(bytes', sz_ptr). Some (bytes @ bytes', sz_ptr)))"
| "to_pb_pairs S key kt vt [] sz_ptr = Some ([], sz_ptr)"
| "to_pb_pairs S key kt vt (kv # kvs) sz_ptr =
     (case kv of (k, v) \<Rightarrow>
       obind (pb_value_size False vt v sz_ptr) (\<lambda>(v_val_len, sz_ptr).
         let k_val_len = str_numeric_size 0 False kt k;
             pair_len = sub_keysize 1 (T_scalar kt) + sub_keysize 2 vt + k_val_len + v_val_len
               + (if is_lenprefix (T_scalar kt) then variant_uint32_size (word_of_nat k_val_len) else 0)
               + (if is_lenprefix vt then variant_uint32_size (word_of_nat v_val_len) else 0)
         in obind (encode_pair_value (sub_key 1 (T_scalar kt)) k_val_len sz_ptr
                    (to_pb_impl S (sub_key 1 (T_scalar kt)) False (T_scalar kt) k sz_ptr)) (\<lambda>(k_bytes, sz_ptr).
            obind (encode_pair_value (sub_key 2 vt) v_val_len sz_ptr
                    (to_pb_impl S (sub_key 2 vt) False vt v sz_ptr)) (\<lambda>(v_bytes, sz_ptr).
            obind (to_pb_pairs S key kt vt kvs sz_ptr) (\<lambda>(bytes', sz_ptr).
              Some (serialize_varint_u32 key @ serialize_varint (word_of_nat pair_len)
                @ k_bytes @ v_bytes @ bytes', sz_ptr))))))"

  by pat_completeness auto
termination
  by (relation "measure (\<lambda>x. case x of
      Inl (Inl (_, _, _, _, v, _)) \<Rightarrow> size v
    | Inl (Inr (_, _, vs, _)) \<Rightarrow> size_list size vs
    | Inr (Inl (_, _, _, vs, _)) \<Rightarrow> size_list size vs
    | Inr (Inr (_, _, _, _, kvs, _)) \<Rightarrow> size_list (size_prod size size) kvs)")
    (auto dest!: member_field_size)

text \<open>
  \<^verbatim>\<open>to_pb\<close>: the number of bytes the output is resized to and the bytes that are written into it; \<^verbatim>\<open>memory_writer\<close>
  does not check that they fit.
\<close>

definition to_pb :: "pb_schema \<Rightarrow> string \<Rightarrow> pb_value \<Rightarrow> (nat \<times> byte list) option" where
  "to_pb S m t =
     (let (byte_len, size_arr) = pb_key_value_size S 0 True (T_message m) t []
      in map_option (\<lambda>(bytes, _). (byte_len, bytes)) (to_pb_impl S 0 True (T_message m) t size_arr))"

section \<open>The encoding of a message\<close>

text \<open>
  The encoding without the array: the length of a nested message is that of its own encoding.  The two passes
  are compared with it.
\<close>

definition delimited :: "u32 \<Rightarrow> byte list \<Rightarrow> byte list" where
  "delimited key body = serialize_varint_u32 key @ serialize_varint (word_of_nat (length body)) @ body"

function (sequential) pb_bytes :: "pb_schema \<Rightarrow> u32 \<Rightarrow> bool \<Rightarrow> pb_type \<Rightarrow> pb_value \<Rightarrow> byte list"
  and members_bytes :: "pb_schema \<Rightarrow> pb_member list \<Rightarrow> pb_value list \<Rightarrow> byte list"
  and items_bytes :: "pb_schema \<Rightarrow> u32 \<Rightarrow> pb_type \<Rightarrow> pb_value list \<Rightarrow> byte list"
  and pairs_bytes :: "pb_schema \<Rightarrow> u32 \<Rightarrow> pb_scalar \<Rightarrow> pb_type \<Rightarrow> (pb_value \<times> pb_value) list \<Rightarrow> byte list"
where
  "pb_bytes S key omit ty (V_message vs unknown) =
     (case ty of
        T_message m \<Rightarrow>
          (let body = members_bytes S (pb_members (S m)) vs @ write_pb_unknown_fields (S m) unknown
           in if key = 0 then body else delimited key body)
      | _ \<Rightarrow> [])"
| "pb_bytes S key omit ty (V_sequence vs) =
     (case ty of
        T_sequence t \<Rightarrow>
          (if is_lenprefix t then items_bytes S key t vs
           else if vs = [] then [] else delimited key (write_packed t vs))
      | _ \<Rightarrow> [])"
| "pb_bytes S key omit ty (V_map kvs) =
     (case ty of T_map kt vt \<Rightarrow> pairs_bytes S key kt vt kvs | _ \<Rightarrow> [])"
| "pb_bytes S key omit ty (V_optional t) =
     (case (ty, t) of (T_optional ty, Some t) \<Rightarrow> pb_bytes S key omit ty t | _ \<Rightarrow> [])"
| "pb_bytes S key omit ty (V_num n) =
     (case ty of T_scalar s \<Rightarrow> write_scalar key omit s (V_num n) | _ \<Rightarrow> [])"
| "pb_bytes S key omit ty (V_bytes b) =
     (case ty of T_scalar s \<Rightarrow> write_scalar key omit s (V_bytes b) | _ \<Rightarrow> [])"
| "pb_bytes S key omit ty (V_oneof c) = []"
| "members_bytes S ms [] = []"
| "members_bytes S ms (v # vs) =
     (case ms of
        [] \<Rightarrow> []
      | m # ms \<Rightarrow>
          (case member_field m v of
             None \<Rightarrow> []
           | Some (field_no, omit, t, v) \<Rightarrow> pb_bytes S (sub_key field_no t) omit t v) @ members_bytes S ms vs)"
| "items_bytes S key t [] = []"
| "items_bytes S key t (v # vs) = pb_bytes S key False t v @ items_bytes S key t vs"
| "pairs_bytes S key kt vt [] = []"
| "pairs_bytes S key kt vt (kv # kvs) =
     (case kv of (k, v) \<Rightarrow>
       delimited key (write_scalar (sub_key 1 (T_scalar kt)) False kt k @ pb_bytes S (sub_key 2 vt) False vt v)
         @ pairs_bytes S key kt vt kvs)"
  by pat_completeness auto
termination
  by (relation "measure (\<lambda>x. case x of
      Inl (Inl (_, _, _, _, v)) \<Rightarrow> size v
    | Inl (Inr (_, _, vs)) \<Rightarrow> size_list size vs
    | Inr (Inl (_, _, _, vs)) \<Rightarrow> size_list size vs
    | Inr (Inr (_, _, _, _, kvs)) \<Rightarrow> size_list (size_prod size size) kvs)")
    (auto dest!: member_field_size)

text \<open>The sizes of the nested messages, in the order of the array.\<close>

function (sequential) pb_sizes :: "pb_schema \<Rightarrow> u32 \<Rightarrow> pb_type \<Rightarrow> pb_value \<Rightarrow> u32 list"
  and members_sizes :: "pb_schema \<Rightarrow> pb_member list \<Rightarrow> pb_value list \<Rightarrow> u32 list"
  and items_sizes :: "pb_schema \<Rightarrow> u32 \<Rightarrow> pb_type \<Rightarrow> pb_value list \<Rightarrow> u32 list"
  and pairs_sizes :: "pb_schema \<Rightarrow> u32 \<Rightarrow> pb_type \<Rightarrow> (pb_value \<times> pb_value) list \<Rightarrow> u32 list"
where
  "pb_sizes S key ty (V_message vs unknown) =
     (case ty of
        T_message m \<Rightarrow>
          (if key = 0 then []
           else [word_of_nat (length (members_bytes S (pb_members (S m)) vs @ write_pb_unknown_fields (S m) unknown))])
          @ members_sizes S (pb_members (S m)) vs
      | _ \<Rightarrow> [])"
| "pb_sizes S key ty (V_sequence vs) =
     (case ty of T_sequence t \<Rightarrow> if is_lenprefix t then items_sizes S key t vs else [] | _ \<Rightarrow> [])"
| "pb_sizes S key ty (V_map kvs) = (case ty of T_map kt vt \<Rightarrow> pairs_sizes S key vt kvs | _ \<Rightarrow> [])"
| "pb_sizes S key ty (V_optional t) =
     (case (ty, t) of (T_optional ty, Some t) \<Rightarrow> pb_sizes S key ty t | _ \<Rightarrow> [])"
| "pb_sizes S key ty (V_num n) = []"
| "pb_sizes S key ty (V_bytes b) = []"
| "pb_sizes S key ty (V_oneof c) = []"
| "members_sizes S ms [] = []"
| "members_sizes S ms (v # vs) =
     (case ms of
        [] \<Rightarrow> []
      | m # ms \<Rightarrow>
          (case member_field m v of
             None \<Rightarrow> []
           | Some (field_no, omit, t, v) \<Rightarrow> pb_sizes S (sub_key field_no t) t v) @ members_sizes S ms vs)"
| "items_sizes S key t [] = []"
| "items_sizes S key t (v # vs) = pb_sizes S key t v @ items_sizes S key t vs"
| "pairs_sizes S key vt [] = []"
| "pairs_sizes S key vt (kv # kvs) =
     (case kv of (k, v) \<Rightarrow> pb_sizes S (sub_key 2 vt) vt v @ pairs_sizes S key vt kvs)"
  by pat_completeness auto
termination
  by (relation "measure (\<lambda>x. case x of
      Inl (Inl (_, _, _, v)) \<Rightarrow> size v
    | Inl (Inr (_, _, vs)) \<Rightarrow> size_list size vs
    | Inr (Inl (_, _, _, vs)) \<Rightarrow> size_list size vs
    | Inr (Inr (_, _, _, kvs)) \<Rightarrow> size_list (size_prod size size) kvs)")
    (auto dest!: member_field_size)

text \<open>
  The values of a type.  A sequence, a map and an optional member hold numbers, strings or messages, as in the
  protobuf language, and no map holds a message whose encoding is empty.
\<close>

fun item_type :: "pb_type \<Rightarrow> bool" where
  "item_type (T_scalar _) \<longleftrightarrow> True"
| "item_type (T_message _) \<longleftrightarrow> True"
| "item_type _ \<longleftrightarrow> False"

fun map_value_ok :: "pb_schema \<Rightarrow> pb_type \<Rightarrow> pb_value \<Rightarrow> bool" where
  "map_value_ok S (T_message m) v \<longleftrightarrow> pb_bytes S 0 False (T_message m) v \<noteq> []"
| "map_value_ok S _ v \<longleftrightarrow> True"

fun variant_ok :: "pb_member \<Rightarrow> pb_value \<Rightarrow> bool" where
  "variant_ok (Oneof monostate cases) (V_oneof None) \<longleftrightarrow> monostate"
| "variant_ok (Oneof monostate cases) (V_oneof (Some (i, v))) \<longleftrightarrow> i < length cases \<and> item_type (snd (cases ! i))"
| "variant_ok (Oneof monostate cases) _ \<longleftrightarrow> False"
| "variant_ok (Member _ _ _) _ \<longleftrightarrow> True"

function (sequential) pb_ok :: "pb_schema \<Rightarrow> pb_type \<Rightarrow> pb_value \<Rightarrow> bool"
  and members_ok :: "pb_schema \<Rightarrow> pb_member list \<Rightarrow> pb_value list \<Rightarrow> bool"
  and items_ok :: "pb_schema \<Rightarrow> pb_type \<Rightarrow> pb_value list \<Rightarrow> bool"
  and pairs_ok :: "pb_schema \<Rightarrow> pb_scalar \<Rightarrow> pb_type \<Rightarrow> (pb_value \<times> pb_value) list \<Rightarrow> bool"
where
  "pb_ok S ty (V_message vs unknown) \<longleftrightarrow>
     (case ty of T_message m \<Rightarrow> members_ok S (pb_members (S m)) vs | _ \<Rightarrow> False)"
| "pb_ok S ty (V_sequence vs) \<longleftrightarrow>
     (case ty of T_sequence t \<Rightarrow> item_type t \<and> items_ok S t vs | _ \<Rightarrow> False)"
| "pb_ok S ty (V_map kvs) \<longleftrightarrow>
     (case ty of T_map kt vt \<Rightarrow> item_type vt \<and> pairs_ok S kt vt kvs | _ \<Rightarrow> False)"
| "pb_ok S ty (V_optional t) \<longleftrightarrow>
     (case ty of
        T_optional ty \<Rightarrow> item_type ty \<and> (case t of None \<Rightarrow> True | Some t \<Rightarrow> pb_ok S ty t)
      | _ \<Rightarrow> False)"
| "pb_ok S ty (V_num n) \<longleftrightarrow> (case ty of T_scalar s \<Rightarrow> scalar_ok s (V_num n) | _ \<Rightarrow> False)"
| "pb_ok S ty (V_bytes b) \<longleftrightarrow> (case ty of T_scalar s \<Rightarrow> scalar_ok s (V_bytes b) | _ \<Rightarrow> False)"
| "pb_ok S ty (V_oneof c) \<longleftrightarrow> False"
| "members_ok S ms [] \<longleftrightarrow> ms = []"
| "members_ok S ms (v # vs) \<longleftrightarrow>
     (case ms of
        [] \<Rightarrow> False
      | m # ms \<Rightarrow>
          variant_ok m v
            \<and> (case member_field m v of None \<Rightarrow> True | Some (field_no, omit, t, v) \<Rightarrow> pb_ok S t v)
            \<and> members_ok S ms vs)"
| "items_ok S t [] \<longleftrightarrow> True"
| "items_ok S t (v # vs) \<longleftrightarrow> pb_ok S t v \<and> items_ok S t vs"
| "pairs_ok S kt vt [] \<longleftrightarrow> True"
| "pairs_ok S kt vt (kv # kvs) \<longleftrightarrow>
     (case kv of (k, v) \<Rightarrow> scalar_ok kt k \<and> pb_ok S vt v \<and> map_value_ok S vt v) \<and> pairs_ok S kt vt kvs"
  by pat_completeness auto
termination
  by (relation "measure (\<lambda>x. case x of
      Inl (Inl (_, _, v)) \<Rightarrow> size v
    | Inl (Inr (_, _, vs)) \<Rightarrow> size_list size vs
    | Inr (Inl (_, _, vs)) \<Rightarrow> size_list size vs
    | Inr (Inr (_, _, _, kvs)) \<Rightarrow> size_list (size_prod size size) kvs)")
    (auto dest!: member_field_size)

end
