(* ===== verification/Iguana_Pb_Passes.thy ===== *)
theory Iguana_Pb_Passes
  imports Iguana_Pb_Writer
begin

text \<open>
  The two passes of \<^verbatim>\<open>to_pb\<close> (\<^verbatim>\<open>iguana/pb_writer.hpp\<close>) fit together: the first leaves in the array exactly what the
  second takes out of it, and counts exactly the bytes the second writes.  Both are compared with the encoding
  \<^const>\<open>pb_bytes\<close>, which needs no array.
\<close>

section \<open>Both passes follow the encoding\<close>

lemma obind_conv: "obind x f = Some y \<longleftrightarrow> (\<exists>a. x = Some a \<and> f a = Some y)"
  by (cases x) auto

text \<open>The numbers of the members are those that compile.\<close>

definition numbers_ok :: "pb_member list \<Rightarrow> bool" where
  "numbers_ok ms \<longleftrightarrow> (\<forall>no \<in> set (field_numbers ms). 0 < no \<and> no < 2 ^ 29)"

definition schema_ok :: "pb_schema \<Rightarrow> bool" where
  "schema_ok S \<longleftrightarrow> (\<forall>m. validate_pb_members (pb_members (S m)))"

lemma schema_numbers: "schema_ok S \<Longrightarrow> numbers_ok (pb_members (S m))"
  unfolding schema_ok_def validate_pb_members_def has_invalid_field_nos_def is_valid_pb_field_no_def numbers_ok_def
  by (auto simp: less_eq_Suc_le)

lemma numbers_ok_simps:
  "numbers_ok []"
  "numbers_ok (Member no opt t # ms) \<longleftrightarrow> 0 < no \<and> no < 2 ^ 29 \<and> numbers_ok ms"
  "numbers_ok (Oneof first cs # ms) \<longleftrightarrow> (\<forall>c \<in> set cs. 0 < fst c \<and> fst c < 2 ^ 29) \<and> numbers_ok ms"
  by (auto simp: numbers_ok_def)

lemma sub_key_nonzero: "0 < no \<Longrightarrow> no < 2 ^ 29 \<Longrightarrow> sub_key no t \<noteq> 0"
proof -
  assume no: "0 < no" "no < 2 ^ 29"
  show "sub_key no t \<noteq> 0"
  proof
    assume "sub_key no t = 0"
    then have "unat (drop_bit 3 (sub_key no t)) = 0" by simp
    then show False using make_tag_parts(2) [OF no(2)] no(1) by (simp add: sub_key_def)
  qed
qed

definition ksz :: "u32 \<Rightarrow> nat" where
  "ksz key = (if key = 0 then 0 else length (serialize_varint_u32 key))"

lemma ksz_simps: "ksz 0 = 0" "key \<noteq> 0 \<Longrightarrow> ksz key = length (serialize_varint_u32 key)"
  by (simp_all add: ksz_def)

lemma length_key_pos: "0 < length (serialize_varint_u32 key)"
  by (simp add: serialize_varint_u32_eq)

lemma ksz_0_iff: "ksz key = 0 \<longleftrightarrow> key = 0"
  using length_key_pos [of key] by (auto simp: ksz_def)

lemma sub_keysize_eq: "0 < no \<Longrightarrow> no < 2 ^ 29 \<Longrightarrow> sub_keysize no t = ksz (sub_key no t)"
  by (simp add: sub_keysize_def ksz_simps sub_key_nonzero length_serialize_varint_u32)

lemma length_key_bytes: "length (key_bytes key) = ksz key"
  by (simp add: key_bytes_def ksz_def)

lemma small_key: "no < 16 \<Longrightarrow> 0 < no \<Longrightarrow> ksz (sub_key no t) = 1"
proof -
  assume no: "no < 16" "0 < no"
  have p: "unat (sub_key no t AND 7) = wire_code (get_wire_type t)" "unat (drop_bit 3 (sub_key no t)) = no"
    using make_tag_parts [of no "get_wire_type t"] no by (simp_all add: sub_key_def)
  have "unat (sub_key no t) div 8 = no"
    using p(2) by (simp add: unat_drop_bit_eq drop_bit_eq_div [where ?'a = nat])
  then have "unat (sub_key no t) < 128" using no by presburger
  then show ?thesis using no sub_key_nonzero [of no t]
    by (simp add: ksz_simps serialize_varint_u32_eq varint.simps)
qed

lemma size_of_length:
  assumes "n < 2 ^ 32"
  shows "variant_uint32_size (word_of_nat n) = length (serialize_varint (word_of_nat n))"
    "unat (word_of_nat n :: u32) = n" "unat (word_of_nat n :: u64) = n"
  using assms by (simp_all add: variant_uint32_size_eq serialize_varint_eq unat_of_nat)

lemma length_delimited:
  assumes "length body < 2 ^ 32" "key \<noteq> 0"
  shows "length (delimited key body)
    = ksz key + variant_uint32_size (word_of_nat (length body)) + length body"
  using assms by (simp add: delimited_def ksz_simps size_of_length)

lemma length_delimited_less: "length (delimited key body) < n \<Longrightarrow> length body < n"
  by (simp add: delimited_def)

lemma serialize_zero: "serialize_varint 0 = [0]" "length (serialize_varint 0) = 1"
  by (simp_all add: serialize_varint_def)

lemma scalar_size:
  assumes "scalar_ok s v" "key \<noteq> 0" "length (write_scalar key omit s v) < 2 ^ 32"
  shows "str_numeric_size (ksz key) omit s v = length (write_scalar key omit s v)"
proof (cases v)
  case (V_num n)
  then show ?thesis using assms
    by (simp add: encode_numeric_field_eq numeric_size_eq length_key_bytes)
next
  case (V_bytes b)
  have l: "length b < 2 ^ 32" if "\<not> (omit \<and> b = [])" using assms(3) that V_bytes by auto
  show ?thesis using V_bytes assms(2) l
    using length_key_pos [of key] by (auto simp: ksz_simps size_of_length)
qed (use assms in auto)

lemma scalar_ok_num: "scalar_ok s (V_num n) \<Longrightarrow> s \<noteq> S_string"
  by auto

lemma scalar_ok_wire:
  "scalar_ok s (V_num n) \<Longrightarrow> scalar_wire_type s \<noteq> Length_delimited"
  "scalar_ok s (V_bytes b) \<Longrightarrow> s = S_string"
  by (cases s; simp)+

lemma payload_nonempty: "scalar_ok s (V_num n) \<Longrightarrow> payload s n \<noteq> []"
  by (cases s) (auto simp: payload_simps serialize_varint_eq dest!: arg_cong [of _ _ length])

lemma packed_size_eq:
  assumes "items_ok S t vs" "item_type t" "\<not> is_lenprefix t"
  shows "packed_size t vs = length (write_packed t vs)" "vs \<noteq> [] \<Longrightarrow> write_packed t vs \<noteq> []"
proof -
  obtain s where t: "t = T_scalar s" and s: "scalar_wire_type s \<noteq> Length_delimited"
    using assms(2,3) by (cases t) (auto simp: is_lenprefix_def)
  have num: "pb_ok S t v \<Longrightarrow> \<exists>n. v = V_num n \<and> scalar_ok s (V_num n)" for v
    using s t by (cases v) (auto dest: scalar_ok_wire(2))
  have "packed_size t vs = length (write_packed t vs)" if "items_ok S t vs" for vs
    using that
  proof (induction vs)
    case (Cons v vs)
    then obtain n where "v = V_num n" "scalar_ok s (V_num n)" using num by auto
    then show ?case using Cons t
      by (simp add: encode_numeric_field_eq numeric_size_eq key_bytes_def)
  qed (simp add: t)
  then show "packed_size t vs = length (write_packed t vs)" using assms(1) .
  show "vs \<noteq> [] \<Longrightarrow> write_packed t vs \<noteq> []"
    using assms(1) num t by (cases vs) (fastforce simp: encode_numeric_field_eq key_bytes_def payload_nonempty)+
qed

lemmas bytes_induct = pb_bytes_members_bytes_items_bytes_pairs_bytes.induct

lemma delimited_nonempty: "delimited key body \<noteq> []"
  by (simp add: delimited_def serialize_varint_u32_eq)

lemma member_field_ok:
  assumes "member_field m v = Some (no, omit, t, v')" "numbers_ok (m # ms)" "variant_ok m v"
  shows "0 < no" "no < 2 ^ 29" "sub_key no t \<noteq> 0" "sub_keysize no t = ksz (sub_key no t)"
proof -
  have "0 < no \<and> no < 2 ^ 29"
  proof (cases m)
    case (Oneof first cs)
    then obtain i where "i < length cs" "fst (cs ! i) = no"
      using assms(1,3) by (auto split: pb_value.splits option.splits prod.splits)
    then show ?thesis using assms(2) Oneof nth_mem [of i cs] by (auto simp: numbers_ok_simps)
  qed (use assms in \<open>simp add: numbers_ok_simps\<close>)
  then show "0 < no" "no < 2 ^ 29" "sub_key no t \<noteq> 0" "sub_keysize no t = ksz (sub_key no t)"
    by (simp_all add: sub_key_nonzero sub_keysize_eq)
qed

lemma numbers_ok_Cons: "numbers_ok (m # ms) \<Longrightarrow> numbers_ok ms"
  by (cases m) (simp_all add: numbers_ok_simps)

text \<open>Nothing is written only where there is no nested message.\<close>

lemma no_bytes_no_sizes:
  "pb_bytes S key omit ty v = [] \<Longrightarrow> key \<noteq> 0 \<Longrightarrow> pb_sizes S key ty v = []"
  "members_bytes S ms vs = [] \<Longrightarrow> numbers_ok ms \<Longrightarrow> members_ok S ms vs \<Longrightarrow> members_sizes S ms vs = []"
  "items_bytes S key t vs = [] \<Longrightarrow> key \<noteq> 0 \<Longrightarrow> items_sizes S key t vs = []"
  "pairs_bytes S key kt vt kvs = [] \<Longrightarrow> pairs_sizes S key vt kvs = []"
proof (induction S key omit ty v and S ms vs and S key t vs and S key kt vt kvs rule: bytes_induct)
  case (9 S ms v vs)
  show ?case
  proof (cases ms)
    case (Cons m ms')
    show ?thesis
    proof (cases "member_field m v")
      case None
      then show ?thesis using 9(2-) Cons numbers_ok_Cons by auto
    next
      case (Some f)
      obtain no omit t v' where f: "f = (no, omit, t, v')" by (cases f)
      have "sub_key no t \<noteq> 0" using 9(4,5) Some f Cons by (intro member_field_ok) auto
      then show ?thesis using 9(1) [OF Cons] 9(2-) Some f Cons numbers_ok_Cons by auto
    qed
  qed simp
qed (auto split: pb_type.splits option.splits if_splits simp: delimited_nonempty Let_def)

lemma members_less:
  "length (a @ b) < n \<Longrightarrow> length a < n" "length (a @ b) < n \<Longrightarrow> length b < n"
  by simp_all

lemma scalar_first_pass:
  assumes "scalar_ok s v" "key \<noteq> 0" "length (write_scalar key omit s v) < 2 ^ 32"
  shows "pb_key_value_size S (ksz key) omit (T_scalar s) v arr = (length (write_scalar key omit s v), arr)"
  using scalar_size [OF assms] assms(1)
  by (cases v) (simp_all del: str_numeric_size.simps write_scalar.simps)

lemma first_pass:
  "schema_ok S \<Longrightarrow> pb_ok S ty v \<Longrightarrow> key \<noteq> 0 \<or> (\<exists>m. ty = T_message m)
    \<Longrightarrow> length (pb_bytes S key omit ty v) < 2 ^ 32
    \<Longrightarrow> pb_key_value_size S (ksz key) omit ty v arr
        = (length (pb_bytes S key omit ty v), arr @ pb_sizes S key ty v)"
  "schema_ok S \<Longrightarrow> members_ok S ms vs \<Longrightarrow> numbers_ok ms \<Longrightarrow> length (members_bytes S ms vs) < 2 ^ 32
    \<Longrightarrow> pb_members_size S ms vs arr = (length (members_bytes S ms vs), arr @ members_sizes S ms vs)"
  "schema_ok S \<Longrightarrow> items_ok S t vs \<Longrightarrow> key \<noteq> 0 \<Longrightarrow> length (items_bytes S key t vs) < 2 ^ 32
    \<Longrightarrow> pb_items_size S (ksz key) t vs arr = (length (items_bytes S key t vs), arr @ items_sizes S key t vs)"
  "schema_ok S \<Longrightarrow> pairs_ok S kt vt kvs \<Longrightarrow> key \<noteq> 0 \<Longrightarrow> length (pairs_bytes S key kt vt kvs) < 2 ^ 32
    \<Longrightarrow> pb_pairs_size S (ksz key) kt vt kvs arr
        = (length (pairs_bytes S key kt vt kvs), arr @ pairs_sizes S key vt kvs)"
proof (induction S key omit ty v and S ms vs and S key t vs and S key kt vt kvs arbitrary: arr and arr and arr and arr
    rule: bytes_induct)
  case (1 S key omit ty vs unknown)
  then obtain m where ty: "ty = T_message m" by (auto split: pb_type.splits)
  let ?body = "members_bytes S (pb_members (S m)) vs @ write_pb_unknown_fields (S m) unknown"
  have len: "length ?body < 2 ^ 32"
    using 1(5) ty by (auto simp: Let_def split: if_splits dest: length_delimited_less)
  have IH: "pb_members_size S (pb_members (S m)) vs arr
      = (length (members_bytes S (pb_members (S m)) vs), arr @ members_sizes S (pb_members (S m)) vs)" for arr
    using 1(1) [OF ty 1(2)] 1(3) ty len schema_numbers [OF 1(2)] by simp
  have u: "length (members_bytes S (pb_members (S m)) vs) + pb_unknown_fields_size (S m) unknown = length ?body"
    by (simp add: pb_unknown_fields_size_def write_pb_unknown_fields_def)
  show ?case
  proof (cases "key = 0")
    case True
    then show ?thesis using ty IH u by (simp add: ksz_simps)
  next
    case False
    then show ?thesis using ty IH u len length_delimited [OF len False] ksz_0_iff [of key]
      by (auto simp: Let_def variant_uint32_size_eq varint.simps)
  qed
next
  case (2 S key omit ty vs)
  then obtain t where ty: "ty = T_sequence t" by (auto split: pb_type.splits)
  show ?case
  proof (cases "is_lenprefix t")
    case True
    then show ?thesis using 2 ty by auto
  next
    case False
    have p: "items_ok S t vs" "item_type t" using 2(3) ty by auto
    have len: "length (write_packed t vs) < 2 ^ 32" if "vs \<noteq> []"
      using 2(5) ty False that by (auto dest: length_delimited_less)
    show ?thesis
    proof (cases "vs = []")
      case True
      then show ?thesis using ty False p by (cases t) (auto simp: Let_def)
    next
      case ne: False
      then show ?thesis
        using packed_size_eq [OF p False] length_delimited [OF len, of key] 2(4) ty False by (auto simp: Let_def)
    qed
  qed
next
  case (5 S key omit ty n)
  then obtain s where "ty = T_scalar s" by (auto split: pb_type.splits)
  then show ?case using 5 scalar_first_pass [of s "V_num n" key omit S arr] by simp
next
  case (6 S key omit ty b)
  then obtain s where "ty = T_scalar s" by (auto split: pb_type.splits)
  then show ?case using 6 scalar_first_pass [of s "V_bytes b" key omit S arr] by simp
next
  case (9 S ms v vs)
  show ?case
  proof (cases ms)
    case (Cons m ms')
    show ?thesis
    proof (cases "member_field m v")
      case None
      then show ?thesis using 9(2-) Cons numbers_ok_Cons by auto
    next
      case (Some f)
      obtain no omit t v' where f: "f = (no, omit, t, v')" by (cases f)
      have k: "sub_key no t \<noteq> 0" "sub_keysize no t = ksz (sub_key no t)"
        using member_field_ok(3,4) [of m v no omit t v' ms'] 9(4,5) Some f Cons by simp_all
      show ?thesis using 9(1) [OF Cons Some f [symmetric] refl refl] 9(2-) Some f Cons k numbers_ok_Cons by auto
    qed
  qed (use 9 in simp)
next
  case (13 S key kt vt kv kvs)
  obtain k v where kv: "kv = (k, v)" by (cases kv)
  let ?k = "write_scalar (sub_key 1 (T_scalar kt)) False kt k"
  let ?v = "pb_bytes S (sub_key 2 vt) False vt v"
  have keys: "ksz (sub_key 1 (T_scalar kt)) = 1" "ksz (sub_key 2 vt) = 1"
    "sub_key 1 (T_scalar kt) \<noteq> 0" "sub_key 2 vt \<noteq> 0"
    by (simp_all add: small_key sub_key_nonzero)
  have len: "length (delimited key (?k @ ?v)) < 2 ^ 32" using 13(6) kv by simp
  then have sub: "length (?k @ ?v) < 2 ^ 32" by (rule length_delimited_less)
  have "pb_key_value_size S 1 False (T_scalar kt) k arr = (length ?k, arr)" for arr
    using scalar_first_pass [of kt k "sub_key 1 (T_scalar kt)" False S arr] 13(4) kv sub keys by simp
  moreover have "pb_key_value_size S 1 False vt v arr = (length ?v, arr @ pb_sizes S (sub_key 2 vt) vt v)" for arr
    using 13(1) [OF kv [symmetric] 13(3), of arr] 13(4) kv sub keys by simp
  moreover have "pb_pairs_size S (ksz key) kt vt kvs arr
      = (length (pairs_bytes S key kt vt kvs), arr @ pairs_sizes S key vt kvs)" for arr
    using 13(2) [OF kv [symmetric] 13(3)] 13(4-) kv by simp
  moreover have "length (delimited key (?k @ ?v))
      = ksz key + variant_uint32_size (word_of_nat (length (?k @ ?v))) + length (?k @ ?v)"
    using sub 13(5) by (rule length_delimited)
  ultimately show ?case using kv by (simp add: Let_def del: write_scalar.simps)
qed (auto split: pb_type.splits option.splits simp: Let_def)

lemma delimited_Nil: "delimited key [] = serialize_varint_u32 key @ serialize_varint 0"
  by (simp add: delimited_def)

text \<open>The parts of a map entry have the lengths that were added up for it.\<close>

definition entry_part :: "u32 \<Rightarrow> pb_type \<Rightarrow> nat \<Rightarrow> byte list \<Rightarrow> bool" where
  "entry_part key t n bs \<longleftrightarrow>
     length bs = ksz key + n + (if is_lenprefix t then variant_uint32_size (word_of_nat n) else 0)
     \<and> (n = 0 \<longrightarrow> bs = serialize_varint_u32 key @ serialize_varint 0)"

lemma entry_part_scalar:
  assumes "scalar_ok s x" "key \<noteq> 0" "length (write_scalar key False s x) < 2 ^ 32"
  shows "entry_part key (T_scalar s) (str_numeric_size 0 False s x) (write_scalar key False s x)"
proof (cases x)
  case (V_num n)
  then show ?thesis using assms(1) scalar_ok_wire(1) [of s n] payload_nonempty [of s n]
    by (simp add: entry_part_def encode_numeric_field_eq numeric_size_eq length_key_bytes is_lenprefix_def)
next
  case (V_bytes b)
  then show ?thesis using assms scalar_ok_wire(2) [of s b]
    by (auto simp: entry_part_def is_lenprefix_def ksz_simps size_of_length)
qed (use assms in auto)

lemma entry_part_message:
  assumes "pb_ok S (T_message m) v" "key \<noteq> 0" "length (pb_bytes S key False (T_message m) v) < 2 ^ 32"
    "map_value_ok S (T_message m) v"
  obtains n sizes where "pb_sizes S key (T_message m) v = word_of_nat n # sizes" "n \<noteq> 0"
    "unat (word_of_nat n :: u32) = n" "entry_part key (T_message m) n (pb_bytes S key False (T_message m) v)"
proof -
  obtain vs unknown where v: "v = V_message vs unknown" using assms(1) by (cases v) auto
  let ?body = "members_bytes S (pb_members (S m)) vs @ write_pb_unknown_fields (S m) unknown"
  have b: "pb_bytes S key False (T_message m) v = delimited key ?body" "?body \<noteq> []"
    using assms(2,4) v by (auto simp: Let_def)
  then have len: "length ?body < 2 ^ 32" using assms(3) by (metis length_delimited_less)
  have ne: "length ?body \<noteq> 0" using b(2) by simp
  then have "entry_part key (T_message m) (length ?body) (pb_bytes S key False (T_message m) v)"
    using length_delimited [OF len assms(2)] unfolding entry_part_def b(1)
    by (auto simp: is_lenprefix_def delimited_Nil simp del: length_append)
  then show thesis using that [of "length ?body", OF _ ne] size_of_length(2) [OF len] v assms(2)
    by (simp del: length_append)
qed

lemma map_value_part:
  assumes "item_type vt" "pb_ok S vt v" "map_value_ok S vt v" "key \<noteq> 0"
    "length (pb_bytes S key False vt v) < 2 ^ 32"
  obtains n where "pb_value_size False vt v (pb_sizes S key vt v @ rest) = Some (n, pb_sizes S key vt v @ rest)"
    "entry_part key vt n (pb_bytes S key False vt v)" "n = 0 \<longrightarrow> pb_sizes S key vt v = []"
proof (cases vt)
  case (T_scalar s)
  then have ok: "scalar_ok s v" "pb_bytes S key False vt v = write_scalar key False s v" "pb_sizes S key vt v = []"
    using assms(2) by (cases v; simp)+
  then show thesis using entry_part_scalar [OF ok(1) assms(4)] assms(5) that T_scalar by simp
next
  case (T_message m)
  with assms obtain n sizes where "pb_sizes S key vt v = word_of_nat n # sizes" "n \<noteq> 0"
      "unat (word_of_nat n :: u32) = n" "entry_part key vt n (pb_bytes S key False vt v)"
    using entry_part_message [of S m v key] by metis
  then show thesis using that [of n] T_message by simp
qed (use assms(1) in auto)

lemma second_pass:
  "schema_ok S \<Longrightarrow> pb_ok S ty v \<Longrightarrow> key \<noteq> 0 \<or> (\<exists>m. ty = T_message m)
    \<Longrightarrow> length (pb_bytes S key omit ty v) < 2 ^ 32
    \<Longrightarrow> to_pb_impl S key omit ty v (pb_sizes S key ty v @ rest) = Some (pb_bytes S key omit ty v, rest)"
  "schema_ok S \<Longrightarrow> members_ok S ms vs \<Longrightarrow> numbers_ok ms \<Longrightarrow> length (members_bytes S ms vs) < 2 ^ 32
    \<Longrightarrow> to_pb_members S ms vs (members_sizes S ms vs @ rest) = Some (members_bytes S ms vs, rest)"
  "schema_ok S \<Longrightarrow> items_ok S t vs \<Longrightarrow> key \<noteq> 0 \<Longrightarrow> length (items_bytes S key t vs) < 2 ^ 32
    \<Longrightarrow> to_pb_items S key t vs (items_sizes S key t vs @ rest) = Some (items_bytes S key t vs, rest)"
  "schema_ok S \<Longrightarrow> pairs_ok S kt vt kvs \<Longrightarrow> item_type vt \<Longrightarrow> key \<noteq> 0
    \<Longrightarrow> length (pairs_bytes S key kt vt kvs) < 2 ^ 32
    \<Longrightarrow> to_pb_pairs S key kt vt kvs (pairs_sizes S key vt kvs @ rest) = Some (pairs_bytes S key kt vt kvs, rest)"
proof (induction S key omit ty v and S ms vs and S key t vs and S key kt vt kvs
    arbitrary: rest and rest and rest and rest rule: bytes_induct)
  case (1 S key omit ty vs unknown)
  then obtain m where ty: "ty = T_message m" by (auto split: pb_type.splits)
  let ?ms = "members_bytes S (pb_members (S m)) vs" and ?u = "write_pb_unknown_fields (S m) unknown"
  have len: "length (?ms @ ?u) < 2 ^ 32"
    using 1(5) ty by (auto simp: Let_def split: if_splits dest: length_delimited_less)
  have IH: "to_pb_members S (pb_members (S m)) vs (members_sizes S (pb_members (S m)) vs @ rest) = Some (?ms, rest)" for rest
    using 1(1) [OF ty 1(2)] 1(3) ty len schema_numbers [OF 1(2)] by simp
  show ?case
  proof (cases "key = 0")
    case True
    then show ?thesis using ty IH by simp
  next
    case False
    have none: "members_sizes S (pb_members (S m)) vs = []" if "?ms @ ?u = []"
      using no_bytes_no_sizes(2) [of S "pb_members (S m)" vs] that 1(3) ty schema_numbers [OF 1(2)] by simp
    have u: "unat (word_of_nat (length (?ms @ ?u)) :: u32) = length (?ms @ ?u)"
      using len by (rule size_of_length(2))
    show ?thesis
    proof (cases "?ms @ ?u = []")
      case True
      then show ?thesis using ty False none by (simp add: delimited_def Let_def)
    next
      case ne: False
      then have "length (?ms @ ?u) \<noteq> 0" by simp
      then show ?thesis using ty False IH u
        by (auto simp: delimited_def Let_def none simp del: length_append)
    qed
  qed
next
  case (2 S key omit ty vs)
  then obtain t where ty: "ty = T_sequence t" by (auto split: pb_type.splits)
  show ?case
  proof (cases "is_lenprefix t")
    case True
    then show ?thesis using 2 ty by auto
  next
    case False
    then show ?thesis using packed_size_eq [of S t vs] 2(3) ty by (auto simp: delimited_def)
  qed
next
  case (9 S ms v vs)
  show ?case
  proof (cases ms)
    case (Cons m ms')
    show ?thesis
    proof (cases "member_field m v")
      case None
      then show ?thesis using 9(2-) Cons numbers_ok_Cons by auto
    next
      case (Some f)
      obtain no omit t v' where f: "f = (no, omit, t, v')" by (cases f)
      have k: "sub_key no t \<noteq> 0"
        using member_field_ok(3) [of m v no omit t v' ms'] 9(4,5) Some f Cons by simp
      show ?thesis using 9(1) [OF Cons Some f [symmetric] refl refl] 9(2-) Some f Cons k numbers_ok_Cons by auto
    qed
  qed simp
next
  case (13 S key kt vt kv kvs)
  obtain k v where kv: "kv = (k, v)" by (cases kv)
  note ok = 13(4) [unfolded kv pairs_ok.simps prod.case]
  let ?k = "write_scalar (sub_key 1 (T_scalar kt)) False kt k"
  let ?v = "pb_bytes S (sub_key 2 vt) False vt v"
  let ?n = "str_numeric_size 0 False kt k"
  have keys: "sub_key 1 (T_scalar kt) \<noteq> 0" "sub_key 2 vt \<noteq> 0" by (simp_all add: sub_key_nonzero)
  have "length (delimited key (?k @ ?v)) < 2 ^ 32" using 13(7) kv by simp
  then have len: "length (?k @ ?v) < 2 ^ 32" by (rule length_delimited_less)
  have IHv: "to_pb_impl S (sub_key 2 vt) False vt v (pb_sizes S (sub_key 2 vt) vt v @ rest) = Some (?v, rest)" for rest
    using 13(1) [OF kv [symmetric] 13(3)] ok len keys by simp
  have IHk: "to_pb_pairs S key kt vt kvs (pairs_sizes S key vt kvs @ rest) = Some (pairs_bytes S key kt vt kvs, rest)" for rest
    using 13(2) [OF kv [symmetric] 13(3)] 13(5-) ok kv by simp
  have k: "entry_part (sub_key 1 (T_scalar kt)) (T_scalar kt) ?n ?k"
    using entry_part_scalar [of kt k "sub_key 1 (T_scalar kt)"] ok keys len by simp
  have wk: "to_pb_impl S (sub_key 1 (T_scalar kt)) False (T_scalar kt) k sz = Some (?k, sz)" for sz
    using ok by (cases k) auto
  let ?rest = "pairs_sizes S key vt kvs @ rest"
  obtain n where n: "pb_value_size False vt v (pb_sizes S (sub_key 2 vt) vt v @ ?rest)
        = Some (n, pb_sizes S (sub_key 2 vt) vt v @ ?rest)"
      "entry_part (sub_key 2 vt) vt n ?v" "n = 0 \<longrightarrow> pb_sizes S (sub_key 2 vt) vt v = []"
    using map_value_part [of vt S v "sub_key 2 vt" ?rest] 13(5) ok keys len by auto
  have ek: "encode_pair_value (sub_key 1 (T_scalar kt)) ?n sz (Some (?k, sz)) = Some (?k, sz)" for sz
    using k by (simp add: encode_pair_value_def entry_part_def)
  have ev: "encode_pair_value (sub_key 2 vt) n (pb_sizes S (sub_key 2 vt) vt v @ ?rest) (Some (?v, ?rest)) = Some (?v, ?rest)"
    using n(2,3) by (simp add: encode_pair_value_def entry_part_def)
  have sum: "sub_keysize 1 (T_scalar kt) + sub_keysize 2 vt + ?n + n
      + (if is_lenprefix (T_scalar kt) then variant_uint32_size (word_of_nat ?n) else 0)
      + (if is_lenprefix vt then variant_uint32_size (word_of_nat n) else 0) = length (?k @ ?v)"
    using k n(2) by (simp add: entry_part_def sub_keysize_eq del: write_scalar.simps One_nat_def)
  show ?case using kv n(1) IHk sum
    by (simp add: wk ek ev IHv Let_def delimited_def split del: if_split
      del: write_scalar.simps str_numeric_size.simps One_nat_def of_nat_add length_append)
qed (auto split: pb_type.splits option.splits simp: Let_def)

text \<open>
  What \<^verbatim>\<open>to_pb\<close> gives: the number of bytes it resizes the output to is the number it writes, and these are the
  encoding of the message.
\<close>

lemma to_pb_eq:
  assumes "schema_ok S" "pb_ok S (T_message m) t" "length (pb_bytes S 0 True (T_message m) t) < 2 ^ 32"
  shows "to_pb S m t = Some (length (pb_bytes S 0 True (T_message m) t), pb_bytes S 0 True (T_message m) t)"
proof -
  have "pb_key_value_size S 0 True (T_message m) t []
      = (length (pb_bytes S 0 True (T_message m) t), pb_sizes S 0 (T_message m) t)"
    using first_pass(1) [OF assms(1,2) _ assms(3), of "[]"] by (simp add: ksz_simps)
  moreover have "to_pb_impl S 0 True (T_message m) t (pb_sizes S 0 (T_message m) t)
      = Some (pb_bytes S 0 True (T_message m) t, [])"
    using second_pass(1) [OF assms(1,2) _ assms(3), of "[]"] by simp
  ultimately show ?thesis by (simp add: to_pb_def)
qed

end
