(* ===== verification/Iguana_Pb_Reader.thy ===== *)
theory Iguana_Pb_Reader
  imports Iguana_Pb_Writer
begin

text \<open>
  Reading protobuf messages, \<^verbatim>\<open>iguana/pb_reader.hpp\<close>.  A function that moves \<^verbatim>\<open>pb_str\<close> forward returns the bytes
  that are left.  \<^verbatim>\<open>pb_recursion_guard\<close> counts the messages and groups that are open; the functions take the
  number that may still be opened, and recurse on it.  The loops over a message, a packed sequence, a map or a
  group run for any reader of a single item; they go on only when bytes were consumed, which the readers of
  the code always do (the last theorem), so \<^verbatim>\<open>stuck\<close> is never the result.
\<close>

section \<open>Unknown fields\<close>

definition max_pb_recursion_depth :: nat where
  "max_pb_recursion_depth = 100"

definition recursion_limit :: exn where
  "recursion_limit = Runtime_error ''protobuf message recursion limit exceeded''"

definition stuck :: exn where
  "stuck = Runtime_error ''''"

function group_loop :: "(wire_type \<Rightarrow> nat \<Rightarrow> byte list \<Rightarrow> byte list result) \<Rightarrow> nat \<Rightarrow> byte list \<Rightarrow> byte list result" where
  "group_loop skip_unknown field_number pb_str =
     (if pb_str = [] then Inl (Invalid_argument ''unknown group field: missing end tag'')
      else rbind (decode_key True pb_str) (\<lambda>((child_field_number, child_wire_type), rest).
        if child_wire_type = End_group
        then (if child_field_number \<noteq> field_number
              then Inl (Invalid_argument ''unknown group field: mismatched end tag'') else Inr rest)
        else rbind (skip_unknown child_wire_type child_field_number rest) (\<lambda>rest.
          if length rest < length pb_str then group_loop skip_unknown field_number rest else Inl stuck)))"
  by pat_completeness auto
termination by (relation "measure (\<lambda>(_, _, pb_str). length pb_str)") auto

declare group_loop.simps [simp del]

fun skip_field :: "(nat \<Rightarrow> byte list \<Rightarrow> byte list result) \<Rightarrow> wire_type \<Rightarrow> nat \<Rightarrow> byte list \<Rightarrow> byte list result" where
  "skip_field read_group Varint field_number pb_str =
     (if pb_str = [] then Inl (Invalid_argument ''unknown Varint field: too few bytes'')
      else rbind (decode_varint pb_str) (\<lambda>(_, rest). Inr rest))"
| "skip_field read_group Fixed64 field_number pb_str =
     (if length pb_str < 8 then Inl (Invalid_argument ''unknown Fixed64 field: too few bytes'')
      else Inr (drop 8 pb_str))"
| "skip_field read_group Length_delimited field_number pb_str =
     rbind (decode_length_delimited ''unknown LengthDelimited field: too few bytes'' pb_str)
       (\<lambda>(len, pb_str). Inr (drop len pb_str))"
| "skip_field read_group Fixed32 field_number pb_str =
     (if length pb_str < 4 then Inl (Invalid_argument ''unknown Fixed32 field: too few bytes'')
      else Inr (drop 4 pb_str))"
| "skip_field read_group Start_group field_number pb_str = read_group field_number pb_str"
| "skip_field read_group End_group field_number pb_str = Inl (Runtime_error ''unexpected end group in unknown field'')"

primrec skip_unknown_field :: "nat \<Rightarrow> wire_type \<Rightarrow> nat \<Rightarrow> byte list \<Rightarrow> byte list result" where
  "skip_unknown_field 0 = skip_field (\<lambda>_ _. Inl recursion_limit)"
| "skip_unknown_field (Suc depth) = skip_field (group_loop (skip_unknown_field depth))"

section \<open>The value of a field\<close>

text \<open>A value of the type that was just constructed.\<close>

fun default_value :: "pb_schema \<Rightarrow> pb_type \<Rightarrow> pb_value" where
  "default_value S (T_scalar s) = (if s = S_string then V_bytes [] else V_num 0)"
| "default_value S (T_message m) = V_message (initial (S m)) []"
| "default_value S (T_sequence t) = V_sequence []"
| "default_value S (T_map kt vt) = V_map []"
| "default_value S (T_optional t) = V_optional None"

text \<open>Items with a length: one after the other while the next key is the same.\<close>

function items_loop :: "(byte list \<Rightarrow> (pb_value \<times> byte list) result) \<Rightarrow> nat \<Rightarrow> wire_type \<Rightarrow> pb_value list \<Rightarrow> byte list
    \<Rightarrow> (pb_value list \<times> byte list) result" where
  "items_loop read field_no wire val pb_str =
     (if pb_str = [] then Inr (val, pb_str)
      else rbind (read pb_str) (\<lambda>(item, rest).
        let val = val @ [item] in
        if rest = [] then Inr (val, rest)
        else rbind (decode_key False rest) (\<lambda>((field_number, wire_type), after_key).
          if field_number \<noteq> field_no \<or> wire_type \<noteq> wire then Inr (val, rest)
          else if length after_key < length pb_str then items_loop read field_no wire val after_key
          else Inl stuck)))"
  by pat_completeness auto
termination by (relation "measure (\<lambda>(_, _, _, _, pb_str). length pb_str)") auto

declare items_loop.simps [simp del]

function packed_loop :: "(byte list \<Rightarrow> (pb_value \<times> byte list) result) \<Rightarrow> pb_value list \<Rightarrow> byte list
    \<Rightarrow> pb_value list result" where
  "packed_loop read val packed =
     (if packed = [] then Inr val
      else rbind (read packed) (\<lambda>(item, rest).
        if length rest < length packed then packed_loop read (val @ [item]) rest else Inl stuck))"
  by pat_completeness auto
termination by (relation "measure (\<lambda>(_, _, packed). length packed)") auto

declare packed_loop.simps [simp del]

text \<open>The types of \<^verbatim>\<open>is_fixed_v\<close>: their size and sign.  Their values are copied in one piece.\<close>

fun fixed_type :: "pb_type \<Rightarrow> (nat \<times> bool) option" where
  "fixed_type (T_scalar S_fixed32) = Some (4, False)"
| "fixed_type (T_scalar S_fixed64) = Some (8, False)"
| "fixed_type (T_scalar S_sfixed32) = Some (4, True)"
| "fixed_type (T_scalar S_sfixed64) = Some (8, True)"
| "fixed_type _ = None"

definition copy_fixed :: "nat \<Rightarrow> bool \<Rightarrow> byte list \<Rightarrow> pb_value list" where
  "copy_fixed len sg packed =
     map (\<lambda>i. V_num (cast_integral len sg (le_read len (drop (i * len) packed)))) [0 ..< length packed div len]"

definition read_packed :: "(byte list \<Rightarrow> (pb_value \<times> byte list) result) \<Rightarrow> pb_type \<Rightarrow> pb_value list \<Rightarrow> byte list
    \<Rightarrow> (pb_value list \<times> byte list) result" where
  "read_packed read t val pb_str =
     rbind (decode_length_delimited ''Invalid packed repeated value: too few bytes.'' pb_str) (\<lambda>(len, pb_str).
       let packed = take len pb_str; pb_str = drop len pb_str in
       case fixed_type t of
         Some (item_size, sg) \<Rightarrow>
           if len mod item_size \<noteq> 0
           then Inl (Invalid_argument ''Invalid packed fixed repeated value: bad length.'')
           else Inr (val @ copy_fixed item_size sg packed, pb_str)
       | None \<Rightarrow> rbind (packed_loop read val packed) (\<lambda>val. Inr (val, pb_str)))"

fun insert_or_assign :: "pb_value \<Rightarrow> pb_value \<Rightarrow> (pb_value \<times> pb_value) list \<Rightarrow> (pb_value \<times> pb_value) list" where
  "insert_or_assign k v [] = [(k, v)]"
| "insert_or_assign k v ((k', v') # kvs) = (if k = k' then (k, v) # kvs else (k', v') # insert_or_assign k v kvs)"

text \<open>The fields of a map entry; key and value may come in any order, and what is missing keeps its default.\<close>

function entry_loop :: "(byte list \<Rightarrow> (pb_value \<times> byte list) result) \<Rightarrow> wire_type
    \<Rightarrow> (pb_value \<Rightarrow> byte list \<Rightarrow> (pb_value \<times> byte list) result) \<Rightarrow> wire_type
    \<Rightarrow> (wire_type \<Rightarrow> nat \<Rightarrow> byte list \<Rightarrow> byte list result) \<Rightarrow> pb_value \<Rightarrow> pb_value \<Rightarrow> byte list
    \<Rightarrow> (pb_value \<times> pb_value) result" where
  "entry_loop read_key key_wire read_mapped mapped_wire skip_unknown map_key mapped entry =
     (if entry = [] then Inr (map_key, mapped)
      else rbind (decode_key False entry) (\<lambda>((entry_field_number, entry_wire_type), rest).
        rbind (if entry_field_number = 1 \<and> entry_wire_type = key_wire
               then rbind (read_key rest) (\<lambda>(map_key, rest). Inr (map_key, mapped, rest))
               else if entry_field_number = 2 \<and> entry_wire_type = mapped_wire
               then rbind (read_mapped mapped rest) (\<lambda>(mapped, rest). Inr (map_key, mapped, rest))
               else rbind (skip_unknown entry_wire_type entry_field_number rest) (\<lambda>rest. Inr (map_key, mapped, rest)))
          (\<lambda>(map_key, mapped, rest).
            if length rest < length entry
            then entry_loop read_key key_wire read_mapped mapped_wire skip_unknown map_key mapped rest
            else Inl stuck)))"
  by pat_completeness auto
termination by (relation "measure (\<lambda>(_, _, _, _, _, _, _, entry). length entry)") auto

declare entry_loop.simps [simp del]

function map_loop :: "(byte list \<Rightarrow> (pb_value \<times> pb_value) result) \<Rightarrow> nat \<Rightarrow> (pb_value \<times> pb_value) list \<Rightarrow> byte list
    \<Rightarrow> ((pb_value \<times> pb_value) list \<times> byte list) result" where
  "map_loop read_entry field_no val pb_str =
     (if pb_str = [] then Inr (val, pb_str)
      else rbind (decode_length_delimited ''Invalid map entry value: too few bytes.'' pb_str) (\<lambda>(len, rest).
        rbind (read_entry (take len rest)) (\<lambda>(map_key, mapped).
          let rest = drop len rest; val = insert_or_assign map_key mapped val in
          if rest = [] then Inr (val, rest)
          else rbind (decode_key False rest) (\<lambda>((field_number, wire_type), after_key).
            if field_number \<noteq> field_no \<or> wire_type \<noteq> Length_delimited then Inr (val, rest)
            else if length after_key < length pb_str then map_loop read_entry field_no val after_key
            else Inl stuck))))"
  by pat_completeness auto
termination by (relation "measure (\<lambda>(_, _, _, pb_str). length pb_str)") auto

declare map_loop.simps [simp del]

text \<open>
  \<^verbatim>\<open>from_pb_impl\<close> on a value of the type; \<^verbatim>\<open>from_pb\<close> reads a nested message into a value, and \<^verbatim>\<open>skip_unknown\<close> passes over an
  unknown field of a map entry.
\<close>

primrec from_pb_impl :: "pb_schema \<Rightarrow> (string \<Rightarrow> pb_value \<Rightarrow> byte list \<Rightarrow> pb_value result)
    \<Rightarrow> (wire_type \<Rightarrow> nat \<Rightarrow> byte list \<Rightarrow> byte list result) \<Rightarrow> pb_type \<Rightarrow> nat \<Rightarrow> pb_value \<Rightarrow> byte list
    \<Rightarrow> (pb_value \<times> byte list) result" where
  "from_pb_impl S from_pb skip_unknown (T_scalar s) field_no val pb_str = read_scalar s pb_str"
| "from_pb_impl S from_pb skip_unknown (T_message m) field_no val pb_str =
     rbind (decode_length_delimited ''Invalid message value: too few bytes.'' pb_str) (\<lambda>(len, pb_str).
       if len = 0 then Inr (val, pb_str)
       else rbind (from_pb m val (take len pb_str)) (\<lambda>val. Inr (val, drop len pb_str)))"
| "from_pb_impl S from_pb skip_unknown (T_sequence t) field_no val pb_str =
     (let val = (case val of V_sequence vs \<Rightarrow> vs | _ \<Rightarrow> []);
          read = from_pb_impl S from_pb skip_unknown t 0 (default_value S t)
      in rbind (if is_lenprefix t then items_loop read field_no (get_wire_type t) val pb_str
                else read_packed read t val pb_str)
           (\<lambda>(val, pb_str). Inr (V_sequence val, pb_str)))"
| "from_pb_impl S from_pb skip_unknown (T_map kt vt) field_no val pb_str =
     (let val = (case val of V_map kvs \<Rightarrow> kvs | _ \<Rightarrow> []);
          read_entry = entry_loop (read_scalar kt) (scalar_wire_type kt)
            (from_pb_impl S from_pb skip_unknown vt 2) (get_wire_type vt) skip_unknown
            (default_value S (T_scalar kt)) (default_value S vt)
      in rbind (map_loop read_entry field_no val pb_str) (\<lambda>(val, pb_str). Inr (V_map val, pb_str)))"
| "from_pb_impl S from_pb skip_unknown (T_optional t) field_no val pb_str =
     (let val = (case val of V_optional (Some v) \<Rightarrow> v | _ \<Rightarrow> default_value S t)
      in rbind (from_pb_impl S from_pb skip_unknown t field_no val pb_str)
           (\<lambda>(val, pb_str). Inr (V_optional (Some val), pb_str)))"

section \<open>Messages\<close>

definition unmatched :: exn where
  "unmatched = Runtime_error ''unmatched wire_type''"

text \<open>\<^verbatim>\<open>is_unpacked_repeated_type\<close>: the type of the items of a sequence of numbers, which may come packed or not.\<close>

fun unpacked_repeated :: "pb_type \<Rightarrow> pb_type option" where
  "unpacked_repeated (T_sequence t) = (if is_lenprefix t then None else Some t)"
| "unpacked_repeated _ = None"

text \<open>The member with a number, and for a variant the case.\<close>

fun find_field :: "nat \<Rightarrow> pb_member list \<Rightarrow> (nat \<times> nat option) option" where
  "find_field no [] = None"
| "find_field no (Member field_no _ _ # ms) =
     (if no = field_no then Some (0, None) else map_option (\<lambda>(i, c). (Suc i, c)) (find_field no ms))"
| "find_field no (Oneof _ cases # ms) =
     (case List.find (\<lambda>i. fst (cases ! i) = no) [0 ..< length cases] of
        Some c \<Rightarrow> Some (0, Some c)
      | None \<Rightarrow> map_option (\<lambda>(i, c). (Suc i, c)) (find_field no ms))"

definition read_member :: "pb_schema \<Rightarrow> (string \<Rightarrow> pb_value \<Rightarrow> byte list \<Rightarrow> pb_value result)
    \<Rightarrow> (wire_type \<Rightarrow> nat \<Rightarrow> byte list \<Rightarrow> byte list result) \<Rightarrow> pb_member \<Rightarrow> nat option \<Rightarrow> wire_type \<Rightarrow> pb_value \<Rightarrow> byte list
    \<Rightarrow> (pb_value \<times> byte list) result" where
  "read_member S from_pb skip_unknown m alternative wire_type val pb_str =
     (case (m, alternative) of
        (Member field_no _ t, _) \<Rightarrow>
          (case unpacked_repeated t of
             Some item \<Rightarrow>
               if wire_type = Length_delimited then from_pb_impl S from_pb skip_unknown t field_no val pb_str
               else if wire_type \<noteq> get_wire_type item then Inl unmatched
               else rbind (from_pb_impl S from_pb skip_unknown item 0 (default_value S item) pb_str) (\<lambda>(wire_item, pb_str).
                 Inr (V_sequence ((case val of V_sequence vs \<Rightarrow> vs | _ \<Rightarrow> []) @ [wire_item]), pb_str))
           | None \<Rightarrow>
               if wire_type \<noteq> get_wire_type t then Inl unmatched
               else from_pb_impl S from_pb skip_unknown t field_no val pb_str)
      | (Oneof _ cases, Some c) \<Rightarrow>
          (case cases ! c of (field_no, t) \<Rightarrow>
             if wire_type \<noteq> get_wire_type t then Inl unmatched
             else rbind (from_pb_impl S from_pb skip_unknown t field_no (default_value S t) pb_str) (\<lambda>(v, pb_str).
               Inr (V_oneof (Some (c, v)), pb_str)))
      | _ \<Rightarrow> Inl unmatched)"

definition append_pb_unknown_field :: "pb_message \<Rightarrow> byte list \<Rightarrow> byte list \<Rightarrow> byte list" where
  "append_pb_unknown_field m unknown data = (if keeps_unknown m then unknown @ data else unknown)"

text \<open>A field whose key, at \<^verbatim>\<open>field_start\<close>, has been read.\<close>

definition read_field :: "pb_schema \<Rightarrow> (string \<Rightarrow> pb_value \<Rightarrow> byte list \<Rightarrow> pb_value result)
    \<Rightarrow> (wire_type \<Rightarrow> nat \<Rightarrow> byte list \<Rightarrow> byte list result) \<Rightarrow> string \<Rightarrow> pb_value list \<Rightarrow> byte list
    \<Rightarrow> byte list \<Rightarrow> nat \<Rightarrow> wire_type \<Rightarrow> byte list \<Rightarrow> ((pb_value list \<times> byte list) \<times> byte list) result" where
  "read_field S from_pb skip_unknown m vs unknown field_start field_number wire_type pb_str =
     (case find_field field_number (pb_members (S m)) of
        None \<Rightarrow>
          rbind (skip_unknown wire_type field_number pb_str) (\<lambda>pb_str.
            Inr ((vs, append_pb_unknown_field (S m) unknown
              (take (length field_start - length pb_str) field_start)), pb_str))
      | Some (i, alternative) \<Rightarrow>
          rbind (read_member S from_pb skip_unknown (pb_members (S m) ! i) alternative wire_type (vs ! i) pb_str)
            (\<lambda>(v, pb_str). Inr ((vs[i := v], unknown), pb_str)))"

function fields_loop :: "pb_schema \<Rightarrow> (string \<Rightarrow> pb_value \<Rightarrow> byte list \<Rightarrow> pb_value result)
    \<Rightarrow> (wire_type \<Rightarrow> nat \<Rightarrow> byte list \<Rightarrow> byte list result) \<Rightarrow> string \<Rightarrow> pb_value list \<Rightarrow> byte list \<Rightarrow> byte list
    \<Rightarrow> pb_value result" where
  "fields_loop S from_pb skip_unknown m vs unknown pb_str =
     rbind (decode_key False pb_str) (\<lambda>((field_number, wire_type), rest).
       rbind (read_field S from_pb skip_unknown m vs unknown pb_str field_number wire_type rest) (\<lambda>((vs, unknown), rest).
         if rest = [] then Inr (V_message vs unknown)
         else if length rest < length pb_str then fields_loop S from_pb skip_unknown m vs unknown rest
         else Inl stuck))"
  by pat_completeness auto
termination by (relation "measure (\<lambda>(_, _, _, _, _, _, pb_str). length pb_str)") auto

declare fields_loop.simps [simp del]

primrec from_pb :: "pb_schema \<Rightarrow> nat \<Rightarrow> string \<Rightarrow> pb_value \<Rightarrow> byte list \<Rightarrow> pb_value result" where
  "from_pb S 0 m t pb_str = (if pb_str = [] then Inr t else Inl recursion_limit)"
| "from_pb S (Suc depth) m t pb_str =
     (if pb_str = [] then Inr t
      else case t of
        V_message vs unknown \<Rightarrow> fields_loop S (from_pb S depth) (skip_unknown_field depth) m vs unknown pb_str
      | _ \<Rightarrow> Inr t)"

section \<open>Reading goes forward\<close>

text \<open>
  A result that is not \<^const>\<open>stuck\<close> and leaves at most the bytes there were; \<^verbatim>\<open>forward\<close> leaves fewer, when
  there were any.
\<close>

definition keeps :: "byte list \<Rightarrow> ('a \<times> byte list) result \<Rightarrow> bool" where
  "keeps bs r \<longleftrightarrow> r \<noteq> Inl stuck \<and> (\<forall>v rest. r = Inr (v, rest) \<longrightarrow> length rest \<le> length bs)"

definition forward :: "byte list \<Rightarrow> ('a \<times> byte list) result \<Rightarrow> bool" where
  "forward bs r \<longleftrightarrow> keeps bs r \<and> (\<forall>v rest. r = Inr (v, rest) \<longrightarrow> bs \<noteq> [] \<longrightarrow> length rest < length bs)"

lemma forward_keeps: "forward bs r \<Longrightarrow> keeps bs r"
  by (simp add: forward_def)

lemma keeps_simps [simp]:
  "keeps bs (Inl e) \<longleftrightarrow> e \<noteq> stuck"
  "keeps bs (Inr (v, rest)) \<longleftrightarrow> length rest \<le> length bs"
  "forward bs (Inl e) \<longleftrightarrow> e \<noteq> stuck"
  "forward bs (Inr (v, rest)) \<longleftrightarrow> length rest \<le> length bs \<and> (bs \<noteq> [] \<longrightarrow> length rest < length bs)"
  by (auto simp: keeps_def forward_def)

text \<open>Bind: the second reader starts where the first stopped.\<close>

lemma keeps_bind:
  assumes "keeps bs r"
    and "\<And>v rest. r = Inr (v, rest) \<Longrightarrow> length rest \<le> length bs \<Longrightarrow> keeps rest (f (v, rest))"
  shows "keeps bs (rbind r f)"
  using assms by (cases r) (fastforce simp: keeps_def)+

lemma forward_bind:
  assumes "forward bs r"
    and "\<And>v rest. r = Inr (v, rest) \<Longrightarrow> length rest \<le> length bs \<Longrightarrow> keeps rest (f (v, rest))"
  shows "forward bs (rbind r f)"
  using assms by (cases r) (fastforce simp: keeps_def forward_def)+

lemma stuck_neq [simp]: "Invalid_argument e \<noteq> stuck" "stuck \<noteq> Invalid_argument e" "recursion_limit \<noteq> stuck" "unmatched \<noteq> stuck"
  "varint_error e \<noteq> stuck" "Runtime_error (c # e) \<noteq> stuck"
  by (simp_all add: stuck_def recursion_limit_def unmatched_def varint_error_def)

lemma forward_decode_loop: "forward bs (decode_loop i val bs)"
proof (induction bs arbitrary: i val)
  case (Cons b cs)
  have "forward (b # cs) (decode_loop j w cs)" for j w
    using Cons [of j w] by (auto simp: forward_def keeps_def le_Suc_eq less_Suc_eq_le)
  then show ?case by (subst decode_loop.simps) (simp add: Let_def)
qed (subst decode_loop.simps, simp)

lemma forward_decode_varint: "forward bs (decode_varint bs)"
  by (simp add: decode_varint_def forward_decode_loop)

lemma forward_decode_key: "forward bs (decode_key allow bs)"
  unfolding decode_key_def by (rule forward_bind [OF forward_decode_varint]) (auto simp: Let_def)

lemma forward_decode_length_delimited: "forward bs (decode_length_delimited e bs)"
  unfolding decode_length_delimited_def by (rule forward_bind [OF forward_decode_varint]) auto

lemma forward_read_fixed: "0 < k \<Longrightarrow> forward bs (read_fixed k sg bs)"
  by (auto simp: read_fixed_def)

lemma forward_read_scalar: "forward bs (read_scalar s bs)"
proof (cases s)
  case S_string
  then show ?thesis by (auto intro!: forward_bind [OF forward_decode_length_delimited])
qed (auto intro!: forward_bind [OF forward_decode_varint] forward_read_fixed)

text \<open>A reader without a value: it returns the rest only.\<close>

definition skips :: "(wire_type \<Rightarrow> nat \<Rightarrow> byte list \<Rightarrow> byte list result) \<Rightarrow> bool" where
  "skips skip_unknown \<longleftrightarrow> (\<forall>wire no bs. keeps bs (rbind (skip_unknown wire no bs) (\<lambda>rest. Inr ((), rest))))"

lemma skipsI: "(\<And>wire no bs. skip_unknown wire no bs \<noteq> Inl stuck
    \<and> (\<forall>rest. skip_unknown wire no bs = Inr rest \<longrightarrow> length rest \<le> length bs)) \<Longrightarrow> skips skip_unknown"
  unfolding skips_def keeps_def by (auto simp: rbind_Inr_conv rbind_Inl_conv)

lemma skipsD:
  assumes "skips skip_unknown"
  shows "skip_unknown wire no bs \<noteq> Inl stuck" "skip_unknown wire no bs = Inr rest \<Longrightarrow> length rest \<le> length bs"
  using assms unfolding skips_def keeps_def by (fastforce simp: rbind_Inr_conv rbind_Inl_conv)+

lemma group_loop_forward:
  assumes "skips skip_unknown"
  shows "group_loop skip_unknown no bs \<noteq> Inl stuck
    \<and> (\<forall>rest. group_loop skip_unknown no bs = Inr rest \<longrightarrow> length rest \<le> length bs)"
proof (induction bs rule: length_induct)
  case (1 bs)
  show ?case
  proof (cases "bs = []")
    case True
    then show ?thesis by (subst (1 2) group_loop.simps) simp
  next
    case ne: False
    show ?thesis
    proof (cases "decode_key True bs")
      case (Inr p)
      obtain child_no wire rest where p: "p = ((child_no, wire), rest)" by (cases p) auto
      have less: "length rest < length bs" using forward_decode_key [of bs True] Inr p ne by simp
      show ?thesis
      proof (cases "skip_unknown wire child_no rest")
        case (Inl e)
        then show ?thesis using Inr p less skipsD(1) [OF assms, of wire child_no rest]
          by (subst (1 2) group_loop.simps) auto
      next
        case (Inr rest')
        then have le: "length rest' \<le> length rest" using skipsD(2) [OF assms] by blast
        then have lt: "length rest' < length bs" using less by simp
        have IH: "group_loop skip_unknown no rest' \<noteq> Inl stuck"
          "group_loop skip_unknown no rest' = Inr r \<Longrightarrow> length r \<le> length bs" for r
          using 1 [rule_format, OF lt] lt by (auto intro: le_trans less_imp_le)
        then show ?thesis using Inr \<open>decode_key True bs = Inr p\<close> p less le
          by (subst (1 2) group_loop.simps) auto
      qed
    qed (use forward_decode_key [of bs True] in \<open>subst (1 2) group_loop.simps, auto\<close>)
  qed
qed

lemma skips_skip_field:
  assumes "\<And>no bs. read_group no bs \<noteq> Inl stuck \<and> (\<forall>rest. read_group no bs = Inr rest \<longrightarrow> length rest \<le> length bs)"
  shows "skips (skip_field read_group)"
proof (rule skipsI)
  fix wire no bs
  have v: "decode_varint bs \<noteq> Inl stuck" "decode_varint bs = Inr (v, rest) \<Longrightarrow> length rest \<le> length bs" for v rest
    using forward_decode_varint [of bs] by (auto simp: forward_def keeps_def)
  have l: "decode_length_delimited e bs \<noteq> Inl stuck" "decode_length_delimited e bs = Inr (n, rest) \<Longrightarrow> length rest \<le> length bs"
    for e n rest
    using forward_decode_length_delimited [of bs e] by (auto simp: forward_def keeps_def)
  show "skip_field read_group wire no bs \<noteq> Inl stuck
      \<and> (\<forall>rest. skip_field read_group wire no bs = Inr rest \<longrightarrow> length rest \<le> length bs)"
    using assms [of no bs] v l(1) le_trans [OF diff_le_self l(2)]
    by (cases wire) (auto simp: rbind_Inl_conv rbind_Inr_conv)
qed

lemma skips_skip_unknown_field: "skips (skip_unknown_field depth)"
  by (induction depth) (auto intro!: skips_skip_field group_loop_forward)

text \<open>The loops, for readers that go forward.\<close>

lemma keeps_trans: "keeps a r \<Longrightarrow> length a \<le> length b \<Longrightarrow> keeps b r"
  by (force simp: keeps_def)

lemma keeps_decode_key:
  assumes "bs \<noteq> []"
    and "\<And>no wire rest. decode_key allow bs = Inr ((no, wire), rest) \<Longrightarrow> length rest < length bs
      \<Longrightarrow> keeps bs (f ((no, wire), rest))"
  shows "keeps bs (rbind (decode_key allow bs) f)"
proof (cases "decode_key allow bs")
  case (Inl e)
  then show ?thesis using forward_decode_key [of bs allow] by simp
next
  case (Inr p)
  obtain no wire rest where p: "p = ((no, wire), rest)" by (cases p) auto
  have "length rest < length bs" using forward_decode_key [of bs allow] Inr p assms(1) by simp
  then show ?thesis using assms(2) Inr p by simp
qed

lemma items_loop_forward:
  assumes "\<And>bs. forward bs (read bs)"
  shows "forward bs (items_loop read no wire val bs)"
proof (induction "length bs" arbitrary: bs val rule: less_induct)
  case less
  have IH: "keeps c (items_loop read no wire val after_key)"
    if "length after_key < length bs" "length after_key \<le> length c" for after_key val c
    by (rule keeps_trans [OF forward_keeps [OF less [OF that(1)]] that(2)])
  show ?case
    by (subst items_loop.simps)
      (auto simp: Let_def intro!: forward_bind [OF assms] keeps_decode_key IH)
qed

lemma packed_loop_not_stuck:
  assumes "\<And>bs. forward bs (read bs)"
  shows "packed_loop read val bs \<noteq> Inl stuck"
proof (induction "length bs" arbitrary: bs val rule: less_induct)
  case less
  show ?case
    using assms [of bs] less by (subst packed_loop.simps) (auto simp: rbind_Inl_conv forward_def keeps_def)
qed

lemma read_packed_forward:
  assumes "\<And>bs. forward bs (read bs)"
  shows "forward bs (read_packed read t val bs)"
  unfolding read_packed_def
proof (rule forward_bind [OF forward_decode_length_delimited])
  fix len rest
  have "rbind (packed_loop read val p) (\<lambda>v. Inr (v, r)) \<noteq> Inl stuck" for p and r :: "byte list"
    using packed_loop_not_stuck [OF assms] by (simp add: rbind_Inl_conv)
  then have "keeps rest (rbind (packed_loop read val p) (\<lambda>v. Inr (v, drop len rest)))" for p
    by (auto simp: keeps_def rbind_Inr_conv)
  then show "keeps rest (case (len, rest) of (len, pb_str) \<Rightarrow>
       let packed = take len pb_str; pb_str = drop len pb_str in
       case fixed_type t of
         Some (item_size, sg) \<Rightarrow>
           if len mod item_size \<noteq> 0
           then Inl (Invalid_argument ''Invalid packed fixed repeated value: bad length.'')
           else Inr (val @ copy_fixed item_size sg packed, pb_str)
       | None \<Rightarrow> rbind (packed_loop read val packed) (\<lambda>val. Inr (val, pb_str)))"
    by (auto simp: Let_def split: option.split)
qed

lemma entry_loop_not_stuck:
  assumes "\<And>bs. forward bs (read_key bs)" "\<And>v bs. forward bs (read_mapped v bs)" "skips skip_unknown"
  shows "entry_loop read_key kw read_mapped mw skip_unknown k v bs \<noteq> Inl stuck"
proof (induction "length bs" arbitrary: bs k v rule: less_induct)
  case less
  show ?case
  proof (cases "bs = []")
    case False
    have key: "decode_key False bs \<noteq> Inl stuck"
      "decode_key False bs = Inr (kk, rest) \<Longrightarrow> length rest < length bs" for kk rest
      using forward_decode_key [of bs False] False by (auto simp: forward_def keeps_def)
    have rk: "read_key rest \<noteq> Inl stuck" "read_key rest = Inr (x, rest') \<Longrightarrow> length rest' \<le> length rest"
      and rm: "read_mapped w rest \<noteq> Inl stuck" "read_mapped w rest = Inr (x, rest') \<Longrightarrow> length rest' \<le> length rest"
      for x w rest rest'
      using assms(1) [of rest] assms(2) [of rest w] by (auto simp: forward_def keeps_def)
    note sk = skipsD [OF assms(3)]
    show ?thesis
      using False less key rk rm sk
      by (subst entry_loop.simps)
        (auto simp: rbind_Inl_conv rbind_Inr_conv split: if_splits dest: le_less_trans, (metis le_less_trans)+)
  qed (subst entry_loop.simps, simp)
qed

lemma map_loop_forward:
  assumes "\<And>bs. read_entry bs \<noteq> Inl stuck"
  shows "forward bs (map_loop read_entry no val bs)"
proof (induction "length bs" arbitrary: bs val rule: less_induct)
  case less
  have IH: "keeps c (map_loop read_entry no val after_key)"
    if "length after_key < length bs" "length after_key \<le> length c" for after_key val c
    by (rule keeps_trans [OF forward_keeps [OF less [OF that(1)]] that(2)])
  have step: "keeps rest (rbind (read_entry (take len rest)) (\<lambda>(map_key, mapped).
          let rest = drop len rest; val = insert_or_assign map_key mapped val in
          if rest = [] then Inr (val, rest)
          else rbind (decode_key False rest) (\<lambda>((field_number, wire_type), after_key).
            if field_number \<noteq> no \<or> wire_type \<noteq> Length_delimited then Inr (val, rest)
            else if length after_key < length bs then map_loop read_entry no val after_key
            else Inl stuck)))" if "length rest \<le> length bs" for len rest
  proof (cases "read_entry (take len rest)")
    case (Inl e)
    then show ?thesis using assms [of "take len rest"] by auto
  next
    case (Inr p)
    have "keeps (drop len rest) (if drop len rest = [] then Inr (val', drop len rest)
          else rbind (decode_key False (drop len rest)) (\<lambda>((field_number, wire_type), after_key).
            if field_number \<noteq> no \<or> wire_type \<noteq> Length_delimited then Inr (val', drop len rest)
            else if length after_key < length bs then map_loop read_entry no val' after_key
            else Inl stuck))" for val'
      using that by (auto intro!: keeps_decode_key IH)
    then have "keeps rest (if drop len rest = [] then Inr (val', drop len rest)
          else rbind (decode_key False (drop len rest)) (\<lambda>((field_number, wire_type), after_key).
            if field_number \<noteq> no \<or> wire_type \<noteq> Length_delimited then Inr (val', drop len rest)
            else if length after_key < length bs then map_loop read_entry no val' after_key
            else Inl stuck))" for val'
      by (rule keeps_trans) simp
    then show ?thesis using Inr by (cases p) (simp add: Let_def)
  qed
  show ?case
    by (subst map_loop.simps)
      (auto intro!: forward_bind [OF forward_decode_length_delimited] step simp del: drop_eq_Nil)
qed

text \<open>The value of any type, then members, fields and messages.\<close>

lemma from_pb_impl_forward:
  assumes "\<And>m v bs. rd m v bs \<noteq> Inl stuck" "skips skip_unknown"
  shows "forward bs (from_pb_impl S rd skip_unknown t no v bs)"
proof (induction t arbitrary: no v bs)
  case (T_scalar s)
  then show ?case by (simp add: forward_read_scalar)
next
  case (T_message m)
  have "keeps rest (rbind (rd m v p) (\<lambda>v. Inr (v, drop n rest)))" for p n and rest :: "byte list"
    using assms(1) by (auto simp: keeps_def rbind_Inl_conv rbind_Inr_conv)
  then show ?case by (auto intro!: forward_bind [OF forward_decode_length_delimited])
next
  case (T_sequence t)
  then show ?case
    by (auto simp: Let_def intro!: forward_bind items_loop_forward read_packed_forward)
next
  case (T_map kt vt)
  have "entry_loop (read_scalar kt) kw (from_pb_impl S rd skip_unknown vt 2) mw skip_unknown k w bs \<noteq> Inl stuck"
    for kw mw k w bs
    by (rule entry_loop_not_stuck) (auto intro: forward_read_scalar T_map assms(2))
  then show ?case by (auto simp: Let_def intro!: forward_bind map_loop_forward)
next
  case (T_optional t)
  then show ?case by (auto simp: Let_def intro!: forward_bind)
qed

lemma read_member_keeps:
  assumes "\<And>m v bs. rd m v bs \<noteq> Inl stuck" "skips skip_unknown"
  shows "keeps bs (read_member S rd skip_unknown m c wire v bs)"
  unfolding read_member_def
  by (auto split: pb_member.split option.split prod.split
    intro!: keeps_bind forward_keeps [OF from_pb_impl_forward [OF assms]])

lemma read_field_keeps:
  assumes "\<And>m v bs. rd m v bs \<noteq> Inl stuck" "skips skip_unknown"
  shows "keeps bs (read_field S rd skip_unknown m vs unknown start no wire bs)"
  unfolding read_field_def
  using skipsD [OF assms(2)]
  by (auto split: option.split prod.split intro!: keeps_bind [OF read_member_keeps [OF assms]])
    (auto simp: keeps_def rbind_Inl_conv rbind_Inr_conv)

lemma fields_loop_not_stuck:
  assumes "\<And>m v bs. rd m v bs \<noteq> Inl stuck" "skips skip_unknown"
  shows "bs \<noteq> [] \<Longrightarrow> fields_loop S rd skip_unknown m vs unknown bs \<noteq> Inl stuck"
proof (induction "length bs" arbitrary: bs vs unknown rule: less_induct)
  case less
  have key: "decode_key False bs \<noteq> Inl stuck"
    "decode_key False bs = Inr (k, rest) \<Longrightarrow> length rest < length bs" for k rest
    using forward_decode_key [of bs False] less(2) by (auto simp: forward_def keeps_def)
  have k: "keeps rest (read_field S rd skip_unknown m vs unknown start no wire rest)" for vs unknown start no wire rest
    by (rule read_field_keeps [OF assms])
  have field: "read_field S rd skip_unknown m vs unknown start no wire rest \<noteq> Inl stuck"
    "read_field S rd skip_unknown m vs unknown start no wire rest = Inr (x, rest') \<Longrightarrow> length rest' \<le> length rest"
    for vs unknown start no wire rest rest' x
    using k [of rest vs unknown start no wire] by (cases x; simp add: keeps_def)+
  show ?case
    using less(1) key(1) field(1) le_less_trans [OF field(2) key(2)]
    by (subst fields_loop.simps) (auto simp: rbind_Inl_conv rbind_Inr_conv split: if_splits)
qed

text \<open>C34: Reading ends for every input and every schema: each loop consumes at least one byte in every round, so that the
  guard of the model's loops never stops one; a message is read to its end or to an error that the code
  throws.\<close>

theorem from_pb_not_stuck: "from_pb S depth m t bs \<noteq> Inl stuck"
proof (induction depth arbitrary: m t bs)
  case (Suc depth)
  then show ?case
    using fields_loop_not_stuck [OF _ skips_skip_unknown_field] by (auto split: pb_value.split)
qed simp

end
