(* ===== verification/Iguana_Pb_Roundtrip.thy ===== *)
theory Iguana_Pb_Roundtrip
  imports Iguana_Pb_Passes Iguana_Pb_Reader
begin

text \<open>
  Protobuf messages written by \<^verbatim>\<open>iguana/pb_writer.hpp\<close> and read by \<^verbatim>\<open>iguana/pb_reader.hpp\<close>: which messages come
  back as they were, and that they do.  \<^const>\<open>read_field\<close> is followed through the encoding of each kind of member;
  the sections go from single values over packed sequences, repeated items and map entries to whole messages.
  The end gives a schema with a member of every kind, a message that is written and read, and one with an empty
  message in a map that \<^verbatim>\<open>to_pb\<close> writes wrongly.
\<close>

section \<open>Messages that are read back\<close>

fun item_readable :: "(string \<Rightarrow> pb_value \<Rightarrow> bool) \<Rightarrow> pb_type \<Rightarrow> pb_value \<Rightarrow> bool" where
  "item_readable msg (T_scalar s) v \<longleftrightarrow> scalar_ok s v"
| "item_readable msg (T_message m) v \<longleftrightarrow> msg m v"
| "item_readable msg _ v \<longleftrightarrow> False"

text \<open>A scalar that is written although default values are omitted.\<close>

fun kept :: "pb_scalar \<Rightarrow> pb_value \<Rightarrow> bool" where
  "kept s (V_num n) \<longleftrightarrow> \<not> is_zero s n"
| "kept s (V_bytes b) \<longleftrightarrow> b \<noteq> []"
| "kept s _ \<longleftrightarrow> False"

text \<open>
  Omitting loses a negative zero of a floating-point type, and an optional member that holds the default value;
  \<^verbatim>\<open>optional_schema\<close> keeps the latter.
\<close>

fun value_readable :: "(string \<Rightarrow> pb_value \<Rightarrow> bool) \<Rightarrow> bool \<Rightarrow> pb_type \<Rightarrow> pb_value \<Rightarrow> bool" where
  "value_readable msg omit (T_scalar s) v \<longleftrightarrow>
     scalar_ok s v \<and> (omit \<longrightarrow> kept s v \<or> v = V_num 0 \<or> v = V_bytes [])"
| "value_readable msg omit (T_message m) v \<longleftrightarrow> msg m v"
| "value_readable msg omit (T_sequence t) v \<longleftrightarrow>
     (case v of V_sequence vs \<Rightarrow> list_all (item_readable msg t) vs | _ \<Rightarrow> False)"
| "value_readable msg omit (T_map kt vt) v \<longleftrightarrow>
     (case v of
        V_map kvs \<Rightarrow> distinct (map fst kvs) \<and> list_all (\<lambda>(k, v). scalar_ok kt k \<and> item_readable msg vt v) kvs
      | _ \<Rightarrow> False)"
| "value_readable msg omit (T_optional t) v \<longleftrightarrow>
     (case v of
        V_optional None \<Rightarrow> True
      | V_optional (Some v) \<Rightarrow> item_readable msg t v \<and> (omit \<longrightarrow> (case t of T_scalar s \<Rightarrow> kept s v | _ \<Rightarrow> True))
      | _ \<Rightarrow> False)"

fun member_readable :: "(string \<Rightarrow> pb_value \<Rightarrow> bool) \<Rightarrow> pb_member \<Rightarrow> pb_value \<Rightarrow> bool" where
  "member_readable msg (Member _ optional_schema t) v \<longleftrightarrow> value_readable msg (\<not> optional_schema) t v"
| "member_readable msg (Oneof monostate cases) v \<longleftrightarrow>
     (case v of
        V_oneof None \<Rightarrow> monostate
      | V_oneof (Some (i, v)) \<Rightarrow> i < length cases \<and> item_readable msg (snd (cases ! i)) v
      | _ \<Rightarrow> False)"

text \<open>Fields that no member has, one after the other.\<close>

function unknown_fields :: "nat \<Rightarrow> pb_member list \<Rightarrow> byte list \<Rightarrow> bool" where
  "unknown_fields depth ms bs \<longleftrightarrow>
     (bs = [] \<or>
      (case decode_key False bs of
         Inl _ \<Rightarrow> False
       | Inr ((no, wire), rest) \<Rightarrow>
           find_field no ms = None
           \<and> (case skip_unknown_field depth wire no rest of
                Inl _ \<Rightarrow> False
              | Inr rest \<Rightarrow> if length rest < length bs then unknown_fields depth ms rest else False)))"
  by pat_completeness auto
termination by (relation "measure (\<lambda>(_, _, bs). length bs)") auto

declare unknown_fields.simps [simp del]

text \<open>At most \<^verbatim>\<open>depth\<close> messages inside each other.\<close>

primrec message_readable :: "pb_schema \<Rightarrow> nat \<Rightarrow> string \<Rightarrow> pb_value \<Rightarrow> bool" where
  "message_readable S 0 m v \<longleftrightarrow> False"
| "message_readable S (Suc depth) m v \<longleftrightarrow>
     (case v of
        V_message vs unknown \<Rightarrow>
          list_all2 (member_readable (message_readable S depth)) (pb_members (S m)) vs
          \<and> (unknown = [] \<or> keeps_unknown (S m) \<and> unknown_fields depth (pb_members (S m)) unknown)
      | _ \<Rightarrow> False)"

text \<open>The members of a new object are zero, empty, absent, or the first alternative.\<close>

fun default_member :: "pb_schema \<Rightarrow> pb_member \<Rightarrow> pb_value" where
  "default_member S (Member _ _ t) = default_value S t"
| "default_member S (Oneof monostate cases) =
     (if monostate then V_oneof None
      else V_oneof (case cases of [] \<Rightarrow> None | (_, t) # _ \<Rightarrow> Some (0, default_value S t)))"

definition zero_initial :: "pb_schema \<Rightarrow> bool" where
  "zero_initial S \<longleftrightarrow> (\<forall>m. initial (S m) = map (default_member S) (pb_members (S m)))"

section \<open>Items\<close>

text \<open>What follows the key of an item.\<close>

fun item_payload :: "pb_schema \<Rightarrow> pb_type \<Rightarrow> pb_value \<Rightarrow> byte list" where
  "item_payload S (T_scalar s) (V_num n) = payload s n"
| "item_payload S (T_scalar s) (V_bytes b) = serialize_varint (word_of_nat (length b)) @ b"
| "item_payload S (T_message m) v =
     (let body = pb_bytes S 0 True (T_message m) v in serialize_varint (word_of_nat (length body)) @ body)"
| "item_payload S _ _ = []"

lemma bytes_item:
  assumes "item_readable msg t v" "key \<noteq> 0" "\<And>m v. msg m v \<Longrightarrow> \<exists>vs u. v = V_message vs u"
  shows "pb_bytes S key False t v = serialize_varint_u32 key @ item_payload S t v"
proof (cases t)
  case (T_scalar s)
  then show ?thesis using assms(1,2) by (cases v) (simp_all add: encode_numeric_field_eq key_bytes_def)
next
  case (T_message m)
  then show ?thesis using assms by (fastforce simp: delimited_def Let_def)
qed (use assms in auto)

lemma decode_length:
  assumes "length b < 2 ^ 32"
  shows "decode_length_delimited e (serialize_varint (word_of_nat (length b)) @ b @ rest) = Inr (length b, b @ rest)"
  using assms by (simp add: decode_length_delimited_def decode_serialize_varint size_of_length)

lemma read_scalar_payload:
  assumes "scalar_ok s v" "length (item_payload S (T_scalar s) v) < 2 ^ 32"
  shows "read_scalar s (item_payload S (T_scalar s) v @ rest) = Inr (v, rest)"
proof (cases v)
  case (V_bytes b)
  then show ?thesis using assms scalar_ok_wire(2) [of s b] by (simp add: decode_length)
qed (use assms in \<open>auto simp: read_payload\<close>)

text \<open>Nested messages are read back by \<^verbatim>\<open>rd\<close>.\<close>

definition reads :: "pb_schema \<Rightarrow> (string \<Rightarrow> pb_value \<Rightarrow> byte list \<Rightarrow> pb_value result) \<Rightarrow> (string \<Rightarrow> pb_value \<Rightarrow> bool) \<Rightarrow> bool"
where
  "reads S rd msg \<longleftrightarrow> (\<forall>m v. msg m v \<longrightarrow> (\<exists>vs u. v = V_message vs u)
     \<and> (length (pb_bytes S 0 True (T_message m) v) < 2 ^ 32 \<longrightarrow>
         rd m (default_value S (T_message m)) (pb_bytes S 0 True (T_message m) v) = Inr v
         \<and> (pb_bytes S 0 True (T_message m) v = [] \<longrightarrow> v = default_value S (T_message m))))"

lemma read_item:
  assumes "item_readable msg t v" "reads S rd msg" "length (item_payload S t v) < 2 ^ 32"
  shows "from_pb_impl S rd sk t no (default_value S t) (item_payload S t v @ rest) = Inr (v, rest)"
proof (cases t)
  case (T_scalar s)
  then show ?thesis using assms read_scalar_payload by simp
next
  case (T_message m)
  let ?body = "pb_bytes S 0 True (T_message m) v"
  have len: "length ?body < 2 ^ 32" using assms(3) T_message by (simp add: Let_def)
  then have r: "rd m (default_value S (T_message m)) ?body = Inr v" "?body = [] \<longrightarrow> v = default_value S (T_message m)"
    using assms(1,2) T_message by (auto simp: reads_def)
  then show ?thesis using T_message decode_length [OF len] by (auto simp: Let_def)
qed (use assms in auto)

section \<open>Repeated fields and maps\<close>

text \<open>What comes behind a field has another number.\<close>

definition other_field :: "nat \<Rightarrow> byte list \<Rightarrow> bool" where
  "other_field no bs \<longleftrightarrow> bs = [] \<or> (\<exists>no' wire rest. decode_key False bs = Inr ((no', wire), rest) \<and> no' \<noteq> no)"

lemma wire_type_not_end: "get_wire_type t \<noteq> End_group" "scalar_wire_type s \<noteq> End_group"
proof -
  show s: "scalar_wire_type s \<noteq> End_group" for s by (cases s) simp_all
  show "get_wire_type t \<noteq> End_group" by (induction t) (simp_all add: s)
qed

lemma decode_sub_key:
  "0 < no \<Longrightarrow> no < 2 ^ 29 \<Longrightarrow> decode_key False (serialize_varint_u32 (sub_key no t) @ rest) = Inr ((no, get_wire_type t), rest)"
  unfolding sub_key_def by (rule decode_key_tag) (simp_all add: wire_type_not_end)

lemma key_not_Nil [simp]: "serialize_varint_u32 key \<noteq> []"
  by (simp add: serialize_varint_u32_eq)

lemma length_key_gt_0 [simp]: "0 < length (serialize_varint_u32 key)"
  by simp

lemma serialize_varint_not_Nil [simp]: "serialize_varint v \<noteq> []"
  by (simp add: serialize_varint_eq)

lemma item_payload_not_Nil: "item_readable msg t v \<Longrightarrow> item_payload S t v \<noteq> []"
  by (cases "(S, t, v)" rule: item_payload.cases) (auto simp: payload_nonempty Let_def)

lemma readsD: "reads S rd msg \<Longrightarrow> msg m v \<Longrightarrow> \<exists>vs u. v = V_message vs u"
  by (simp add: reads_def)

lemma items_loop_read:
  assumes "reads S rd msg" "0 < no" "no < 2 ^ 29" "other_field no rest"
  shows "item_readable msg t v \<Longrightarrow> list_all (item_readable msg t) vs
    \<Longrightarrow> length (item_payload S t v @ items_bytes S (sub_key no t) t vs) < 2 ^ 32
    \<Longrightarrow> items_loop (from_pb_impl S rd sk t 0 (default_value S t)) no (get_wire_type t) acc
          (item_payload S t v @ items_bytes S (sub_key no t) t vs @ rest) = Inr (acc @ v # vs, rest)"
proof (induction vs arbitrary: v acc)
  case Nil
  then show ?case using read_item [OF Nil(1) assms(1), of sk 0 rest] item_payload_not_Nil [OF Nil(1), of S] assms(4)
    by (subst items_loop.simps) (auto simp: other_field_def Let_def)
next
  case (Cons v' vs)
  let ?key = "serialize_varint_u32 (sub_key no t)"
  let ?after = "item_payload S t v' @ items_bytes S (sub_key no t) t vs @ rest"
  have v': "item_readable msg t v'" using Cons(3) by simp
  have b: "pb_bytes S (sub_key no t) False t v' = ?key @ item_payload S t v'"
    using bytes_item [OF v' sub_key_nonzero [OF assms(2,3)]] readsD [OF assms(1)] by simp
  have "items_loop (from_pb_impl S rd sk t 0 (default_value S t)) no (get_wire_type t) (acc @ [v]) ?after
      = Inr ((acc @ [v]) @ v' # vs, rest)"
    using Cons(4) b by (intro Cons(1)) (use Cons(3) in auto)
  moreover have "decode_key False (?key @ ?after) = Inr ((no, get_wire_type t), ?after)"
    by (rule decode_sub_key [OF assms(2,3)])
  moreover have "from_pb_impl S rd sk t 0 (default_value S t) (item_payload S t v @ ?key @ ?after) = Inr (v, ?key @ ?after)"
    using Cons(4) by (intro read_item [OF Cons(2) assms(1)]) simp
  ultimately show ?case using item_payload_not_Nil [OF Cons(2), of S] b
    by (subst items_loop.simps) (simp add: Let_def)
qed

lemma packed_loop_read:
  assumes "list_all (scalar_ok s) vs" "scalar_wire_type s \<noteq> Length_delimited"
  shows "packed_loop (read_scalar s) acc (write_packed (T_scalar s) vs) = Inr (acc @ vs)"
  using assms(1)
proof (induction vs arbitrary: acc)
  case (Cons v vs)
  then obtain n where v: "v = V_num n" using assms(2) scalar_ok_wire(2) by (cases v) fastforce+
  have "packed_loop (read_scalar s) (acc @ [v]) (write_packed (T_scalar s) vs) = Inr ((acc @ [v]) @ vs)"
    using Cons by simp
  moreover have "payload s n \<noteq> []" using payload_nonempty Cons v by auto
  ultimately show ?case using Cons(2) v
    by (subst packed_loop.simps) (simp add: encode_numeric_field_eq key_bytes_def read_payload)
qed (subst packed_loop.simps, simp)

lemma copy_fixed_append:
  assumes "length p = len" "0 < len"
  shows "copy_fixed len sg (p @ q) = V_num (cast_integral len sg (le_read len p)) # copy_fixed len sg q"
proof -
  have "len \<noteq> 0" using assms by simp
  then have n: "length (p @ q) div len = Suc (length q div len)" using assms by (simp add: div_add_self1)
  have "le_read len (p @ q) = (le_read len p :: u64)"
  proof (rule bit_word_eqI)
    fix i assume "i < LENGTH(64)"
    have "i div 8 < len" if "i < 8 * len" using that by (simp add: div_less_iff_less_mult mult.commute)
    then show "bit (le_read len (p @ q) :: u64) i \<longleftrightarrow> bit (le_read len p :: u64) i"
      using assms by (auto simp: bit_le_read nth_append)
  qed
  then show ?thesis unfolding copy_fixed_def n map_upt_Suc using assms by simp
qed

lemma copy_fixed_read:
  assumes "list_all (scalar_ok s) vs" "fixed_type (T_scalar s) = Some (len, sg)"
  shows "copy_fixed len sg (write_packed (T_scalar s) vs) = vs" "length (write_packed (T_scalar s) vs) mod len = 0"
proof -
  have len: "len = 4 \<or> len = 8" and p: "payload s n = le_bytes len (word_of_int n :: u64)"
    and ok: "scalar_ok s v \<Longrightarrow> \<exists>n. v = V_num n \<and> int_range len sg n" for n v
    using assms(2) by (cases s; cases v; simp add: payload_simps)+
  have "copy_fixed len sg (write_packed (T_scalar s) vs) = vs \<and> length (write_packed (T_scalar s) vs) mod len = 0"
    using assms(1)
  proof (induction vs)
    case Nil
    then show ?case by (simp add: copy_fixed_def)
  next
    case (Cons v vs)
    then obtain n where v: "v = V_num n" "int_range len sg n" using ok by auto
    then have "cast_integral len sg (le_read len (le_bytes len (word_of_int n :: u64))) = n"
      using read_fixed_bytes [of len sg n "[]"] len by (auto simp: read_fixed_def)
    then show ?case using Cons v p len
      by (auto simp: encode_numeric_field_eq key_bytes_def copy_fixed_append)
  qed
  then show "copy_fixed len sg (write_packed (T_scalar s) vs) = vs" "length (write_packed (T_scalar s) vs) mod len = 0"
    by auto
qed

lemma read_packed_written:
  assumes "list_all (scalar_ok s) vs" "scalar_wire_type s \<noteq> Length_delimited"
    "length (write_packed (T_scalar s) vs) < 2 ^ 32"
  shows "read_packed (read_scalar s) (T_scalar s) acc
    (serialize_varint (word_of_nat (length (write_packed (T_scalar s) vs))) @ write_packed (T_scalar s) vs @ rest)
    = Inr (acc @ vs, rest)"
  unfolding read_packed_def decode_length [OF assms(3)]
  using packed_loop_read [OF assms(1,2)] copy_fixed_read [OF assms(1)]
  by (auto simp: Let_def split: option.split simp del: write_packed.simps)

lemma insert_or_assign_new: "k \<notin> fst ` set kvs \<Longrightarrow> insert_or_assign k v kvs = kvs @ [(k, v)]"
  by (induction kvs) auto

lemma entry_loop_read:
  assumes "reads S rd msg" "scalar_ok kt k" "item_readable msg vt v"
    "length (item_payload S (T_scalar kt) k) < 2 ^ 32" "length (item_payload S vt v) < 2 ^ 32"
  shows "entry_loop (read_scalar kt) (scalar_wire_type kt) (from_pb_impl S rd sk vt 2) (get_wire_type vt) sk
      dk (default_value S vt)
      (write_scalar (sub_key 1 (T_scalar kt)) False kt k @ pb_bytes S (sub_key 2 vt) False vt v) = Inr (k, v)"
proof -
  let ?k1 = "serialize_varint_u32 (sub_key 1 (T_scalar kt))" and ?k2 = "serialize_varint_u32 (sub_key 2 vt)"
  let ?pk = "item_payload S (T_scalar kt) k" and ?pv = "item_payload S vt v"
  have w: "write_scalar (sub_key 1 (T_scalar kt)) False kt k = ?k1 @ ?pk"
    using assms(2) sub_key_nonzero [of 1 "T_scalar kt"] by (cases k) (auto simp: encode_numeric_field_eq key_bytes_def)
  have b: "pb_bytes S (sub_key 2 vt) False vt v = ?k2 @ ?pv"
    using bytes_item [OF assms(3)] readsD [OF assms(1)] sub_key_nonzero [of 2 vt] by simp
  have d1: "decode_key False (?k1 @ ?pk @ ?k2 @ ?pv) = Inr ((1, scalar_wire_type kt), ?pk @ ?k2 @ ?pv)"
    using decode_sub_key [of 1 "T_scalar kt"] by simp
  have d2: "decode_key False (?k2 @ ?pv) = Inr ((2, get_wire_type vt), ?pv)"
    using decode_sub_key [of 2 vt] by simp
  have r: "read_scalar kt (?pk @ ?k2 @ ?pv) = Inr (k, ?k2 @ ?pv)"
    by (rule read_scalar_payload [OF assms(2,4)])
  have r2: "from_pb_impl S rd sk vt 2 (default_value S vt) ?pv = Inr (v, [])"
    using read_item [OF assms(3,1,5), of sk 2 "[]"] by simp
  have e: "entry_loop (read_scalar kt) (scalar_wire_type kt) (from_pb_impl S rd sk vt 2) (get_wire_type vt) sk a c []
      = Inr (a, c)" for a c
    by (simp add: entry_loop.simps)
  have "entry_loop (read_scalar kt) (scalar_wire_type kt) (from_pb_impl S rd sk vt 2) (get_wire_type vt) sk
      k (default_value S vt) (?k2 @ ?pv) = Inr (k, v)"
    by (subst entry_loop.simps) (simp add: d2 r2 e)
  then show ?thesis unfolding w b
    by (subst entry_loop.simps) (simp add: d1 r del: One_nat_def)
qed

definition entry_bytes :: "pb_schema \<Rightarrow> pb_scalar \<Rightarrow> pb_type \<Rightarrow> pb_value \<times> pb_value \<Rightarrow> byte list" where
  "entry_bytes S kt vt kv =
     (case kv of (k, v) \<Rightarrow> write_scalar (sub_key 1 (T_scalar kt)) False kt k @ pb_bytes S (sub_key 2 vt) False vt v)"

lemma pairs_bytes_Cons:
  "pairs_bytes S key kt vt (kv # kvs) = delimited key (entry_bytes S kt vt kv) @ pairs_bytes S key kt vt kvs"
  by (simp add: entry_bytes_def split: prod.split)

lemma entry_read:
  assumes "reads S rd msg" "scalar_ok kt k" "item_readable msg vt v" "length (entry_bytes S kt vt (k, v)) < 2 ^ 32"
  shows "entry_loop (read_scalar kt) (scalar_wire_type kt) (from_pb_impl S rd sk vt 2) (get_wire_type vt) sk
      dk (default_value S vt) (entry_bytes S kt vt (k, v)) = Inr (k, v)"
proof -
  have "write_scalar (sub_key 1 (T_scalar kt)) False kt k
      = serialize_varint_u32 (sub_key 1 (T_scalar kt)) @ item_payload S (T_scalar kt) k"
    using assms(2) sub_key_nonzero [of 1 "T_scalar kt"] by (cases k) (auto simp: encode_numeric_field_eq key_bytes_def)
  moreover have "pb_bytes S (sub_key 2 vt) False vt v = serialize_varint_u32 (sub_key 2 vt) @ item_payload S vt v"
    using bytes_item [OF assms(3)] readsD [OF assms(1)] sub_key_nonzero [of 2 vt] by simp
  ultimately have "length (item_payload S (T_scalar kt) k) < 2 ^ 32" "length (item_payload S vt v) < 2 ^ 32"
    using assms(4) by (simp_all add: entry_bytes_def del: write_scalar.simps)
  then show ?thesis using entry_loop_read [OF assms(1-3)] by (simp add: entry_bytes_def del: write_scalar.simps)
qed

lemma map_loop_read:
  assumes "reads S rd msg" "0 < no" "no < 2 ^ 29" "other_field no rest" "get_wire_type t = Length_delimited"
    "read = entry_loop (read_scalar kt) (scalar_wire_type kt) (from_pb_impl S rd sk vt 2) (get_wire_type vt) sk
      dk (default_value S vt)"
  shows "list_all (\<lambda>(k, v). scalar_ok kt k \<and> item_readable msg vt v) (kv # kvs)
    \<Longrightarrow> distinct (map fst (acc @ kv # kvs))
    \<Longrightarrow> length (entry_bytes S kt vt kv @ pairs_bytes S (sub_key no t) kt vt kvs) < 2 ^ 32
    \<Longrightarrow> map_loop read no acc (serialize_varint (word_of_nat (length (entry_bytes S kt vt kv))) @ entry_bytes S kt vt kv
          @ pairs_bytes S (sub_key no t) kt vt kvs @ rest) = Inr (acc @ kv # kvs, rest)"
proof (induction kvs arbitrary: kv acc)
  case Nil
  obtain k v where kv: "kv = (k, v)" by (cases kv)
  have l: "length (entry_bytes S kt vt kv) < 2 ^ 32" using Nil(3) by simp
  have "read (entry_bytes S kt vt kv) = Inr (k, v)" unfolding assms(6) kv
    using Nil(1) l kv by (intro entry_read [OF assms(1)]) auto
  moreover have "insert_or_assign k v acc = acc @ [(k, v)]" using Nil(2) kv by (intro insert_or_assign_new) auto
  ultimately show ?case using decode_length [OF l] assms(4) kv
    by (subst map_loop.simps) (auto simp: other_field_def Let_def)
next
  case (Cons kv' kvs)
  obtain k v where kv: "kv = (k, v)" by (cases kv)
  let ?key = "serialize_varint_u32 (sub_key no t)"
  let ?after = "serialize_varint (word_of_nat (length (entry_bytes S kt vt kv'))) @ entry_bytes S kt vt kv'
    @ pairs_bytes S (sub_key no t) kt vt kvs @ rest"
  have l: "length (entry_bytes S kt vt kv) < 2 ^ 32" using Cons(4) by simp
  have "read (entry_bytes S kt vt kv) = Inr (k, v)" unfolding assms(6) kv
    using Cons(2) l kv by (intro entry_read [OF assms(1)]) auto
  moreover have "insert_or_assign k v acc = acc @ [kv]" using Cons(3) kv by (subst insert_or_assign_new) auto
  moreover have "map_loop read no (acc @ [kv]) ?after = Inr ((acc @ [kv]) @ kv' # kvs, rest)"
    using Cons(2-) by (intro Cons(1)) (auto simp: pairs_bytes_Cons delimited_def simp del: pairs_bytes.simps)
  moreover have "decode_key False (?key @ ?after) = Inr ((no, Length_delimited), ?after)"
    using decode_sub_key [OF assms(2,3), of t] assms(5) by simp
  moreover have "pairs_bytes S (sub_key no t) kt vt (kv' # kvs) @ rest = ?key @ ?after"
    by (simp add: pairs_bytes_Cons delimited_def del: pairs_bytes.simps)
  ultimately show ?case using decode_length [OF l] kv
    by (subst map_loop.simps) (simp add: Let_def del: pairs_bytes.simps)
qed

section \<open>Members\<close>

lemma item_readable_length:
  assumes "item_readable msg t v" "key \<noteq> 0" "reads S rd msg"
  shows "pb_bytes S key False t v = serialize_varint_u32 key @ item_payload S t v"
  using bytes_item [OF assms(1,2)] readsD [OF assms(3)] by simp

lemma message_omit: "pb_bytes S key omit (T_message m) v = pb_bytes S key omit' (T_message m) v"
  if "v = V_message vs u"
  using that by simp

text \<open>A member that writes nothing holds its default; another one is read back.\<close>

definition member_returns :: "pb_schema \<Rightarrow> (string \<Rightarrow> pb_value \<Rightarrow> byte list \<Rightarrow> pb_value result)
    \<Rightarrow> (wire_type \<Rightarrow> nat \<Rightarrow> byte list \<Rightarrow> byte list result) \<Rightarrow> nat \<Rightarrow> pb_type \<Rightarrow> byte list \<Rightarrow> pb_value \<Rightarrow> byte list \<Rightarrow> bool" where
  "member_returns S rd sk no t bs v rest \<longleftrightarrow>
     bs = [] \<and> v = default_value S t
     \<or> (\<exists>p. bs = serialize_varint_u32 (sub_key no t) @ p
          \<and> (\<forall>opt. read_member S rd sk (Member no opt t) None (get_wire_type t) (default_value S t) (p @ rest) = Inr (v, rest)))"

lemma read_member_plain:
  "unpacked_repeated t = None
    \<Longrightarrow> read_member S rd sk (Member no opt t) None (get_wire_type t) val bs = from_pb_impl S rd sk t no val bs"
  by (simp add: read_member_def)

lemma from_pb_impl_scalar: "from_pb_impl S rd sk (T_scalar s) no d = read_scalar s"
  by (rule ext) simp

lemma read_member_sequence:
  "read_member S rd sk (Member no opt (T_sequence t)) None Length_delimited val bs
    = from_pb_impl S rd sk (T_sequence t) no val bs"
  by (simp add: read_member_def split: option.split)

lemma item_returns:
  assumes "item_readable msg t v" "reads S rd msg" "0 < no" "no < 2 ^ 29"
    "length (pb_bytes S (sub_key no t) False t v) < 2 ^ 32"
  shows "member_returns S rd sk no t (pb_bytes S (sub_key no t) False t v) v rest"
proof -
  have b: "pb_bytes S (sub_key no t) False t v = serialize_varint_u32 (sub_key no t) @ item_payload S t v"
    by (rule item_readable_length [OF assms(1) sub_key_nonzero [OF assms(3,4)] assms(2)])
  moreover have "length (item_payload S t v) < 2 ^ 32" using b assms(5) by simp
  moreover have "unpacked_repeated t = None" using assms(1) by (cases t) auto
  ultimately show ?thesis
    using read_item [OF assms(1,2), of sk no rest] by (auto simp: member_returns_def read_member_plain)
qed

text \<open>Unless the default is left out, a number or string is written as an item.\<close>

lemma item_bytes_kept:
  assumes "item_readable msg t v" "reads S rd msg" "omit \<longrightarrow> (case t of T_scalar s \<Rightarrow> kept s v | _ \<Rightarrow> True)"
  shows "pb_bytes S key omit t v = pb_bytes S key False t v"
proof (cases t)
  case (T_scalar s)
  then show ?thesis using assms(1,3) by (cases v) (auto simp: encode_numeric_field_eq)
next
  case (T_message m)
  then have "msg m v" using assms(1) by simp
  then show ?thesis using readsD [OF assms(2)] T_message by fastforce
qed (use assms(1) in auto)

lemma scalar_returns:
  assumes "value_readable msg omit (T_scalar s) v" "reads S rd msg" "0 < no" "no < 2 ^ 29"
    "length (pb_bytes S (sub_key no (T_scalar s)) omit (T_scalar s) v) < 2 ^ 32"
  shows "member_returns S rd sk no (T_scalar s) (pb_bytes S (sub_key no (T_scalar s)) omit (T_scalar s) v) v rest"
proof (cases "omit \<and> \<not> kept s v")
  case True
  then have "v = default_value S (T_scalar s) \<and> pb_bytes S (sub_key no (T_scalar s)) omit (T_scalar s) v = []"
    using assms(1) by (cases v) (auto simp: encode_numeric_field_eq dest: scalar_ok_num scalar_ok_wire(2))
  then show ?thesis unfolding member_returns_def by blast
next
  case False
  have ok: "item_readable msg (T_scalar s) v" using assms(1) by simp
  have "pb_bytes S key omit (T_scalar s) v = pb_bytes S key False (T_scalar s) v" for key
    using False by (intro item_bytes_kept [OF ok assms(2)]) auto
  then show ?thesis using item_returns [OF ok assms(2-4)] assms(5) by simp
qed

lemma sequence_returns:
  assumes "list_all (item_readable msg t) vs" "reads S rd msg" "0 < no" "no < 2 ^ 29" "other_field no rest"
    "length (pb_bytes S (sub_key no (T_sequence t)) omit (T_sequence t) (V_sequence vs)) < 2 ^ 32"
  shows "member_returns S rd sk no (T_sequence t)
    (pb_bytes S (sub_key no (T_sequence t)) omit (T_sequence t) (V_sequence vs)) (V_sequence vs) rest"
proof (cases vs)
  case (Cons x xs)
  let ?key = "sub_key no (T_sequence t)"
  show ?thesis
  proof (cases "is_lenprefix t")
    case True
    have sub: "?key = sub_key no t" using True by (simp add: sub_key_def is_lenprefix_def)
    have "pb_bytes S ?key False t x = serialize_varint_u32 ?key @ item_payload S t x"
      using assms(1) Cons by (intro item_readable_length [OF _ sub_key_nonzero [OF assms(3,4)] assms(2)]) simp
    then have b: "pb_bytes S ?key omit (T_sequence t) (V_sequence vs)
        = serialize_varint_u32 ?key @ item_payload S t x @ items_bytes S (sub_key no t) t xs"
      using Cons True sub by simp
    then have "items_loop (from_pb_impl S rd sk t 0 (default_value S t)) no (get_wire_type t) []
        (item_payload S t x @ items_bytes S (sub_key no t) t xs @ rest) = Inr ([] @ x # xs, rest)"
      using assms(1,6) Cons by (intro items_loop_read [OF assms(2-5)]) auto
    then show ?thesis using Cons True unfolding member_returns_def b
      by (auto simp: read_member_sequence Let_def)
  next
    case False
    then obtain s where s: "t = T_scalar s" "scalar_wire_type s \<noteq> Length_delimited" "list_all (scalar_ok s) vs"
      using assms(1) Cons by (cases t) (auto simp: is_lenprefix_def list_all_iff)
    have b: "pb_bytes S ?key omit (T_sequence t) (V_sequence vs) = serialize_varint_u32 ?key
        @ serialize_varint (word_of_nat (length (write_packed t vs))) @ write_packed t vs"
      using Cons False by (simp add: delimited_def)
    then have "length (write_packed (T_scalar s) vs) < 2 ^ 32" using assms(6) s(1) by simp
    then show ?thesis using False s read_packed_written [OF s(3,2)] unfolding member_returns_def b
      by (auto simp: read_member_sequence from_pb_impl_scalar Let_def simp del: write_packed.simps)
  qed
qed (simp add: member_returns_def)

lemma map_returns:
  assumes "list_all (\<lambda>(k, v). scalar_ok kt k \<and> item_readable msg vt v) kvs" "distinct (map fst kvs)"
    "reads S rd msg" "0 < no" "no < 2 ^ 29" "other_field no rest"
    "length (pb_bytes S (sub_key no (T_map kt vt)) omit (T_map kt vt) (V_map kvs)) < 2 ^ 32"
  shows "member_returns S rd sk no (T_map kt vt)
    (pb_bytes S (sub_key no (T_map kt vt)) omit (T_map kt vt) (V_map kvs)) (V_map kvs) rest"
proof (cases kvs)
  case (Cons kv kvs')
  let ?key = "sub_key no (T_map kt vt)"
  have b: "pb_bytes S ?key omit (T_map kt vt) (V_map kvs) = serialize_varint_u32 ?key
      @ serialize_varint (word_of_nat (length (entry_bytes S kt vt kv))) @ entry_bytes S kt vt kv
      @ pairs_bytes S ?key kt vt kvs'"
    using Cons by (simp add: pairs_bytes_Cons delimited_def del: pairs_bytes.simps)
  have "map_loop (entry_loop (read_scalar kt) (scalar_wire_type kt) (from_pb_impl S rd sk vt 2) (get_wire_type vt) sk
      (default_value S (T_scalar kt)) (default_value S vt)) no []
      (serialize_varint (word_of_nat (length (entry_bytes S kt vt kv))) @ entry_bytes S kt vt kv
        @ pairs_bytes S ?key kt vt kvs' @ rest) = Inr ([] @ kv # kvs', rest)"
    using assms(1,2,7) Cons b by (intro map_loop_read [OF assms(3-6) _ refl]) auto
  then show ?thesis using Cons unfolding member_returns_def b
    by (auto simp: read_member_def Let_def simp del: pairs_bytes.simps default_value.simps(1))
qed (simp add: member_returns_def)

lemma optional_returns:
  assumes "value_readable msg omit (T_optional t) (V_optional (Some x))" "reads S rd msg" "0 < no" "no < 2 ^ 29"
    "length (pb_bytes S (sub_key no (T_optional t)) omit (T_optional t) (V_optional (Some x))) < 2 ^ 32"
  shows "member_returns S rd sk no (T_optional t)
    (pb_bytes S (sub_key no (T_optional t)) omit (T_optional t) (V_optional (Some x))) (V_optional (Some x)) rest"
proof -
  have x: "item_readable msg t x" and k: "omit \<longrightarrow> (case t of T_scalar s \<Rightarrow> kept s x | _ \<Rightarrow> True)"
    using assms(1) by simp_all
  have sub: "sub_key no (T_optional t) = sub_key no t" by (simp add: sub_key_def)
  have b: "pb_bytes S (sub_key no (T_optional t)) omit (T_optional t) (V_optional (Some x))
      = serialize_varint_u32 (sub_key no (T_optional t)) @ item_payload S t x"
    using item_readable_length [OF x sub_key_nonzero [OF assms(3,4)] assms(2)] item_bytes_kept [OF x assms(2) k] sub
    by simp
  then have "length (item_payload S t x) < 2 ^ 32" using assms(5) by simp
  then show ?thesis using read_item [OF x assms(2), of sk no rest] unfolding member_returns_def b
    by (auto simp: read_member_def Let_def)
qed

lemma value_returns:
  assumes "value_readable msg omit t v" "reads S rd msg" "0 < no" "no < 2 ^ 29" "other_field no rest"
    "length (pb_bytes S (sub_key no t) omit t v) < 2 ^ 32"
  shows "member_returns S rd sk no t (pb_bytes S (sub_key no t) omit t v) v rest"
proof (cases t)
  case (T_message m)
  then have ok: "item_readable msg t v" using assms(1) by simp
  have "pb_bytes S key omit t v = pb_bytes S key False t v" for key
    using T_message by (intro item_bytes_kept [OF ok assms(2)]) simp
  then show ?thesis using item_returns [OF ok assms(2-4)] assms(6) by simp
next
  case (T_optional t')
  then show ?thesis
    using assms optional_returns [of msg omit t' _ S rd no sk rest]
    by (cases v) (auto split: option.splits simp: member_returns_def)
qed (use assms scalar_returns sequence_returns map_returns in \<open>auto split: pb_value.splits\<close>)

section \<open>Fields and messages\<close>

text \<open>The loop over the fields, which is not entered at the end.\<close>

definition read_fields :: "pb_schema \<Rightarrow> (string \<Rightarrow> pb_value \<Rightarrow> byte list \<Rightarrow> pb_value result)
    \<Rightarrow> (wire_type \<Rightarrow> nat \<Rightarrow> byte list \<Rightarrow> byte list result) \<Rightarrow> string \<Rightarrow> pb_value list \<Rightarrow> byte list \<Rightarrow> byte list
    \<Rightarrow> pb_value result" where
  "read_fields S rd sk m vs u bs = (if bs = [] then Inr (V_message vs u) else fields_loop S rd sk m vs u bs)"

lemma fields_step:
  assumes "bs \<noteq> []" "decode_key False bs = Inr ((no, wire), body)"
    "read_field S rd sk m vs u bs no wire body = Inr ((vs', u'), rest)" "length rest < length bs"
  shows "read_fields S rd sk m vs u bs = read_fields S rd sk m vs' u' rest"
proof -
  have "fields_loop S rd sk m vs u bs
      = (if rest = [] then Inr (V_message vs' u') else fields_loop S rd sk m vs' u' rest)"
    using assms by (subst fields_loop.simps) simp
  then show ?thesis using assms(1) by (simp add: read_fields_def)
qed

lemma fields_member:
  assumes "0 < no" "no < 2 ^ 29" "find_field no (pb_members (S m)) = Some (i, c)"
    "read_member S rd sk (pb_members (S m) ! i) c (get_wire_type t) (vs ! i) (p @ rest) = Inr (v, rest)"
  shows "read_fields S rd sk m vs u (serialize_varint_u32 (sub_key no t) @ p @ rest) = read_fields S rd sk m (vs[i := v]) u rest"
proof -
  let ?bs = "serialize_varint_u32 (sub_key no t) @ p @ rest"
  have "decode_key False ?bs = Inr ((no, get_wire_type t), p @ rest)"
    by (rule decode_sub_key [OF assms(1,2)])
  moreover have "read_field S rd sk m vs u ?bs no (get_wire_type t) (p @ rest) = Inr ((vs[i := v], u), rest)"
    using assms(3,4) by (simp add: read_field_def)
  ultimately show ?thesis by (intro fields_step) simp_all
qed

text \<open>Skipping leaves an end of the bytes.\<close>

lemma decode_varint_suffix: "decode_varint bs = Inr (v, rest) \<Longrightarrow> suffix rest bs"
proof -
  have "decode_loop i w bs = Inr (v, rest) \<Longrightarrow> suffix rest bs" for i w
  proof (induction bs arbitrary: i w)
    case (Cons b bs)
    show ?case using Cons(2) Cons(1) [of "Suc i"]
      by (subst (asm) decode_loop.simps) (auto simp: Let_def suffix_Cons split: if_splits)
  qed (subst (asm) decode_loop.simps, auto split: if_splits)
  then show "decode_varint bs = Inr (v, rest) \<Longrightarrow> suffix rest bs"
    by (auto simp: decode_varint_def split: if_splits)
qed

lemma decode_key_suffix: "decode_key allow bs = Inr (k, rest) \<Longrightarrow> suffix rest bs"
  by (auto simp: decode_key_def rbind_Inr_conv Let_def split: if_splits dest: decode_varint_suffix)

lemma group_loop_suffix:
  assumes "\<And>wire no bs rest. sk wire no bs = Inr rest \<Longrightarrow> suffix rest bs"
  shows "group_loop sk no bs = Inr rest \<Longrightarrow> suffix rest bs"
proof (induction "length bs" arbitrary: bs rule: less_induct)
  case less
  show ?case
  proof (cases "bs = []")
    case False
    then obtain child wire rest1 where k: "decode_key True bs = Inr ((child, wire), rest1)"
      using less(2) by (subst (asm) group_loop.simps) (auto simp: rbind_Inr_conv)
    show ?thesis
    proof (cases "wire = End_group")
      case True
      then show ?thesis using less(2) False k decode_key_suffix [OF k]
        by (subst (asm) group_loop.simps) (auto split: if_splits)
    next
      case other: False
      then obtain rest2 where r: "sk wire child rest1 = Inr rest2" "length rest2 < length bs" "group_loop sk no rest2 = Inr rest"
        using less(2) False k by (subst (asm) group_loop.simps) (auto simp: rbind_Inr_conv split: if_splits)
      then show ?thesis
        using less(1) [OF r(2,3)] assms [OF r(1)] decode_key_suffix [OF k] by (meson suffix_order.trans)
    qed
  qed (use less(2) in \<open>subst (asm) group_loop.simps, simp\<close>)
qed

lemma skip_unknown_suffix: "skip_unknown_field depth wire no bs = Inr rest \<Longrightarrow> suffix rest bs"
proof (induction depth arbitrary: wire no bs rest)
  case 0
  then show ?case
    by (cases wire) (auto simp: rbind_Inr_conv decode_length_delimited_def suffix_drop
        split: if_splits dest!: decode_varint_suffix intro: suffix_order.trans [OF suffix_drop])
next
  case (Suc depth)
  then show ?case using group_loop_suffix [of "skip_unknown_field depth" no bs rest]
    by (cases wire) (auto simp: rbind_Inr_conv decode_length_delimited_def suffix_drop
        split: if_splits dest!: decode_varint_suffix intro: suffix_order.trans [OF suffix_drop])
qed

lemma take_suffix: "suffix rest bs \<Longrightarrow> take (length bs - length rest) bs @ rest = bs"
  by (auto simp: suffix_def)

lemma unknown_fieldsE:
  assumes "unknown_fields depth ms bs" "bs \<noteq> []"
  obtains no wire rest rest' where "decode_key False bs = Inr ((no, wire), rest)" "find_field no ms = None"
    "skip_unknown_field depth wire no rest = Inr rest'" "length rest' < length bs" "unknown_fields depth ms rest'"
proof (cases "decode_key False bs")
  case (Inl e)
  then show thesis using assms unknown_fields.simps [of depth ms bs] by simp
next
  case (Inr k)
  obtain no wire rest where k: "k = ((no, wire), rest)" by (cases k) auto
  show thesis
  proof (cases "skip_unknown_field depth wire no rest")
    case (Inl e)
    then show thesis using assms unknown_fields.simps [of depth ms bs] Inr k by simp
  next
    case (Inr rest')
    then show thesis
      using assms unknown_fields.simps [of depth ms bs] \<open>decode_key False bs = Inr k\<close> k that by (simp split: if_splits)
  qed
qed

lemma fields_unknown:
  assumes "keeps_unknown (S m)"
  shows "unknown_fields depth (pb_members (S m)) bs
    \<Longrightarrow> read_fields S rd (skip_unknown_field depth) m vs u bs = Inr (V_message vs (u @ bs))"
proof (induction "length bs" arbitrary: bs u rule: less_induct)
  case less
  show ?case
  proof (cases "bs = []")
    case False
    then obtain no wire rest rest' where k: "decode_key False bs = Inr ((no, wire), rest)"
        "find_field no (pb_members (S m)) = None" "skip_unknown_field depth wire no rest = Inr rest'"
        "length rest' < length bs" "unknown_fields depth (pb_members (S m)) rest'"
      by (rule unknown_fieldsE [OF less(2)])
    have s: "suffix rest' bs"
      using skip_unknown_suffix [OF k(3)] decode_key_suffix [OF k(1)] by (meson suffix_order.trans)
    define start where "start = take (length bs - length rest') bs"
    have "read_fields S rd (skip_unknown_field depth) m vs (u @ start) rest' = Inr (V_message vs ((u @ start) @ rest'))"
      by (rule less(1) [OF k(4,5)])
    moreover have "start @ rest' = bs" unfolding start_def by (rule take_suffix [OF s])
    moreover have "read_fields S rd (skip_unknown_field depth) m vs u bs
        = read_fields S rd (skip_unknown_field depth) m vs (u @ start) rest'"
      using k assms
      by (intro fields_step [OF False k(1)]) (simp_all add: read_field_def append_pb_unknown_field_def start_def)
    ultimately show ?thesis by simp
  qed (simp add: read_fields_def)
qed

text \<open>The number of a member is found where the member is.\<close>

lemma has_duplicate_field_nos_eq: "has_duplicate_field_nos nos \<longleftrightarrow> \<not> distinct nos"
proof -
  have "has_duplicate_field_nos nos \<longleftrightarrow> (\<exists>i j. i < j \<and> j < length nos \<and> nos ! i = nos ! j)"
    by (auto simp: has_duplicate_field_nos_def Bex_def Suc_le_eq) (meson order_less_trans)
  then show ?thesis by (metis distinct_conv_nth nat_neq_iff order_less_trans)
qed

lemma distinct_numbers: "validate_pb_members ms \<Longrightarrow> distinct (field_numbers ms)"
  by (simp add: validate_pb_members_def has_duplicate_field_nos_eq)

lemma find_case_None:
  "List.find (\<lambda>i. fst (cases ! i) = no) [0 ..< length cases] = None \<longleftrightarrow> no \<notin> fst ` set cases"
  by (force simp: find_None_iff in_set_conv_nth)

lemma find_case_Some:
  assumes "distinct (map fst cases)" "i < length cases"
  shows "List.find (\<lambda>j. fst (cases ! j) = fst (cases ! i)) [0 ..< length cases] = Some i"
  using assms by (auto simp: find_Some_iff distinct_conv_nth)

lemma find_field_skip:
  "no \<notin> set (field_numbers ms) \<Longrightarrow> find_field no (ms @ ms') = map_option (\<lambda>(i, c). (length ms + i, c)) (find_field no ms')"
proof (induction ms)
  case (Cons m ms)
  then show ?case
  proof (cases m)
    case (Oneof monostate cases)
    then have "List.find (\<lambda>i. fst (cases ! i) = no) [0 ..< length cases] = None"
      using Cons(2) by (simp add: find_case_None)
    then show ?thesis using Cons Oneof by (simp add: option.map_comp comp_def split_def)
  qed (simp add: option.map_comp comp_def split_def)
qed (simp add: option.map_ident split_def)

lemma find_field_member:
  "no \<notin> set (field_numbers ms) \<Longrightarrow> find_field no (ms @ Member no opt t # ms') = Some (length ms, None)"
  by (simp add: find_field_skip)

lemma find_field_case:
  assumes "i < length cases" "fst (cases ! i) = no" "distinct (map fst cases)" "no \<notin> set (field_numbers ms)"
  shows "find_field no (ms @ Oneof monostate cases # ms') = Some (length ms, Some i)"
  using find_case_Some [OF assms(3,1)] assms(2,4) by (simp add: find_field_skip)

lemma find_field_None: "find_field no ms = None \<Longrightarrow> no \<notin> set (field_numbers ms)"
  by (induction no ms rule: find_field.induct)
    (auto simp: find_case_None split: option.splits if_splits)

lemma field_numbers_append: "field_numbers (ms @ ms') = field_numbers ms @ field_numbers ms'"
  by (induction ms rule: field_numbers.induct) auto

text \<open>What a member writes starts with its key.\<close>

lemma other_field_key:
  "0 < no' \<Longrightarrow> no' < 2 ^ 29 \<Longrightarrow> no' \<noteq> no \<Longrightarrow> other_field no (serialize_varint_u32 (sub_key no' t) @ rest)"
  using decode_sub_key [of no' t rest] by (auto simp: other_field_def)

lemma other_field_unknown:
  assumes "unknown_fields depth ms bs" "no \<in> set (field_numbers ms)"
  shows "other_field no bs"
proof (cases "bs = []")
  case False
  show ?thesis
    by (rule unknown_fieldsE [OF assms(1) False]) (use assms(2) find_field_None in \<open>auto simp: other_field_def\<close>)
qed (simp add: other_field_def)

lemma members_bytes_split: "members_bytes S (m # ms) (v # vs) = members_bytes S [m] [v] @ members_bytes S ms vs"
  by (simp split: option.split)

lemma member_shape:
  assumes "member_readable msg mem v" "reads S rd msg" "numbers_ok [mem]" "length (members_bytes S [mem] [v]) < 2 ^ 32"
  shows "members_bytes S [mem] [v] = []
    \<or> (\<exists>no t p. no \<in> set (field_numbers [mem]) \<and> members_bytes S [mem] [v] = serialize_varint_u32 (sub_key no t) @ p)"
proof (cases mem)
  case (Member no opt t)
  then have "member_returns S rd (\<lambda>_ _ _. Inl stuck) no t (pb_bytes S (sub_key no t) (\<not> opt) t v) v []"
    using assms by (intro value_returns) (auto simp: numbers_ok_simps other_field_def)
  then show ?thesis using Member by (auto simp: member_returns_def)
next
  case (Oneof first cs)
  show ?thesis
  proof (cases "\<exists>i x. v = V_oneof (Some (i, x))")
    case True
    then obtain i x where v: "v = V_oneof (Some (i, x))" by auto
    obtain no t where c: "cs ! i = (no, t)" by (cases "cs ! i")
    have i: "i < length cs" "item_readable msg t x" using assms(1) Oneof v c by auto
    then have no: "0 < no" "no < 2 ^ 29" "no \<in> fst ` set cs"
      using assms(3) Oneof c nth_mem [of i cs] by (force simp: numbers_ok_simps)+
    then show ?thesis
      using item_readable_length [OF i(2) sub_key_nonzero [OF no(1,2)] assms(2)] Oneof v c by auto
  next
    case False
    then show ?thesis using Oneof assms(1) by (auto split: pb_value.splits option.splits)
  qed
qed

lemma other_field_members:
  assumes "reads S rd msg" "other_field no w"
  shows "list_all2 (member_readable msg) ms vs \<Longrightarrow> numbers_ok ms \<Longrightarrow> length (members_bytes S ms vs) < 2 ^ 32
    \<Longrightarrow> no \<notin> set (field_numbers ms) \<Longrightarrow> other_field no (members_bytes S ms vs @ w)"
proof (induction ms vs rule: list_all2_induct)
  case (Cons mem ms v vs)
  have l: "length (members_bytes S [mem] [v]) < 2 ^ 32" "length (members_bytes S ms vs) < 2 ^ 32"
    using Cons(5) by (simp_all only: members_bytes_split [of S mem ms] length_append)
  have n: "numbers_ok [mem]" "numbers_ok ms" "no \<notin> set (field_numbers [mem])" "no \<notin> set (field_numbers ms)"
    using Cons(4,6) by (cases mem; auto simp: numbers_ok_simps)+
  have IH: "other_field no (members_bytes S ms vs @ w)" by (rule Cons(3) [OF n(2) l(2) n(4)])
  from member_shape [OF Cons(1) assms(1) n(1) l(1)] show ?case
  proof
    assume "members_bytes S [mem] [v] = []"
    then show ?thesis using IH by (simp only: members_bytes_split [of S mem ms] append_Nil)
  next
    assume "\<exists>no t p. no \<in> set (field_numbers [mem]) \<and> members_bytes S [mem] [v] = serialize_varint_u32 (sub_key no t) @ p"
    then obtain no' t p where k: "no' \<in> set (field_numbers [mem])"
        "members_bytes S [mem] [v] = serialize_varint_u32 (sub_key no' t) @ p"
      by blast
    have "0 < no'" "no' < 2 ^ 29" "no' \<noteq> no" using k(1) n(1,3) by (auto simp: numbers_ok_def)
    then show ?thesis unfolding members_bytes_split [of S mem ms] k(2) append_assoc by (rule other_field_key)
  qed
qed (simp add: assms(2))

lemma member_step:
  assumes "reads S rd msg" "pb_members (S m) = ms @ mem # ms'" "validate_pb_members (pb_members (S m))"
    "member_readable msg mem v" "length (members_bytes S [mem] [v]) < 2 ^ 32"
    "\<forall>no \<in> set (field_numbers [mem]). other_field no w" "length ms < length vs" "vs ! length ms = default_member S mem"
  shows "read_fields S rd sk m vs u (members_bytes S [mem] [v] @ w) = read_fields S rd sk m (vs[length ms := v]) u w"
proof -
  have "numbers_ok (pb_members (S m))"
    using assms(3) by (auto simp: validate_pb_members_def has_invalid_field_nos_def is_valid_pb_field_no_def numbers_ok_def)
  then have n: "numbers_ok [mem]" unfolding assms(2) by (cases mem) (auto simp: numbers_ok_def field_numbers_append)
  have d: "distinct (field_numbers (ms @ mem # ms'))" using distinct_numbers [OF assms(3)] assms(2) by simp
  have i: "pb_members (S m) ! length ms = mem" using assms(2) by simp
  show ?thesis
  proof (cases mem)
    case (Member no opt t)
    have no: "0 < no" "no < 2 ^ 29" "no \<notin> set (field_numbers ms)"
      using n d Member by (auto simp: numbers_ok_simps field_numbers_append)
    have "member_returns S rd sk no t (pb_bytes S (sub_key no t) (\<not> opt) t v) v w"
      using assms(4-6) Member by (intro value_returns [OF _ assms(1) no(1,2)]) auto
    then consider "members_bytes S [mem] [v] = []" "v = default_value S t"
      | p where "members_bytes S [mem] [v] = serialize_varint_u32 (sub_key no t) @ p"
        "read_member S rd sk mem None (get_wire_type t) (default_value S t) (p @ w) = Inr (v, w)"
      using Member by (auto simp: member_returns_def)
    then show ?thesis
    proof cases
      case 1
      then show ?thesis using assms(8) Member by (metis append_Nil default_member.simps(1) list_update_id)
    next
      case 2
      have f: "find_field no (pb_members (S m)) = Some (length ms, None)"
        unfolding assms(2) Member by (rule find_field_member [OF no(3)])
      show ?thesis unfolding 2(1) append_assoc
        using 2(2) assms(8) i Member by (intro fields_member [where S = S and m = m, OF no(1,2) f]) simp
    qed
  next
    case (Oneof first cs)
    show ?thesis
    proof (cases "v = V_oneof None")
      case True
      then have "v = vs ! length ms" "members_bytes S [mem] [v] = []" using assms(4,8) Oneof by auto
      then show ?thesis by simp
    next
      case False
      then obtain c x where v: "v = V_oneof (Some (c, x))" and c: "c < length cs" "item_readable msg (snd (cs ! c)) x"
        using assms(4) Oneof by (auto split: pb_value.splits option.splits)
      obtain no t where t: "cs ! c = (no, t)" by (cases "cs ! c")
      have no: "0 < no" "no < 2 ^ 29" "no \<notin> set (field_numbers ms)" "distinct (map fst cs)"
        using n d Oneof c(1) t nth_mem [of c cs] by (force simp: numbers_ok_simps field_numbers_append)+
      have x: "item_readable msg t x" using c t by simp
      have b: "members_bytes S [mem] [v] = serialize_varint_u32 (sub_key no t) @ item_payload S t x"
        using item_readable_length [OF x sub_key_nonzero [OF no(1,2)] assms(1)] Oneof v t by simp
      then have "length (item_payload S t x) < 2 ^ 32" using assms(5) by simp
      then have r: "read_member S rd sk mem (Some c) (get_wire_type t) (vs ! length ms) (item_payload S t x @ w) = Inr (v, w)"
        using read_item [OF x assms(1), of sk no w] Oneof v t by (simp add: read_member_def)
      have f: "find_field no (pb_members (S m)) = Some (length ms, Some c)"
        unfolding assms(2) Oneof using t by (intro find_field_case [OF c(1) _ no(4,3)]) simp
      show ?thesis unfolding b append_assoc using r i by (intro fields_member [where S = S and m = m, OF no(1,2) f]) simp
    qed
  qed
qed

lemma members_read:
  assumes "reads S rd msg" "validate_pb_members (pb_members (S m))"
    "\<forall>no \<in> set (field_numbers (pb_members (S m))). other_field no w"
  shows "pb_members (S m) = ms1 @ ms2 \<Longrightarrow> length vs1 = length ms1 \<Longrightarrow> list_all2 (member_readable msg) ms2 vs2
    \<Longrightarrow> length (members_bytes S ms2 vs2) < 2 ^ 32
    \<Longrightarrow> read_fields S rd sk m (vs1 @ map (default_member S) ms2) u (members_bytes S ms2 vs2 @ w)
        = read_fields S rd sk m (vs1 @ vs2) u w"
proof (induction ms2 arbitrary: ms1 vs1 vs2)
  case (Cons mem ms)
  then obtain v vs where v: "vs2 = v # vs" "member_readable msg mem v" "list_all2 (member_readable msg) ms vs"
    by (auto simp: list_all2_Cons1)
  have l: "length (members_bytes S [mem] [v]) < 2 ^ 32" "length (members_bytes S ms vs) < 2 ^ 32"
    using Cons(5) by (simp_all only: v(1) members_bytes_split [of S mem ms] length_append)
  have all: "numbers_ok (pb_members (S m))"
    using assms(2) by (auto simp: validate_pb_members_def has_invalid_field_nos_def is_valid_pb_field_no_def numbers_ok_def)
  have d: "distinct (field_numbers (ms1 @ [mem] @ ms))" using distinct_numbers [OF assms(2)] Cons(2) by simp
  have next_field: "\<forall>no \<in> set (field_numbers [mem]). other_field no (members_bytes S ms vs @ w)"
  proof
    fix no assume no: "no \<in> set (field_numbers [mem])"
    have "no \<in> set (field_numbers (pb_members (S m)))" "no \<notin> set (field_numbers ms)" "numbers_ok ms"
      using no d all field_numbers_append [of "[mem]" ms]
      by (auto simp: Cons(2) field_numbers_append numbers_ok_def)
    then show "other_field no (members_bytes S ms vs @ w)"
      using assms(3) by (intro other_field_members [OF assms(1) _ v(3)] l(2)) auto
  qed
  have "read_fields S rd sk m (vs1 @ map (default_member S) (mem # ms)) u
      (members_bytes S [mem] [v] @ members_bytes S ms vs @ w)
      = read_fields S rd sk m ((vs1 @ map (default_member S) (mem # ms))[length ms1 := v]) u (members_bytes S ms vs @ w)"
    by (rule member_step [OF assms(1) Cons(2) assms(2) v(2) l(1) next_field])
      (simp_all add: Cons(3) [symmetric])
  also have "(vs1 @ map (default_member S) (mem # ms))[length ms1 := v] = (vs1 @ [v]) @ map (default_member S) ms"
    by (simp add: Cons(3) [symmetric])
  also have "read_fields S rd sk m \<dots> u (members_bytes S ms vs @ w) = read_fields S rd sk m ((vs1 @ [v]) @ vs) u w"
    by (rule Cons(1) [of "ms1 @ [mem]"]) (use Cons(2,3) v l in auto)
  finally show ?case by (simp only: v(1) members_bytes_split [of S mem ms] append_assoc append_Cons append_Nil)
qed simp

lemma members_readable_length: "list_all2 (member_readable msg) ms vs \<Longrightarrow> length vs = length ms"
  by (simp add: list_all2_lengthD)

text \<open>A message that is nested at most as deep as the limit is read back.\<close>

lemma from_pb_written:
  assumes "schema_ok S" "zero_initial S"
  shows "message_readable S depth m v \<Longrightarrow> length (pb_bytes S 0 True (T_message m) v) < 2 ^ 32
    \<Longrightarrow> from_pb S depth m (default_value S (T_message m)) (pb_bytes S 0 True (T_message m) v) = Inr v"
proof (induction depth arbitrary: m v)
  case (Suc depth)
  obtain vs u where v: "v = V_message vs u"
    and vs: "list_all2 (member_readable (message_readable S depth)) (pb_members (S m)) vs"
    and u: "u = [] \<or> keeps_unknown (S m) \<and> unknown_fields depth (pb_members (S m)) u"
    using Suc(2) by (auto split: pb_value.splits)
  have ok: "validate_pb_members (pb_members (S m))" using assms(1) by (simp add: schema_ok_def)
  let ?w = "write_pb_unknown_fields (S m) u"
  have w: "?w = u" using u by (auto simp: write_pb_unknown_fields_def)
  have rd: "reads S (from_pb S depth) (message_readable S depth)"
  proof -
    have "\<exists>vs u. v = V_message vs u" if "message_readable S depth m v" for m v
      using that by (cases depth) (auto split: pb_value.splits)
    moreover have "from_pb S depth m t [] = Inr t" for m t by (cases depth) simp_all
    ultimately show ?thesis using Suc(1) unfolding reads_def by (metis old.sum.inject(2) sum.inject(2))
  qed
  have init: "default_value S (T_message m) = V_message (map (default_member S) (pb_members (S m))) []"
    using assms(2) by (simp add: zero_initial_def)
  have bytes: "pb_bytes S 0 True (T_message m) v = members_bytes S (pb_members (S m)) vs @ u"
    using v w by simp
  have behind: "\<forall>no \<in> set (field_numbers (pb_members (S m))). other_field no u"
    using u other_field_unknown [of depth "pb_members (S m)" u] by (auto simp: other_field_def)
  have "read_fields S (from_pb S depth) (skip_unknown_field depth) m ([] @ map (default_member S) (pb_members (S m))) []
      (members_bytes S (pb_members (S m)) vs @ u)
      = read_fields S (from_pb S depth) (skip_unknown_field depth) m ([] @ vs) [] u"
    using Suc(3) bytes by (intro members_read [OF rd ok behind] vs) auto
  also have "\<dots> = Inr v"
    using u fields_unknown [of S m depth u "from_pb S depth" vs "[]"] v by (auto simp: read_fields_def)
  finally show ?case unfolding init bytes by (auto simp: read_fields_def split: if_splits)
qed simp

section \<open>Writing and reading\<close>

text \<open>A schema with a member of every kind.\<close>

definition point_schema :: pb_schema where
  "point_schema m =
     (if m = ''point'' then
        \<lparr>pb_members = [Member 1 False (T_scalar (S_integral 4 True)), Member 2 False (T_scalar S_string)],
         initial = [V_num 0, V_bytes []], keeps_unknown = False\<rparr>
      else
        \<lparr>pb_members =
           [Member 1 False (T_map (S_integral 4 True) (T_message ''point'')), Member 2 False (T_message ''point''),
            Member 3 False (T_sequence (T_scalar S_sint32)), Member 4 False (T_sequence (T_message ''point'')),
            Member 5 True (T_optional (T_scalar S_bool)), Oneof True [(6, T_scalar S_double), (7, T_message ''point'')],
            Member 20 False (T_sequence (T_scalar S_fixed32))],
         initial = [V_map [], V_message [V_num 0, V_bytes []] [], V_sequence [], V_sequence [], V_optional None,
           V_oneof None, V_sequence []],
         keeps_unknown = True\<rparr>)"

definition point :: "int \<Rightarrow> byte list \<Rightarrow> pb_value" where
  "point x name = V_message [V_num x, V_bytes name] []"

definition drawing :: pb_value where
  "drawing = V_message
     [V_map [(V_num 1, point 4 []), (V_num (- 1), point 0 [104, 105])], point 300 [], V_sequence [V_num (- 1), V_num 64],
      V_sequence [point 0 [], point 7 [97]], V_optional (Some (V_num 0)), V_oneof (Some (1, point (- 2) [])),
      V_sequence [V_num 1, V_num 4294967295]] [248, 1, 42]"

lemma point_schema_ok: "schema_ok point_schema" "zero_initial point_schema"
  by (simp_all add: schema_ok_def point_schema_def validate_pb_members_def has_invalid_field_nos_def
      is_valid_pb_field_no_def has_duplicate_field_nos_eq zero_initial_def)

lemma drawing_ok:
  "pb_ok point_schema (T_message ''drawing'') drawing"
  "message_readable point_schema max_pb_recursion_depth ''drawing'' drawing"
  "length (pb_bytes point_schema 0 True (T_message ''drawing'') drawing) = 75"
  by code_simp+





text \<open>A message in a map whose encoding is empty leaves its size behind, and the messages after it lose their content.\<close>

definition empty_point_first :: pb_value where
  "empty_point_first = V_message
     [V_map [(V_num 1, point 0 []), (V_num 2, point 5 [])], point 300 [], V_sequence [], V_sequence [], V_optional None,
      V_oneof None, V_sequence []] []"

lemma empty_map_message_corrupts:
  "to_pb point_schema ''drawing'' empty_point_first = Some (19, [10, 4, 8, 1, 18, 0, 10, 4, 8, 2, 18, 0, 18, 0])"
  "pb_bytes point_schema 0 True (T_message ''drawing'') empty_point_first
    = [10, 4, 8, 1, 18, 0, 10, 6, 8, 2, 18, 2, 8, 5, 18, 3, 8, 172, 2]"
  by code_simp+

end
