(* ===== verification/Spec2Isabelle.thy ===== *)
theory Spec2Isabelle
  imports Ormpp_Prelude Reflection Type_Mapping Sql_Literals Sql_Generate Placeholders
    Where_Conditions Query_Builder Dml_Builders Table_Builders Facade
    Mysql_Wire Mysql_Text Mysql_Session Mysql_Commands Mysql_Statements
    Connection_Pool Async_Pool
    Driver_Values Sqlite_Driver Sqlite_Store Driver_Tables Postgresql_Driver Postgresql_Values Mysql_Driver
    Coroutine_Adapter
    Iguana_Numbers Iguana_Scan Iguana_Text Iguana_Json Config_File
    Iguana_Json_Types Iguana_Json_Reader Iguana_Json_Values Iguana_Json_Roundtrip Iguana_Json_Flat
    Iguana_Pb_Wire Iguana_Pb_Types Iguana_Pb_Writer Iguana_Pb_Passes Iguana_Pb_Reader Iguana_Pb_Roundtrip
begin

text \<open>
  A verification development for ormpp, the header-only C++ object-relational mapper under
  \<^verbatim>\<open>src/ormpp\<close>, with two parts of the serialization library \<^verbatim>\<open>src/iguana\<close> that comes with it: JSON, some of which it
  runs itself, and protobuf.

  \<^bold>\<open>The program.\<close>  A program registers a struct (reflection macro, \<^verbatim>\<open>REGISTER_AUTO_KEY\<close>,
  \<^verbatim>\<open>REGISTER_CONFLICT_KEY\<close>) and calls a driver, directly or through the facade \<^verbatim>\<open>dbng\<close>: create a
  table, insert, replace, update, delete, query.  A driver generates SQL text from the struct's
  members, binds or formats the members' values, runs the statement and converts the result's cells
  back to members.  There are three blocking drivers over C libraries and a coroutine client that speaks
  the MySQL protocol itself.  Beside them a fluent builder composes queries, updates, deletes and
  table definitions and hands the text to the driver; two pools lend connections to threads and to
  coroutines; an adapter lets a coroutine of another library wait for one of asio; and a configuration
  manager keeps the settings of a connection in a JSON file.

  \<^bold>\<open>The theories\<close>, in the order of their imports, with the code each models.

  \<^item> \<open>Ormpp_Prelude\<close>: bytes, words, the operations of \<^verbatim>\<open>std::string\<close>, decimal printing and parsing,
    exceptions (\<open>exn\<close>) and results (\<open>'a result = exn + 'a\<close>), shared lemmas.
  \<^item> \<open>Reflection\<close>, \<open>Type_Mapping\<close>, \<open>Sql_Literals\<close>, \<open>Sql_Generate\<close>: \<^verbatim>\<open>utility.hpp\<close> and \<^verbatim>\<open>type_mapping.hpp\<close> - the
    registries of keys (\<open>registry\<close> is the state of the function-local static maps), column types, literals and
    their escaping, the generators of insert, update, delete and query statements.
  \<^item> \<open>Placeholders\<close>: the scanners that find the question marks of a statement, in \<^verbatim>\<open>query.hpp\<close> for
    PostgreSQL and in \<^verbatim>\<open>mysql_async.hpp\<close> for MySQL, and the two loops that replace them.
  \<^item> \<open>Where_Conditions\<close>, \<open>Query_Builder\<close>, \<open>Dml_Builders\<close>, \<open>Table_Builders\<close>: \<^verbatim>\<open>query.hpp\<close> - conditions and
    their SQL text, the staged query builder over a shared context, update and delete builders,
    create-table and alter-table builders with their execution on a driver (locale \<open>sql_driver\<close>).
  \<^item> \<open>Facade\<close>: what \<^verbatim>\<open>dbng.hpp\<close> adds to the driver, conditions on a member and aspects.
  \<^item> \<open>Mysql_Wire\<close>, \<open>Mysql_Text\<close>, \<open>Mysql_Session\<close>, \<open>Mysql_Commands\<close>, \<open>Mysql_Statements\<close>: \<^verbatim>\<open>mysql_async.hpp\<close> -
    little-endian and length-encoded values and the server's packets (locale \<open>wire_codec\<close>), members and
    text cells, framing and authentication over a byte stream, commands and transactions, and the text of
    the statements sent for a struct.
  \<^item> \<open>Driver_Values\<close>, \<open>Driver_Tables\<close>, \<open>Sqlite_Driver\<close>, \<open>Sqlite_Store\<close>, \<open>Postgresql_Driver\<close>, \<open>Postgresql_Values\<close>, \<open>Mysql_Driver\<close>:
    \<^verbatim>\<open>sqlite.hpp\<close>, \<^verbatim>\<open>postgresql.hpp\<close>, \<^verbatim>\<open>mysql.hpp\<close> - what the three share, then each driver's parameter and
    result conversions, prepared statements with their guards, transactions, queries; \<open>Sqlite_Store\<close> puts the
    layers together: what a program inserts is what its query returns.
  \<^item> \<open>Connection_Pool\<close>, \<open>Async_Pool\<close>: \<^verbatim>\<open>connection_pool.hpp\<close> and \<^verbatim>\<open>async_connection_pool.hpp\<close> as step relations
    whose steps are the critical sections, or what a coroutine does between two suspension points;
    the locale \<open>lending_pool\<close> is their contract.
  \<^item> \<open>Coroutine_Adapter\<close>: the two awaiters of \<^verbatim>\<open>asio_async_simple_adapter.hpp\<close> as step relations.
  \<^item> \<open>Iguana_Numbers\<close>, \<open>Iguana_Scan\<close>, \<open>Iguana_Text\<close>, \<open>Iguana_Json\<close>, \<open>Config_File\<close>: printing of integers
    (\<^verbatim>\<open>iguana/detail/itoa.hpp\<close>), scanning eight characters at a time, UTF-8 and escapes, JSON objects, and
    \<^verbatim>\<open>ormpp_cfg.hpp\<close> on top of them (locale \<open>config_store\<close>).
  \<^item> \<open>Iguana_Json_Types\<close>, \<open>Iguana_Json_Reader\<close>, \<open>Iguana_Json_Values\<close>, \<open>Iguana_Json_Roundtrip\<close>, \<open>Iguana_Json_Flat\<close>: JSON for members of
    any type - \<^verbatim>\<open>json_writer.hpp\<close> and \<^verbatim>\<open>json_reader.hpp\<close>.  Types (\<open>json_type\<close>) and values (\<open>json_value\<close>), the members of the
    structs in a record (\<open>json_env\<close>); the writer; the readers, which may keep what was there; the values that are read
    back; and that the objects of \<open>Iguana_Json\<close> are a case of it.
  \<^item> \<open>Iguana_Pb_Wire\<close>, \<open>Iguana_Pb_Types\<close>, \<open>Iguana_Pb_Writer\<close>, \<open>Iguana_Pb_Passes\<close>, \<open>Iguana_Pb_Reader\<close>,
    \<open>Iguana_Pb_Roundtrip\<close>: protobuf in iguana - \<^verbatim>\<open>pb_util.hpp\<close>, \<^verbatim>\<open>pb_writer.hpp\<close>, \<^verbatim>\<open>pb_reader.hpp\<close> and the numbering of members
    in \<^verbatim>\<open>common.hpp\<close>.  Varints and keys; member types (\<open>pb_type\<close>) and values (\<open>pb_value\<close>), a message type as its
    members in a schema; the two passes of \<^verbatim>\<open>to_pb\<close> with the array of sizes between them, and the encoding they
    implement; \<^verbatim>\<open>from_pb\<close> with groups, unknown fields and the recursion limit; what is read back.

  A class is a record, its methods take and return it; a registry or session is passed explicitly.
  An exception is a value, an undefined access of a driver an outer \<^term>\<open>None\<close>, a database library a record
  of functions on a state of its own.  Function templates are modelled over datatypes of the C++ types
  they are instantiated with (\<open>scalar_type\<close>, \<open>member_type\<close>, \<open>sql_val\<close>).

  \<^bold>\<open>What the lemmas show.\<close>  Generators: the text of every statement as a closed form (which columns, which
  placeholders, in which order), and that the values bound are those of the columns named.  Injection:
  a text in a literal or condition cannot change the structure of the statement.  Builders: every chain of
  calls refines an abstract query, and the stages admit only the order of the SQL grammar.
  Protocol: packets, rows and values come back as they were sent, in any framing; authentication ends, reveals no
  password, and connect reports every failure.  Drivers: which values survive a write and a read - as an equivalence, so
  that the exceptions are stated - and in which cases a transaction is left open.  Pools: no connection is in two
  places in any interleaving, the counters are exact, and how capacity is lost.  Adapter: the
  waiting coroutine is resumed once and gets what the operation did.  Configuration: a get returns
  the last value set.  JSON: what is written comes back for every type, with the exceptions stated, and every read
  ends.  Protobuf: the second pass takes from the array what the first left there, every read ends,
  and which messages come back.  Where the code does not do what it means to, the theorem states what it
  does do.

  \<^bold>\<open>Termination.\<close>  No fuel is used.  Loops over text are structural or have the length of the text left as
  their measure; the loops of the MySQL client read at least one byte of the finite stream in each round; \<open>xtoa_loop\<close>
  divides its number.  The row loop of the SQLite driver asks the library for the next row and may run
  for ever: it is a \<open>partial_function (option)\<close>, and the theorem on queries says when it returns.  The loops of the protobuf reader go on only when bytes were consumed, and
  \<open>from_pb_not_stuck\<close> proves that this guard never stops one; nesting is bounded by the code's own limit of 100.
  The readers of JSON are guarded in the same way (\<open>from_json_not_stuck\<close>), and the depth of structs that contain themselves is
  bounded by the length of the text, each consuming its brace.

  \<^bold>\<open>Parameters.\<close>  Code that is not under \<^verbatim>\<open>src\<close> is an argument of the definitions: OpenSSL's digests and RSA
  (\<open>crypto\<close>), sqlite3, libmysqlclient and libpq (\<open>sqlite_api\<close>, \<open>mysql_api\<close>, \<open>pg_api\<close>), name resolution and TCP connect,
  the server (a byte stream), printing and parsing of floating-point numbers, the clock, and what asio
  and the executors choose.  Compile-time reflection is the data of a \<open>struct_meta\<close>.

  \<^bold>\<open>Not modelled.\<close>  The other functions of the facade \<^verbatim>\<open>dbng.hpp\<close> and \<^verbatim>\<open>mysql_async_wrapper.hpp\<close> forward to a driver.  \<^verbatim>\<open>conn_guard\<close> of
  \<^verbatim>\<open>connection_pool.hpp\<close> cannot be instantiated.  \<^verbatim>\<open>pg_types.h\<close> is a table of numbers.  Of protobuf: structs
  derived from \<^verbatim>\<open>base\<close>, timestamps and durations, members whose type is not their wire type, the
  alternative parser under \<^verbatim>\<open>SEQUENTIAL_PARSE\<close> and the text of \<^verbatim>\<open>to_proto\<close>.  Of JSON: sequences of pairs, maps whose keys are not
  text, the dynamic \<^verbatim>\<open>jvalue\<close> and the pretty printer, iterators that are not contiguous, and the parsers under
  \<^verbatim>\<open>SEQUENTIAL_PARSE\<close>, \<^verbatim>\<open>THROW_UNKNOWN_KEY\<close> and the reflection of C++26.  Of the vendored libraries the XML and
  YAML readers and writers, floating-point conversion, the compile-time reflection of \<^verbatim>\<open>ylt\<close> and
  \<^verbatim>\<open>frozen\<close> are left out: the library does not run them, or only at compile time.  Integer overflow of
  counters that cannot be reached by a run of the program, allocation failure and logging are left out.
  Memory: C++ object lifetimes are modelled where they decide a property (guards of statements, awaiters,
  handles of the pools), not elsewhere.
\<close>

end
